(* ===== verification/Go_Prelude.thy ===== *)
theory Go_Prelude
  imports Main "HOL-Library.Sublist" "HOL-Library.Char_ord"
begin

text \<open>
  Shared vocabulary of the development: the part of the Go language and standard library that the
  panel's packages use (64-bit integers with wrap-around, instants, byte strings and the functions
  of packages strings and strconv), the generic lemmas on them, and the collections of facts the
  component theories add to.

  Strings are lists of bytes, as in Go. The functions of package strings that classify characters
  (TrimSpace, Fields, ToLower, ToUpper) are modelled on the ASCII range; a byte above 127 is
  neither white space nor a letter here.
\<close>

section \<open>Machine integers\<close>

text \<open>Go's int is 64 bits wide on every platform the panel is built for; addition wraps.\<close>

definition wrap64 :: "int \<Rightarrow> int" where
  "wrap64 x = (x + 2 ^ 63) mod 2 ^ 64 - 2 ^ 63"

definition max_int64 :: int where
  "max_int64 = 2 ^ 63 - 1"

definition min_int64 :: int where
  "min_int64 = - (2 ^ 63)"

lemma wrap64_id: "min_int64 \<le> x \<Longrightarrow> x \<le> max_int64 \<Longrightarrow> wrap64 x = x"
  by (simp add: wrap64_def min_int64_def max_int64_def)

lemma wrap64_over: "max_int64 < x \<Longrightarrow> x \<le> max_int64 + 2 ^ 64 \<Longrightarrow> wrap64 x = x - 2 ^ 64"
proof -
  assume a: "max_int64 < x" and b: "x \<le> max_int64 + 2 ^ 64"
  have "(x + 2 ^ 63) mod 2 ^ 64 = (x + 2 ^ 63 - 2 ^ 64) mod 2 ^ 64"
    by (simp only: minus_mod_self2)
  also have "\<dots> = x + 2 ^ 63 - 2 ^ 64"
    using a b by (intro mod_pos_pos_trivial) (auto simp: max_int64_def)
  finally show "wrap64 x = x - 2 ^ 64"
    by (simp add: wrap64_def)
qed

section \<open>Lists\<close>

text \<open>The first repeat-free reading of a list, as a loop with a seen-set produces it.\<close>

fun nub_seen :: "'a list \<Rightarrow> 'a list \<Rightarrow> 'a list" where
  "nub_seen seen [] = []"
| "nub_seen seen (x # xs) =
     (if x \<in> set seen then nub_seen seen xs else x # nub_seen (x # seen) xs)"

lemma set_nub_seen: "set (nub_seen seen xs) = set xs - set seen"
  by (induction seen xs rule: nub_seen.induct) auto

lemma distinct_nub_seen: "distinct (nub_seen seen xs)"
  by (induction seen xs rule: nub_seen.induct) (auto simp: set_nub_seen)

section \<open>Bytes and strings\<close>

definition is_space :: "char \<Rightarrow> bool" where
  "is_space c \<longleftrightarrow> c \<in> {CHR '' '', CHR 0x09, CHR 0x0A, CHR 0x0B, CHR 0x0C, CHR 0x0D}"

definition to_lower_char :: "char \<Rightarrow> char" where
  "to_lower_char c =
     (let n = of_char c :: int in if 65 \<le> n \<and> n \<le> 90 then char_of (n + 32) else c)"

definition to_upper_char :: "char \<Rightarrow> char" where
  "to_upper_char c =
     (let n = of_char c :: int in if 97 \<le> n \<and> n \<le> 122 then char_of (n - 32) else c)"

definition to_lower :: "string \<Rightarrow> string" where
  "to_lower = map to_lower_char"

definition to_upper :: "string \<Rightarrow> string" where
  "to_upper = map to_upper_char"

text \<open>strings.TrimSpace, strings.Trim with one cut character.\<close>

definition trim_right :: "(char \<Rightarrow> bool) \<Rightarrow> string \<Rightarrow> string" where
  "trim_right p s = rev (dropWhile p (rev s))"

definition trim_space :: "string \<Rightarrow> string" where
  "trim_space s = trim_right is_space (dropWhile is_space s)"

definition trim_char :: "char \<Rightarrow> string \<Rightarrow> string" where
  "trim_char c s = trim_right (\<lambda>x. x = c) (dropWhile (\<lambda>x. x = c) s)"

text \<open>strings.TrimPrefix and strings.TrimSuffix.\<close>

definition trim_prefix :: "string \<Rightarrow> string \<Rightarrow> string" where
  "trim_prefix p s = (if prefix p s then drop (length p) s else s)"

definition trim_suffix :: "string \<Rightarrow> string \<Rightarrow> string" where
  "trim_suffix p s = (if suffix p s then take (length s - length p) s else s)"

text \<open>strings.Split with a one-character separator: always at least one piece.\<close>

fun split_on :: "char \<Rightarrow> string \<Rightarrow> string list" where
  "split_on c [] = [[]]"
| "split_on c (x # xs) =
     (if x = c then [] # split_on c xs
      else (case split_on c xs of [] \<Rightarrow> [[x]] | p # ps \<Rightarrow> (x # p) # ps))"

text \<open>strings.Cut with a one-character separator: what is before, what is after, and whether the
  separator was there.\<close>

fun cut_at :: "char \<Rightarrow> string \<Rightarrow> string \<times> string \<times> bool" where
  "cut_at c [] = ([], [], False)"
| "cut_at c (x # xs) =
     (if x = c then ([], xs, True)
      else (case cut_at c xs of (b, a, f) \<Rightarrow> (x # b, a, f)))"

text \<open>strings.FieldsFunc, strings.Fields and strings.Join.\<close>

fun fields_acc :: "(char \<Rightarrow> bool) \<Rightarrow> string \<Rightarrow> string \<Rightarrow> string list" where
  "fields_acc p cur [] = (if cur = [] then [] else [rev cur])"
| "fields_acc p cur (x # xs) =
     (if p x then (if cur = [] then fields_acc p [] xs else rev cur # fields_acc p [] xs)
      else fields_acc p (x # cur) xs)"

definition fields_func :: "(char \<Rightarrow> bool) \<Rightarrow> string \<Rightarrow> string list" where
  "fields_func p s = fields_acc p [] s"

definition str_fields :: "string \<Rightarrow> string list" where
  "str_fields = fields_func is_space"

fun join_with :: "string \<Rightarrow> string list \<Rightarrow> string" where
  "join_with sep [] = []"
| "join_with sep [x] = x"
| "join_with sep (x # y # ys) = x @ sep @ join_with sep (y # ys)"

subsection \<open>Lemmas on the string functions\<close>

lemma split_on_neq_Nil [simp]: "split_on c s \<noteq> []"
  by (cases s) (auto split: list.splits)

lemma split_on_no_sep: "c \<notin> set s \<Longrightarrow> split_on c s = [s]"
  by (induction s) auto

lemma split_on_append_sep:
  "c \<notin> set s \<Longrightarrow> split_on c (s @ c # t) = s # split_on c t"
  by (induction s) auto

lemma split_on_join:
  assumes "xs \<noteq> []" and "\<And>x. x \<in> set xs \<Longrightarrow> c \<notin> set x"
  shows "split_on c (join_with [c] xs) = xs"
  using assms
proof (induction xs)
  case Nil
  then show ?case by simp
next
  case (Cons x xs)
  then show ?case
    by (cases xs) (auto simp: split_on_no_sep split_on_append_sep)
qed

lemma split_on_pieces: "p \<in> set (split_on c s) \<Longrightarrow> c \<notin> set p"
proof (induction s arbitrary: p)
  case Nil
  then show ?case by simp
next
  case (Cons x xs)
  show ?case
  proof (cases "split_on c xs")
    case Nil
    then show ?thesis by simp
  next
    case (Cons q qs)
    with Cons.prems Cons.IH [of p] Cons.IH [of q] show ?thesis
      by (auto split: if_splits)
  qed
qed

lemma cut_at_no_sep: "c \<notin> set s \<Longrightarrow> cut_at c s = (s, [], False)"
  by (induction s) auto

lemma cut_at_append_sep: "c \<notin> set s \<Longrightarrow> cut_at c (s @ c # t) = (s, t, True)"
  by (induction s) auto

lemma cut_at_found: "cut_at c s = (b, a, f) \<Longrightarrow> f \<longleftrightarrow> c \<in> set s"
  by (induction s arbitrary: b a) (auto split: prod.splits if_splits)

lemma cut_at_split: "cut_at c s = (b, a, True) \<Longrightarrow> s = b @ c # a \<and> c \<notin> set b"
  by (induction s arbitrary: b a) (auto split: prod.splits if_splits)

lemma fields_acc_word:
  "\<forall>x \<in> set w. \<not> p x \<Longrightarrow> fields_acc p cur (w @ s) = fields_acc p (rev w @ cur) s"
  by (induction w arbitrary: cur) auto

definition word_of :: "(char \<Rightarrow> bool) \<Rightarrow> string \<Rightarrow> bool" where
  "word_of p w \<longleftrightarrow> w \<noteq> [] \<and> (\<forall>x \<in> set w. \<not> p x)"

lemma fields_func_join:
  assumes "p c" and "\<And>w. w \<in> set ws \<Longrightarrow> word_of p w"
  shows "fields_func p (join_with [c] ws) = ws"
  using assms(2)
proof (induction ws)
  case Nil
  then show ?case by (simp add: fields_func_def)
next
  case (Cons w ws)
  have w: "w \<noteq> []" "\<forall>x \<in> set w. \<not> p x"
    using Cons.prems [of w] by (auto simp: word_of_def)
  show ?case
  proof (cases ws)
    case Nil
    with w fields_acc_word [of w p "[]" "[]"] show ?thesis
      by (simp add: fields_func_def)
  next
    case (Cons v vs)
    with w Cons.IH Cons.prems assms(1) show ?thesis
      by (simp add: fields_func_def fields_acc_word)
  qed
qed

lemma fields_acc_words:
  "\<forall>x \<in> set cur. \<not> p x \<Longrightarrow> w \<in> set (fields_acc p cur s) \<Longrightarrow> word_of p w"
proof (induction s arbitrary: cur)
  case Nil
  then show ?case by (auto simp: word_of_def split: if_splits)
next
  case (Cons x s)
  have cur: "cur \<noteq> [] \<Longrightarrow> word_of p (rev cur)"
    using Cons.prems(1) by (simp add: word_of_def)
  show ?case
    using Cons.prems Cons.IH [of "[]"] Cons.IH [of "x # cur"] cur
    by (cases "p x"; cases "cur = []") auto
qed

lemma fields_func_words: "w \<in> set (fields_func p s) \<Longrightarrow> word_of p w"
  using fields_acc_words [of "[]" p w s] by (simp add: fields_func_def)

lemma trim_space_fixed:
  "s \<noteq> [] \<Longrightarrow> \<not> is_space (hd s) \<Longrightarrow> \<not> is_space (last s) \<Longrightarrow> trim_space s = s"
proof -
  assume ne: "s \<noteq> []" and h: "\<not> is_space (hd s)" and l: "\<not> is_space (last s)"
  have d: "dropWhile is_space s = s"
    using ne h by (cases s) auto
  have "dropWhile is_space (rev s) = rev s"
    using ne l by (cases s rule: rev_cases) auto
  then show ?thesis
    by (simp add: trim_space_def trim_right_def d)
qed

subsection \<open>Trimming and splitting\<close>

lemma trim_right_none: "\<forall>c \<in> set s. \<not> p c \<Longrightarrow> trim_right p s = s"
  by (cases s rule: rev_cases) (simp_all add: trim_right_def)

lemma trim_space_no_space: "\<forall>c \<in> set s. \<not> is_space c \<Longrightarrow> trim_space s = s"
  by (cases s) (simp_all add: trim_space_def trim_right_none)

lemma split_on_dropWhile:
  "\<not> sp c \<Longrightarrow> split_on c (dropWhile sp s) =
     (case split_on c s of [] \<Rightarrow> [] | p # ps \<Rightarrow> dropWhile sp p # ps)"
  by (induction s) (auto split: list.splits)

lemma split_on_snoc: "split_on c (s @ [x]) =
    (if x = c then split_on c s @ [[]] else butlast (split_on c s) @ [last (split_on c s) @ [x]])"
  by (induction s) (auto split: list.splits)

lemma split_on_rev: "split_on c (rev s) = rev (map rev (split_on c s))"
proof (induction s)
  case Nil
  then show ?case by simp
next
  case (Cons x s)
  obtain p ps where "split_on c s = p # ps"
    by (cases "split_on c s") auto
  with Cons show ?case by (simp add: split_on_snoc)
qed

lemma dropWhile_idem: "dropWhile p (dropWhile p xs) = dropWhile p xs"
  by (induction xs) auto

lemma trim_right_spaces: "\<forall>y \<in> set w. p y \<Longrightarrow> trim_right p (xs @ w) = trim_right p xs"
  by (simp add: trim_right_def dropWhile_append)

lemma trim_space_right: "\<forall>y \<in> set w. is_space y \<Longrightarrow> trim_space (xs @ w) = trim_space xs"
proof (cases "\<forall>x \<in> set xs. is_space x")
  case True
  assume "\<forall>y \<in> set w. is_space y"
  with True have "dropWhile is_space (xs @ w) = []" "dropWhile is_space xs = []"
    by auto
  then show ?thesis by (simp only: trim_space_def)
next
  case False
  assume w: "\<forall>y \<in> set w. is_space y"
  from False have "dropWhile is_space (xs @ w) = dropWhile is_space xs @ w"
    by (auto simp: dropWhile_append)
  with w show ?thesis by (simp add: trim_space_def trim_right_spaces)
qed

lemma trim_space_trim_right: "trim_space (trim_right is_space p) = trim_space p"
proof -
  have "p = trim_right is_space p @ rev (takeWhile is_space (rev p))"
    unfolding trim_right_def by (metis rev_append rev_rev_ident takeWhile_dropWhile_id)
  then show ?thesis
    by (metis trim_space_right set_rev set_takeWhileD)
qed

lemma trim_space_dropWhile: "trim_space (dropWhile is_space p) = trim_space p"
  by (simp add: trim_space_def dropWhile_idem)

lemma map_trim_split_dropWhile:
  "map trim_space (split_on (CHR '','') (dropWhile is_space s)) = map trim_space (split_on (CHR '','') s)"
  by (subst split_on_dropWhile) (auto simp: is_space_def trim_space_dropWhile split: list.splits)

lemma map_trim_split_right:
  "map trim_space (split_on (CHR '','') (trim_right is_space s)) = map trim_space (split_on (CHR '','') s)"
proof -
  obtain p ps where r: "split_on (CHR '','') (rev s) = p # ps"
    by (cases "split_on (CHR '','') (rev s)") auto
  have "split_on (CHR '','') (dropWhile is_space (rev s)) = dropWhile is_space p # ps"
    by (subst split_on_dropWhile) (auto simp: is_space_def r)
  then have "split_on (CHR '','') (trim_right is_space s) = rev (map rev ps) @ [rev (dropWhile is_space p)]"
    by (simp add: trim_right_def split_on_rev)
  moreover have "split_on (CHR '','') s = rev (map rev ps) @ [rev p]"
    using split_on_rev [of "CHR '',''" "rev s"] r by simp
  moreover have "trim_space (rev (dropWhile is_space p)) = trim_space (rev p)"
    using trim_space_trim_right [of "rev p"] by (simp add: trim_right_def)
  ultimately show ?thesis by simp
qed

lemma map_trim_split: "map trim_space (split_on (CHR '','') (trim_space s)) = map trim_space (split_on (CHR '','') s)"
  unfolding trim_space_def [of s] by (simp only: map_trim_split_right map_trim_split_dropWhile)

lemma split_on_append_sep_general: "split_on c (a @ c # b) = split_on c a @ split_on c b"
proof (induction a)
  case Nil
  then show ?case by simp
next
  case (Cons x a)
  then show ?case
    by (cases "split_on c a") auto
qed

lemma trim_space_not_blank: "c \<in> set s \<Longrightarrow> \<not> is_space c \<Longrightarrow> trim_space s \<noteq> []"
proof
  assume c: "c \<in> set s" "\<not> is_space c" and "trim_space s = []"
  then have "\<forall>d \<in> set (dropWhile is_space s). is_space d"
    by (simp add: trim_space_def trim_right_def )
  moreover have "c \<in> set (dropWhile is_space s)"
    using c set_takeWhileD [of c is_space s] by (metis Un_iff set_append takeWhile_dropWhile_id)
  ultimately show False
    using c by blast
qed

section \<open>Decimal numbers\<close>

definition digit_of :: "char \<Rightarrow> int option" where
  "digit_of c =
     (let n = of_char c :: int in if 48 \<le> n \<and> n \<le> 57 then Some (n - 48) else None)"

definition digit_char :: "int \<Rightarrow> char" where
  "digit_char d = char_of (48 + d)"

fun digits_val :: "int \<Rightarrow> string \<Rightarrow> int option" where
  "digits_val acc [] = Some acc"
| "digits_val acc (c # cs) =
     (case digit_of c of None \<Rightarrow> None | Some d \<Rightarrow> digits_val (10 * acc + d) cs)"

text \<open>strconv.ParseUint with base 10: None is either a syntax or a range error.\<close>

definition parse_uint :: "nat \<Rightarrow> string \<Rightarrow> int option" where
  "parse_uint bits s =
     (if s = [] then None
      else (case digits_val 0 s of None \<Rightarrow> None
            | Some n \<Rightarrow> if n < 2 ^ bits then Some n else None))"

text \<open>strconv.Atoi: an optional sign, at least one digit, and the range of an int.\<close>

definition atoi :: "string \<Rightarrow> int option" where
  "atoi s =
     (let neg = (case s of [] \<Rightarrow> False | c # _ \<Rightarrow> c = CHR ''-'');
          body = (case s of [] \<Rightarrow> [] | c # cs \<Rightarrow> if c = CHR ''-'' \<or> c = CHR ''+'' then cs else s)
      in if body = [] then None
         else (case digits_val 0 body of None \<Rightarrow> None
               | Some n \<Rightarrow>
                   (let v = (if neg then - n else n)
                    in if min_int64 \<le> v \<and> v \<le> max_int64 then Some v else None)))"

function show_dec :: "int \<Rightarrow> string" where
  "show_dec n = (if n < 10 then [digit_char n] else show_dec (n div 10) @ [digit_char (n mod 10)])"
  by pat_completeness auto
termination
  by (relation "measure nat") auto

declare show_dec.simps [simp del]

text \<open>strconv.Itoa.\<close>

definition itoa :: "int \<Rightarrow> string" where
  "itoa v = (if v < 0 then CHR ''-'' # show_dec (- v) else show_dec v)"

lemma of_char_digit [simp]: "0 \<le> d \<Longrightarrow> d < 10 \<Longrightarrow> of_char (digit_char d) = (48 + d :: int)"
  by (simp add: digit_char_def)

lemma digit_of_digit_char [simp]: "0 \<le> d \<Longrightarrow> d < 10 \<Longrightarrow> digit_of (digit_char d) = Some d"
  by (simp add: digit_of_def)

lemma digits_val_append:
  "digits_val acc (xs @ ys) =
     (case digits_val acc xs of None \<Rightarrow> None | Some a \<Rightarrow> digits_val a ys)"
  by (induction acc xs rule: digits_val.induct) (auto split: option.splits)

lemma digits_val_nonneg: "0 \<le> acc \<Longrightarrow> digits_val acc s = Some n \<Longrightarrow> 0 \<le> n"
  by (induction acc s rule: digits_val.induct) (auto simp: digit_of_def Let_def split: option.splits if_splits)

lemma show_dec_neq_Nil [simp]: "show_dec n \<noteq> []"
  by (subst show_dec.simps) simp

lemma digits_val_show_dec: "0 \<le> n \<Longrightarrow> digits_val 0 (show_dec n) = Some n"
proof (induction n rule: show_dec.induct)
  case (1 n)
  show ?case
  proof (cases "n < 10")
    case True
    with "1.prems" show ?thesis by (subst show_dec.simps) simp
  next
    case False
    with 1 show ?thesis
      by (subst show_dec.simps) (simp add: digits_val_append)
  qed
qed

definition is_digit :: "char \<Rightarrow> bool" where
  "is_digit c \<longleftrightarrow> digit_of c \<noteq> None"

lemma length_show_dec: "0 \<le> v \<Longrightarrow> v < 10 ^ n \<Longrightarrow> 0 < n \<Longrightarrow> length (show_dec v) \<le> n"
proof (induction n arbitrary: v)
  case (Suc n)
  show ?case
  proof (cases "v < 10")
    case False
    then have "0 < n" using Suc.prems by (cases n) auto
    moreover have "v div 10 < 10 ^ n" using Suc.prems by (simp add: div_less_iff_less_mult mult.commute)
    ultimately have "length (show_dec (v div 10)) \<le> n" using Suc.IH [of "v div 10"] Suc.prems(1) by simp
    then show ?thesis using False Suc.prems(1) by (simp add: show_dec.simps [of v])
  qed (use Suc.prems in \<open>simp add: show_dec.simps [of v]\<close>)
qed simp

lemma show_dec_digits: "0 \<le> n \<Longrightarrow> c \<in> set (show_dec n) \<Longrightarrow> is_digit c"
proof (induction n rule: show_dec.induct)
  case (1 n)
  then show ?case
    by (subst (asm) (2) show_dec.simps) (auto simp: is_digit_def split: if_splits)
qed

lemma is_digit_not:
  "\<not> is_digit (CHR '','')" "\<not> is_digit (CHR ''-'')" "\<not> is_digit (CHR ''/'')"
  "\<not> is_digit (CHR ''*'')" "\<not> is_digit (CHR ''+'')" "is_space c \<Longrightarrow> \<not> is_digit c"
  by (auto simp: is_digit_def digit_of_def is_space_def)

lemma atoi_range: "atoi s = Some v \<Longrightarrow> min_int64 \<le> v \<and> v \<le> max_int64"
  by (auto simp: atoi_def Let_def split: if_splits option.splits list.splits)

lemma atoi_itoa: "0 \<le> v \<Longrightarrow> v \<le> max_int64 \<Longrightarrow> atoi (itoa v) = Some v"
proof -
  assume nn: "0 \<le> v" and b: "v \<le> max_int64"
  have hd: "is_digit (hd (show_dec v))"
    by (rule show_dec_digits [OF nn]) simp
  obtain c cs where s: "show_dec v = c # cs"
    by (cases "show_dec v") auto
  with hd have c: "c \<noteq> CHR ''-''" "c \<noteq> CHR ''+''"
    using is_digit_not by auto
  have val: "digits_val 0 (c # cs) = Some v"
    using digits_val_show_dec [OF nn] by (simp add: s)
  have m: "min_int64 \<le> v"
    using nn by (simp add: min_int64_def)
  show ?thesis
    using nn b m val c by (simp add: atoi_def itoa_def s Let_def)
qed

lemma itoa_digits: "0 \<le> v \<Longrightarrow> c \<in> set (itoa v) \<Longrightarrow> is_digit c"
  by (auto simp: itoa_def dest: show_dec_digits)

lemma itoa_neq_Nil [simp]: "itoa v \<noteq> []"
  by (simp add: itoa_def)

section \<open>Instants\<close>

text \<open>
  An instant (time.Time) is a number of nanoseconds since the Unix epoch, UTC; a duration
  (time.Duration) is a number of nanoseconds. The zero time.Time is the first instant of year 1.
\<close>

type_synonym instant = int
type_synonym duration = int

definition second :: duration where "second = 1000000000"
definition minute :: duration where "minute = 60 * second"
definition hour :: duration where "hour = 60 * minute"

definition zero_time :: instant where
  "zero_time = - 62135596800 * second"

definition is_zero_time :: "instant \<Rightarrow> bool" where
  "is_zero_time t \<longleftrightarrow> t = zero_time"

lemmas duration_defs = second_def minute_def hour_def

end
