(* ===== verification/Go_Time.thy ===== *)
theory Go_Time
  imports Go_Prelude
begin

text \<open>
  The calendar of package time that the schedule parser reads: the civil date, clock and weekday of
  an instant in UTC, truncation to the minute, and AddDate for whole years. The date is the
  proleptic Gregorian calendar, computed from the day number by eras of 400 years.
\<close>

definition minute_index :: "instant \<Rightarrow> int" where
  "minute_index t = t div minute"

definition day_index :: "instant \<Rightarrow> int" where
  "day_index t = t div (24 * hour)"

text \<open>(year, month, day) of a day number; day 0 is 1970-01-01.\<close>

definition civil_from_days :: "int \<Rightarrow> int \<times> int \<times> int" where
  "civil_from_days d =
     (let z = d + 719468;
          era = z div 146097;
          doe = z mod 146097;
          yoe = (doe - doe div 1460 + doe div 36524 - doe div 146096) div 365;
          doy = doe - (365 * yoe + yoe div 4 - yoe div 100);
          mp = (5 * doy + 2) div 153;
          day = doy - (153 * mp + 2) div 5 + 1;
          month = (if mp < 10 then mp + 3 else mp - 9);
          year = yoe + era * 400 + (if month \<le> 2 then 1 else 0)
      in (year, month, day))"

definition days_from_civil :: "int \<Rightarrow> int \<Rightarrow> int \<Rightarrow> int" where
  "days_from_civil y m d =
     (let y' = (if m \<le> 2 then y - 1 else y);
          era = y' div 400;
          yoe = y' mod 400;
          mp = (if m > 2 then m - 3 else m + 9);
          doy = (153 * mp + 2) div 5 + d - 1;
          doe = yoe * 365 + yoe div 4 - yoe div 100 + doy
      in era * 146097 + doe - 719468)"

definition t_minute :: "instant \<Rightarrow> int" where
  "t_minute t = minute_index t mod 60"

definition t_hour :: "instant \<Rightarrow> int" where
  "t_hour t = (minute_index t div 60) mod 24"

definition t_day :: "instant \<Rightarrow> int" where
  "t_day t = snd (snd (civil_from_days (day_index t)))"

definition t_month :: "instant \<Rightarrow> int" where
  "t_month t = fst (snd (civil_from_days (day_index t)))"

text \<open>Sunday is 0; 1970-01-01 was a Thursday.\<close>

definition t_weekday :: "instant \<Rightarrow> int" where
  "t_weekday t = (day_index t + 4) mod 7"

definition truncate_minute :: "instant \<Rightarrow> instant" where
  "truncate_minute t = minute_index t * minute"

text \<open>AddDate(n, 0, 0): the same month, day and clock n years on; a day that month does not have
  runs over into the next one, which for whole years is 29 February becoming 1 March.\<close>

definition add_years :: "int \<Rightarrow> instant \<Rightarrow> instant" where
  "add_years n t =
     (case civil_from_days (day_index t) of
        (y, m, d) \<Rightarrow> (days_from_civil (y + n) m 1 + (d - 1)) * (24 * hour) + t mod (24 * hour))"

text \<open>AddDate(0, n, 0): the month n months on, and a day it does not have runs over into the next one.\<close>

definition t_year :: "instant \<Rightarrow> int" where
  "t_year t = fst (civil_from_days (day_index t))"

definition add_months :: "int \<Rightarrow> instant \<Rightarrow> instant" where
  "add_months n t =
     (case civil_from_days (day_index t) of
        (y, m, d) \<Rightarrow>
          (days_from_civil (y + (m - 1 + n) div 12) ((m - 1 + n) mod 12 + 1) 1 + (d - 1)) * (24 * hour)
            + t mod (24 * hour))"

text \<open>The layout 2006-01, for the years 0 to 9999.\<close>

definition pad_left :: "nat \<Rightarrow> string \<Rightarrow> string" where
  "pad_left n t = replicate (n - length t) (CHR ''0'') @ t"

definition format_month :: "instant \<Rightarrow> string" where
  "format_month t = pad_left 4 (itoa (t_year t)) @ ''-'' @ pad_left 2 (itoa (t_month t))"

lemma minute_pos [simp]: "0 < minute" "0 < hour" "0 < second"
  by (simp_all add: duration_defs)

lemma hour_minutes: "24 * hour = 1440 * minute"
  by (simp add: duration_defs)

lemma truncate_minute_bounds: "truncate_minute t \<le> t" "t < truncate_minute t + minute"
proof -
  have eq: "minute_index t * minute + t mod minute = t"
    by (simp add: minute_index_def)
  have "0 \<le> t mod minute" "t mod minute < minute"
    by (rule pos_mod_sign, simp) (rule pos_mod_bound, simp)
  with eq show "truncate_minute t \<le> t" "t < truncate_minute t + minute"
    unfolding truncate_minute_def by linarith+
qed

lemma day_of_minute_index: "day_index t = minute_index t div 1440"
proof -
  have "day_index t = t div (minute * 1440)"
    unfolding day_index_def hour_minutes by (simp only: mult.commute)
  also have "\<dots> = minute_index t div 1440"
    using zdiv_zmult2_eq [of 1440 t minute] by (simp add: minute_index_def)
  finally show ?thesis .
qed

text \<open>The fields of an instant on a whole minute depend on its minute number only.\<close>

lemma minute_index_mult [simp]: "minute_index (k * minute) = k"
  by (simp add: minute_index_def duration_defs)

lemma t_minute_range: "0 \<le> t_minute t" "t_minute t \<le> 59"
  by (simp_all add: t_minute_def)

lemma t_hour_range: "0 \<le> t_hour t" "t_hour t \<le> 23"
  by (simp_all add: t_hour_def)

lemma t_weekday_range: "0 \<le> t_weekday t" "t_weekday t \<le> 6"
  by (simp_all add: t_weekday_def)

end
