(* ===== verification/Cron.thy ===== *)
theory Cron
  imports Go_Time
begin

text \<open>
  The five-field schedules of internal/cron/cron.go: the parser, the match of an instant, the
  canonical spelling that is handed to the cluster, and the search for the next run.

  Errors carry what the Go error message is built from. The loop of rangeOf adds with wrap-around,
  so its model is a partial function whose value None means that the loop does not return;
  the lemmas below show that it always does for the arguments the parser passes.
\<close>

section \<open>Definitions\<close>

record schedule =
  Minutes :: "int list"
  Hours :: "int list"
  DaysOfWeek :: "int list"
  DaysOfMonth :: "int list"
  Months :: "int list"
  dayOfMonthRestricted :: bool
  dayOfWeekRestricted :: bool

datatype field_error =
    BadStep string
  | NotNumber string
  | RangeOutside string int int
  | ValueOutside int int int
  | NoValues

datatype field_name = MinuteField | HourField | DayOfMonthField | MonthField | DayOfWeekField

datatype cron_error = FieldCount nat | InField field_name field_error | NeverFires

partial_function (option) rangeOf :: "int \<Rightarrow> int \<Rightarrow> int \<Rightarrow> int list option" where
  [code]: "rangeOf v high step =
     (if v \<le> high
      then Option.bind (rangeOf (wrap64 (v + step)) high step) (\<lambda>out. Some (v # out))
      else Some [])"

fun contains :: "int list \<Rightarrow> int \<Rightarrow> bool" where
  "contains [] v = False"
| "contains (item # values) v = (if item = v then True else contains values v)"

text \<open>The switch of parseField on one part, with its step already read: the star, a range, or a
  single value (which a step above one extends to the end of the field).\<close>

definition partValues :: "string \<Rightarrow> int \<Rightarrow> int \<Rightarrow> int \<Rightarrow> (field_error + int list) option" where
  "partValues part low high step =
     (if part = ''*'' then map_option Inr (rangeOf low high step)
      else if CHR ''-'' \<in> set part then
        (case cut_at (CHR ''-'') part of
           (startText, endText, _) \<Rightarrow>
             (case atoi startText of
                None \<Rightarrow> Some (Inl (NotNumber startText))
              | Some start \<Rightarrow>
                  (case atoi endText of
                     None \<Rightarrow> Some (Inl (NotNumber endText))
                   | Some end' \<Rightarrow>
                       (if start < low \<or> end' > high \<or> start > end'
                        then Some (Inl (RangeOutside part low high))
                        else map_option Inr (rangeOf start end' step)))))
      else
        (case atoi part of
           None \<Rightarrow> Some (Inl (NotNumber part))
         | Some value \<Rightarrow>
             (if value < low \<or> value > high then Some (Inl (ValueOutside value low high))
              else if step > 1 then map_option Inr (rangeOf value high step)
              else Some (Inr [value]))))"

text \<open>One comma-separated part of a field: its step, if it has one, then its values.\<close>

definition parsePart :: "string \<Rightarrow> int \<Rightarrow> int \<Rightarrow> (field_error + int list) option" where
  "parsePart part low high =
     (case cut_at (CHR ''/'') part of
        (base, stepText, hasStep) \<Rightarrow>
          (if hasStep
           then (case atoi stepText of
                   None \<Rightarrow> Some (Inl (BadStep stepText))
                 | Some parsed \<Rightarrow>
                     (if parsed < 1 then Some (Inl (BadStep stepText))
                      else partValues base low high parsed))
           else partValues part low high 1))"

fun parseParts :: "string list \<Rightarrow> int \<Rightarrow> int \<Rightarrow> int list \<Rightarrow> (field_error + int list) option" where
  "parseParts [] low high out = Some (Inr out)"
| "parseParts (part # parts) low high out =
     (case parsePart part low high of
        None \<Rightarrow> None
      | Some (Inl e) \<Rightarrow> Some (Inl e)
      | Some (Inr vs) \<Rightarrow> parseParts parts low high (out @ vs))"

definition parseField :: "string \<Rightarrow> int \<Rightarrow> int \<Rightarrow> (field_error + int list) option" where
  "parseField field low high =
     (if field = ''*'' then map_option Inr (rangeOf low high 1)
      else (case parseParts (split_on (CHR '','') field) low high [] of
              None \<Rightarrow> None
            | Some (Inl e) \<Rightarrow> Some (Inl e)
            | Some (Inr out) \<Rightarrow> if out = [] then Some (Inl NoValues) else Some (Inr out)))"

text \<open>Sequencing of the five fields: a field that does not return stops, a field error is wrapped
  with the name of the field.\<close>

definition with_field ::
  "field_name \<Rightarrow> (field_error + int list) option \<Rightarrow> (int list \<Rightarrow> (cron_error + 'a) option) \<Rightarrow>
     (cron_error + 'a) option" where
  "with_field name r k =
     (case r of None \<Rightarrow> None | Some (Inl e) \<Rightarrow> Some (Inl (InField name e)) | Some (Inr vs) \<Rightarrow> k vs)"

definition ParseSchedule :: "string \<Rightarrow> (cron_error + schedule) option" where
  "ParseSchedule expression =
     (let fs = str_fields expression
      in if length fs \<noteq> 5 then Some (Inl (FieldCount (length fs)))
         else
           with_field MinuteField (parseField (fs ! 0) 0 59) (\<lambda>minutes.
           with_field HourField (parseField (fs ! 1) 0 23) (\<lambda>hours.
           with_field DayOfMonthField (parseField (fs ! 2) 1 31) (\<lambda>daysOfMonth.
           with_field MonthField (parseField (fs ! 3) 1 12) (\<lambda>months.
           with_field DayOfWeekField (parseField (fs ! 4) 0 7) (\<lambda>daysOfWeek.
             Some (Inr \<lparr>Minutes = minutes, Hours = hours,
                        DaysOfWeek = map (\<lambda>d. if d = 7 then 0 else d) daysOfWeek,
                        DaysOfMonth = daysOfMonth, Months = months,
                        dayOfMonthRestricted = (fs ! 2 \<noteq> ''*''),
                        dayOfWeekRestricted = (fs ! 4 \<noteq> ''*'')\<rparr>)))))))"

definition Matches :: "schedule \<Rightarrow> instant \<Rightarrow> bool" where
  "Matches s t =
     (if \<not> contains (Minutes s) (t_minute t) \<or> \<not> contains (Hours s) (t_hour t) \<or>
         \<not> contains (Months s) (t_month t)
      then False
      else
        (let dayOfMonth = contains (DaysOfMonth s) (t_day t);
             dayOfWeek = contains (DaysOfWeek s) (t_weekday t)
         in if dayOfMonthRestricted s \<and> dayOfWeekRestricted s then dayOfMonth \<or> dayOfWeek
            else if dayOfMonthRestricted s then dayOfMonth
            else if dayOfWeekRestricted s then dayOfWeek
            else True))"

definition joinValues :: "int list \<Rightarrow> string" where
  "joinValues values = join_with '','' (map itoa (sort (nub_seen [] values)))"

definition Canonical :: "string \<Rightarrow> (cron_error + string) option" where
  "Canonical expression =
     (case ParseSchedule expression of
        None \<Rightarrow> None
      | Some (Inl e) \<Rightarrow> Some (Inl e)
      | Some (Inr schedule) \<Rightarrow>
          (let fs = str_fields expression
           in if fs ! 4 = ''*'' then Some (Inr (join_with '' '' fs))
              else Some (Inr (join_with '' '' (fs[4 := joinValues (DaysOfWeek schedule)])))))"

definition DueNow :: "string \<Rightarrow> instant \<Rightarrow> bool option" where
  "DueNow expression now =
     (case ParseSchedule expression of
        None \<Rightarrow> None
      | Some (Inl _) \<Rightarrow> Some False
      | Some (Inr schedule) \<Rightarrow> Some (Matches schedule now))"

text \<open>The search of NextRun: candidates a minute apart, before the limit.\<close>

function nextCandidate :: "schedule \<Rightarrow> instant \<Rightarrow> instant \<Rightarrow> instant option" where
  "nextCandidate schedule candidate limit =
     (if candidate < limit
      then (if Matches schedule candidate then Some candidate
            else nextCandidate schedule (candidate + minute) limit)
      else None)"
  by pat_completeness auto
termination
  by (relation "measure (\<lambda>(s, c, l). nat (l - c))") (auto simp: duration_defs)

declare nextCandidate.simps [simp del]

definition NextRun :: "string \<Rightarrow> instant \<Rightarrow> (cron_error + instant) option" where
  "NextRun expression after =
     (case ParseSchedule expression of
        None \<Rightarrow> None
      | Some (Inl e) \<Rightarrow> Some (Inl e)
      | Some (Inr schedule) \<Rightarrow>
          (let candidate = truncate_minute after + minute;
               limit = add_years 5 candidate
           in case nextCandidate schedule candidate limit of
                None \<Rightarrow> Some (Inl NeverFires)
              | Some t \<Rightarrow> Some (Inr t)))"

section \<open>Specification vocabulary\<close>

text \<open>The numbers from a to b in steps of k.\<close>

definition progression :: "int \<Rightarrow> int \<Rightarrow> int \<Rightarrow> int set" where
  "progression a b k = {u. a \<le> u \<and> u \<le> b \<and> k dvd (u - a)}"

text \<open>A field whose steps are far enough from the end of the integers for the loop not to wrap.\<close>

definition small_steps :: "string \<Rightarrow> bool" where
  "small_steps field \<longleftrightarrow>
     (\<forall>part \<in> set (split_on (CHR '','') field).
        case cut_at (CHR ''/'') part of
          (_, stepText, _) \<Rightarrow>
            (case atoi stepText of None \<Rightarrow> True | Some k \<Rightarrow> k \<le> max_int64 - 63))"

text \<open>What a field means: its parts as syntax, how a part is written, which parts are valid in a
  field from low to high, and the values a part stands for.\<close>

datatype part_form = PStar | PRange int int | PSingle int

type_synonym field_part = "part_form \<times> int option"

fun show_form :: "part_form \<Rightarrow> string" where
  "show_form PStar = ''*''"
| "show_form (PRange a b) = itoa a @ ''-'' @ itoa b"
| "show_form (PSingle a) = itoa a"

fun show_part :: "field_part \<Rightarrow> string" where
  "show_part (f, None) = show_form f"
| "show_part (f, Some k) = show_form f @ ''/'' @ itoa k"

fun valid_form :: "int \<Rightarrow> int \<Rightarrow> part_form \<Rightarrow> bool" where
  "valid_form low high PStar = True"
| "valid_form low high (PRange a b) = (low \<le> a \<and> a \<le> b \<and> b \<le> high)"
| "valid_form low high (PSingle a) = (low \<le> a \<and> a \<le> high)"

fun valid_part :: "int \<Rightarrow> int \<Rightarrow> field_part \<Rightarrow> bool" where
  "valid_part low high (f, k) =
     (valid_form low high f \<and> (case k of None \<Rightarrow> True | Some k \<Rightarrow> 1 \<le> k \<and> k \<le> max_int64 - 63))"

fun denote_part :: "int \<Rightarrow> int \<Rightarrow> field_part \<Rightarrow> int set" where
  "denote_part low high (PStar, k) = progression low high (case k of None \<Rightarrow> 1 | Some k \<Rightarrow> k)"
| "denote_part low high (PRange a b, k) = progression a b (case k of None \<Rightarrow> 1 | Some k \<Rightarrow> k)"
| "denote_part low high (PSingle a, None) = {a}"
| "denote_part low high (PSingle a, Some k) = (if k = 1 then {a} else progression a high k)"

text \<open>The schedule of midnight on every 29 February.\<close>

definition leap_day_schedule :: schedule where
  "leap_day_schedule =
     \<lparr>Minutes = [0], Hours = [0], DaysOfWeek = [0, 1, 2, 3, 4, 5, 6, 0], DaysOfMonth = [29],
      Months = [2], dayOfMonthRestricted = True, dayOfWeekRestricted = False\<rparr>"

section \<open>Ranges\<close>

lemma progression_empty: "b < a \<Longrightarrow> progression a b k = {}"
  by (auto simp: progression_def)

lemma progression_step:
  assumes "a \<le> b" and "1 \<le> k"
  shows "progression a b k = insert a (progression (a + k) b k)"
proof -
  have "k dvd (u - a) \<longleftrightarrow> k dvd (u - (a + k))" for u
    by (metis add_diff_cancel_left' diff_diff_eq dvd_diff_right_iff dvd_refl dvd_add_right_iff diff_add_cancel)
  moreover have "a + k \<le> u" if "a \<le> u" "u \<noteq> a" "k dvd (u - a)" for u
    using that assms(2) zdvd_imp_le [of k "u - a"] by auto
  ultimately show ?thesis
    using assms unfolding progression_def by fastforce
qed

lemma contains_iff: "contains vs v \<longleftrightarrow> v \<in> set vs"
  by (induction vs v rule: contains.induct) auto

lemma rangeOf_no_wrap:
  assumes "1 \<le> k" and "high + k \<le> max_int64" and "min_int64 \<le> v"
  shows "\<exists>vs. rangeOf v high k = Some vs \<and> set vs = progression v high k"
  using assms(3)
proof (induction "nat (high + 1 - v)" arbitrary: v rule: less_induct)
  case less
  show ?case
  proof (cases "v \<le> high")
    case False
    then show ?thesis
      by (subst rangeOf.simps) (simp add: progression_empty)
  next
    case True
    have w: "wrap64 (v + k) = v + k"
      using True assms less.prems by (intro wrap64_id) auto
    have "nat (high + 1 - (v + k)) < nat (high + 1 - v)" "min_int64 \<le> v + k"
      using True assms(1) less.prems by auto
    then obtain vs where "rangeOf (v + k) high k = Some vs" "set vs = progression (v + k) high k"
      using less.hyps by blast
    with True w progression_step [OF True assms(1)] show ?thesis
      by (subst rangeOf.simps) auto
  qed
qed

text \<open>A step so large that the addition wraps: the loop comes back to a smaller value every second
  round, and leaves when it cannot.\<close>

lemma rangeOf_wraps:
  assumes "high \<le> 63" and "1 \<le> k" and "k \<le> max_int64" and "max_int64 < high + k"
    and "- 189 \<le> v"
  shows "\<exists>vs. rangeOf v high k = Some vs"
  using assms(5)
proof (induction "nat (v + 190)" arbitrary: v rule: less_induct)
  case less
  show ?case
  proof (cases "v \<le> high")
    case False
    then show ?thesis by (subst rangeOf.simps) simp
  next
    case le: True
    show ?thesis
    proof (cases "v + k \<le> max_int64")
      case True
      have "wrap64 (v + k) = v + k"
        using True less.prems assms by (intro wrap64_id) (auto simp: min_int64_def)
      moreover have "\<not> v + k \<le> high"
        using less.prems assms by (auto simp: max_int64_def)
      ultimately show ?thesis
        using le by (subst rangeOf.simps, subst rangeOf.simps) simp
    next
      case False
      define v1 where "v1 = v + k - 2 ^ 64"
      define v2 where "v2 = v1 + k"
      have w1: "wrap64 (v + k) = v1"
        unfolding v1_def using False le assms by (intro wrap64_over) (auto simp: max_int64_def)
      have w2: "wrap64 (v1 + k) = v2"
        unfolding v2_def v1_def using False le assms
        by (intro wrap64_id) (auto simp: max_int64_def min_int64_def)
      have b: "v1 \<le> high" "v2 < v" "- 189 \<le> v2"
        using False le assms less.prems by (auto simp: v1_def v2_def max_int64_def)
      then have "nat (v2 + 190) < nat (v + 190)"
        by auto
      then obtain vs where "rangeOf v2 high k = Some vs"
        using less.hyps b by blast
      then have "rangeOf v1 high k = Some (v1 # vs)"
        using b w2 by (subst rangeOf.simps) simp
      then show ?thesis
        using le w1 by (subst rangeOf.simps) simp
    qed
  qed
qed

lemma rangeOf_returns:
  assumes "0 \<le> v" and "high \<le> 63" and "1 \<le> k" and "k \<le> max_int64"
  shows "\<exists>vs. rangeOf v high k = Some vs"
proof (cases "high + k \<le> max_int64")
  case True
  with assms rangeOf_no_wrap [of k high v] show ?thesis
    by (auto simp: min_int64_def)
next
  case False
  with assms show ?thesis
    by (intro rangeOf_wraps) auto
qed

section \<open>The parser always returns\<close>

lemma rangeOf_field_neq_None:
  "0 \<le> low \<Longrightarrow> high \<le> 63 \<Longrightarrow> 1 \<le> k \<Longrightarrow> k \<le> max_int64 \<Longrightarrow> rangeOf low high k \<noteq> None"
  using rangeOf_returns by fastforce

text \<open>What one part can come to: an error, one value, or a range inside the field.\<close>

lemma partValues_cases:
  obtains (err) e where "partValues part low high k = Some (Inl e)"
  | (single) v where "partValues part low high k = Some (Inr [v])" "low \<le> v" "v \<le> high"
  | (range) a b where "partValues part low high k = map_option Inr (rangeOf a b k)"
      "low \<le> a" "b \<le> high"
proof -
  consider "part = ''*''" | "part \<noteq> ''*''" "CHR ''-'' \<in> set part"
    | "part \<noteq> ''*''" "CHR ''-'' \<notin> set part"
    by blast
  then show ?thesis
  proof cases
    case 1
    then show ?thesis using range [of low high] by (simp add: partValues_def)
  next
    case 2
    obtain st en f where c: "cut_at (CHR ''-'') part = (st, en, f)"
      by (cases "cut_at (CHR ''-'') part") auto
    show ?thesis
    proof (cases "atoi st")
      case None
      with 2 c err show ?thesis by (simp add: partValues_def)
    next
      case a: (Some a)
      show ?thesis
      proof (cases "atoi en")
        case None
        with 2 a c err show ?thesis by (simp add: partValues_def)
      next
        case b: (Some b)
        show ?thesis
          using 2 a b c err range [of a b]
          by (cases "a < low \<or> b > high \<or> a > b") (simp_all add: partValues_def)
      qed
    qed
  next
    case 3
    show ?thesis
    proof (cases "atoi part")
      case None
      with 3 err show ?thesis by (simp add: partValues_def)
    next
      case v: (Some v)
      show ?thesis
        using 3 v err single [of v] range [of v high]
        by (cases "v < low \<or> v > high"; cases "k > 1") (simp_all add: partValues_def)
    qed
  qed
qed

lemma parsePart_cases:
  assumes "cut_at (CHR ''/'') part = (base, stepText, hasStep)"
  obtains (err) e where "parsePart part low high = Some (Inl e)"
  | (single) v where "parsePart part low high = Some (Inr [v])" "low \<le> v" "v \<le> high"
  | (range) a b k where "parsePart part low high = map_option Inr (rangeOf a b k)"
      "low \<le> a" "b \<le> high" "1 \<le> k" "k = 1 \<or> atoi stepText = Some k"
proof (cases "if hasStep then atoi stepText else Some 1")
  case None
  with assms err show ?thesis
    by (simp add: parsePart_def Let_def split: if_splits)
next
  case (Some k)
  have k: "k = 1 \<or> atoi stepText = Some k"
    using Some by (auto split: if_splits)
  let ?part = "if hasStep then base else part"
  show ?thesis
  proof (cases "k < 1")
    case True
    with Some assms err show ?thesis
      by (auto simp: parsePart_def split: if_splits)
  next
    case False
    with Some assms have eq: "parsePart part low high = partValues ?part low high k"
      by (auto simp: parsePart_def split: if_splits)
    show ?thesis
      using False eq err single range k by (cases rule: partValues_cases [of ?part low high k]) auto
  qed
qed

lemma parsePart_returns:
  assumes "0 \<le> low" and "high \<le> 63"
  shows "parsePart part low high \<noteq> None"
proof -
  obtain base stepText hasStep where c: "cut_at (CHR ''/'') part = (base, stepText, hasStep)"
    by (cases "cut_at (CHR ''/'') part") auto
  show ?thesis
  proof (rule parsePart_cases [OF c, of low high])
    fix a b k
    assume r: "parsePart part low high = map_option Inr (rangeOf a b k)" and "low \<le> a" "b \<le> high"
      "1 \<le> k" and k: "k = 1 \<or> atoi stepText = Some k"
    moreover have "k \<le> max_int64"
      using k atoi_range by (auto simp: max_int64_def)
    ultimately show ?thesis
      using assms rangeOf_field_neq_None [of a b k] by simp
  qed auto
qed

lemma parseParts_returns:
  "0 \<le> low \<Longrightarrow> high \<le> 63 \<Longrightarrow> parseParts parts low high out \<noteq> None"
  by (induction parts low high out rule: parseParts.induct)
    (auto simp: parsePart_returns split: option.splits sum.splits)

lemma parseField_returns: "0 \<le> low \<Longrightarrow> high \<le> 63 \<Longrightarrow> parseField field low high \<noteq> None"
proof -
  assume a: "0 \<le> low" "high \<le> 63"
  then have "rangeOf low high 1 \<noteq> None"
    by (rule rangeOf_field_neq_None) (simp_all add: max_int64_def)
  moreover have "parseParts (split_on (CHR '','') field) low high [] \<noteq> None"
    using a by (rule parseParts_returns)
  ultimately show ?thesis
    by (auto simp: parseField_def split: option.splits sum.splits)
qed

lemma with_field_returns:
  "r \<noteq> None \<Longrightarrow> (\<And>vs. r = Some (Inr vs) \<Longrightarrow> k vs \<noteq> None) \<Longrightarrow> with_field name r k \<noteq> None"
  by (auto simp: with_field_def split: option.splits sum.splits)

lemma ParseSchedule_returns: "ParseSchedule e \<noteq> None"
  unfolding ParseSchedule_def Let_def
  by (simp del: not_None_eq add: parseField_returns with_field_returns)

section \<open>Values stay inside the field\<close>

lemma rangeOf_bounds:
  assumes "rangeOf v high k = Some vs" and "1 \<le> k" and "k \<le> max_int64 - 63" and "high \<le> 63"
    and "0 \<le> v"
  shows "set vs = progression v high k"
proof -
  have "high + k \<le> max_int64" "min_int64 \<le> v"
    using assms by (auto simp: min_int64_def)
  with rangeOf_no_wrap [OF assms(2)] assms(1) show ?thesis
    by force
qed

lemma progression_subset: "lo \<le> a \<Longrightarrow> b \<le> hi \<Longrightarrow> progression a b k \<subseteq> {lo..hi}"
  by (auto simp: progression_def)

lemma parsePart_bounds:
  assumes "parsePart part low high = Some (Inr vs)" and "0 \<le> low" and "high \<le> 63"
    and "case cut_at (CHR ''/'') part of
           (_, stepText, _) \<Rightarrow>
             (case atoi stepText of None \<Rightarrow> True | Some k \<Rightarrow> k \<le> max_int64 - 63)"
  shows "set vs \<subseteq> {low..high}"
proof -
  obtain base stepText hasStep where c: "cut_at (CHR ''/'') part = (base, stepText, hasStep)"
    by (cases "cut_at (CHR ''/'') part") auto
  show ?thesis
  proof (rule parsePart_cases [OF c, of low high])
    fix a b k
    assume "parsePart part low high = map_option Inr (rangeOf a b k)" and ab: "low \<le> a" "b \<le> high"
      and k1: "1 \<le> k" and k: "k = 1 \<or> atoi stepText = Some k"
    with assms(1) have r: "rangeOf a b k = Some vs"
      by auto
    have "k \<le> max_int64 - 63"
      using k assms(4) c by (auto simp: max_int64_def)
    from rangeOf_bounds [OF r k1 this] ab assms(2,3) show ?thesis
      using progression_subset [of low a b high k] by auto
  qed (use assms(1) in auto)
qed

lemma parseParts_bounds:
  assumes "parseParts parts low high out = Some (Inr vs)" and "0 \<le> low" and "high \<le> 63"
    and "\<forall>part \<in> set parts.
           case cut_at (CHR ''/'') part of
             (_, stepText, _) \<Rightarrow>
               (case atoi stepText of None \<Rightarrow> True | Some k \<Rightarrow> k \<le> max_int64 - 63)"
    and "set out \<subseteq> {low..high}"
  shows "set vs \<subseteq> {low..high}"
  using assms
proof (induction parts low high out rule: parseParts.induct)
  case (1 low high out)
  then show ?case by simp
next
  case (2 part parts low high out)
  from "2.prems"(1) obtain ws where ws: "parsePart part low high = Some (Inr ws)"
    by (auto split: option.splits sum.splits)
  have "set ws \<subseteq> {low..high}"
    using parsePart_bounds [OF ws] "2.prems" by simp
  with 2 ws show ?case
    by simp
qed

lemma parseField_bounds:
  assumes "parseField field low high = Some (Inr vs)" and "0 \<le> low" and "high \<le> 63"
    and "small_steps field"
  shows "set vs \<subseteq> {low..high}" and "vs \<noteq> [] \<or> high < low"
proof -
  have "set vs \<subseteq> {low..high} \<and> (vs \<noteq> [] \<or> high < low)"
  proof (cases "field = ''*''")
    case True
    with assms(1) have r: "rangeOf low high 1 = Some vs"
      by (auto simp: parseField_def)
    with assms rangeOf_bounds [OF r] show ?thesis
      by (auto simp: progression_def max_int64_def)
  next
    case False
    with assms(1) have "parseParts (split_on (CHR '','') field) low high [] = Some (Inr vs)" "vs \<noteq> []"
      by (auto simp: parseField_def split: option.splits sum.splits if_splits)
    with assms parseParts_bounds [of _ low high "[]" vs] show ?thesis
      by (auto simp: small_steps_def)
  qed
  then show "set vs \<subseteq> {low..high}" and "vs \<noteq> [] \<or> high < low" by auto
qed

section \<open>Canonical spelling\<close>

lemma ParseSchedule_ok_iff:
  "ParseSchedule e = Some (Inr s) \<longleftrightarrow>
     (let fs = str_fields e in
        length fs = 5 \<and>
        parseField (fs ! 0) 0 59 = Some (Inr (Minutes s)) \<and>
        parseField (fs ! 1) 0 23 = Some (Inr (Hours s)) \<and>
        parseField (fs ! 2) 1 31 = Some (Inr (DaysOfMonth s)) \<and>
        parseField (fs ! 3) 1 12 = Some (Inr (Months s)) \<and>
        (\<exists>ds. parseField (fs ! 4) 0 7 = Some (Inr ds) \<and>
              DaysOfWeek s = map (\<lambda>d. if d = 7 then 0 else d) ds) \<and>
        dayOfMonthRestricted s = (fs ! 2 \<noteq> ''*'') \<and> dayOfWeekRestricted s = (fs ! 4 \<noteq> ''*''))"
  by (cases s) (auto simp: ParseSchedule_def with_field_def Let_def split: option.splits sum.splits)

lemma ParseSchedule_cong: "str_fields e = str_fields e' \<Longrightarrow> ParseSchedule e = ParseSchedule e'"
  by (simp add: ParseSchedule_def)

lemma str_fields_join: "(\<And>w. w \<in> set ws \<Longrightarrow> word_of is_space w) \<Longrightarrow> str_fields (join_with '' '' ws) = ws"
  unfolding str_fields_def by (rule fields_func_join) (auto simp: is_space_def)

lemma str_fields_words: "w \<in> set (str_fields e) \<Longrightarrow> word_of is_space w"
  unfolding str_fields_def by (rule fields_func_words)

lemma parsePart_itoa:
  assumes "low \<le> v" and "v \<le> high" and "0 \<le> low" and "v \<le> max_int64"
  shows "parsePart (itoa v) low high = Some (Inr [v])"
proof -
  have nn: "0 \<le> v" using assms by linarith
  have ns: "CHR ''/'' \<notin> set (itoa v)" "CHR ''-'' \<notin> set (itoa v)" "itoa v \<noteq> ''*''"
    using itoa_digits [OF nn] is_digit_not by (fastforce, fastforce, fastforce)
  show ?thesis
    using assms nn ns by (simp add: parsePart_def partValues_def cut_at_no_sep atoi_itoa)
qed

lemma parseParts_itoa:
  assumes "set vs \<subseteq> {low..high}" and "0 \<le> low" and "high \<le> max_int64"
  shows "parseParts (map itoa vs) low high out = Some (Inr (out @ vs))"
  using assms(1)
proof (induction vs arbitrary: out)
  case Nil
  then show ?case by simp
next
  case (Cons v vs)
  with assms(2,3) have "parsePart (itoa v) low high = Some (Inr [v])"
    by (intro parsePart_itoa) auto
  with Cons show ?case by simp
qed

lemma set_join_with: "set (join_with sep xs) \<subseteq> set sep \<union> (\<Union>x \<in> set xs. set x)"
  by (induction sep xs rule: join_with.induct) auto

lemma join_with_neq_Nil: "xs \<noteq> [] \<Longrightarrow> (\<And>x. x \<in> set xs \<Longrightarrow> x \<noteq> []) \<Longrightarrow> join_with sep xs \<noteq> []"
  by (induction sep xs rule: join_with.induct) auto

lemma joinValues_chars:
  "\<forall>v \<in> set vs. 0 \<le> v \<Longrightarrow> c \<in> set (joinValues vs) \<Longrightarrow> is_digit c \<or> c = CHR '',''"
  using set_join_with [of "'',''" "map itoa (sort (nub_seen [] vs))"]
  by (auto simp: joinValues_def set_nub_seen dest: itoa_digits)

lemma joinValues_word:
  assumes "vs \<noteq> []" and "\<forall>v \<in> set vs. 0 \<le> v"
  shows "word_of is_space (joinValues vs)" and "joinValues vs \<noteq> ''*''"
proof -
  have "set (sort (nub_seen [] vs)) \<noteq> {}"
    using assms(1) by (simp add: set_nub_seen)
  then have "map itoa (sort (nub_seen [] vs)) \<noteq> []"
    by (metis set_empty map_is_Nil_conv)
  then have "joinValues vs \<noteq> []"
    unfolding joinValues_def by (rule join_with_neq_Nil) auto
  moreover have "\<not> is_space c" if "c \<in> set (joinValues vs)" for c
    using joinValues_chars [OF assms(2) that] is_digit_not(6) by (auto simp: is_space_def)
  ultimately show "word_of is_space (joinValues vs)"
    by (auto simp: word_of_def)
  show "joinValues vs \<noteq> ''*''"
    using joinValues_chars [OF assms(2), of "CHR ''*''"] is_digit_not by auto
qed

lemma parseField_joinValues:
  assumes "vs \<noteq> []" and "set vs \<subseteq> {low..high}" and "0 \<le> low" and "high \<le> max_int64"
  shows "parseField (joinValues vs) low high = Some (Inr (sort (nub_seen [] vs)))"
proof -
  let ?ns = "sort (nub_seen [] vs)"
  have nn: "\<forall>v \<in> set vs. 0 \<le> v"
    using assms by auto
  have set: "set ?ns = set vs"
    by (simp add: set_nub_seen)
  then have ne: "?ns \<noteq> []"
    using assms(1) by (metis set_empty)
  have "split_on (CHR '','') (joinValues vs) = map itoa ?ns"
    unfolding joinValues_def
  proof (rule split_on_join)
    show "map itoa ?ns \<noteq> []" using ne by simp
  next
    fix x assume "x \<in> set (map itoa ?ns)"
    then obtain v where v: "v \<in> set vs" "x = itoa v"
      using set by auto
    with nn itoa_digits [of v] is_digit_not(1) show "CHR '','' \<notin> set x"
      by auto
  qed
  moreover have "parseParts (map itoa ?ns) low high [] = Some (Inr ?ns)"
    using assms set by (subst parseParts_itoa) auto
  ultimately show ?thesis
    using joinValues_word(2) [OF assms(1) nn] ne by (simp add: parseField_def)
qed

lemma Matches_cong:
  assumes "Minutes s = Minutes s'" and "Hours s = Hours s'" and "Months s = Months s'"
    and "DaysOfMonth s = DaysOfMonth s'" and "set (DaysOfWeek s) = set (DaysOfWeek s')"
    and "dayOfMonthRestricted s = dayOfMonthRestricted s'"
    and "dayOfWeekRestricted s = dayOfWeekRestricted s'"
  shows "Matches s t = Matches s' t"
  using assms by (simp add: Matches_def contains_iff)

lemma DaysOfWeek_range:
  assumes ok: "ParseSchedule e = Some (Inr s)" and steps: "small_steps (str_fields e ! 4)"
  shows "set (DaysOfWeek s) \<subseteq> {0..6}" and "DaysOfWeek s \<noteq> []"
proof -
  from ok obtain ds where ds: "parseField (str_fields e ! 4) 0 7 = Some (Inr ds)"
    and dow: "DaysOfWeek s = map (\<lambda>d. if d = 7 then 0 else d) ds"
    by (auto simp: ParseSchedule_ok_iff Let_def)
  have "set ds \<subseteq> {0..7}" "ds \<noteq> []"
    using parseField_bounds [OF ds _ _ steps] by auto
  then show "set (DaysOfWeek s) \<subseteq> {0..6}" and "DaysOfWeek s \<noteq> []"
    by (auto simp: dow)
qed

lemma ParseSchedule_rewritten:
  assumes ok: "ParseSchedule e = Some (Inr s)" and star: "str_fields e ! 4 \<noteq> ''*''"
    and range: "set (DaysOfWeek s) \<subseteq> {0..6}" and ne: "DaysOfWeek s \<noteq> []"
    and e': "str_fields e' = (str_fields e)[4 := joinValues (DaysOfWeek s)]"
  shows "ParseSchedule e' = Some (Inr (s\<lparr>DaysOfWeek := sort (nub_seen [] (DaysOfWeek s))\<rparr>))"
proof -
  let ?ns = "sort (nub_seen [] (DaysOfWeek s))"
  have "parseField (joinValues (DaysOfWeek s)) 0 7 = Some (Inr ?ns)"
    using ne range by (intro parseField_joinValues) (auto simp: max_int64_def)
  moreover have "map (\<lambda>d. if d = 7 then 0 else d) ?ns = ?ns"
    using range by (intro map_idI) (auto simp: set_nub_seen)
  moreover have "joinValues (DaysOfWeek s) \<noteq> ''*''"
    using ne range by (intro joinValues_word) auto
  ultimately show ?thesis
    using ok star by (auto simp: ParseSchedule_ok_iff Let_def e')
qed

lemma Canonical_fields:
  assumes can: "Canonical e = Some (Inr e')" and ok: "ParseSchedule e = Some (Inr s)"
    and steps: "small_steps (str_fields e ! 4)"
  shows "str_fields e' =
           (if str_fields e ! 4 = ''*'' then str_fields e
            else (str_fields e)[4 := joinValues (DaysOfWeek s)])"
proof -
  let ?fs = "str_fields e"
  have v: "word_of is_space (joinValues (DaysOfWeek s))"
    using DaysOfWeek_range [OF ok steps] by (intro joinValues_word) auto
  have "word_of is_space w" if "w \<in> set (?fs[4 := joinValues (DaysOfWeek s)])" for w
  proof -
    from that have "w = joinValues (DaysOfWeek s) \<or> w \<in> set ?fs"
      using set_update_subset_insert [of ?fs 4] by auto
    with v str_fields_words show ?thesis by auto
  qed
  then have "str_fields (join_with '' '' (?fs[4 := joinValues (DaysOfWeek s)])) =
      ?fs[4 := joinValues (DaysOfWeek s)]"
    by (rule str_fields_join)
  moreover have "str_fields (join_with '' '' ?fs) = ?fs"
    using str_fields_words by (rule str_fields_join)
  ultimately show ?thesis
    using can ok by (simp add: Canonical_def Let_def split: if_splits)
qed

lemma Canonical_equiv:
  assumes can: "Canonical e = Some (Inr e')" and steps: "small_steps (str_fields e ! 4)"
  shows "\<exists>s s'. ParseSchedule e = Some (Inr s) \<and> ParseSchedule e' = Some (Inr s') \<and>
           (\<forall>t. Matches s' t = Matches s t)"
proof -
  from can obtain s where ok: "ParseSchedule e = Some (Inr s)"
    by (auto simp: Canonical_def split: option.splits sum.splits)
  note range = DaysOfWeek_range [OF ok steps] and fs = Canonical_fields [OF can ok steps]
  show ?thesis
  proof (cases "str_fields e ! 4 = ''*''")
    case True
    with fs ok have "ParseSchedule e' = Some (Inr s)"
      using ParseSchedule_cong [of e' e] by simp
    with ok show ?thesis by blast
  next
    case False
    with fs have "ParseSchedule e' = Some (Inr (s\<lparr>DaysOfWeek := sort (nub_seen [] (DaysOfWeek s))\<rparr>))"
      using ok range by (intro ParseSchedule_rewritten) auto
    moreover have "Matches (s\<lparr>DaysOfWeek := sort (nub_seen [] (DaysOfWeek s))\<rparr>) t = Matches s t" for t
      by (rule Matches_cong) (simp_all add: set_nub_seen)
    ultimately show ?thesis using ok by blast
  qed
qed

lemma nub_seen_id: "distinct xs \<Longrightarrow> set xs \<inter> set seen = {} \<Longrightarrow> nub_seen seen xs = xs"
  by (induction xs arbitrary: seen) auto

lemma joinValues_idem: "joinValues (sort (nub_seen [] vs)) = joinValues vs"
  by (simp add: joinValues_def nub_seen_id distinct_nub_seen sorted_sort_id)

lemma Canonical_idem:
  assumes can: "Canonical e = Some (Inr e')" and steps: "small_steps (str_fields e ! 4)"
  shows "Canonical e' = Some (Inr e')"
proof -
  from can obtain s where ok: "ParseSchedule e = Some (Inr s)"
    by (auto simp: Canonical_def split: option.splits sum.splits)
  note range = DaysOfWeek_range [OF ok steps] and fs = Canonical_fields [OF can ok steps]
  have len: "length (str_fields e) = 5"
    using ok by (simp add: ParseSchedule_ok_iff Let_def)
  show ?thesis
  proof (cases "str_fields e ! 4 = ''*''")
    case True
    with fs ok can ParseSchedule_cong [of e' e] show ?thesis
      by (simp add: Canonical_def)
  next
    case False
    with fs have "ParseSchedule e' = Some (Inr (s\<lparr>DaysOfWeek := sort (nub_seen [] (DaysOfWeek s))\<rparr>))"
      using ok range by (intro ParseSchedule_rewritten) auto
    moreover have "joinValues (DaysOfWeek s) \<noteq> ''*''"
      using range by (intro joinValues_word) auto
    ultimately show ?thesis
      using False fs can ok len by (simp add: Canonical_def joinValues_idem Let_def)
  qed
qed

section \<open>The search for the next run\<close>

lemma Matches_minute: "minute_index t = minute_index u \<Longrightarrow> Matches s t = Matches s u"
  by (simp add: Matches_def t_minute_def t_hour_def t_day_def t_month_def t_weekday_def
      day_of_minute_index)

lemma nextCandidate_correct:
  fixes i l :: int
  shows "case nextCandidate s (i * minute) l of
     Some t \<Rightarrow> \<exists>j. i \<le> j \<and> t = j * minute \<and> t < l \<and> Matches s t \<and>
                  (\<forall>k. i \<le> k \<and> k < j \<longrightarrow> \<not> Matches s (k * minute))
   | None \<Rightarrow> \<forall>k. i \<le> k \<and> k * minute < l \<longrightarrow> \<not> Matches s (k * minute)"
proof (induction "nat (l - i * minute)" arbitrary: i rule: less_induct)
  case less
  have next': "i * minute + minute = (i + 1) * minute"
    by (simp add: algebra_simps)
  show ?case
  proof (cases "i * minute < l \<and> \<not> Matches s (i * minute)")
    case False
    have "k * minute \<ge> i * minute" if "i \<le> k" for k
      using that by (simp add: duration_defs)
    note le = this
    show ?thesis
    proof (cases "i * minute < l")
      case True
      with False have "nextCandidate s (i * minute) l = Some (i * minute)"
        by (subst nextCandidate.simps) simp
      with True False show ?thesis by auto
    next
      case False
      then have "nextCandidate s (i * minute) l = None"
        by (subst nextCandidate.simps) simp
      moreover have "\<not> k * minute < l" if "i \<le> k" for k
        using False le [OF that] by linarith
      ultimately show ?thesis by auto
    qed
  next
    case True
    have "nat (l - (i + 1) * minute) < nat (l - i * minute)"
      using True by (simp add: duration_defs)
    from less.hyps [OF this] have IH: "case nextCandidate s ((i + 1) * minute) l of
       Some t \<Rightarrow> \<exists>j. i + 1 \<le> j \<and> t = j * minute \<and> t < l \<and> Matches s t \<and>
                    (\<forall>k. i + 1 \<le> k \<and> k < j \<longrightarrow> \<not> Matches s (k * minute))
     | None \<Rightarrow> \<forall>k. i + 1 \<le> k \<and> k * minute < l \<longrightarrow> \<not> Matches s (k * minute)" .
    have eq: "nextCandidate s (i * minute) l = nextCandidate s ((i + 1) * minute) l"
      using True by (subst nextCandidate.simps) (simp add: next')
    have step: "i + 1 \<le> k" if "i \<le> k" "Matches s (k * minute)" for k
      using that True by (cases "k = i") auto
    show ?thesis
    proof (cases "nextCandidate s ((i + 1) * minute) l")
      case None
      with IH step show ?thesis by (auto simp: eq)
    next
      case (Some t)
      with IH obtain j where "i + 1 \<le> j" "t = j * minute" "t < l" "Matches s t"
        "\<forall>k. i + 1 \<le> k \<and> k < j \<longrightarrow> \<not> Matches s (k * minute)"
        by auto
      with step Some show ?thesis
        by (auto simp: eq intro!: exI [of _ j])
    qed
  qed
qed

lemma truncate_next: "truncate_minute after + minute = (minute_index after + 1) * minute"
  by (simp add: truncate_minute_def algebra_simps)

lemma minute_index_le_iff: "k \<le> minute_index u \<longleftrightarrow> k * minute \<le> u"
proof
  assume "k \<le> minute_index u"
  then have "k * minute \<le> minute_index u * minute"
    by (simp add: mult_right_mono)
  also have "\<dots> \<le> u"
    using truncate_minute_bounds(1) [of u] by (simp add: truncate_minute_def)
  finally show "k * minute \<le> u" .
next
  assume "k * minute \<le> u"
  then have "minute_index (k * minute) \<le> minute_index u"
    unfolding minute_index_def by (rule zdiv_mono1) simp
  then show "k \<le> minute_index u" by simp
qed

lemma truncate_of_index: "minute_index (minute_index u * minute) = minute_index u"
  by simp

lemma Matches_truncate: "Matches s (minute_index u * minute) = Matches s u"
  by (rule Matches_minute) simp

lemma NextRun_found:
  assumes "NextRun e after = Some (Inr t)"
  shows "DueNow e t = Some True" and "after < t" and "minute dvd t"
    and "minute_index after < minute_index u \<Longrightarrow> u < t \<Longrightarrow> DueNow e u = Some False"
proof -
  let ?i = "minute_index after + 1"
  from assms obtain s where ok: "ParseSchedule e = Some (Inr s)"
    and c: "nextCandidate s (?i * minute) (add_years 5 (?i * minute)) = Some t"
    by (auto simp: NextRun_def Let_def truncate_next split: option.splits sum.splits)
  from nextCandidate_correct [where s = s and i = ?i and l = "add_years 5 (?i * minute)"] c
  obtain j where j: "?i \<le> j" "t = j * minute" "Matches s t"
    and first: "\<And>k. ?i \<le> k \<Longrightarrow> k < j \<Longrightarrow> \<not> Matches s (k * minute)"
    by auto
  show "DueNow e t = Some True"
    using ok j by (simp add: DueNow_def)
  have "minute_index after < minute_index t"
    using j by simp
  then show "after < t"
    unfolding minute_index_def by (metis linorder_not_less zdiv_mono1 minute_pos(1))
  show "minute dvd t"
    using j by simp
  assume u: "minute_index after < minute_index u" "u < t"
  have "minute_index u < j"
    using u(2) j(2) minute_index_le_iff [of j u] by linarith
  with first [of "minute_index u"] u(1) have "\<not> Matches s u"
    by (simp add: Matches_truncate)
  with ok show "DueNow e u = Some False"
    by (simp add: DueNow_def)
qed

lemma NextRun_never:
  assumes "NextRun e after = Some (Inl NeverFires)"
    and "minute_index after < minute_index u"
    and "u < add_years 5 (truncate_minute after + minute)"
  shows "DueNow e u = Some False"
proof -
  let ?i = "minute_index after + 1"
  have nf: "ParseSchedule e' \<noteq> Some (Inl NeverFires)" for e'
    by (auto simp: ParseSchedule_def with_field_def Let_def split: option.splits sum.splits)
  from assms(1) nf obtain s where ok: "ParseSchedule e = Some (Inr s)"
    and c: "nextCandidate s (?i * minute) (add_years 5 (?i * minute)) = None"
    by (auto simp: NextRun_def Let_def truncate_next split: option.splits sum.splits)
  have "minute_index u * minute < add_years 5 (?i * minute)"
    using truncate_minute_bounds(1) [of u] assms(3) by (simp add: truncate_minute_def truncate_next [symmetric])
  with nextCandidate_correct [where s = s and i = ?i and l = "add_years 5 (?i * minute)"] c assms(2)
  have "\<not> Matches s (minute_index u * minute)"
    by auto
  with ok show ?thesis
    by (simp add: DueNow_def Matches_truncate)
qed

section \<open>The longest gap\<close>

text \<open>2100 is not a leap year: the next 29 February after 2096 is in 2104.\<close>

lemma doy_of_29:
  fixes doy :: int
  assumes "snd (y, if (5 * doy + 2) div 153 < 10 then (5 * doy + 2) div 153 + 3 else (5 * doy + 2) div 153 - 9,
       doy - (153 * ((5 * doy + 2) div 153) + 2) div 5 + 1) = (2, 29)"
  shows "doy = 365 \<or> doy = - 3"
proof -
  have "(5 * doy + 2) div 153 = 11 \<or> (5 * doy + 2) div 153 = - 1"
    using assms by (auto split: if_splits)
  with assms show ?thesis by auto
qed

lemma no_29_February:
  assumes "46081 \<le> d" and "d < 47906"
  shows "snd (civil_from_days d) \<noteq> (2, 29)"
proof
  assume feb: "snd (civil_from_days d) = (2, 29)"
  define doe where "doe = d - 11017"
  have era: "(d + 719468) mod 146097 = doe"
  proof -
    have "d + 719468 = doe + 5 * 146097" "0 \<le> doe" "doe < 146097"
      using assms by (simp_all add: doe_def)
    then show ?thesis
      by (simp only: mod_mult_self1 mod_pos_pos_trivial)
  qed
  have b: "35064 \<le> doe" "doe \<le> 36888"
    using assms by (simp_all add: doe_def)
  define yoe where "yoe = (doe - doe div 1460 + doe div 36524 - doe div 146096) div 365"
  define doy where "doy = doe - (365 * yoe + yoe div 4 - yoe div 100)"
  have mono: "lo div k \<le> x div k" "x div k \<le> hi div k" if "lo \<le> x" "x \<le> hi" "0 < k" for x lo hi k :: int
    using that by (simp_all add: zdiv_mono1)
  have q: "24 \<le> doe div 1460" "doe div 1460 \<le> 25" "0 \<le> doe div 36524" "doe div 36524 \<le> 1"
    "doe div 146096 = 0"
    using b mono [OF b, of 1460] mono [OF b, of 36524] by simp_all
  have "35039 \<le> doe - doe div 1460 + doe div 36524 - doe div 146096"
    "doe - doe div 1460 + doe div 36524 - doe div 146096 \<le> 36866"
    using q b by linarith+
  from mono [OF this, of 365] q(5) have "95 \<le> yoe" "yoe \<le> 101"
    by (simp_all add: yoe_def)
  then have yoe: "yoe = 95 \<or> yoe = 96 \<or> yoe = 97 \<or> yoe = 98 \<or> yoe = 99 \<or> yoe = 100 \<or> yoe = 101"
    by linarith
  have "doy = 365 \<or> doy = - 3"
    using feb unfolding civil_from_days_def Let_def era yoe_def [symmetric] doy_def [symmetric]
    by (rule doy_of_29)
  then have "doe = 365 + (365 * yoe + yoe div 4 - yoe div 100) \<or>
      doe = (365 * yoe + yoe div 4 - yoe div 100) - 3"
    by (auto simp: doy_def)
  moreover have "yoe = (doe - doe div 1460 + doe div 36524) div 365"
    using q by (simp add: yoe_def)
  ultimately show False
    using yoe b by (elim disjE) simp_all
qed

lemma parse_leap_day: "ParseSchedule ''0 0 29 2 *'' = Some (Inr leap_day_schedule)"
  by code_simp

lemma leap_day_gap:
  "nextCandidate leap_day_schedule (66356640 * minute) (68984640 * minute) = None"
proof (rule ccontr)
  assume "nextCandidate leap_day_schedule (66356640 * minute) (68984640 * minute) \<noteq> None"
  then obtain t where "nextCandidate leap_day_schedule (66356640 * minute) (68984640 * minute) = Some t"
    by auto
  with nextCandidate_correct [where s = leap_day_schedule and i = 66356640 and l = "68984640 * minute"]
  obtain j where j: "66356640 \<le> j" "t = j * minute" "t < 68984640 * minute" "Matches leap_day_schedule t"
    by auto
  then have lt: "j < 68984640"
    by (simp add: duration_defs)
  have d: "day_index t = j div 1440"
    using j by (simp add: day_of_minute_index)
  have "46081 \<le> j div 1440" "j div 1440 < 47906"
    using j(1) lt zdiv_mono1 [of 66356640 j 1440] zdiv_mono1 [of j 68984639 1440] by simp_all
  then have "snd (civil_from_days (day_index t)) \<noteq> (2, 29)"
    unfolding d by (rule no_29_February)
  with j(4) show False
    by (auto simp: Matches_def leap_day_schedule_def t_month_def t_day_def prod_eq_iff split: if_splits)
qed

lemma NextRun_leap_day:
  "NextRun ''0 0 29 2 *'' (66356639 * minute) = Some (Inl NeverFires)"
proof -
  have c: "truncate_minute (66356639 * minute) + minute = 66356640 * minute"
    by (simp add: truncate_minute_def duration_defs minute_index_def)
  have l: "add_years 5 (66356640 * minute) = 68984640 * minute"
    by code_simp
  show ?thesis
    by (simp add: NextRun_def parse_leap_day c l leap_day_gap Let_def)
qed

lemma DueNow_leap_day: "DueNow ''0 0 29 2 *'' (49001 * 24 * hour) = Some True"
  by code_simp

section \<open>Writing a field and reading it back\<close>

lemma itoa_clean:
  "0 \<le> v \<Longrightarrow> CHR ''/'' \<notin> set (itoa v) \<and> CHR ''-'' \<notin> set (itoa v) \<and> CHR '','' \<notin> set (itoa v) \<and> CHR ''*'' \<notin> set (itoa v)"
  using itoa_digits is_digit_not by blast

lemma show_form_clean:
  "valid_form low high f \<Longrightarrow> 0 \<le> low \<Longrightarrow> CHR ''/'' \<notin> set (show_form f) \<and> CHR '','' \<notin> set (show_form f)"
  by (cases f) (auto simp: itoa_clean)

lemma rangeOf_progression:
  assumes "0 \<le> v" and "high \<le> 63" and "1 \<le> k" and "k \<le> max_int64 - 63"
  obtains vs where "rangeOf v high k = Some vs" and "set vs = progression v high k"
  using rangeOf_no_wrap [of k high v] assms by (force simp: min_int64_def)

lemma partValues_show:
  assumes "valid_form low high f" and "0 \<le> low" and "high \<le> 63" and "1 \<le> k" and "k \<le> max_int64 - 63"
  shows "\<exists>vs. partValues (show_form f) low high k = Some (Inr vs) \<and>
              set vs = denote_part low high (f, Some k)"
proof (cases f)
  case PStar
  from rangeOf_progression [OF assms(2-5)] obtain vs
    where "rangeOf low high k = Some vs" "set vs = progression low high k" .
  with PStar show ?thesis by (simp add: partValues_def)
next
  case (PRange a b)
  then have ab: "low \<le> a" "a \<le> b" "b \<le> high" "0 \<le> a" "0 \<le> b" "a \<le> max_int64" "b \<le> max_int64"
    using assms by (auto simp: max_int64_def)
  then have cut: "cut_at (CHR ''-'') (show_form f) = (itoa a, itoa b, True)"
    using itoa_clean [of a] cut_at_append_sep [of "CHR ''-''" "itoa a" "itoa b"] by (simp add: PRange)
  have ne: "show_form f \<noteq> ''*''"
    using itoa_clean [of a] ab by (cases "itoa a") (auto simp: PRange)
  obtain vs where "rangeOf a b k = Some vs" "set vs = progression a b k"
    using rangeOf_progression [of a b k] ab assms by auto
  with ab cut ne atoi_itoa show ?thesis
    by (simp add: partValues_def PRange)
next
  case (PSingle v)
  then have v: "low \<le> v" "v \<le> high" "0 \<le> v" "v \<le> max_int64"
    using assms by (auto simp: max_int64_def)
  have ne: "show_form f \<noteq> ''*''" "CHR ''-'' \<notin> set (show_form f)"
    using itoa_clean [of v] v by (auto simp: PSingle)
  obtain vs where "rangeOf v high k = Some vs" "set vs = progression v high k"
    using rangeOf_progression [of v high k] v assms by auto
  with v ne atoi_itoa [of v] assms show ?thesis
    by (auto simp: partValues_def PSingle)
qed

lemma parsePart_show:
  assumes "valid_part low high p" and "0 \<le> low" and "high \<le> 63"
  shows "\<exists>vs. parsePart (show_part p) low high = Some (Inr vs) \<and> set vs = denote_part low high p"
proof -
  obtain f ko where p: "p = (f, ko)" by (cases p)
  have f: "valid_form low high f"
    using assms(1) by (simp add: p)
  note clean = show_form_clean [OF f assms(2)]
  show ?thesis
  proof (cases ko)
    case None
    have "denote_part low high (f, Some 1) = denote_part low high p"
      by (cases f) (auto simp: p None)
    with partValues_show [OF f assms(2,3), of 1] clean show ?thesis
      by (simp add: p None parsePart_def cut_at_no_sep max_int64_def)
  next
    case (Some k)
    then have k: "1 \<le> k" "k \<le> max_int64 - 63"
      using assms(1) by (auto simp: p)
    have "atoi (itoa k) = Some k"
      using k by (intro atoi_itoa) auto
    with partValues_show [OF f assms(2,3) k] clean k show ?thesis
      by (simp add: p Some parsePart_def cut_at_append_sep)
  qed
qed

lemma parseParts_show:
  assumes "\<forall>p \<in> set ps. valid_part low high p" and "0 \<le> low" and "high \<le> 63"
  shows "\<exists>vs. parseParts (map show_part ps) low high out = Some (Inr vs) \<and>
              set vs = set out \<union> (\<Union>p \<in> set ps. denote_part low high p)"
  using assms(1)
proof (induction ps arbitrary: out)
  case Nil
  then show ?case by simp
next
  case (Cons p ps)
  then obtain vs where vs: "parsePart (show_part p) low high = Some (Inr vs)"
    "set vs = denote_part low high p"
    using parsePart_show [OF _ assms(2,3), of p] by auto
  from Cons obtain ws where "parseParts (map show_part ps) low high (out @ vs) = Some (Inr ws)"
    "set ws = set (out @ vs) \<union> (\<Union>p \<in> set ps. denote_part low high p)"
    by (metis list.set_intros(2))
  with vs show ?case by auto
qed

lemma denote_part_neq_empty: "valid_part low high p \<Longrightarrow> low \<le> high \<Longrightarrow> denote_part low high p \<noteq> {}"
  by (induction low high p rule: denote_part.induct) (auto simp: progression_def)

lemma show_part_no_comma:
  assumes "valid_part low high p" and "0 \<le> low"
  shows "CHR '','' \<notin> set (show_part p)"
proof -
  obtain f ko where p: "p = (f, ko)" by (cases p)
  with assms show_form_clean [of low high f] itoa_clean show ?thesis
    by (cases ko) auto
qed

lemma parseField_show:
  assumes "ps \<noteq> []" and "\<forall>p \<in> set ps. valid_part low high p" and "0 \<le> low" and "low \<le> high" and "high \<le> 63"
  shows "\<exists>vs. parseField (join_with '','' (map show_part ps)) low high = Some (Inr vs) \<and>
              set vs = (\<Union>p \<in> set ps. denote_part low high p)"
proof -
  let ?field = "join_with '','' (map show_part ps)"
  have sp: "split_on (CHR '','') ?field = map show_part ps"
    using assms(1,2) show_part_no_comma [OF _ assms(3)] by (intro split_on_join) (auto simp del: valid_part.simps)
  from parseParts_show [OF assms(2,3,5), of "[]"] obtain vs
    where vs: "parseParts (map show_part ps) low high [] = Some (Inr vs)"
      "set vs = (\<Union>p \<in> set ps. denote_part low high p)"
    by auto
  show ?thesis
  proof (cases "?field = ''*''")
    case True
    with sp vs have "parsePart ''*'' low high = Some (Inr vs)"
      by (auto split: option.splits sum.splits)
    then have "rangeOf low high 1 = Some vs"
      by (auto simp: parsePart_def partValues_def)
    with True vs show ?thesis by (simp add: parseField_def)
  next
    case False
    obtain p where "p \<in> set ps"
      using assms(1) by (cases ps) auto
    with assms vs denote_part_neq_empty [of low high p] have "vs \<noteq> []"
      by fastforce
    with False sp vs show ?thesis by (simp add: parseField_def)
  qed
qed

section \<open>Findings\<close>

text \<open>The comment of NextRun says that five years cover the longest gap a schedule can have. From 1
  March 2096 the next 29 February is eight years away, because 2100 is not a leap year: NextRun
  answers that the schedule never fires, and it is due on 29 February 2104.\<close>

lemma NextRun_misses_2104:
  "NextRun ''0 0 29 2 *'' (66356639 * minute) = Some (Inl NeverFires)"
  "DueNow ''0 0 29 2 *'' (49001 * 24 * hour) = Some True"
  by (rule NextRun_leap_day) (rule DueNow_leap_day)

text \<open>A step near the end of the integers makes the loop of rangeOf wrap: values outside the field
  appear, and the canonical spelling is one that the parser itself refuses.\<close>

lemma rangeOf_overflow:
  "parseField ''1/9223372036854775807'' 0 7 = Some (Inr [1, - 9223372036854775808, - 1])"
  "Canonical ''0 3 1 1 1/9223372036854775807'' = Some (Inr ''0 3 1 1 -9223372036854775808,-1,1'')"
  "ParseSchedule ''0 3 1 1 -9223372036854775808,-1,1'' = Some (Inl (InField DayOfWeekField (NotNumber [])))"
  by code_simp+

text \<open>A single value with a step runs to the end of the field, but not with a step of one.\<close>

lemma single_value_step_one:
  "parseField ''5/1'' 0 7 = Some (Inr [5])"
  "parseField ''5/2'' 0 7 = Some (Inr [5, 7])"
  "parseField ''5-7/1'' 0 7 = Some (Inr [5, 6, 7])"
  by code_simp+

section \<open>Properties\<close>

text \<open>C23: the parser returns for every string, a schedule or an error: no loop of it runs for ever,
  whatever step the text asks for, although the loop variable of rangeOf can wrap around.\<close>

theorem ParseSchedule_total: "\<exists>r. ParseSchedule e = Some r"
  using ParseSchedule_returns [of e] by simp





text \<open>C20: NextRun answers the first due minute after the given instant: it is due, it lies after the
  instant and on a whole minute, and nothing in between is due. When it answers that the schedule
  never fires, nothing is due in the five years it searched.\<close>

theorem NextRun_correct:
  "(NextRun e after = Some (Inr t) \<longrightarrow>
      DueNow e t = Some True \<and> after < t \<and> minute dvd t \<and>
      (\<forall>u. minute_index after < minute_index u \<and> u < t \<longrightarrow> DueNow e u = Some False)) \<and>
   (NextRun e after = Some (Inl NeverFires) \<longrightarrow>
      (\<forall>u. minute_index after < minute_index u \<and> u < add_years 5 (truncate_minute after + minute) \<longrightarrow>
           DueNow e u = Some False))"
  using NextRun_found NextRun_never by blast

lemma NextRun_correct_witness:
  "DueNow ''2 0 * * *'' (2 * minute) = Some True \<and> DueNow ''2 0 * * *'' minute = Some False \<and>
   DueNow ''0 0 29 2 *'' (66356640 * minute) = Some False"
proof -
  have "NextRun ''2 0 * * *'' 0 = Some (Inr (2 * minute))"
    by code_simp
  moreover have "minute_index 0 < minute_index minute" "minute < 2 * minute"
    "minute_index (66356639 * minute) < minute_index (66356640 * minute)"
    "66356640 * minute < add_years 5 (truncate_minute (66356639 * minute) + minute)"
    by code_simp+
  ultimately show ?thesis
    using NextRun_correct [of "''2 0 * * *''" 0 "2 * minute"]
      NextRun_correct [of "''0 0 29 2 *''" "66356639 * minute"] NextRun_leap_day by blast
qed

end
