(* ===== verification/Netip.thy ===== *)
theory Netip
  imports Go_Prelude
begin

text \<open>
  The part of package net/netip that the edge rules use: addresses, prefixes, and their text forms.
  An address is the zero value, 32 bits, or 128 bits with an optional zone, the bits as a number; the
  parsers follow the documented syntax of ParseAddr and ParsePrefix, None standing for an error, and
  are shown to yield numbers of the address's width.
\<close>

section \<open>Addresses and prefixes\<close>

datatype addr = InvalidAddr | V4 int | V6 int string

record ip_prefix =
  pfx_addr :: addr
  pfx_bits :: int

fun IsValid :: "addr \<Rightarrow> bool" where
  "IsValid InvalidAddr = False"
| "IsValid _ = True"

fun BitLen :: "addr \<Rightarrow> int" where
  "BitLen InvalidAddr = 0"
| "BitLen (V4 _) = 32"
| "BitLen (V6 _ _) = 128"

text \<open>::ffff:a.b.c.d is an IPv4 address written as IPv6.\<close>

definition is_4in6 :: "int \<Rightarrow> bool" where
  "is_4in6 w \<longleftrightarrow> w div 2 ^ 32 = 0xffff"

fun Unmap :: "addr \<Rightarrow> addr" where
  "Unmap (V6 w z) = (if is_4in6 w then V4 (w mod 2 ^ 32) else V6 w z)"
| "Unmap a = a"

fun has_zone :: "addr \<Rightarrow> bool" where
  "has_zone (V6 _ z) = (z \<noteq> [])"
| "has_zone _ = False"

text \<open>Prefix.Contains: the same family, no zone, and the leading bits equal.\<close>

fun same_leading :: "int \<Rightarrow> addr \<Rightarrow> addr \<Rightarrow> bool" where
  "same_leading n (V4 a) (V4 b) = (a div 2 ^ nat (32 - n) = b div 2 ^ nat (32 - n))"
| "same_leading n (V6 a _) (V6 b _) = (a div 2 ^ nat (128 - n) = b div 2 ^ nat (128 - n))"
| "same_leading n _ _ = False"

definition prefix_valid :: "ip_prefix \<Rightarrow> bool" where
  "prefix_valid p \<longleftrightarrow> 0 < BitLen (pfx_addr p) \<and> 0 \<le> pfx_bits p \<and> pfx_bits p \<le> BitLen (pfx_addr p)"

definition prefix_contains :: "ip_prefix \<Rightarrow> addr \<Rightarrow> bool" where
  "prefix_contains p ip \<longleftrightarrow>
     prefix_valid p \<and> \<not> has_zone ip \<and> same_leading (pfx_bits p) (pfx_addr p) ip"

section \<open>Text forms\<close>

text \<open>Four decimal numbers of at most three digits, none with a leading zero, none above 255.\<close>

definition parse_octet :: "string \<Rightarrow> int option" where
  "parse_octet s =
     (if s = [] \<or> (length s > 1 \<and> hd s = CHR ''0'') \<or> length s > 3 then None
      else (case digits_val 0 s of None \<Rightarrow> None | Some n \<Rightarrow> if n \<le> 255 then Some n else None))"

fun octets_val :: "int \<Rightarrow> string list \<Rightarrow> int option" where
  "octets_val acc [] = Some acc"
| "octets_val acc (s # ss) =
     (case parse_octet s of None \<Rightarrow> None | Some n \<Rightarrow> octets_val (256 * acc + n) ss)"

definition parse_ipv4_fields :: "string \<Rightarrow> int option" where
  "parse_ipv4_fields s =
     (let parts = split_on (CHR ''.'') s in if length parts = 4 then octets_val 0 parts else None)"

definition hex_digit :: "char \<Rightarrow> int option" where
  "hex_digit c =
     (let n = of_char c :: int
      in if 48 \<le> n \<and> n \<le> 57 then Some (n - 48)
         else if 97 \<le> n \<and> n \<le> 102 then Some (n - 87)
         else if 65 \<le> n \<and> n \<le> 70 then Some (n - 55)
         else None)"

fun hex_val :: "int \<Rightarrow> string \<Rightarrow> int option" where
  "hex_val acc [] = Some acc"
| "hex_val acc (c # cs) =
     (case hex_digit c of None \<Rightarrow> None | Some d \<Rightarrow> hex_val (16 * acc + d) cs)"

text \<open>A list of 16-bit groups separated by colons; the last may be an embedded IPv4 address,
  which stands for two groups.\<close>

fun parse_groups :: "string list \<Rightarrow> int list option" where
  "parse_groups [] = Some []"
| "parse_groups (s # ss) =
     (if s = [] then None
      else if ss = [] \<and> CHR ''.'' \<in> set s
        then (case parse_ipv4_fields s of None \<Rightarrow> None | Some n \<Rightarrow> Some [n div 65536, n mod 65536])
      else if length s > 4 then None
      else (case hex_val 0 s of
              None \<Rightarrow> None
            | Some g \<Rightarrow> (case parse_groups ss of None \<Rightarrow> None | Some gs \<Rightarrow> Some (g # gs))))"

text \<open>The text around the first double colon, if there is one.\<close>

fun cut_ellipsis :: "string \<Rightarrow> string \<times> string \<times> bool" where
  "cut_ellipsis (c # d # s) =
     (if c = CHR '':'' \<and> d = CHR '':'' then ([], s, True)
      else (case cut_ellipsis (d # s) of (b, a, f) \<Rightarrow> (c # b, a, f)))"
| "cut_ellipsis s = (s, [], False)"

definition groups_of :: "string \<Rightarrow> int list option" where
  "groups_of s = (if s = [] then Some [] else parse_groups (split_on (CHR '':'') s))"

fun groups_word :: "int \<Rightarrow> int list \<Rightarrow> int" where
  "groups_word acc [] = acc"
| "groups_word acc (g # gs) = groups_word (65536 * acc + g) gs"

definition parse_ipv6_body :: "string \<Rightarrow> int option" where
  "parse_ipv6_body s =
     (case cut_ellipsis s of
        (front, back, True) \<Rightarrow>
          (case (if CHR ''.'' \<in> set front then None else groups_of front, groups_of back) of
             (Some gs, Some hs) \<Rightarrow>
               (if length gs + length hs \<le> 7
                then Some (groups_word 0 (gs @ replicate (8 - length gs - length hs) 0 @ hs))
                else None)
           | _ \<Rightarrow> None)
      | (_, _, False) \<Rightarrow>
          (case groups_of s of
             Some gs \<Rightarrow> if length gs = 8 then Some (groups_word 0 gs) else None
           | None \<Rightarrow> None))"

definition parse_ipv6 :: "string \<Rightarrow> addr option" where
  "parse_ipv6 s =
     (case cut_at (CHR ''%'') s of
        (body, zone, hasZone) \<Rightarrow>
          (if hasZone \<and> zone = [] then None
           else map_option (\<lambda>n. V6 n zone) (parse_ipv6_body body)))"

text \<open>ParseAddr decides by the first of the three telling characters.\<close>

fun parse_addr_by :: "string \<Rightarrow> string \<Rightarrow> addr option" where
  "parse_addr_by whole [] = None"
| "parse_addr_by whole (c # cs) =
     (if c = CHR ''.'' then map_option V4 (parse_ipv4_fields whole)
      else if c = CHR '':'' then parse_ipv6 whole
      else if c = CHR ''%'' then None
      else parse_addr_by whole cs)"

definition ParseAddr :: "string \<Rightarrow> addr option" where
  "ParseAddr s = parse_addr_by s s"

text \<open>ParsePrefix splits at the last slash, refuses a zone, a length with a sign or a leading zero,
  and a length longer than the address.\<close>

definition cut_last :: "char \<Rightarrow> string \<Rightarrow> string \<times> string \<times> bool" where
  "cut_last c s = (case cut_at c (rev s) of (b, a, f) \<Rightarrow> (rev a, rev b, f))"

definition ParsePrefix :: "string \<Rightarrow> ip_prefix option" where
  "ParsePrefix s =
     (case cut_last (CHR ''/'') s of
        (addrText, bitsText, found) \<Rightarrow>
          (if \<not> found then None
           else (case ParseAddr addrText of
                   None \<Rightarrow> None
                 | Some ip \<Rightarrow>
                     (if has_zone ip then None
                      else if length bitsText > 1 \<and> (hd bitsText = CHR ''0'' \<or> \<not> is_digit (hd bitsText)) then None
                      else (case atoi bitsText of
                              None \<Rightarrow> None
                            | Some n \<Rightarrow>
                                (if n < 0 \<or> n > BitLen ip then None
                                 else Some \<lparr>pfx_addr = ip, pfx_bits = n\<rparr>))))))"

text \<open>\<^verbatim>\<open>net.SplitHostPort\<close>, of which only the host is used.\<close>

definition splitHost :: "string \<Rightarrow> string option" where
  "splitHost hp = (if CHR '':'' \<notin> set hp then None
     else case cut_last (CHR '':'') hp of (host, port, _) \<Rightarrow>
       if hd hp = CHR ''['' then (case cut_at (CHR '']'') hp of (pre, post, closed) \<Rightarrow>
           if \<not> closed \<or> post \<noteq> CHR '':'' # port \<or> CHR ''['' \<in> set (tl hp) \<or> CHR '']'' \<in> set post then None else Some (tl pre))
       else if CHR '':'' \<in> set host \<or> CHR ''['' \<in> set hp \<or> CHR '']'' \<in> set hp then None else Some host)"

section \<open>Lemmas\<close>

lemma BitLen_cases: "BitLen a \<in> {0, 32, 128}"
  by (cases a) auto

lemma Unmap_valid [simp]: "IsValid (Unmap a) = IsValid a"
  by (cases a) auto

lemma Unmap_idem [simp]: "Unmap (Unmap a) = Unmap a"
  by (cases a) auto

lemma prefix_contains_family: "prefix_contains p ip \<Longrightarrow> BitLen (pfx_addr p) = BitLen ip"
  by (cases "pfx_addr p"; cases ip) (auto simp: prefix_contains_def)

lemma ParsePrefix_valid: "ParsePrefix s = Some p \<Longrightarrow> pfx_bits p \<le> BitLen (pfx_addr p) \<and> 0 \<le> pfx_bits p"
  by (auto simp: ParsePrefix_def Let_def split: prod.splits if_splits option.splits)

text \<open>The bits of a whole-address prefix leave one address.\<close>

lemma prefix_contains_full:
  "pfx_bits p = BitLen (pfx_addr p) \<Longrightarrow> prefix_contains p ip \<Longrightarrow> \<not> has_zone (pfx_addr p) \<Longrightarrow> ip = pfx_addr p"
  by (cases "pfx_addr p"; cases ip) (auto simp: prefix_contains_def)

text \<open>An address the parsers yield has the width of its family.\<close>

fun addr_wf :: "addr \<Rightarrow> bool" where
  "addr_wf InvalidAddr = True"
| "addr_wf (V4 w) = (0 \<le> w \<and> w < 2 ^ 32)"
| "addr_wf (V6 w _) = (0 \<le> w \<and> w < 2 ^ 128)"

lemma octets_val_bound:
  "0 \<le> acc \<Longrightarrow> acc < 256 ^ k \<Longrightarrow> octets_val acc ss = Some n \<Longrightarrow> 0 \<le> n \<and> n < 256 ^ (k + length ss)"
proof (induction ss arbitrary: acc k)
  case Nil
  then show ?case by simp
next
  case (Cons s ss)
  from Cons.prems(3) obtain d where d: "parse_octet s = Some d" and rest: "octets_val (256 * acc + d) ss = Some n"
    by (auto split: option.splits)
  have "0 \<le> d" "d \<le> 255"
    using d digits_val_nonneg [of 0 s] by (auto simp: parse_octet_def split: if_splits option.splits)
  moreover have "256 * acc + 255 < 256 ^ Suc k"
    using Cons.prems(2) by simp
  ultimately show ?case
    using Cons.IH [OF _ _ rest, of "Suc k"] Cons.prems(1) by (simp add: ac_simps)
qed

lemma parse_ipv4_bound: "parse_ipv4_fields s = Some n \<Longrightarrow> 0 \<le> n \<and> n < 2 ^ 32"
  using octets_val_bound [of 0 0 "split_on (CHR ''.'') s" n]
  by (auto simp: parse_ipv4_fields_def Let_def split: if_splits)

lemma hex_digit_bound: "hex_digit c = Some d \<Longrightarrow> 0 \<le> d \<and> d \<le> 15"
  by (auto simp: hex_digit_def Let_def split: if_splits)

lemma hex_val_bound:
  "0 \<le> acc \<Longrightarrow> acc < 16 ^ k \<Longrightarrow> hex_val acc s = Some n \<Longrightarrow> 0 \<le> n \<and> n < 16 ^ (k + length s)"
proof (induction s arbitrary: acc k)
  case Nil
  then show ?case by simp
next
  case (Cons c s)
  from Cons.prems(3) obtain d where d: "hex_digit c = Some d" and rest: "hex_val (16 * acc + d) s = Some n"
    by (auto split: option.splits)
  have "16 * acc + 15 < 16 ^ Suc k"
    using Cons.prems(2) by simp
  with hex_digit_bound [OF d] show ?case
    using Cons.IH [OF _ _ rest, of "Suc k"] Cons.prems(1) by (simp add: ac_simps)
qed

lemma parse_groups_bound: "parse_groups ss = Some gs \<Longrightarrow> g \<in> set gs \<Longrightarrow> 0 \<le> g \<and> g < 65536"
proof (induction ss arbitrary: gs rule: parse_groups.induct)
  case 1
  then show ?case by simp
next
  case (2 s ss)
  show ?case
  proof (cases "ss = [] \<and> CHR ''.'' \<in> set s")
    case True
    with 2 obtain n where "parse_ipv4_fields s = Some n" "gs = [n div 65536, n mod 65536]"
      by (auto split: if_splits option.splits)
    with "2.prems" parse_ipv4_bound [of s n] show ?thesis by auto
  next
    case False
    with "2.prems" obtain h hs where h: "hex_val 0 s = Some h" "length s \<le> 4" "s \<noteq> []"
      "parse_groups ss = Some hs" "gs = h # hs"
      by (auto split: if_splits option.splits)
    have "0 \<le> h \<and> h < 16 ^ length s"
      using hex_val_bound [of 0 0 s h] h by simp
    moreover have "(16::int) ^ length s \<le> 16 ^ 4"
      using h by (intro power_increasing) auto
    ultimately show ?thesis
      using 2 False h by (auto split: if_splits)
  qed
qed

lemma groups_word_bound:
  "0 \<le> acc \<Longrightarrow> acc < 65536 ^ k \<Longrightarrow> \<forall>g \<in> set gs. 0 \<le> g \<and> g < 65536 \<Longrightarrow>
     0 \<le> groups_word acc gs \<and> groups_word acc gs < 65536 ^ (k + length gs)"
proof (induction gs arbitrary: acc k)
  case Nil
  then show ?case by simp
next
  case (Cons g gs)
  then have "65536 * acc + 65535 < 65536 ^ Suc k" by simp
  with Cons show ?case
    using Cons.IH [of "65536 * acc + g" "Suc k"] by (simp add: ac_simps)
qed

lemma groups_of_bound: "groups_of s = Some gs \<Longrightarrow> g \<in> set gs \<Longrightarrow> 0 \<le> g \<and> g < 65536"
  using parse_groups_bound by (auto simp: groups_of_def split: if_splits)

lemma parse_ipv6_bound: "parse_ipv6_body s = Some n \<Longrightarrow> 0 \<le> n \<and> n < 2 ^ 128"
proof -
  assume n: "parse_ipv6_body s = Some n"
  obtain front rest f where c: "cut_ellipsis s = (front, rest, f)"
    by (cases "cut_ellipsis s") auto
  obtain gs where gs: "length gs = 8" "\<forall>g \<in> set gs. 0 \<le> g \<and> g < 65536" "n = groups_word 0 gs"
  proof (cases f)
    case True
    with n c obtain gs hs where "groups_of front = Some gs" "groups_of rest = Some hs"
      "length gs + length hs \<le> 7"
      "n = groups_word 0 (gs @ replicate (8 - length gs - length hs) 0 @ hs)"
      by (auto simp: parse_ipv6_body_def split: option.splits if_splits)
    with groups_of_bound [of front gs] groups_of_bound [of rest hs] show thesis
      by (intro that [of "gs @ replicate (8 - length gs - length hs) 0 @ hs"]) auto
  next
    case False
    with n c obtain gs where "groups_of s = Some gs" "length gs = 8" "n = groups_word 0 gs"
      by (auto simp: parse_ipv6_body_def split: option.splits if_splits)
    with groups_of_bound [of s gs] show thesis
      by (intro that [of gs]) auto
  qed
  with groups_word_bound [of 0 0 gs] show ?thesis by simp
qed

lemma ParseAddr_wf: "ParseAddr s = Some a \<Longrightarrow> addr_wf a \<and> IsValid a"
proof -
  have "parse_addr_by s t = Some a \<Longrightarrow> addr_wf a \<and> IsValid a" for t
    by (induction t) (auto simp: parse_ipv6_def dest: parse_ipv4_bound parse_ipv6_bound
        split: if_splits prod.splits)
  then show "ParseAddr s = Some a \<Longrightarrow> addr_wf a \<and> IsValid a"
    by (simp add: ParseAddr_def)
qed

lemma Unmap_wf: "addr_wf a \<Longrightarrow> addr_wf (Unmap a)"
  by (cases a) auto

end
