(* ===== verification/Edge_Rules.thy ===== *)
theory Edge_Rules
  imports Netip
begin

text \<open>
  The edge rules of internal/edgerules/edgerules.go: ordered rules over a request, each with an
  expression whose value is true, false or unknown, the evaluation of a rule set, and the validation
  that is run before a set is saved.

  regexp.Compile is a parameter of the model: re pattern is None when the pattern does not compile,
  and otherwise the predicate MatchString of the compiled expression. Every result below holds for
  every such function.
\<close>

section \<open>Rules and requests\<close>

type_synonym regex = "string \<Rightarrow> (string \<Rightarrow> bool) option"

abbreviation ActionAllow :: string where "ActionAllow \<equiv> ''allow''"
abbreviation ActionBlock :: string where "ActionBlock \<equiv> ''block''"

definition Valid :: "string \<Rightarrow> bool" where
  "Valid a \<longleftrightarrow> a = ActionAllow \<or> a = ActionBlock"

abbreviation FieldIP :: string where "FieldIP \<equiv> ''ip.src''"
abbreviation FieldCountry :: string where "FieldCountry \<equiv> ''ip.country''"
abbreviation FieldASN :: string where "FieldASN \<equiv> ''ip.asn''"
abbreviation FieldHost :: string where "FieldHost \<equiv> ''http.host''"
abbreviation FieldPath :: string where "FieldPath \<equiv> ''http.path''"
abbreviation FieldMethod :: string where "FieldMethod \<equiv> ''http.method''"
abbreviation FieldUserAgent :: string where "FieldUserAgent \<equiv> ''http.user_agent''"
abbreviation FieldHeader :: string where "FieldHeader \<equiv> ''http.header''"

definition Fields :: "string list" where
  "Fields = [FieldIP, FieldCountry, FieldASN, FieldHost, FieldPath, FieldMethod, FieldUserAgent,
     FieldHeader]"

definition NeedsGeoCountry :: "string \<Rightarrow> bool" where
  "NeedsGeoCountry f \<longleftrightarrow> f = FieldCountry"

definition NeedsGeoASN :: "string \<Rightarrow> bool" where
  "NeedsGeoASN f \<longleftrightarrow> f = FieldASN"

abbreviation OpIn :: string where "OpIn \<equiv> ''in''"
abbreviation OpNotIn :: string where "OpNotIn \<equiv> ''not_in''"
abbreviation OpContains :: string where "OpContains \<equiv> ''contains''"
abbreviation OpStartsWith :: string where "OpStartsWith \<equiv> ''starts_with''"
abbreviation OpEndsWith :: string where "OpEndsWith \<equiv> ''ends_with''"
abbreviation OpMatches :: string where "OpMatches \<equiv> ''matches''"

definition Operators :: "string list" where
  "Operators = [OpIn, OpNotIn, OpContains, OpStartsWith, OpEndsWith, OpMatches]"

record test =
  Field :: string
  Key :: string
  Op :: string
  Values :: "string list"

text \<open>An expression has four optional parts, in the order All, Any, Not, Test. A slice that is nil
  and one that is present and empty are different values, None and Some [].\<close>

datatype expr = Expr "expr list option" "expr list option" "expr option" "test option"

record rule =
  ID :: string
  Name :: string
  Action :: string
  RuleExpr :: expr
  Enabled :: bool

record rule_set =
  Rules :: "rule list"
  Default :: string

record request =
  IP :: addr
  Country :: string
  ASN :: int
  Host :: string
  Path :: string
  Method :: string
  UserAgent :: string
  Header :: "(string \<Rightarrow> string) option"

definition header :: "request \<Rightarrow> string \<Rightarrow> string" where
  "header r name = (case Header r of None \<Rightarrow> [] | Some h \<Rightarrow> h name)"

record decision =
  DecAction :: string
  RuleID :: string
  RuleName :: string
  Skipped :: "string list"

datatype truth = isFalse | isTrue | isUnknown

section \<open>Evaluation\<close>

definition negateIf :: "bool \<Rightarrow> truth \<Rightarrow> truth" where
  "negateIf negate t =
     (if \<not> negate \<or> t = isUnknown then t else if t = isTrue then isFalse else isTrue)"

definition boolTruth :: "bool \<Rightarrow> truth" where
  "boolTruth b = (if b then isTrue else isFalse)"

fun ipMatchesLoop :: "addr \<Rightarrow> string list \<Rightarrow> truth" where
  "ipMatchesLoop ip [] = isFalse"
| "ipMatchesLoop ip (v # vs) =
     (let value = trim_space v
      in if value = [] then ipMatchesLoop ip vs
         else if CHR ''/'' \<in> set value then
           (case ParsePrefix value of
              None \<Rightarrow> ipMatchesLoop ip vs
            | Some p \<Rightarrow>
                (if BitLen (Unmap (pfx_addr p)) = BitLen ip \<and> prefix_contains p ip then isTrue
                 else ipMatchesLoop ip vs))
         else
           (case ParseAddr value of
              None \<Rightarrow> ipMatchesLoop ip vs
            | Some a \<Rightarrow> if Unmap a = ip then isTrue else ipMatchesLoop ip vs))"

definition ipMatches :: "addr \<Rightarrow> string list \<Rightarrow> truth" where
  "ipMatches ip values = ipMatchesLoop (Unmap ip) values"

text \<open>One wanted value against the request's value: None is the early return of unknown.\<close>

definition compareOne :: "regex \<Rightarrow> test \<Rightarrow> string \<Rightarrow> string \<Rightarrow> string \<Rightarrow> bool option" where
  "compareOne re t value lower want =
     (let w = to_lower (trim_space want);
          wantLower = (if Field t = FieldASN then trim_prefix ''as'' w else w)
      in if Op t = OpIn \<or> Op t = OpNotIn then Some (lower = wantLower)
         else if Op t = OpContains then Some (wantLower \<noteq> [] \<and> sublist wantLower lower)
         else if Op t = OpStartsWith then Some (wantLower \<noteq> [] \<and> prefix wantLower lower)
         else if Op t = OpEndsWith then Some (wantLower \<noteq> [] \<and> suffix wantLower lower)
         else if Op t = OpMatches then map_option (\<lambda>m. m value) (re want)
         else None)"

fun compareLoop :: "regex \<Rightarrow> test \<Rightarrow> string \<Rightarrow> string \<Rightarrow> string list \<Rightarrow> bool option" where
  "compareLoop re t value lower [] = Some False"
| "compareLoop re t value lower (want # wants) =
     (case compareOne re t value lower want of
        None \<Rightarrow> None
      | Some matched \<Rightarrow> if matched then Some True else compareLoop re t value lower wants)"

definition compare_test :: "regex \<Rightarrow> test \<Rightarrow> string \<Rightarrow> truth" where
  "compare_test re t value =
     (let l = to_lower value;
          lower = (if Field t = FieldASN then trim_prefix ''as'' l else l)
      in case compareLoop re t value lower (Values t) of
           None \<Rightarrow> isUnknown
         | Some matched \<Rightarrow> negateIf (Op t = OpNotIn) (boolTruth matched))"

definition evaluateTest :: "regex \<Rightarrow> test \<Rightarrow> request \<Rightarrow> truth" where
  "evaluateTest re t req =
     (if Field t = FieldIP then
        (if \<not> IsValid (IP req) then isUnknown
         else negateIf (Op t = OpNotIn) (ipMatches (IP req) (Values t)))
      else if Field t = FieldCountry then
        (if Country req = [] then isUnknown else compare_test re t (Country req))
      else if Field t = FieldASN then
        (if ASN req = 0 then isUnknown else compare_test re t (itoa (ASN req)))
      else if Field t = FieldHost then compare_test re t (Host req)
      else if Field t = FieldPath then compare_test re t (Path req)
      else if Field t = FieldMethod then compare_test re t (Method req)
      else if Field t = FieldUserAgent then compare_test re t (UserAgent req)
      else if Field t = FieldHeader then compare_test re t (header req (Key t))
      else isUnknown)"

text \<open>The two loops carry the flag that an unknown has been seen.\<close>

fun evaluate :: "regex \<Rightarrow> expr \<Rightarrow> request \<Rightarrow> truth"
  and evaluateAny :: "regex \<Rightarrow> expr list \<Rightarrow> request \<Rightarrow> bool \<Rightarrow> truth"
  and evaluateAll :: "regex \<Rightarrow> expr list \<Rightarrow> request \<Rightarrow> bool \<Rightarrow> truth" where
  "evaluate re (Expr al an no te) req =
     (case te of
        Some t \<Rightarrow> evaluateTest re t req
      | None \<Rightarrow>
          (case no of
             Some e \<Rightarrow>
               (case evaluate re e req of
                  isTrue \<Rightarrow> isFalse | isFalse \<Rightarrow> isTrue | isUnknown \<Rightarrow> isUnknown)
           | None \<Rightarrow>
               (case an of
                  Some (x # xs) \<Rightarrow> evaluateAny re (x # xs) req False
                | _ \<Rightarrow>
                    (case al of
                       Some (y # ys) \<Rightarrow> evaluateAll re (y # ys) req False
                     | _ \<Rightarrow> if al \<noteq> None \<or> an \<noteq> None then isUnknown else isTrue))))"
| "evaluateAny re [] req unknown = (if unknown then isUnknown else isFalse)"
| "evaluateAny re (e # es) req unknown =
     (case evaluate re e req of
        isTrue \<Rightarrow> isTrue
      | isUnknown \<Rightarrow> evaluateAny re es req True
      | isFalse \<Rightarrow> evaluateAny re es req unknown)"
| "evaluateAll re [] req unknown = (if unknown then isUnknown else isTrue)"
| "evaluateAll re (e # es) req unknown =
     (case evaluate re e req of
        isFalse \<Rightarrow> isFalse
      | isUnknown \<Rightarrow> evaluateAll re es req True
      | isTrue \<Rightarrow> evaluateAll re es req unknown)"

fun evaluateRules :: "regex \<Rightarrow> rule list \<Rightarrow> request \<Rightarrow> decision \<Rightarrow> decision" where
  "evaluateRules re [] req d = d"
| "evaluateRules re (r # rs) req d =
     (if \<not> Enabled r then evaluateRules re rs req d
      else (case evaluate re (RuleExpr r) req of
              isTrue \<Rightarrow> d\<lparr>DecAction := Action r, RuleID := ID r, RuleName := Name r\<rparr>
            | isUnknown \<Rightarrow> evaluateRules re rs req (d\<lparr>Skipped := Skipped d @ [Name r]\<rparr>)
            | isFalse \<Rightarrow> evaluateRules re rs req d))"

definition Evaluate :: "regex \<Rightarrow> rule_set \<Rightarrow> request \<Rightarrow> decision" where
  "Evaluate re s req =
     evaluateRules re (Rules s) req
       \<lparr>DecAction = (if Valid (Default s) then Default s else ActionAllow), RuleID = [], RuleName = [],
        Skipped = []\<rparr>"

section \<open>What a rule set needs, and what is refused\<close>

function needs :: "expr \<Rightarrow> bool \<times> bool"
  and needsLoop :: "expr list \<Rightarrow> bool \<times> bool \<Rightarrow> bool \<times> bool" where
  "needs (Expr al an no te) =
     (case te of
        Some t \<Rightarrow> (NeedsGeoCountry (Field t), NeedsGeoASN (Field t))
      | None \<Rightarrow>
          (case no of
             Some e \<Rightarrow> needs e
           | None \<Rightarrow>
               needsLoop (case an of None \<Rightarrow> [] | Some es \<Rightarrow> es)
                 (needsLoop (case al of None \<Rightarrow> [] | Some es \<Rightarrow> es) (False, False))))"
| "needsLoop [] acc = acc"
| "needsLoop (e # es) acc =
     (case needs e of (c, a) \<Rightarrow> needsLoop es (fst acc \<or> c, snd acc \<or> a))"
  by pat_completeness auto
termination
  by (relation "measure (case_sum size (\<lambda>(es, acc). size_list size es))") (auto split: option.splits)

definition Needs :: "rule_set \<Rightarrow> bool \<times> bool" where
  "Needs s = needsLoop (map RuleExpr (Rules s)) (False, False)"

datatype rule_error =
    DefaultNotAction string
  | TooManyRules
  | NoName nat
  | NoAction nat
  | InRule nat rule_error
  | NestedTooDeep
  | SeveralAtOnce
  | EmptyGroup
  | UnknownField string
  | HeaderUnnamed
  | KeyNotAllowed
  | UnknownOperator string
  | NothingToCompare
  | TooManyValues
  | BadOperatorFor string string
  | NotARange string
  | NotAnAddress string
  | NotACountry string
  | NotANetwork string
  | BadPattern string
  | ValueTooLong

definition maxRules :: nat where "maxRules = 200"
definition maxDepth :: nat where "maxDepth = 8"
definition maxValues :: nat where "maxValues = 1000"
definition maxValueLength :: nat where "maxValueLength = 512"

definition isCountryCode :: "string \<Rightarrow> bool" where
  "isCountryCode v =
     (let value = trim_space v
      in length value = 2 \<and>
         list_all (\<lambda>r. CHR ''A'' \<le> r \<and> r \<le> CHR ''Z'') (to_upper value))"

text \<open>The checks of a loop over values, as the first error there is.\<close>

fun first_error :: "('a \<Rightarrow> 'e option) \<Rightarrow> 'a list \<Rightarrow> 'e option" where
  "first_error f [] = None"
| "first_error f (x # xs) = (case f x of None \<Rightarrow> first_error f xs | Some e \<Rightarrow> Some e)"

definition checkIPValue :: "string \<Rightarrow> rule_error option" where
  "checkIPValue v =
     (let value = trim_space v
      in if CHR ''/'' \<in> set value
         then (case ParsePrefix value of None \<Rightarrow> Some (NotARange value) | Some _ \<Rightarrow> None)
         else (case ParseAddr value of None \<Rightarrow> Some (NotAnAddress value) | Some _ \<Rightarrow> None))"

definition checkASNValue :: "string \<Rightarrow> rule_error option" where
  "checkASNValue v =
     (case parse_uint 32 (trim_prefix ''AS'' (to_upper (trim_space v))) of
        None \<Rightarrow> Some (NotANetwork v)
      | Some n \<Rightarrow> if n = 0 then Some (NotANetwork v) else None)"

text \<open>The switch on the field, then the pattern and length checks, each falling through to the next
  when it finds nothing.\<close>

definition checkFieldValues :: "test \<Rightarrow> rule_error option" where
  "checkFieldValues t =
     (let inOrNot = (Op t = OpIn \<or> Op t = OpNotIn)
      in if Field t = FieldIP then
           (if \<not> inOrNot then Some (BadOperatorFor FieldIP (Op t)) else first_error checkIPValue (Values t))
         else if Field t = FieldCountry then
           (if \<not> inOrNot then Some (BadOperatorFor FieldCountry (Op t))
            else first_error (\<lambda>v. if isCountryCode v then None else Some (NotACountry v)) (Values t))
         else if Field t = FieldASN then
           (if \<not> inOrNot then Some (BadOperatorFor FieldASN (Op t)) else first_error checkASNValue (Values t))
         else None)"

definition validateTest :: "regex \<Rightarrow> test \<Rightarrow> rule_error option" where
  "validateTest re t =
     (if Field t \<notin> set Fields then Some (UnknownField (Field t))
      else if Field t = FieldHeader \<and> trim_space (Key t) = [] then Some HeaderUnnamed
      else if Field t \<noteq> FieldHeader \<and> Key t \<noteq> [] then Some KeyNotAllowed
      else if Op t \<notin> set Operators then Some (UnknownOperator (Op t))
      else if Values t = [] then Some NothingToCompare
      else if length (Values t) > maxValues then Some TooManyValues
      else (case checkFieldValues t of
              Some e \<Rightarrow> Some e
            | None \<Rightarrow>
                (case (if Op t = OpMatches
                       then first_error (\<lambda>v. if re v = None then Some (BadPattern v) else None) (Values t)
                       else None) of
                   Some e \<Rightarrow> Some e
                 | None \<Rightarrow>
                     first_error (\<lambda>v. if length v > maxValueLength then Some ValueTooLong else None) (Values t))))"

definition parts_set :: "expr list option \<Rightarrow> expr list option \<Rightarrow> expr option \<Rightarrow> test option \<Rightarrow> nat" where
  "parts_set al an no te =
     length (filter id [al \<noteq> None \<and> al \<noteq> Some [], an \<noteq> None \<and> an \<noteq> Some [], no \<noteq> None, te \<noteq> None])"

function validate :: "regex \<Rightarrow> expr \<Rightarrow> nat \<Rightarrow> rule_error option"
  and validateLoop :: "regex \<Rightarrow> expr list \<Rightarrow> nat \<Rightarrow> rule_error option" where
  "validate re (Expr al an no te) depth =
     (if depth > maxDepth then Some NestedTooDeep
      else if parts_set al an no te > 1 then Some SeveralAtOnce
      else if parts_set al an no te = 0 \<and> (al \<noteq> None \<or> an \<noteq> None) then Some EmptyGroup
      else (case te of
              Some t \<Rightarrow> validateTest re t
            | None \<Rightarrow>
                (case no of
                   Some e \<Rightarrow> validate re e (depth + 1)
                 | None \<Rightarrow>
                     (case validateLoop re (case al of None \<Rightarrow> [] | Some es \<Rightarrow> es) (depth + 1) of
                        Some e \<Rightarrow> Some e
                      | None \<Rightarrow> validateLoop re (case an of None \<Rightarrow> [] | Some es \<Rightarrow> es) (depth + 1)))))"
| "validateLoop re [] depth = None"
| "validateLoop re (e # es) depth =
     (case validate re e depth of Some err \<Rightarrow> Some err | None \<Rightarrow> validateLoop re es depth)"
  by pat_completeness auto
termination
  by (relation "measure (case_sum (\<lambda>(re, e, d). size e) (\<lambda>(re, es, d). size_list size es))")
    (auto split: option.splits)

fun validateRules :: "regex \<Rightarrow> nat \<Rightarrow> rule list \<Rightarrow> rule_error option" where
  "validateRules re i [] = None"
| "validateRules re i (r # rs) =
     (if trim_space (Name r) = [] then Some (NoName i)
      else if \<not> Valid (Action r) then Some (NoAction i)
      else (case validate re (RuleExpr r) 0 of
              Some e \<Rightarrow> Some (InRule i e)
            | None \<Rightarrow> validateRules re (i + 1) rs))"

definition Validate :: "regex \<Rightarrow> rule_set \<Rightarrow> rule_error option" where
  "Validate re s =
     (if Default s \<noteq> [] \<and> \<not> Valid (Default s) then Some (DefaultNotAction (Default s))
      else if length (Rules s) > maxRules then Some TooManyRules
      else validateRules re 1 (Rules s))"

section \<open>Specification vocabulary\<close>

text \<open>A request in which something that was not known has been filled in.\<close>

definition completes :: "request \<Rightarrow> request \<Rightarrow> bool" where
  "completes r r' \<longleftrightarrow>
     (IsValid (IP r) \<longrightarrow> IP r' = IP r) \<and>
     (Country r \<noteq> [] \<longrightarrow> Country r' = Country r) \<and>
     (ASN r \<noteq> 0 \<longrightarrow> ASN r' = ASN r) \<and>
     Host r' = Host r \<and> Path r' = Path r \<and> Method r' = Method r \<and> UserAgent r' = UserAgent r \<and>
     Header r' = Header r"

text \<open>A request that answers everything an expression asks about.\<close>

definition informed :: "bool \<times> bool \<Rightarrow> request \<Rightarrow> bool" where
  "informed n r \<longleftrightarrow> IsValid (IP r) \<and> (fst n \<longrightarrow> Country r \<noteq> []) \<and> (snd n \<longrightarrow> ASN r \<noteq> 0)"

text \<open>Negation, the least and the greatest of a list in the order false, unknown, true.\<close>

fun kleene_not :: "truth \<Rightarrow> truth" where
  "kleene_not isTrue = isFalse"
| "kleene_not isFalse = isTrue"
| "kleene_not isUnknown = isUnknown"

definition kleene_any :: "truth list \<Rightarrow> truth" where
  "kleene_any ts = (if isTrue \<in> set ts then isTrue else if isUnknown \<in> set ts then isUnknown else isFalse)"

definition kleene_all :: "truth list \<Rightarrow> truth" where
  "kleene_all ts = (if isFalse \<in> set ts then isFalse else if isUnknown \<in> set ts then isUnknown else isTrue)"

text \<open>A truth value is at least as definite as another.\<close>

definition more_definite :: "truth \<Rightarrow> truth \<Rightarrow> bool" where
  "more_definite t t' \<longleftrightarrow> t = isUnknown \<or> t' = t"

text \<open>The names of the enabled rules that could not be asked, and whether a rule decides.\<close>

definition unknown_names :: "regex \<Rightarrow> request \<Rightarrow> rule list \<Rightarrow> string list" where
  "unknown_names re req rs =
     map Name (filter (\<lambda>r. Enabled r \<and> evaluate re (RuleExpr r) req = isUnknown) rs)"

definition decides :: "regex \<Rightarrow> request \<Rightarrow> rule \<Rightarrow> bool" where
  "decides re req r \<longleftrightarrow> Enabled r \<and> evaluate re (RuleExpr r) req = isTrue"

section \<open>Evaluation lemmas\<close>

lemma negateIf_unknown [simp]: "negateIf b t = isUnknown \<longleftrightarrow> t = isUnknown"
  by (cases t) (auto simp: negateIf_def)

lemma boolTruth_known [simp]: "boolTruth b \<noteq> isUnknown"
  by (simp add: boolTruth_def)

lemma kleene_not_eq:
  "isTrue = kleene_not t \<longleftrightarrow> t = isFalse" "isFalse = kleene_not t \<longleftrightarrow> t = isTrue"
  "isUnknown = kleene_not t \<longleftrightarrow> t = isUnknown"
  by (cases t; simp)+

lemma kleene_not_any: "kleene_not (kleene_any ts) = kleene_all (map kleene_not ts)"
  by (auto simp: kleene_any_def kleene_all_def kleene_not_eq image_iff)

lemma evaluateAny_kleene:
  "evaluateAny re es req unknown =
     kleene_any ((if unknown then [isUnknown] else []) @ map (\<lambda>e. evaluate re e req) es)"
  by (induction es arbitrary: unknown) (auto simp: kleene_any_def split: truth.splits)

lemma evaluateAll_kleene:
  "evaluateAll re es req unknown =
     kleene_all ((if unknown then [isUnknown] else []) @ map (\<lambda>e. evaluate re e req) es)"
  by (induction es arbitrary: unknown) (auto simp: kleene_all_def split: truth.splits)

lemma ipMatchesLoop_known: "ipMatchesLoop ip vs \<noteq> isUnknown"
  by (induction ip vs rule: ipMatchesLoop.induct) (auto simp: Let_def split: option.splits)

lemma evaluateTest_completes:
  assumes "completes r r'" and "evaluateTest re t r \<noteq> isUnknown"
  shows "evaluateTest re t r' = evaluateTest re t r"
  using assms by (auto simp: evaluateTest_def completes_def header_def split: if_splits)

lemma kleene_any_definite: "list_all2 more_definite ts ts' \<Longrightarrow> more_definite (kleene_any ts) (kleene_any ts')"
  by (induction rule: list_all2_induct) (auto simp: more_definite_def kleene_any_def split: if_splits)

lemma kleene_all_definite: "list_all2 more_definite ts ts' \<Longrightarrow> more_definite (kleene_all ts) (kleene_all ts')"
  by (induction rule: list_all2_induct) (auto simp: more_definite_def kleene_all_def split: if_splits)

lemma evaluate_groups:
  "evaluate re (Expr al an no te) req =
     (case te of
        Some t \<Rightarrow> evaluateTest re t req
      | None \<Rightarrow>
          (case no of
             Some e \<Rightarrow> kleene_not (evaluate re e req)
           | None \<Rightarrow>
               (case an of
                  Some (x # xs) \<Rightarrow> kleene_any (map (\<lambda>e. evaluate re e req) (x # xs))
                | _ \<Rightarrow>
                    (case al of
                       Some (y # ys) \<Rightarrow> kleene_all (map (\<lambda>e. evaluate re e req) (y # ys))
                     | _ \<Rightarrow> if al \<noteq> None \<or> an \<noteq> None then isUnknown else isTrue))))"
  by (auto simp: evaluateAny_kleene evaluateAll_kleene simp del: evaluateAny.simps evaluateAll.simps
      split: option.splits list.splits truth.splits)

lemma evaluate_definite:
  assumes "completes r r'"
  shows "more_definite (evaluate re e r) (evaluate re e r')"
proof (induction e)
  case (Expr al an no te)
  have te: "more_definite (evaluateTest re t r) (evaluateTest re t r')" for t
    using evaluateTest_completes [OF assms] by (auto simp: more_definite_def)
  have no: "no = Some e \<Longrightarrow> more_definite (kleene_not (evaluate re e r)) (kleene_not (evaluate re e r'))" for e
    using Expr.IH(3) by (auto simp: more_definite_def)
  have an: "an = Some es \<Longrightarrow> list_all2 more_definite (map (\<lambda>e. evaluate re e r) es) (map (\<lambda>e. evaluate re e r') es)" for es
    using Expr.IH(2) by (auto simp: list_all2_conv_all_nth)
  have al: "al = Some es \<Longrightarrow> list_all2 more_definite (map (\<lambda>e. evaluate re e r) es) (map (\<lambda>e. evaluate re e r') es)" for es
    using Expr.IH(1) by (auto simp: list_all2_conv_all_nth)
  have refl: "more_definite t t" for t
    by (simp add: more_definite_def)
  show ?case
    using te no an [THEN kleene_any_definite] al [THEN kleene_all_definite] refl
    unfolding evaluate_groups by (auto split: option.splits list.splits)
qed

section \<open>Validated sets\<close>

lemma first_error_None: "first_error f xs = None \<longleftrightarrow> (\<forall>x \<in> set xs. f x = None)"
  by (induction xs) (auto split: option.splits)

lemma validateLoop_None: "validateLoop re es d = None \<longleftrightarrow> (\<forall>e \<in> set es. validate re e d = None)"
  by (induction es) (auto split: option.splits)

lemma needsLoop_or:
  "needsLoop es acc = (fst acc \<or> (\<exists>e \<in> set es. fst (needs e)), snd acc \<or> (\<exists>e \<in> set es. snd (needs e)))"
  by (induction es arbitrary: acc) (auto split: prod.splits)

lemma compareLoop_known:
  assumes "Op t \<in> set Operators" and "Op t = OpMatches \<longrightarrow> (\<forall>v \<in> set vs. re v \<noteq> None)"
  shows "compareLoop re t value lower vs \<noteq> None"
  using assms
proof (induction vs)
  case Nil
  then show ?case by simp
next
  case (Cons v vs)
  have "compareOne re t value lower v \<noteq> None"
    using Cons.prems by (auto simp: compareOne_def Operators_def Let_def)
  with Cons show ?case by (auto split: option.splits)
qed

lemma validateTest_None:
  assumes "validateTest re t = None"
  shows "Field t \<in> set Fields" and "Op t \<in> set Operators"
    and "Op t = OpMatches \<longrightarrow> (\<forall>v \<in> set (Values t). re v \<noteq> None)"
    and "checkFieldValues t = None" and "Values t \<noteq> []"
  using assms by (auto simp: validateTest_def first_error_None split: if_splits option.splits)

lemma evaluateTest_known:
  assumes "validateTest re t = None"
    and "informed (NeedsGeoCountry (Field t), NeedsGeoASN (Field t)) r"
  shows "evaluateTest re t r \<noteq> isUnknown"
proof -
  have "compare_test re t v \<noteq> isUnknown" for v
    using compareLoop_known [OF validateTest_None(2,3) [OF assms(1)], of v "if Field t = FieldASN
        then trim_prefix ''as'' (to_lower v) else to_lower v"]
    by (auto simp: compare_test_def Let_def)
  with assms(2) validateTest_None(1) [OF assms(1)] ipMatchesLoop_known show ?thesis
    by (auto simp: evaluateTest_def informed_def NeedsGeoCountry_def NeedsGeoASN_def Fields_def ipMatches_def)
qed

lemma kleene_any_known: "isUnknown \<notin> set ts \<Longrightarrow> kleene_any ts \<noteq> isUnknown"
  by (simp add: kleene_any_def)

lemma kleene_all_known: "isUnknown \<notin> set ts \<Longrightarrow> kleene_all ts \<noteq> isUnknown"
  by (simp add: kleene_all_def)

lemma informed_mono: "informed n r \<Longrightarrow> (fst m \<longrightarrow> fst n) \<Longrightarrow> (snd m \<longrightarrow> snd n) \<Longrightarrow> informed m r"
  by (auto simp: informed_def)

lemma validate_group:
  assumes "validate re (Expr al an no te) d = None"
  shows "te = Some t \<Longrightarrow> validateTest re t = None"
    and "te = None \<Longrightarrow> no = Some e \<Longrightarrow> validate re e (d + 1) = None"
    and "te = None \<Longrightarrow> no = None \<Longrightarrow> an = Some es \<Longrightarrow> \<forall>e \<in> set es. validate re e (d + 1) = None"
    and "te = None \<Longrightarrow> no = None \<Longrightarrow> al = Some es \<Longrightarrow> \<forall>e \<in> set es. validate re e (d + 1) = None"
    and "te = None \<Longrightarrow> no = None \<Longrightarrow> al \<noteq> None \<or> an \<noteq> None \<Longrightarrow>
           (\<exists>x xs. an = Some (x # xs)) \<or> (\<exists>y ys. al = Some (y # ys))"
proof -
  have n: "\<not> parts_set al an no te > 1" "\<not> (parts_set al an no te = 0 \<and> (al \<noteq> None \<or> an \<noteq> None))"
    using assms by (simp_all split: if_splits)
  from assms n have r: "(case te of
              Some t \<Rightarrow> validateTest re t
            | None \<Rightarrow>
                (case no of
                   Some e \<Rightarrow> validate re e (d + 1)
                 | None \<Rightarrow>
                     (case validateLoop re (case al of None \<Rightarrow> [] | Some es \<Rightarrow> es) (d + 1) of
                        Some e \<Rightarrow> Some e
                      | None \<Rightarrow> validateLoop re (case an of None \<Rightarrow> [] | Some es \<Rightarrow> es) (d + 1)))) = None"
    unfolding validate.simps by (simp only: if_False option.distinct split: if_splits)
  show "te = Some t \<Longrightarrow> validateTest re t = None"
    using r by simp
  show "te = None \<Longrightarrow> no = Some e \<Longrightarrow> validate re e (d + 1) = None"
    using r by simp
  assume te: "te = None" "no = None"
  from r te have l: "validateLoop re (case al of None \<Rightarrow> [] | Some es \<Rightarrow> es) (d + 1) = None"
    "validateLoop re (case an of None \<Rightarrow> [] | Some es \<Rightarrow> es) (d + 1) = None"
    by (auto split: option.splits)
  show "an = Some es \<Longrightarrow> \<forall>e \<in> set es. validate re e (d + 1) = None"
    using l(2) by (simp add: validateLoop_None)
  show "al = Some es \<Longrightarrow> \<forall>e \<in> set es. validate re e (d + 1) = None"
    using l(1) by (simp add: validateLoop_None)
  assume "al \<noteq> None \<or> an \<noteq> None"
  with n(2) te have "parts_set al an no te \<noteq> 0" by auto
  with te show "(\<exists>x xs. an = Some (x # xs)) \<or> (\<exists>y ys. al = Some (y # ys))"
    by (auto simp: parts_set_def neq_Nil_conv split: if_splits)
qed

lemma evaluate_known:
  assumes "validate re e d = None" and "informed (needs e) r"
  shows "evaluate re e r \<noteq> isUnknown"
  using assms
proof (induction e arbitrary: d)
  case (Expr al an no te)
  note v = validate_group [OF Expr.prems(1)]
  show ?case
  proof (cases te)
    case (Some t)
    with v(1) Expr.prems(2) evaluateTest_known show ?thesis
      by (simp add: evaluate_groups)
  next
    case te: None
    show ?thesis
    proof (cases no)
      case (Some e)
      with te v(2) Expr.prems(2) Expr.IH(3) [of e "d + 1"] have "evaluate re e r \<noteq> isUnknown"
        by simp
      with te Some show ?thesis
        by (cases "evaluate re e r") (simp_all add: evaluate_groups)
    next
      case no: None
      have n: "informed (needs e) r" if "e \<in> set (case an of None \<Rightarrow> [] | Some es \<Rightarrow> es) \<union> set (case al of None \<Rightarrow> [] | Some es \<Rightarrow> es)" for e
        using Expr.prems(2) that by (auto simp: te no needsLoop_or elim!: informed_mono)
      have an_e: "evaluate re e r \<noteq> isUnknown" if "an = Some es" "e \<in> set es" for es e
        using Expr.IH(2) [of es e "d + 1"] v(3) [OF te no that(1)] n [of e] that by simp
      have al_e: "evaluate re e r \<noteq> isUnknown" if "al = Some es" "e \<in> set es" for es e
        using Expr.IH(1) [of es e "d + 1"] v(4) [OF te no that(1)] n [of e] that by simp
      have an: "isUnknown \<notin> set (map (\<lambda>e. evaluate re e r) es)" if "an = Some es" for es
        using an_e [OF that] by (auto dest: sym)
      have al: "isUnknown \<notin> set (map (\<lambda>e. evaluate re e r) es)" if "al = Some es" for es
        using al_e [OF that] by (auto dest: sym)
      show ?thesis
        using kleene_any_known [OF an] kleene_all_known [OF al] v(5) [OF te no]
        unfolding evaluate_groups te no by (auto split: option.splits list.splits)
    qed
  qed
qed


section \<open>Rule sets\<close>

lemma validateRules_None:
  "validateRules re i rs = None \<longleftrightarrow>
     (\<forall>r \<in> set rs. trim_space (Name r) \<noteq> [] \<and> Valid (Action r) \<and> validate re (RuleExpr r) 0 = None)"
  by (induction rs arbitrary: i) (auto split: option.splits simp del: validate.simps)

lemma Validate_None:
  assumes "Validate re s = None"
  shows "r \<in> set (Rules s) \<Longrightarrow> validate re (RuleExpr r) 0 = None \<and> Valid (Action r)"
    and "Default s = [] \<or> Valid (Default s)"
  using assms by (auto simp: Validate_def validateRules_None split: if_splits)

lemma Needs_rule:
  "r \<in> set (Rules s) \<Longrightarrow> informed (Needs s) req \<Longrightarrow> informed (needs (RuleExpr r)) req"
  by (auto simp: Needs_def needsLoop_or elim!: informed_mono)

lemma evaluateRules_spec:
  "evaluateRules re rs req d =
     (case dropWhile (\<lambda>r. \<not> decides re req r) rs of
        [] \<Rightarrow> d\<lparr>Skipped := Skipped d @ unknown_names re req rs\<rparr>
      | r # _ \<Rightarrow>
          d\<lparr>DecAction := Action r, RuleID := ID r, RuleName := Name r,
            Skipped := Skipped d @ unknown_names re req (takeWhile (\<lambda>r. \<not> decides re req r) rs)\<rparr>)"
proof (induction rs arbitrary: d)
  case Nil
  then show ?case by (simp add: unknown_names_def)
next
  case (Cons r rs)
  have un: "unknown_names re req (r # xs) =
      (if Enabled r \<and> evaluate re (RuleExpr r) req = isUnknown then [Name r] else []) @ unknown_names re req xs" for xs
    by (simp add: unknown_names_def)
  show ?case
  proof (cases "decides re req r")
    case True
    then show ?thesis by (simp add: decides_def unknown_names_def)
  next
    case False
    let ?new = "if Enabled r \<and> evaluate re (RuleExpr r) req = isUnknown then [Name r] else []"
    have step: "evaluateRules re (r # rs) req d = evaluateRules re rs req (d\<lparr>Skipped := Skipped d @ ?new\<rparr>)"
      using False by (cases "evaluate re (RuleExpr r) req") (simp_all add: decides_def)
    have dw: "dropWhile (\<lambda>r. \<not> decides re req r) (r # rs) = dropWhile (\<lambda>r. \<not> decides re req r) rs"
      "takeWhile (\<lambda>r. \<not> decides re req r) (r # rs) = r # takeWhile (\<lambda>r. \<not> decides re req r) rs"
      using False by simp_all
    show ?thesis
      unfolding step Cons.IH dw un 
      by (cases d; cases "dropWhile (\<lambda>r. \<not> decides re req r) rs") (simp_all del: dropWhile_eq_Nil_conv)
  qed
qed

lemma unknown_names_Nil_iff:
  "unknown_names re req rs = [] \<longleftrightarrow> (\<forall>r \<in> set rs. Enabled r \<longrightarrow> evaluate re (RuleExpr r) req \<noteq> isUnknown)"
  by (auto simp: unknown_names_def filter_empty_conv)

lemma evaluateRules_completes:
  assumes "completes req req'" and "Skipped (evaluateRules re rs req d) = []"
  shows "evaluateRules re rs req' d = evaluateRules re rs req d"
  using assms(2)
proof (induction rs arbitrary: d)
  case Nil
  then show ?case by simp
next
  case (Cons r rs)
  have mono: "Skipped d \<noteq> [] \<Longrightarrow> Skipped (evaluateRules re rs req d) \<noteq> []" for d
    by (auto simp: evaluateRules_spec split: list.splits)
  have def: "more_definite (evaluate re (RuleExpr r) req) (evaluate re (RuleExpr r) req')"
    by (rule evaluate_definite [OF assms(1)])
  show ?case
    using Cons def mono [of "d\<lparr>Skipped := Skipped d @ [Name r]\<rparr>"]
    by (cases "evaluate re (RuleExpr r) req") (auto simp: more_definite_def)
qed

section \<open>Findings\<close>

text \<open>Validate is meant to refuse a rule that silently never matches. Three that it accepts: a range
  written as IPv4-mapped IPv6, a network number with leading zeros, and a blank text to look for.\<close>

lemma mapped_range_never_matches: "ipMatches ip [''::ffff:10.0.0.0/104''] = isFalse"
proof -
  have p: "ParsePrefix ''::ffff:10.0.0.0/104'' = Some \<lparr>pfx_addr = V6 0xffff0a000000 [], pfx_bits = 104\<rparr>"
    by code_simp
  have t: "trim_space ''::ffff:10.0.0.0/104'' = ''::ffff:10.0.0.0/104''"
    by code_simp
  have u: "is_4in6 0xffff0a000000"
    by code_simp
  show ?thesis
    using prefix_contains_family [of "\<lparr>pfx_addr = V6 0xffff0a000000 [], pfx_bits = 104\<rparr>" "Unmap ip"]
    by (auto simp: ipMatches_def Let_def t p u)
qed

lemma padded_network_never_matches:
  assumes "0 < asn"
  shows "compare_test re \<lparr>Field = FieldASN, Key = [], Op = OpIn, Values = [''AS007'']\<rparr> (itoa asn) = isFalse"
proof -
  have w: "trim_prefix ''as'' (to_lower (trim_space ''AS007'')) = ''007''"
    by code_simp
  have dig: "is_digit c" if "c \<in> set (itoa asn)" for c
    using assms that by (intro itoa_digits [of asn]) auto
  have low: "to_lower_char c = c" if "is_digit c" for c
    using that by (auto simp: to_lower_char_def is_digit_def digit_of_def Let_def split: if_splits)
  have l: "to_lower (itoa asn) = itoa asn"
    unfolding to_lower_def using dig low by (intro map_idI) blast
  have nas: "\<not> prefix ''as'' (itoa asn)"
  proof
    assume "prefix ''as'' (itoa asn)"
    then have "CHR ''a'' \<in> set (itoa asn)" by (auto simp: prefix_def)
    from dig [OF this] show False by (simp add: is_digit_def digit_of_def)
  qed
  have "itoa asn \<noteq> ''007''"
  proof
    assume eq: "itoa asn = ''007''"
    have "digits_val 0 (itoa asn) = Some asn"
      using assms digits_val_show_dec [of asn] by (simp add: itoa_def)
    then have "asn = 7" by (simp add: eq digit_of_def)
    moreover have "itoa 7 = ''7''" by code_simp
    ultimately show False using eq by simp
  qed
  moreover have "trim_prefix ''as'' (itoa asn) = itoa asn"
    by (simp add: trim_prefix_def nas)
  ultimately show ?thesis
    by (simp add: compare_test_def compareOne_def w l negateIf_def boolTruth_def Let_def)
qed

lemma never_matching_values_are_valid:
  "validateTest re \<lparr>Field = FieldIP, Key = [], Op = OpIn, Values = [''::ffff:10.0.0.0/104'']\<rparr> = None"
  "validateTest re \<lparr>Field = FieldASN, Key = [], Op = OpIn, Values = [''AS007'']\<rparr> = None"
  "validateTest re \<lparr>Field = FieldHost, Key = [], Op = OpContains, Values = ['' '']\<rparr> = None"
  by code_simp+

section \<open>Properties\<close>

text \<open>C24: the decision is that of the first enabled rule, in the order they are listed, whose expression
  is true; without one it is the default action of the set. The names reported as skipped are those of
  the enabled rules before it whose expression is unknown.\<close>

theorem Evaluate_first_match:
  "Evaluate re s req =
     (case dropWhile (\<lambda>r. \<not> decides re req r) (Rules s) of
        [] \<Rightarrow> \<lparr>DecAction = (if Valid (Default s) then Default s else ActionAllow), RuleID = [],
              RuleName = [], Skipped = unknown_names re req (Rules s)\<rparr>
      | r # _ \<Rightarrow> \<lparr>DecAction = Action r, RuleID = ID r, RuleName = Name r,
                 Skipped = unknown_names re req (takeWhile (\<lambda>r. \<not> decides re req r) (Rules s))\<rparr>)"
  unfolding Evaluate_def evaluateRules_spec
  by (cases "dropWhile (\<lambda>r. \<not> decides re req r) (Rules s)") (simp_all del: dropWhile_eq_Nil_conv)

text \<open>unknown is never a guess. When nothing was skipped, filling in the country, the network or the
  address that was missing from the request cannot change the decision.\<close>

theorem Evaluate_stable_under_completion:
  assumes "completes req req'" and "Skipped (Evaluate re s req) = []"
  shows "Evaluate re s req' = Evaluate re s req"
  using assms unfolding Evaluate_def by (rule evaluateRules_completes)

definition sample_request :: request where
  "sample_request =
     \<lparr>IP = InvalidAddr, Country = [], ASN = 0, Host = ''h'', Path = ''/Admin'', Method = ''GET'',
      UserAgent = [], Header = None\<rparr>"

definition sample_test :: "string \<Rightarrow> string \<Rightarrow> string \<Rightarrow> expr" where
  "sample_test f op v = Expr None None None (Some \<lparr>Field = f, Key = [], Op = op, Values = [v]\<rparr>)"

definition sample_set :: rule_set where
  "sample_set =
     \<lparr>Rules = [\<lparr>ID = ''1'', Name = ''n'', Action = ActionBlock,
         RuleExpr = Expr None (Some [sample_test FieldCountry OpIn ''ID'', sample_test FieldPath OpStartsWith ''/admin'']) None None,
         Enabled = True\<rparr>],
      Default = ActionAllow\<rparr>"

lemma Evaluate_stable_under_completion_witness:
  "DecAction (Evaluate (\<lambda>_. None) sample_set (sample_request\<lparr>Country := ''US''\<rparr>)) = ActionBlock"
proof -
  have "completes sample_request (sample_request\<lparr>Country := ''US''\<rparr>)"
    by (simp add: completes_def sample_request_def)
  moreover have "Skipped (Evaluate (\<lambda>_. None) sample_set sample_request) = []"
    and "DecAction (Evaluate (\<lambda>_. None) sample_set sample_request) = ActionBlock"
    by code_simp+
  ultimately show ?thesis
    using Evaluate_stable_under_completion by metis
qed

text \<open>a set that Validate accepts, asked about a request with an address and with the country and
  network that Needs reports, skips no rule, and its decision is one of the two actions.\<close>

theorem Validate_sound:
  assumes "Validate re s = None" and "informed (Needs s) req"
  shows "Skipped (Evaluate re s req) = [] \<and> Valid (DecAction (Evaluate re s req))"
proof -
  have known: "evaluate re (RuleExpr r) req \<noteq> isUnknown" if "r \<in> set (Rules s)" for r
    using Validate_None(1) [OF assms(1) that] Needs_rule [OF that assms(2)] evaluate_known by blast
  then have "unknown_names re req rs = []" if "set rs \<subseteq> set (Rules s)" for rs
    using that by (auto simp: unknown_names_Nil_iff)
  moreover have "set (takeWhile P (Rules s)) \<subseteq> set (Rules s)" for P
    using set_takeWhileD by fastforce
  moreover have "Valid (Action r)" if "dropWhile P (Rules s) = r # rs" for P r rs
    using that Validate_None(1) [OF assms(1), of r] set_dropWhileD [of r P "Rules s"] by simp
  ultimately show ?thesis
    by (auto simp: Evaluate_def evaluateRules_spec Valid_def split: list.split)
qed

lemma Validate_sound_witness:
  "Skipped (Evaluate (\<lambda>_. None) sample_set (sample_request\<lparr>IP := V4 1, Country := ''ID''\<rparr>)) = [] \<and>
   Valid (DecAction (Evaluate (\<lambda>_. None) sample_set (sample_request\<lparr>IP := V4 1, Country := ''ID''\<rparr>)))"
proof (rule Validate_sound)
  show "Validate (\<lambda>_. None) sample_set = None"
    by code_simp
  show "informed (Needs sample_set) (sample_request\<lparr>IP := V4 1, Country := ''ID''\<rparr>)"
    by code_simp
qed

text \<open>negation over groups obeys the laws of De Morgan, unknown included: refusing any of several
  conditions is requiring the negation of each.\<close>

theorem evaluate_de_morgan:
  "evaluate re (Expr None None (Some (Expr None (Some (e # es)) None None)) None) req =
     evaluate re (Expr (Some (map (\<lambda>e. Expr None None (Some e) None) (e # es))) None None None) req"
  by (simp add: evaluate_groups kleene_not_any comp_def del: evaluate.simps)

end
