(* ===== verification/Client_IP.thy ===== *)
theory Client_IP
  imports Edge_Rules
begin

text \<open>
  Who is asking: internal/edgerules/clientip.go. The address the rules judge is found by walking the
  chain of X-Forwarded-For from the right and stopping at the first entry that did not come from a
  trusted proxy.

  A Headers value is nil, an implementation of Get only, or one that can give every value of a
  header.
\<close>

section \<open>Definitions\<close>

record trust =
  Proxies :: "ip_prefix list"
  Cloudflare :: bool

definition Contains :: "trust \<Rightarrow> addr \<Rightarrow> bool" where
  "Contains t addr =
     (let ip = Unmap addr
      in list_ex (\<lambda>p. BitLen (Unmap (pfx_addr p)) = BitLen ip \<and> prefix_contains p ip) (Proxies t))"

datatype headers = NilHeaders | GetHeaders "string \<Rightarrow> string" | MultiHeaders "string \<Rightarrow> string list"

fun headerValues :: "headers \<Rightarrow> string \<Rightarrow> string list" where
  "headerValues (MultiHeaders values) name = values name"
| "headerValues (GetHeaders get) name = (if get name \<noteq> [] then [get name] else [])"
| "headerValues NilHeaders name = []"

definition LastHeaderValue :: "headers \<Rightarrow> string \<Rightarrow> string" where
  "LastHeaderValue h name =
     (let values = headerValues h name in if values = [] then [] else trim_space (last values))"

text \<open>The loop over the chain, whose entries come in the order it visits them, from the right.\<close>

fun walkChain :: "trust \<Rightarrow> addr \<Rightarrow> addr \<Rightarrow> string list \<Rightarrow> addr" where
  "walkChain t peer leftmost [] = (if IsValid leftmost then leftmost else peer)"
| "walkChain t peer leftmost (part # parts) =
     (case ParseAddr (trim_space part) of
        None \<Rightarrow> peer
      | Some a \<Rightarrow>
          (let ip = Unmap a in if \<not> Contains t ip then ip else walkChain t peer ip parts))"

definition ClientIP :: "addr \<Rightarrow> headers \<Rightarrow> trust \<Rightarrow> addr" where
  "ClientIP peerAddr h t =
     (let peer = Unmap peerAddr
      in if h = NilHeaders \<or> \<not> Contains t peer then peer
         else
           (case (if Cloudflare t then ParseAddr (LastHeaderValue h ''CF-Connecting-IP'') else None) of
              Some ip \<Rightarrow> Unmap ip
            | None \<Rightarrow>
                (let forwarded = join_with '','' (headerValues h ''X-Forwarded-For'')
                 in if trim_space forwarded = [] then peer
                    else walkChain t peer InvalidAddr (rev (split_on (CHR '','') forwarded)))))"

definition ClientCountry :: "addr \<Rightarrow> headers \<Rightarrow> trust \<Rightarrow> string" where
  "ClientCountry peer h t =
     (if h = NilHeaders \<or> \<not> Cloudflare t \<or> \<not> Contains t (Unmap peer) then []
      else
        (let country = to_upper (LastHeaderValue h ''CF-IPCountry'')
         in if \<not> isCountryCode country \<or> country = ''XX'' \<or> country = ''T1'' then [] else country))"

definition loopback4 :: ip_prefix where
  "loopback4 = \<lparr>pfx_addr = V4 0x7f000000, pfx_bits = 8\<rparr>"

definition loopback6 :: ip_prefix where
  "loopback6 = \<lparr>pfx_addr = V6 1 [], pfx_bits = 128\<rparr>"

definition DefaultProxies :: "string \<Rightarrow> string \<Rightarrow> ip_prefix list" where
  "DefaultProxies podCIDR serviceCIDR =
     [loopback4, loopback6] @
     List.map_filter (\<lambda>cidr. ParsePrefix (trim_space cidr)) [podCIDR, serviceCIDR]"

definition parseProxy :: "string \<Rightarrow> ip_prefix option" where
  "parseProxy field =
     (case ParsePrefix field of
        Some p \<Rightarrow> Some p
      | None \<Rightarrow>
          (case ParseAddr field of
             Some a \<Rightarrow> Some \<lparr>pfx_addr = (case a of V6 w _ \<Rightarrow> V6 w [] | _ \<Rightarrow> a), pfx_bits = BitLen a\<rparr>
           | None \<Rightarrow> None))"

definition ParseProxies :: "string \<Rightarrow> ip_prefix list" where
  "ParseProxies value =
     List.map_filter parseProxy
       (fields_func (\<lambda>r. r = CHR '','' \<or> r = CHR '' '' \<or> r = CHR 0x0A \<or> r = CHR 0x09) value)"

section \<open>Specification vocabulary\<close>

text \<open>The text of the chain, and an entry at which the walk stops.\<close>

definition chain_text :: "headers \<Rightarrow> string" where
  "chain_text h = join_with '','' (headerValues h ''X-Forwarded-For'')"

definition stops :: "trust \<Rightarrow> string \<Rightarrow> bool" where
  "stops t part \<longleftrightarrow>
     (case ParseAddr (trim_space part) of None \<Rightarrow> True | Some a \<Rightarrow> \<not> Contains t (Unmap a))"

section \<open>Lemmas\<close>

lemma NilHeaders_code [code_unfold]: "HOL.equal h NilHeaders \<longleftrightarrow> (case h of NilHeaders \<Rightarrow> True | _ \<Rightarrow> False)"
  by (cases h) (simp_all add: equal)

lemma must_parse: "ParsePrefix ''127.0.0.0/8'' = Some loopback4" "ParsePrefix ''::1/128'' = Some loopback6"
  by code_simp+

lemma walkChain_stops:
  "list_ex (stops t) xs \<Longrightarrow> walkChain t peer l (xs @ ys) = walkChain t peer l (xs @ zs)"
  by (induction xs arbitrary: l) (auto simp: stops_def Let_def split: option.splits)

text \<open>The entry at which the walk ends decides, unless it does not parse.\<close>

lemma walkChain_at:
  assumes "\<forall>y \<in> set post. \<not> stops t y" and "stops t x \<or> pre = []"
  shows "walkChain t peer l (post @ x # pre) =
           (case ParseAddr (trim_space x) of None \<Rightarrow> peer | Some a \<Rightarrow> Unmap a)"
  using assms(1)
proof (induction post arbitrary: l)
  case Nil
  show ?case
    using assms(2) ParseAddr_wf by (auto simp: stops_def Let_def split: option.splits)
next
  case (Cons y post)
  then show ?case by (auto simp: stops_def Let_def split: option.splits)
qed

lemma ClientIP_untrusted: "\<not> Contains t (Unmap peer) \<Longrightarrow> ClientIP peer h t = Unmap peer"
  by (simp add: ClientIP_def)

lemma ClientIP_chain:
  assumes "h \<noteq> NilHeaders" and "Contains t (Unmap peer)" and "\<not> Cloudflare t" and "trim_space (chain_text h) \<noteq> []"
  shows "ClientIP peer h t = walkChain t (Unmap peer) InvalidAddr (rev (split_on (CHR '','') (chain_text h)))"
  using assms by (simp add: ClientIP_def chain_text_def Let_def)

section \<open>Properties\<close>

text \<open>a client that does not come through a trusted proxy cannot choose the address or the country
  it is judged by: whatever headers it sends, the address is that of its connection and there is no
  country.\<close>

theorem untrusted_peer_cannot_speak:
  assumes "\<not> Contains t (Unmap peer)"
  shows "ClientIP peer h t = Unmap peer \<and> ClientCountry peer h t = []"
  using assms by (simp add: ClientIP_untrusted ClientCountry_def)

definition cluster_trust :: trust where
  "cluster_trust = \<lparr>Proxies = DefaultProxies ''10.42.0.0/16'' ''10.43.0.0/16'', Cloudflare = False\<rparr>"

lemma untrusted_peer_cannot_speak_witness:
  "ClientIP (V4 0x01020304) (MultiHeaders (\<lambda>_. [''5.6.7.8''])) cluster_trust = Unmap (V4 0x01020304) \<and>
   ClientCountry (V4 0x01020304) (MultiHeaders (\<lambda>_. [''5.6.7.8''])) cluster_trust = []"
  by (rule untrusted_peer_cannot_speak) code_simp



text \<open>what a client writes cannot reach past the first entry a trusted proxy vouches for. Two
  chains that agree on a right part holding an entry at which the walk stops give the same address,
  whatever stands to the left of it.\<close>

theorem ClientIP_ignores_left:
  assumes "h \<noteq> NilHeaders" and "h' \<noteq> NilHeaders" and "\<not> Cloudflare t"
    and "chain_text h = a @ CHR '','' # b" and "chain_text h' = a' @ CHR '','' # b"
    and "list_ex (stops t) (split_on (CHR '','') b)"
  shows "ClientIP peer h t = ClientIP peer h' t"
proof (cases "Contains t (Unmap peer)")
  case True
  have nb: "trim_space (c @ CHR '','' # b) \<noteq> []" for c
    by (rule trim_space_not_blank [of "CHR '',''"]) (auto simp: is_space_def)
  have ex: "list_ex (stops t) (rev (split_on (CHR '','') b))"
    using assms(6) by (simp add: list_ex_iff)
  have "walkChain t (Unmap peer) InvalidAddr (rev (split_on (CHR '','') b) @ rev (split_on (CHR '','') a)) =
        walkChain t (Unmap peer) InvalidAddr (rev (split_on (CHR '','') b) @ rev (split_on (CHR '','') a'))"
    by (rule walkChain_stops [OF ex])
  with True assms(1-5) nb show ?thesis
    by (simp add: ClientIP_chain split_on_append_sep_general)
next
  case False
  then show ?thesis by (simp add: ClientIP_untrusted)
qed

lemma ClientIP_ignores_left_witness:
  "ClientIP (V4 0x0a2a0001) (GetHeaders (\<lambda>_. ''9.9.9.9,5.6.7.8'')) cluster_trust =
   ClientIP (V4 0x0a2a0001) (GetHeaders (\<lambda>_. ''127.0.0.1,5.6.7.8'')) cluster_trust"
  by (rule ClientIP_ignores_left [where a = "''9.9.9.9''" and a' = "''127.0.0.1''" and b = "''5.6.7.8''"])
    (simp_all add: chain_text_def, code_simp+)

end
