(* ===== verification/Errdoc.thy ===== *)
theory Errdoc
  imports Go_Prelude "HOL-Library.AList" "HOL-Library.Char_ord" "HOL-Library.List_Lexorder"
begin

text \<open>
  Failures with an explanation, \<^verbatim>\<open>internal/errdoc\<close>: the problem itself, the values
  that went into its sentences, the general part of the catalogue and the two
  texts a problem is shown as. Of \<^verbatim>\<open>fmt\<close> the verbs with no flags on strings and
  integers are modelled, which is what these sentences use. The time a problem
  was made, which \<^verbatim>\<open>New\<close> stamps on it, is left out; the underlying error is its
  text.
\<close>

section \<open>Formatting\<close>

datatype fmt_arg = Str string | Num int

definition percent :: char where "percent = CHR ''%''"

definition value_of :: "fmt_arg \<Rightarrow> string" where
  "value_of a = (case a of Str t \<Rightarrow> t | Num n \<Rightarrow> itoa n)"

definition typed_value :: "fmt_arg \<Rightarrow> string" where
  "typed_value a = (case a of Str t \<Rightarrow> ''string='' @ t | Num n \<Rightarrow> ''int='' @ itoa n)"

definition render_verb :: "char \<Rightarrow> fmt_arg \<Rightarrow> string" where
  "render_verb c a = (if c = CHR ''v'' \<or> (case a of Str _ \<Rightarrow> c = CHR ''s'' | Num _ \<Rightarrow> c = CHR ''d'') then value_of a
     else [percent, CHR ''!'', c, CHR ''('' ] @ typed_value a @ '')'')"

fun Sprintf :: "string \<Rightarrow> fmt_arg list \<Rightarrow> string" where
  "Sprintf [] [] = []"
| "Sprintf [] args = ''%!(EXTRA '' @ join_with '', '' (map typed_value args) @ '')''"
| "Sprintf [c] args = (if c = percent then ''%!(NOVERB)'' else [c]) @ Sprintf [] args"
| "Sprintf (c # d # rest) args = (if c \<noteq> percent then c # Sprintf (d # rest) args
     else if d = percent then percent # Sprintf rest args
     else (case args of [] \<Rightarrow> [percent, CHR ''!'', d] @ ''(MISSING)'' @ Sprintf rest []
       | a # more \<Rightarrow> render_verb d a @ Sprintf rest more))"

text \<open>\<^verbatim>\<open>verbsIn\<close>: the loop over the format string, with the flags and widths it accepts.\<close>

definition is_flag :: "char \<Rightarrow> bool" where
  "is_flag c \<longleftrightarrow> c \<in> set ''+-# 0123456789.''"

lemma dropWhile_shorter: "dropWhile p xs = v # ys \<Longrightarrow> length ys < length xs"
  by (metis Suc_le_lessD length_Cons length_dropWhile_le)

function verbsIn :: "string \<Rightarrow> string list" where
  "verbsIn [] = []"
| "verbsIn (c # rest) = (if c \<noteq> percent then verbsIn rest
     else case rest of d # more \<Rightarrow> if d = percent then verbsIn more
         else (case dropWhile is_flag rest of [] \<Rightarrow> verbsIn rest
           | v # after \<Rightarrow> (percent # takeWhile is_flag rest @ [v]) # verbsIn after)
       | [] \<Rightarrow> [])"
  by pat_completeness auto
termination
  by (relation "measure length") (auto dest!: dropWhile_shorter simp del: dropWhile.simps)

fun renderEach :: "string list \<Rightarrow> fmt_arg list \<Rightarrow> string list" where
  "renderEach verbs [] = []"
| "renderEach [] (a # args) = Sprintf ''%v'' [a] # renderEach [] args"
| "renderEach (v # verbs) (a # args) = Sprintf v [a] # renderEach verbs args"

definition renderArgs :: "string \<Rightarrow> fmt_arg list \<Rightarrow> string list" where
  "renderArgs format args = renderEach (verbsIn format) args"

section \<open>Problems\<close>

datatype Severity = SeverityError | SeverityWarning | SeverityInfo

record Args =
  argTitle :: "string list"
  argCause :: "string list"
  argImpact :: "string list"
  argFix :: "string list"

record Problem =
  Code :: string
  Title :: string
  Cause :: string
  Impact :: string
  Fix :: string
  problemArgs :: Args
  DocsPath :: string
  problemSeverity :: Severity
  Retryable :: bool
  problemStatus :: int
  Context :: "(string \<times> string) list"
  underlying :: "string option"

definition New :: "string \<Rightarrow> string \<Rightarrow> Problem" where
  "New code title = \<lparr>Code = code, Title = title, Cause = [], Impact = [], Fix = [],
     problemArgs = \<lparr>argTitle = [], argCause = [], argImpact = [], argFix = []\<rparr>, DocsPath = [],
     problemSeverity = SeverityError, Retryable = False, problemStatus = 500, Context = [], underlying = None\<rparr>"

definition Newf :: "string \<Rightarrow> string \<Rightarrow> fmt_arg list \<Rightarrow> Problem" where
  "Newf code format args = (let p = New code (Sprintf format args) in
     p\<lparr>problemArgs := (problemArgs p)\<lparr>argTitle := renderArgs format args\<rparr>\<rparr>)"

definition WithCause :: "string \<Rightarrow> fmt_arg list \<Rightarrow> Problem \<Rightarrow> Problem" where
  "WithCause format args p = p\<lparr>Cause := Sprintf format args,
     problemArgs := (problemArgs p)\<lparr>argCause := renderArgs format args\<rparr>\<rparr>"

definition WithImpact :: "string \<Rightarrow> fmt_arg list \<Rightarrow> Problem \<Rightarrow> Problem" where
  "WithImpact format args p = p\<lparr>Impact := Sprintf format args,
     problemArgs := (problemArgs p)\<lparr>argImpact := renderArgs format args\<rparr>\<rparr>"

definition WithFix :: "string \<Rightarrow> fmt_arg list \<Rightarrow> Problem \<Rightarrow> Problem" where
  "WithFix format args p = p\<lparr>Fix := Sprintf format args,
     problemArgs := (problemArgs p)\<lparr>argFix := renderArgs format args\<rparr>\<rparr>"

definition WithDocs :: "string \<Rightarrow> Problem \<Rightarrow> Problem" where
  "WithDocs path p = p\<lparr>DocsPath := path\<rparr>"

definition WithStatus :: "int \<Rightarrow> Problem \<Rightarrow> Problem" where
  "WithStatus status p = p\<lparr>problemStatus := status\<rparr>"

definition WithSeverity :: "Severity \<Rightarrow> Problem \<Rightarrow> Problem" where
  "WithSeverity sev p = p\<lparr>problemSeverity := sev\<rparr>"

definition Retry :: "Problem \<Rightarrow> Problem" where
  "Retry p = p\<lparr>Retryable := True\<rparr>"

definition WithContext :: "string \<Rightarrow> string \<Rightarrow> Problem \<Rightarrow> Problem" where
  "WithContext key v p = (if v = [] then p else p\<lparr>Context := AList.update key v (Context p)\<rparr>)"

definition Wrap :: "string option \<Rightarrow> Problem \<Rightarrow> Problem" where
  "Wrap err p = (case err of None \<Rightarrow> p\<lparr>underlying := None\<rparr>
     | Some text \<Rightarrow> WithContext ''underlying_error'' text (p\<lparr>underlying := Some text\<rparr>))"

definition ErrorText :: "Problem \<Rightarrow> string" where
  "ErrorText p = (if Cause p \<noteq> [] then Title p @ '': '' @ Cause p else Title p)"

section \<open>The general part of the catalogue\<close>

definition BadRequest :: "string \<Rightarrow> Problem" where
  "BadRequest cause = WithStatus 400 (WithFix ''Correct the highlighted field and try again.'' []
     (WithImpact ''Nothing was changed.'' [] (WithCause ''%s'' [Str cause]
       (New ''request.invalid'' ''That request was not valid''))))"

definition Unauthorized :: Problem where
  "Unauthorized = WithStatus 401 (WithFix (''Sign in again. If you are using the CLI, run '' @ [CHR 0x60] @ ''skifity login'' @ [CHR 0x60] @ ''.'') []
     (WithImpact ''The action was not performed.'' []
       (WithCause ''This request had no valid session or API token.'' [] (New ''auth.required'' ''You need to sign in''))))"

definition Forbidden :: "string \<Rightarrow> Problem" where
  "Forbidden action = WithStatus 403 (WithFix ''Ask a team owner or admin to do this, or to raise your role.'' []
     (WithImpact ''The action was not performed.'' []
       (WithCause ''Your role in this team does not allow %s.'' [Str action]
         (New ''auth.forbidden'' ''You do not have permission for this''))))"

definition NotFound :: "string \<Rightarrow> string \<Rightarrow> Problem" where
  "NotFound kind ident = WithContext ''id'' ident (WithContext ''kind'' kind (WithStatus 404
     (WithFix ''Check the id, or go back to the list and pick it again.'' [] (WithImpact ''Nothing was changed.'' []
       (WithCause ''No %s with the id %s is visible to you.'' [Str kind, Str ident]
         (Newf ''resource.not_found'' ''That %s does not exist'' [Str kind]))))))"

definition Conflict :: "string \<Rightarrow> string \<Rightarrow> Problem" where
  "Conflict cause fix' = WithStatus 409 (WithFix ''%s'' [Str fix'] (WithImpact ''Nothing was changed.'' []
     (WithCause ''%s'' [Str cause] (New ''resource.conflict'' ''That name is already taken''))))"

definition RateLimited :: "string \<Rightarrow> Problem" where
  "RateLimited retryAfter = WithContext ''retry_after'' retryAfter (WithStatus 429
     (WithFix ''Wait %s and try again. If this was not you, change your password once you can sign in.'' [Str retryAfter]
       (WithImpact ''Sign-in is paused so that passwords cannot be guessed.'' []
         (WithCause ''There have been too many failed sign-in attempts for this account or from this address.'' []
           (New ''auth.rate_limited'' ''Too many attempts'')))))"

text \<open>\<^verbatim>\<open>From\<close> for an error that is no problem: its text is the cause.\<close>

definition From :: "string \<Rightarrow> Problem" where
  "From text = Wrap (Some text) (WithFix ''Try again. If it keeps happening, copy this error and open an issue.'' []
     (WithImpact ''The action you asked for did not complete.'' [] (WithCause ''%s'' [Str text]
       (New ''internal'' ''Something went wrong''))))"

section \<open>Texts\<close>

definition nl :: string where "nl = [CHR 0x0A]"

definition sortedContext :: "Problem \<Rightarrow> (string \<times> string) list" where
  "sortedContext p = sort_key fst (Context p)"


definition Text :: "Problem \<Rightarrow> string" where
  "Text p = Title p @ nl
     @ (if Cause p \<noteq> [] then nl @ ''  What happened: '' @ Cause p @ nl else [])
     @ (if Impact p \<noteq> [] then ''  What it means: '' @ Impact p @ nl else [])
     @ (if Fix p \<noteq> [] then ''  How to fix it: '' @ Fix p @ nl else [])
     @ (if Context p \<noteq> [] then nl @ ''  Details:'' @ nl
          @ concat (map (\<lambda>(k, v). ''    '' @ k @ '': '' @ v @ nl) (sortedContext p)) else [])
     @ (if DocsPath p \<noteq> [] then nl @ ''  Docs: '' @ DocsPath p @ nl else [])
     @ nl @ ''  Error code: '' @ Code p @ nl"

definition fence :: string where "fence = replicate 3 (CHR 0x60)"

definition Markdown :: "string \<Rightarrow> string \<Rightarrow> string \<Rightarrow> Problem \<Rightarrow> string" where
  "Markdown productName productVersion at p = ''## '' @ productName @ '' error: '' @ Title p @ nl @ nl
     @ ''- **Error code**: '' @ [CHR 0x60] @ Code p @ [CHR 0x60] @ nl @ ''- **When**: '' @ at @ nl
     @ ''- **'' @ productName @ '' version**: '' @ productVersion @ nl
     @ (if Cause p \<noteq> [] then nl @ ''**What happened**'' @ nl @ nl @ Cause p @ nl else [])
     @ (if Impact p \<noteq> [] then nl @ ''**What it means**'' @ nl @ nl @ Impact p @ nl else [])
     @ (if Fix p \<noteq> [] then nl @ ''**Suggested fix**'' @ nl @ nl @ Fix p @ nl else [])
     @ (if Context p \<noteq> [] then nl @ ''**Context**'' @ nl @ nl @ fence @ nl
          @ concat (map (\<lambda>(k, v). k @ '': '' @ v @ nl) (sortedContext p)) @ fence @ nl else [])
     @ nl @ ''**What I need**'' @ nl @ nl @ ''Explain what is wrong and give me the exact steps to fix it.'' @ nl"

section \<open>A sentence and its values\<close>

text \<open>
  The interface fills the sentence of its own language with the values of
  \<^verbatim>\<open>Args\<close>. A sentence is literal text between verbs; filling the English one with
  the rendered values gives the English text, so no value is lost, moved or
  printed another way.
\<close>

fun fill :: "string list \<Rightarrow> string list \<Rightarrow> string" where
  "fill [] vs = []"
| "fill (l # ls) [] = l @ fill ls []"
| "fill (l # ls) (v # vs) = l @ v @ fill ls vs"

fun sentence :: "string \<Rightarrow> (char \<times> string) list \<Rightarrow> string" where
  "sentence l [] = l"
| "sentence l ((v, m) # rest) = l @ [percent, v] @ sentence m rest"

definition literal :: "string \<Rightarrow> bool" where
  "literal l \<longleftrightarrow> percent \<notin> set l"

definition verb_char :: "char \<Rightarrow> bool" where
  "verb_char c \<longleftrightarrow> c \<noteq> percent \<and> \<not> is_flag c"

lemma literal_verbs: "literal l \<Longrightarrow> verbsIn (l @ f) = verbsIn f"
  by (induction l) (auto simp: literal_def)

lemma verbsIn_verb: "verb_char v \<Longrightarrow> verbsIn (percent # v # f) = [percent, v] # verbsIn f"
  by (simp add: verb_char_def)

lemma verbsIn_sentence:
  "\<lbrakk>literal l; \<forall>(v, m) \<in> set ps. verb_char v \<and> literal m\<rbrakk> \<Longrightarrow> verbsIn (sentence l ps) = map (\<lambda>(v, m). [percent, v]) ps"
proof (induction l ps rule: sentence.induct)
  case (1 l)
  then show ?case using literal_verbs [of l "[]"] by simp
next
  case (2 l v m rest)
  then show ?case by (auto simp: literal_verbs verbsIn_verb simp del: verbsIn.simps)
qed

lemma literal_Sprintf: "literal l \<Longrightarrow> l @ f \<noteq> [] \<Longrightarrow> f \<noteq> [] \<or> args = [] \<Longrightarrow> Sprintf (l @ f) args = l @ Sprintf f args"
proof (induction l)
  case (Cons c l)
  show ?case
  proof (cases "l @ f")
    case Nil
    then show ?thesis using Cons.prems by (auto simp: literal_def)
  next
    case (Cons d rest)
    then show ?thesis using Cons.IH Cons.prems by (auto simp: literal_def)
  qed
qed simp

lemma Sprintf_verb: "v \<noteq> percent \<Longrightarrow> Sprintf (percent # v # f) (a # args) = render_verb v a @ Sprintf f args"
  by simp

lemma literal_all: "literal l \<Longrightarrow> Sprintf l [] = l"
  using literal_Sprintf [of l "[]" "[]"] by (cases l) simp_all

lemma renderEach_pairs:
  "\<lbrakk>length ps = length args; \<forall>(v, m) \<in> set ps. verb_char v\<rbrakk> \<Longrightarrow>
    renderEach (map (\<lambda>(v, m). [percent, v]) ps) args = map2 (\<lambda>(v, m) a. render_verb v a) ps args"
proof (induction ps args rule: list_induct2')
  case (4 p ps a args)
  then show ?case by (auto simp: verb_char_def)
qed auto

lemma Sprintf_sentence:
  "\<lbrakk>length ps = length args; literal l; \<forall>(v, m) \<in> set ps. verb_char v \<and> literal m\<rbrakk> \<Longrightarrow>
    Sprintf (sentence l ps) args = fill (l # map snd ps) (map2 (\<lambda>(v, m) a. render_verb v a) ps args)"
proof (induction ps args arbitrary: l rule: list_induct2')
  case 1
  then show ?case by (simp add: literal_all)
next
  case (4 p ps a args)
  obtain v m where p: "p = (v, m)" by force
  have "Sprintf (sentence l (p # ps)) (a # args) = l @ Sprintf (percent # v # sentence m ps) (a # args)"
    using 4 by (simp add: p literal_Sprintf del: Sprintf.simps)
  also have "\<dots> = l @ render_verb v a @ Sprintf (sentence m ps) args"
    using 4 by (simp add: p verb_char_def)
  finally show ?case using 4 by (auto simp: p)
qed auto

theorem sentence_values:
  assumes "length args = length ps" "literal l" "\<forall>(v, m) \<in> set ps. verb_char v \<and> literal m"
  shows "Sprintf (sentence l ps) args = fill (l # map snd ps) (renderArgs (sentence l ps) args)"
proof -
  have v: "\<forall>(v, m) \<in> set ps. verb_char v" using assms(3) by auto
  show ?thesis
    unfolding Sprintf_sentence [OF assms(1) [symmetric] assms(2,3)] renderArgs_def verbsIn_sentence [OF assms(2,3)]
    using renderEach_pairs [OF assms(1) [symmetric] v] by simp
qed

end
