(* ===== verification/Geoip.thy ===== *)
theory Geoip
  imports Netip Go_Time Errdoc "HOL-Library.Sublist"
begin

text \<open>
  Country and network of an address, \<^verbatim>\<open>internal/geoip\<close>: the two databases a lookup
  holds (\<^verbatim>\<open>geoip.go\<close>) and how their files are fetched (\<^verbatim>\<open>fetch.go\<close>).

  The reader of a database is package maxminddb, so an open database is a
  parameter: the function from an address to what Decode gives, None when it
  fails. The outside world of one fetch is a record: what each URL answers, what
  gzip makes of a stream, how maxminddb.Open reads a file, and which of the calls
  to the operating system fail. A stream is the bytes that arrive and whether it
  ends with an error. Temporary files are removed on every path and are not in
  the model; the data directory maps a path to the time it was written and its
  contents.
\<close>

section \<open>The lookup\<close>

record geo_result =
  resCountry :: string
  resASN :: int
  resASNOrg :: string

type_synonym country_db = "addr \<Rightarrow> string option"
type_synonym asn_db = "addr \<Rightarrow> (int \<times> string) option"

record geo_lookup =
  country :: "country_db option"
  asn :: "asn_db option"

definition newLookup :: geo_lookup where
  "newLookup = \<lparr>country = None, asn = None\<rparr>"

type_synonym disk = "string \<rightharpoonup> instant \<times> string"

datatype geo_error = NotThere string | NotADatabase | RequestFailed | NotPublished string | BadAnswer int | OSFailed | NotGzip string | CopyFailed | TooBig string | NothingReturned string

text \<open>\<^verbatim>\<open>open\<close>: no database for an empty path; otherwise the file has to be there and to open.\<close>

definition openDB :: "(string \<Rightarrow> 'r option) \<Rightarrow> disk \<Rightarrow> string \<Rightarrow> geo_error + 'r option" where
  "openDB maxminddb d path =
     (if path = [] then Inr None
      else (case d path of
              None \<Rightarrow> Inl (NotThere path)
            | Some (_, contents) \<Rightarrow>
                (case maxminddb contents of None \<Rightarrow> Inl NotADatabase | Some r \<Rightarrow> Inr (Some r))))"

definition LoadCountry :: "(string \<Rightarrow> country_db option) \<Rightarrow> disk \<Rightarrow> string \<Rightarrow> geo_lookup \<Rightarrow> geo_error option \<times> geo_lookup" where
  "LoadCountry maxminddb d path l =
     (case openDB maxminddb d path of Inl e \<Rightarrow> (Some e, l) | Inr r \<Rightarrow> (None, l\<lparr>country := r\<rparr>))"

definition LoadASN :: "(string \<Rightarrow> asn_db option) \<Rightarrow> disk \<Rightarrow> string \<Rightarrow> geo_lookup \<Rightarrow> geo_error option \<times> geo_lookup" where
  "LoadASN maxminddb d path l =
     (case openDB maxminddb d path of Inl e \<Rightarrow> (Some e, l) | Inr r \<Rightarrow> (None, l\<lparr>asn := r\<rparr>))"

definition CloseLookup :: "geo_lookup \<Rightarrow> geo_lookup" where
  "CloseLookup l = l\<lparr>country := None, asn := None\<rparr>"

definition HasCountry :: "geo_lookup \<Rightarrow> bool" where
  "HasCountry l \<longleftrightarrow> country l \<noteq> None"

definition HasASN :: "geo_lookup \<Rightarrow> bool" where
  "HasASN l \<longleftrightarrow> asn l \<noteq> None"

definition nothing_known :: geo_result where
  "nothing_known = \<lparr>resCountry = [], resASN = 0, resASNOrg = []\<rparr>"

definition Lookup :: "geo_lookup \<Rightarrow> addr \<Rightarrow> geo_result" where
  "Lookup l ip =
     (if \<not> IsValid ip then nothing_known
      else let ip = Unmap ip;
               out = (case country l of
                        None \<Rightarrow> nothing_known
                      | Some db \<Rightarrow> (case db ip of
                                     None \<Rightarrow> nothing_known
                                   | Some code \<Rightarrow> nothing_known\<lparr>resCountry := code\<rparr>))
           in case asn l of
                None \<Rightarrow> out
              | Some db \<Rightarrow> (case db ip of
                             None \<Rightarrow> out
                           | Some (number, org) \<Rightarrow> out\<lparr>resASN := number, resASNOrg := org\<rparr>))"

section \<open>Fetching\<close>

definition MaxDatabaseBytes :: nat where
  "MaxDatabaseBytes = 100 * 2 ^ 20"

definition DefaultCountryURL :: string where
  "DefaultCountryURL = ''https://download.db-ip.com/free/dbip-country-lite-%s.mmdb.gz''"

definition DefaultASNURL :: string where
  "DefaultASNURL = ''https://download.db-ip.com/free/dbip-asn-lite-%s.mmdb.gz''"

definition URLFor :: "string \<Rightarrow> instant \<Rightarrow> string" where
  "URLFor tmpl at = Sprintf tmpl [Str (format_month at)]"

type_synonym stream = "string \<times> bool"

datatype answer = NoAnswer | Answer int stream

record fetch_world =
  web :: "string \<Rightarrow> answer"
  gunzip :: "stream \<Rightarrow> stream option"
  openCountry :: "string \<Rightarrow> country_db option"
  openASN :: "string \<Rightarrow> asn_db option"
  mkdirFails :: bool
  createTempFails :: bool
  writeFails :: bool
  closeFails :: bool
  chmodFails :: bool
  renameFails :: bool

text \<open>\<^verbatim>\<open>io.Copy\<close> from a reader limited to n bytes: an error at the end of the stream is met only when
  the limit is not reached first.\<close>

definition copyLimited :: "nat \<Rightarrow> stream \<Rightarrow> string option" where
  "copyLimited n st = (if length (fst st) < n \<and> snd st then None else Some (take n (fst st)))"

text \<open>The new contents of the file, or why there are none.\<close>

definition download :: "fetch_world \<Rightarrow> string \<Rightarrow> geo_error + string" where
  "download w url =
     (case web w url of
        NoAnswer \<Rightarrow> Inl RequestFailed
      | Answer status body \<Rightarrow>
          (if status = 404 then Inl (NotPublished url)
           else if status \<noteq> 200 then Inl (BadAnswer status)
           else if mkdirFails w \<or> createTempFails w then Inl OSFailed
           else (case (if suffix ''.gz'' url then gunzip w body else Some body) of
                   None \<Rightarrow> Inl (NotGzip url)
                 | Some source \<Rightarrow>
                     (if writeFails w then Inl CopyFailed
                      else (case copyLimited (MaxDatabaseBytes + 1) source of
                              None \<Rightarrow> Inl CopyFailed
                            | Some written \<Rightarrow>
                                (if length written > MaxDatabaseBytes then Inl (TooBig url)
                                 else if written = [] then Inl (NothingReturned url)
                                 else if closeFails w \<or> chmodFails w \<or> renameFails w then Inl OSFailed
                                 else Inr written))))))"

fun attempt :: "fetch_world \<Rightarrow> string list \<Rightarrow> geo_error \<Rightarrow> geo_error + string" where
  "attempt w [] lastErr = Inl lastErr"
| "attempt w (url # urls) lastErr =
     (case download w url of
        Inr contents \<Rightarrow> Inr contents
      | Inl e \<Rightarrow> (case e of NotPublished _ \<Rightarrow> attempt w urls e | _ \<Rightarrow> Inl e))"

definition attempts :: "string \<Rightarrow> instant \<Rightarrow> string list" where
  "attempts urlTemplate now =
     (if sublist ''%s'' urlTemplate
      then [URLFor urlTemplate now, URLFor urlTemplate (add_months (-1) now)]
      else [urlTemplate])"

definition databasePath :: "string \<Rightarrow> string \<Rightarrow> string" where
  "databasePath dir name = dir @ ''/'' @ name @ ''.mmdb''"

definition fresh :: "disk \<Rightarrow> string \<Rightarrow> instant \<Rightarrow> bool" where
  "fresh d path now \<longleftrightarrow> (case d path of None \<Rightarrow> False | Some (at, _) \<Rightarrow> now - at < 7 * 24 * hour)"

definition Fetch :: "fetch_world \<Rightarrow> string \<Rightarrow> string \<Rightarrow> string \<Rightarrow> instant \<Rightarrow> disk \<Rightarrow> (geo_error + string) \<times> disk" where
  "Fetch w dir name urlTemplate now d =
     (let path = databasePath dir name
      in if trim_space urlTemplate = [] then (Inr [], d)
         else if fresh d path now then (Inr path, d)
         else (case attempt w (attempts urlTemplate now) OSFailed of
                 Inr contents \<Rightarrow> (Inr path, d(path \<mapsto> (now, contents)))
               | Inl e \<Rightarrow> (if d path \<noteq> None then (Inr path, d) else (Inl e, d))))"

section \<open>Lemmas\<close>

lemma download_size: "download w url = Inr c \<Longrightarrow> c \<noteq> [] \<and> length c \<le> MaxDatabaseBytes"
  by (auto simp: download_def split: answer.splits option.splits if_splits)

lemma attempt_from: "attempt w urls e = Inr c \<Longrightarrow> \<exists>url \<in> set urls. download w url = Inr c"
  by (induction w urls e rule: attempt.induct) (auto split: sum.splits geo_error.splits)

lemma attempt_size: "attempt w urls e = Inr c \<Longrightarrow> c \<noteq> [] \<and> length c \<le> MaxDatabaseBytes"
  using attempt_from download_size by blast

lemma attempt_first: "download w url = Inr c \<Longrightarrow> attempt w (url # urls) e = Inr c"
  by simp

text \<open>Every file in the data directory is a complete download: it is not empty and within the bound.\<close>

definition disk_ok :: "disk \<Rightarrow> bool" where
  "disk_ok d \<longleftrightarrow> (\<forall>p at c. d p = Some (at, c) \<longrightarrow> c \<noteq> [] \<and> length c \<le> MaxDatabaseBytes)"

lemma disk_ok_empty [simp]: "disk_ok Map.empty"
  by (simp add: disk_ok_def)

lemma Fetch_disk_ok:
  assumes "disk_ok d" shows "disk_ok (snd (Fetch w dir name tmpl now d))"
proof -
  have "disk_ok (d(p \<mapsto> (now, c)))" if "attempt w urls e = Inr c" for p urls e c
    using assms attempt_size [OF that] by (auto simp: disk_ok_def)
  with assms show ?thesis by (auto simp: Fetch_def Let_def split: sum.splits)
qed

lemma Fetch_cases:
  "Fetch w dir name tmpl now d = (r, d') \<Longrightarrow> trim_space tmpl \<noteq> [] \<Longrightarrow>
     (case r of Inr p \<Rightarrow> p = databasePath dir name \<and> d' p \<noteq> None
              | Inl _ \<Rightarrow> d' = d \<and> d (databasePath dir name) = None)"
  by (auto simp: Fetch_def fresh_def Let_def split: sum.splits if_splits option.splits)

lemma Fetch_other: "p \<noteq> databasePath dir name \<Longrightarrow> snd (Fetch w dir name tmpl now d) p = d p"
  by (auto simp: Fetch_def Let_def split: sum.splits)

text \<open>The month in one of the default addresses.\<close>

lemma URLFor_month:
  assumes "percent \<notin> set a" and "percent \<notin> set b"
  shows "URLFor (a @ ''%s'' @ b) at = a @ format_month at @ b"
proof -
  have tail: "Sprintf b [] = b" if "percent \<notin> set b" for b
    using that by (induction b "[] :: fmt_arg list" rule: Sprintf.induct) auto
  have "Sprintf (a @ ''%s'' @ b) [v] = a @ value_of v @ b" if "case v of Str _ \<Rightarrow> True | _ \<Rightarrow> False" for v
    using assms(1)
  proof (induction a)
    case Nil
    with that tail [OF assms(2)] show ?case by (auto simp: percent_def render_verb_def split: fmt_arg.splits)
  next
    case (Cons c a)
    then show ?case by (cases "a @ ''%s'' @ b") auto
  qed
  then show ?thesis by (simp add: URLFor_def value_of_def)
qed

section \<open>Properties\<close>

text \<open>fetching a database never gives a name of a file that is not there, and never loses one.
  When it returns a path the file is in the data directory; when it fails there was no file before and
  the directory is unchanged; and what is in the directory is always a complete download, neither empty
  nor over the bound.\<close>

theorem Fetch_keeps_a_database:
  assumes "disk_ok d" and "trim_space tmpl \<noteq> []" and "Fetch w dir name tmpl now d = (r, d')"
  shows "disk_ok d' \<and> (d (databasePath dir name) \<noteq> None \<longrightarrow> d' (databasePath dir name) \<noteq> None) \<and>
    (case r of Inr p \<Rightarrow> p = databasePath dir name \<and> d' p \<noteq> None
             | Inl _ \<Rightarrow> d' = d \<and> d (databasePath dir name) = None)"
proof -
  have "disk_ok d'" using Fetch_disk_ok [OF assms(1), of w dir name tmpl now] assms(3) by simp
  with Fetch_cases [OF assms(3,2)] show ?thesis by (cases r) auto
qed

definition quiet_world :: fetch_world where
  "quiet_world = \<lparr>web = (\<lambda>url. if url = ''http://m/db'' then Answer 200 (''MMDB'', False) else Answer 404 ([], False)),
     gunzip = Some, openCountry = (\<lambda>_. Some (\<lambda>_. Some ''ID'')), openASN = (\<lambda>_. Some (\<lambda>_. Some (13335, ''net''))),
     mkdirFails = False, createTempFails = False, writeFails = False, closeFails = False, chmodFails = False,
     renameFails = False\<rparr>"

lemma Fetch_keeps_a_database_witness:
  "disk_ok [''/d/country.mmdb'' \<mapsto> (5, ''MMDB'')] \<and>
   Fetch quiet_world ''/d'' ''country'' ''http://m/db'' 5 Map.empty = (Inr ''/d/country.mmdb'', [''/d/country.mmdb'' \<mapsto> (5, ''MMDB'')])"
proof -
  have "\<not> sublist ''%s'' ''http://m/db''" by code_simp
  then have run: "Fetch quiet_world ''/d'' ''country'' ''http://m/db'' 5 Map.empty = (Inr ''/d/country.mmdb'', [''/d/country.mmdb'' \<mapsto> (5, ''MMDB'')])"
    by (simp add: Fetch_def fresh_def databasePath_def trim_space_def trim_right_def is_space_def attempts_def
        download_def quiet_world_def copyLimited_def MaxDatabaseBytes_def suffix_def Let_def)
  with Fetch_keeps_a_database [OF disk_ok_empty _ run] show ?thesis
    by (simp add: trim_space_def trim_right_def is_space_def databasePath_def)
qed

text \<open>a file younger than a week is used whatever address the setting names, so that a new address
  takes effect only once the file of the old one has aged.\<close>

theorem fresh_file_ignores_url:
  assumes "fresh d (databasePath dir name) now" and "trim_space tmpl \<noteq> []"
  shows "Fetch w dir name tmpl now d = (Inr (databasePath dir name), d)"
  using assms by (simp add: Fetch_def)

text \<open>the fallback to the month before: on the last days of a month the month before may have no such
  day, and the second attempt is the first one again. The instant is 31 March 2025, midnight.\<close>

theorem previous_month_repeats:
  "attempts DefaultCountryURL 1743379200000000000 =
     [''https://download.db-ip.com/free/dbip-country-lite-2025-03.mmdb.gz'',
      ''https://download.db-ip.com/free/dbip-country-lite-2025-03.mmdb.gz'']"
  by code_simp

end
