(* ===== verification/Guard.thy ===== *)
theory Guard
  imports Client_IP Geoip
begin

text \<open>
  The process that stops a request, \<^verbatim>\<open>internal/guard/guard.go\<close>: its rules file and
  when it is read again, the databases behind it, the judgement of a forwarded
  request and the two endpoints.

  The guard's fields are a record. The mutex makes each read and each update of
  them one step. What the outside shows is an argument: the answer of os.Stat (a
  modification time), of os.ReadFile, json.Unmarshal as a function from the file's
  bytes to a configuration, and the world of a fetch (Geoip). Headers are the
  values of a name, in the order they came.
\<close>

section \<open>Configuration and state\<close>

record Protected =
  AppID :: string
  RuleSet :: rule_set

record Config =
  Sets :: "string \<rightharpoonup> Protected"
  TrustedProxies :: "string list"
  cfgCloudflare :: bool
  CountryURL :: string
  ASNURL :: string

record Options =
  ConfigPath :: string
  DataDir :: string
  PodCIDR :: string
  ServiceCIDR :: string

record Guard =
  opts :: Options
  lookup :: geo_lookup
  config :: Config
  trust :: trust
  loaded :: bool
  modTime :: instant

definition emptyConfig :: Config where
  "emptyConfig = \<lparr>Sets = Map.empty, TrustedProxies = [], cfgCloudflare = False, CountryURL = [], ASNURL = []\<rparr>"

definition newGuard :: "Options \<Rightarrow> Guard" where
  "newGuard os = \<lparr>opts = os, lookup = newLookup, config = emptyConfig,
     trust = \<lparr>Proxies = [], Cloudflare = False\<rparr>, loaded = False, modTime = zero_time\<rparr>"

definition CloseGuard :: "Guard \<Rightarrow> Guard" where
  "CloseGuard g = g\<lparr>lookup := CloseLookup (lookup g)\<rparr>"

section \<open>Reading the rules\<close>

datatype reload_error = CannotStat | CannotRead | NotReadable

type_synonym unmarshal = "string \<Rightarrow> Config option"

record sight =
  seenStat :: "instant option"
  seenFile :: "string option"

definition trustOf :: "Options \<Rightarrow> Config \<Rightarrow> trust" where
  "trustOf os c = \<lparr>Proxies = DefaultProxies (PodCIDR os) (ServiceCIDR os) @ ParseProxies (join_with '','' (TrustedProxies c)),
     Cloudflare = cfgCloudflare c\<rparr>"

definition Reload :: "unmarshal \<Rightarrow> sight \<Rightarrow> Guard \<Rightarrow> reload_error option \<times> Guard" where
  "Reload unmarshal sg g =
     (case seenStat sg of
        None \<Rightarrow> (Some CannotStat, g)
      | Some at \<Rightarrow>
          (if loaded g \<and> at = modTime g then (None, g)
           else (case seenFile sg of
                   None \<Rightarrow> (Some CannotRead, g)
                 | Some raw \<Rightarrow>
                     (case unmarshal raw of
                        None \<Rightarrow> (Some NotReadable, g)
                      | Some c \<Rightarrow>
                          (None, g\<lparr>config := c, trust := trustOf (opts g) c, loaded := True, modTime := at\<rparr>)))))"

section \<open>The databases\<close>

definition RefreshGeo :: "fetch_world \<Rightarrow> instant \<Rightarrow> Guard \<times> disk \<Rightarrow> Guard \<times> disk" where
  "RefreshGeo w now = (\<lambda>(g, d).
     let dir = DataDir (opts g);
         (g, d) = (case Fetch w dir ''country'' (CountryURL (config g)) now d of
                     (Inl _, d) \<Rightarrow> (g, d)
                   | (Inr path, d) \<Rightarrow> (g\<lparr>lookup := snd (LoadCountry (openCountry w) d path (lookup g))\<rparr>, d))
     in case Fetch w dir ''asn'' (ASNURL (config g)) now d of
          (Inl _, d) \<Rightarrow> (g, d)
        | (Inr path, d) \<Rightarrow> (g\<lparr>lookup := snd (LoadASN (openASN w) d path (lookup g))\<rparr>, d))"

section \<open>Judging a request\<close>

record http_request =
  gMethod :: string
  gHost :: string
  gURLPath :: string
  gRemoteAddr :: string
  gHeader :: "string \<Rightarrow> string list"

definition headerGet :: "http_request \<Rightarrow> string \<Rightarrow> string" where
  "headerGet r name = (case gHeader r name of [] \<Rightarrow> [] | v # _ \<Rightarrow> v)"

definition peerAddr :: "http_request \<Rightarrow> addr" where
  "peerAddr r =
     (let host = (case splitHost (gRemoteAddr r) of None \<Rightarrow> gRemoteAddr r | Some h \<Rightarrow> h)
      in case ParseAddr host of None \<Rightarrow> InvalidAddr | Some a \<Rightarrow> Unmap a)"

definition hostname :: "string \<Rightarrow> string" where
  "hostname value =
     (let value = to_lower (trim_space value);
          value = (case splitHost value of Some host \<Rightarrow> host | None \<Rightarrow> value)
      in trim_suffix ''.'' value)"

definition forwardedByAProxy :: "http_request \<Rightarrow> string \<Rightarrow> addr \<Rightarrow> trust \<Rightarrow> string" where
  "forwardedByAProxy r name peer t =
     (if \<not> Contains t peer then [] else LastHeaderValue (MultiHeaders (gHeader r)) name)"

definition firstNonEmpty :: "string list \<Rightarrow> string" where
  "firstNonEmpty values = (case find (\<lambda>v. v \<noteq> []) values of None \<Rightarrow> [] | Some v \<Rightarrow> v)"

definition pathOf :: "http_request \<Rightarrow> addr \<Rightarrow> trust \<Rightarrow> string" where
  "pathOf r peer t =
     (let uri = firstNonEmpty [forwardedByAProxy r ''X-Forwarded-Uri'' peer t, gURLPath r];
          uri = fst (cut_at (CHR ''?'') uri)
      in if uri = [] then ''/'' else uri)"

definition hostOf :: "http_request \<Rightarrow> addr \<Rightarrow> trust \<Rightarrow> string" where
  "hostOf r peer t = hostname (firstNonEmpty [forwardedByAProxy r ''X-Forwarded-Host'' peer t, gHost r])"

text \<open>The request as the headers describe it, before a database is asked.\<close>

definition described :: "http_request \<Rightarrow> addr \<Rightarrow> trust \<Rightarrow> request" where
  "described r peer t =
     (let h = MultiHeaders (gHeader r)
      in \<lparr>IP = ClientIP peer h t, Country = ClientCountry peer h t, ASN = 0, Host = hostOf r peer t,
          Path = pathOf r peer t,
          Method = firstNonEmpty [forwardedByAProxy r ''X-Forwarded-Method'' peer t, gMethod r],
          UserAgent = headerGet r ''User-Agent'', Header = Some (headerGet r)\<rparr>)"

definition located :: "geo_lookup \<Rightarrow> rule_set \<Rightarrow> request \<Rightarrow> request" where
  "located l rules q =
     (case Needs rules of
        (needCountry, needASN) \<Rightarrow>
          (if needCountry \<and> Country q = [] \<or> needASN
           then let result = Lookup l (IP q)
                in q\<lparr>Country := (if Country q = [] then resCountry result else Country q), ASN := resASN result\<rparr>
           else q))"

definition noRequest :: request where
  "noRequest = \<lparr>IP = InvalidAddr, Country = [], ASN = 0, Host = [], Path = [], Method = [], UserAgent = [], Header = None\<rparr>"

definition noRule :: "string \<Rightarrow> decision" where
  "noRule action = \<lparr>DecAction = action, RuleID = [], RuleName = [], Skipped = []\<rparr>"

definition Decide :: "regex \<Rightarrow> Guard \<Rightarrow> http_request \<Rightarrow> decision \<times> request \<times> bool" where
  "Decide re g r =
     (let peer = peerAddr r;
          host = hostOf r peer (trust g)
      in if \<not> loaded g then (noRule ActionBlock, noRequest, False)
         else (case Sets (config g) host of
                 None \<Rightarrow> (noRule ActionAllow, noRequest\<lparr>Host := host\<rparr>, True)
               | Some protected \<Rightarrow>
                   (let q = located (lookup g) (RuleSet protected) (described r peer (trust g))
                    in (Evaluate re (RuleSet protected) q, q, True))))"

section \<open>The endpoints\<close>

datatype log_line = Blocked string string string | SkippedRules string string

text \<open>http.Error ends the body with a newline.\<close>

definition errorBody :: "string \<Rightarrow> string" where
  "errorBody t = t @ [CHR 0x0A]"

definition healthz :: "Guard \<Rightarrow> int \<times> string" where
  "healthz g = (if \<not> loaded g then (503, errorBody ''no rules loaded'') else (200, ''ok''))"

definition authorize :: "regex \<Rightarrow> Guard \<Rightarrow> http_request \<Rightarrow> int \<times> string \<times> log_line list" where
  "authorize re g r =
     (case Decide re g r of
        (decision, judged, decided) \<Rightarrow>
          (if \<not> decided then (503, errorBody ''This site is not accepting requests right now.'', [])
           else if DecAction decision = ActionBlock
           then (403, errorBody ''Forbidden'', [Blocked (Host judged) (RuleName decision) (Path judged)])
           else (200, [], if Skipped decision \<noteq> []
                          then [SkippedRules (Host judged) (join_with '', '' (Skipped decision))] else [])))"

section \<open>The watcher\<close>

text \<open>What the loop of \<^verbatim>\<open>watch\<close> takes from its tickers, and \<^verbatim>\<open>Run\<close> before it: one reload, one refresh.\<close>

datatype tick = RulesTick sight | GeoTick fetch_world instant

definition watchStep :: "unmarshal \<Rightarrow> tick \<Rightarrow> Guard \<times> disk \<Rightarrow> Guard \<times> disk" where
  "watchStep unmarshal tk gd =
     (case tk of
        RulesTick sg \<Rightarrow> (case gd of (g, d) \<Rightarrow> (snd (Reload unmarshal sg g), d))
      | GeoTick w now \<Rightarrow> RefreshGeo w now gd)"

definition watch :: "unmarshal \<Rightarrow> tick list \<Rightarrow> Guard \<times> disk \<Rightarrow> Guard \<times> disk" where
  "watch unmarshal ticks gd = fold (watchStep unmarshal) ticks gd"

definition Run :: "unmarshal \<Rightarrow> sight \<Rightarrow> fetch_world \<Rightarrow> instant \<Rightarrow> tick list \<Rightarrow> Options \<Rightarrow> disk \<Rightarrow> Guard \<times> disk" where
  "Run unmarshal sg w now ticks os d =
     watch unmarshal ticks (RefreshGeo w now (snd (Reload unmarshal sg (newGuard os)), d))"

section \<open>Lemmas\<close>

lemma firstNonEmpty_simps [simp]:
  "firstNonEmpty [] = []" "firstNonEmpty ([] # vs) = firstNonEmpty vs" "v \<noteq> [] \<Longrightarrow> firstNonEmpty (v # vs) = v"
  by (simp_all add: firstNonEmpty_def)

lemma firstNonEmpty_one [simp]: "firstNonEmpty [v] = v"
  by (simp add: firstNonEmpty_def)

lemma untrusted_forwards_nothing [simp]: "\<not> Contains t peer \<Longrightarrow> forwardedByAProxy r name peer t = []"
  by (simp add: forwardedByAProxy_def)

lemma peerAddr_unmapped [simp]: "Unmap (peerAddr r) = peerAddr r"
  by (simp add: peerAddr_def Let_def split: option.splits)

lemma located_fields [simp]:
  "IP (located l rs q) = IP q" "Host (located l rs q) = Host q" "Path (located l rs q) = Path q"
  "Method (located l rs q) = Method q" "UserAgent (located l rs q) = UserAgent q"
  by (simp_all add: located_def Let_def split: prod.splits)

lemma Country_located: "Country (located l rs q) \<in> {Country q, resCountry (Lookup l (IP q))}"
  by (simp add: located_def Let_def split: prod.splits)

lemma described_untrusted:
  assumes "\<not> Contains t (peerAddr r)"
  shows "IP (described r (peerAddr r) t) = peerAddr r" "Country (described r (peerAddr r) t) = []"
    "Host (described r (peerAddr r) t) = hostname (gHost r)"
    "Method (described r (peerAddr r) t) = gMethod r"
    "Path (described r (peerAddr r) t) =
       (let p = fst (cut_at (CHR ''?'') (gURLPath r)) in if p = [] then ''/'' else p)"
  using assms by (simp_all add: described_def hostOf_def pathOf_def ClientIP_def ClientCountry_def Let_def)

lemma RefreshGeo_keeps:
  "config (fst (RefreshGeo w now gd)) = config (fst gd)" "trust (fst (RefreshGeo w now gd)) = trust (fst gd)"
  "loaded (fst (RefreshGeo w now gd)) = loaded (fst gd)" "modTime (fst (RefreshGeo w now gd)) = modTime (fst gd)"
  "opts (fst (RefreshGeo w now gd)) = opts (fst gd)"
  by (simp_all add: RefreshGeo_def Let_def split: prod.splits sum.splits)

text \<open>What one look at the file is worth: the configuration in it, when it is there, can be read and parses.\<close>

definition reading :: "unmarshal \<Rightarrow> sight \<Rightarrow> Config option" where
  "reading um sg = (case seenStat sg of None \<Rightarrow> None | Some _ \<Rightarrow> Option.bind (seenFile sg) um)"

definition tickReading :: "unmarshal \<Rightarrow> tick \<Rightarrow> Config option" where
  "tickReading um tk = (case tk of RulesTick sg \<Rightarrow> reading um sg | GeoTick _ _ \<Rightarrow> None)"

definition readings :: "unmarshal \<Rightarrow> tick list \<Rightarrow> Config list" where
  "readings um ticks = List.map_filter (tickReading um) ticks"

text \<open>A modification time names one state of the file.\<close>

definition stamped :: "(instant \<Rightarrow> string) \<Rightarrow> tick \<Rightarrow> bool" where
  "stamped content tk \<longleftrightarrow>
     (case tk of
        RulesTick sg \<Rightarrow> (case (seenStat sg, seenFile sg) of (Some at, Some raw) \<Rightarrow> raw = content at | _ \<Rightarrow> True)
      | GeoTick _ _ \<Rightarrow> True)"

text \<open>The rules in force are those of the given readings.\<close>

definition in_force :: "unmarshal \<Rightarrow> (instant \<Rightarrow> string) \<Rightarrow> Options \<Rightarrow> Config list \<Rightarrow> Guard \<Rightarrow> bool" where
  "in_force um content os rs g \<longleftrightarrow> opts g = os \<and>
     (if rs = [] then \<not> loaded g
      else loaded g \<and> config g = last rs \<and> trust g = trustOf os (last rs) \<and> um (content (modTime g)) = Some (last rs))"

lemma Reload_in_force:
  assumes "in_force um content os rs g" and "stamped content (RulesTick sg)"
  shows "in_force um content os (rs @ (case reading um sg of None \<Rightarrow> [] | Some c \<Rightarrow> [c])) (snd (Reload um sg g))"
  using assms
  by (cases "seenStat sg"; cases "seenFile sg")
    (auto simp: in_force_def stamped_def reading_def Reload_def split: option.splits if_splits)

lemma watchStep_in_force:
  assumes "in_force um content os rs (fst gd)" and "stamped content tk"
  shows "in_force um content os (rs @ (case tickReading um tk of None \<Rightarrow> [] | Some c \<Rightarrow> [c])) (fst (watchStep um tk gd))"
proof (cases tk)
  case (RulesTick sg)
  with assms Reload_in_force [of um content os rs "fst gd" sg] show ?thesis
    by (cases gd) (simp add: watchStep_def tickReading_def)
next
  case (GeoTick w now)
  with assms(1) show ?thesis
    by (simp add: watchStep_def tickReading_def in_force_def RefreshGeo_keeps)
qed

lemma watch_in_force:
  assumes "in_force um content os rs (fst gd)" and "\<forall>tk \<in> set ticks. stamped content tk"
  shows "in_force um content os (rs @ readings um ticks) (fst (watch um ticks gd))"
  using assms
proof (induction ticks arbitrary: rs gd)
  case Nil
  then show ?case by (simp add: watch_def readings_def List.map_filter_def)
next
  case (Cons tk ticks)
  have step: "in_force um content os (rs @ (case tickReading um tk of None \<Rightarrow> [] | Some c \<Rightarrow> [c])) (fst (watchStep um tk gd))"
    using Cons.prems by (intro watchStep_in_force) auto
  have "readings um (tk # ticks) = (case tickReading um tk of None \<Rightarrow> [] | Some c \<Rightarrow> [c]) @ readings um ticks"
    by (simp add: readings_def List.map_filter_def split: option.splits)
  with Cons.IH [OF step] Cons.prems(2) show ?case by (simp add: watch_def)
qed

lemma newGuard_in_force: "in_force um content os [] (newGuard os)"
  by (simp add: in_force_def newGuard_def)

section \<open>Properties\<close>

text \<open>C26: a client that does not come through a trusted proxy is judged by its connection and by its own
  request, never by the forwarded headers it sends: the host that chooses the rules, the address, the
  path and the method are those of the request itself, and the country is what the database says of the
  address, or none.\<close>

theorem untrusted_request_judged_by_itself:
  assumes "loaded g" and "\<not> Contains (trust g) (peerAddr r)"
  shows "case Sets (config g) (hostname (gHost r)) of
      None \<Rightarrow> Decide re g r = (noRule ActionAllow, noRequest\<lparr>Host := hostname (gHost r)\<rparr>, True)
    | Some p \<Rightarrow> \<exists>q. Decide re g r = (Evaluate re (RuleSet p) q, q, True) \<and>
        IP q = peerAddr r \<and> Host q = hostname (gHost r) \<and> Method q = gMethod r \<and>
        Path q = (let u = fst (cut_at (CHR ''?'') (gURLPath r)) in if u = [] then ''/'' else u) \<and>
        Country q \<in> {[], resCountry (Lookup (lookup g) (peerAddr r))}"
proof (cases "Sets (config g) (hostname (gHost r))")
  case None
  with assms show ?thesis by (simp add: Decide_def hostOf_def Let_def)
next
  case (Some p)
  with assms Country_located [of "lookup g" "RuleSet p" "described r (peerAddr r) (trust g)"] show ?thesis
    by (simp add: Decide_def hostOf_def described_untrusted Let_def)
qed


definition bareOptions :: Options where
  "bareOptions = \<lparr>ConfigPath = ''/rules'', DataDir = ''/d'', PodCIDR = ''10.42.0.0/16'', ServiceCIDR = ''10.43.0.0/16''\<rparr>"

definition adminSet :: rule_set where
  "adminSet = \<lparr>Rules = [\<lparr>ID = ''1'', Name = ''no admin'', Action = ActionBlock,
       RuleExpr = Expr None None None (Some \<lparr>Field = FieldPath, Key = [], Op = OpStartsWith, Values = [''/admin'']\<rparr>),
       Enabled = True\<rparr>], Default = ActionAllow\<rparr>"

definition adminConfig :: Config where
  "adminConfig = emptyConfig\<lparr>Sets := [''shop.example'' \<mapsto> \<lparr>AppID = ''a'', RuleSet = adminSet\<rparr>]\<rparr>"

definition adminRead :: unmarshal where
  "adminRead raw = (if raw = ''good'' then Some adminConfig else None)"


definition adminGuard :: Guard where
  "adminGuard = (newGuard bareOptions)\<lparr>config := adminConfig, trust := trustOf bareOptions adminConfig, loaded := True\<rparr>"

definition asks :: "string \<Rightarrow> string \<Rightarrow> (string \<Rightarrow> string list) \<Rightarrow> http_request" where
  "asks from path hs = \<lparr>gMethod = ''GET'', gHost = ''shop.example'', gURLPath = path, gRemoteAddr = from, gHeader = hs\<rparr>"

definition forges :: "string \<Rightarrow> string list" where
  "forges name = (if name = ''X-Forwarded-Host'' then [''other.example''] else if name = ''X-Forwarded-Uri'' then [''/''] else [])"

lemma adminGuard_fields:
  "loaded adminGuard" "Sets (config adminGuard) ''shop.example'' = Some \<lparr>AppID = ''a'', RuleSet = adminSet\<rparr>"
  by (simp_all add: adminGuard_def adminConfig_def)

lemma untrusted_request_judged_by_itself_witness:
  "\<exists>q. Decide (\<lambda>_. None) adminGuard (asks ''203.0.113.9:4711'' ''/admin'' forges) = (Evaluate (\<lambda>_. None) adminSet q, q, True) \<and>
     Host q = ''shop.example'' \<and> Path q = ''/admin''"
proof -
  have outside: "\<not> Contains (trust adminGuard) (peerAddr (asks ''203.0.113.9:4711'' ''/admin'' forges))"
    by code_simp
  have host: "hostname (gHost (asks ''203.0.113.9:4711'' ''/admin'' forges)) = ''shop.example''" by code_simp
  have path: "fst (cut_at (CHR ''?'') (gURLPath (asks ''203.0.113.9:4711'' ''/admin'' forges))) = ''/admin''" by code_simp
  show ?thesis
    using untrusted_request_judged_by_itself [OF adminGuard_fields(1) outside, of "\<lambda>_. None"]
    unfolding host path adminGuard_fields(2) by (auto simp: Let_def)
qed


text \<open>the path that is judged is the text of the address the client sent, which is not decoded: a letter
  written as an escape is let past a rule on the path it stands for.\<close>

theorem escaped_path_passes:
  "fst (authorize (\<lambda>_. None) adminGuard (asks ''10.42.0.7:80'' ''/authorize''
      (\<lambda>n. if n = ''X-Forwarded-Uri'' then [''/admin''] else []))) = 403 \<and>
   fst (authorize (\<lambda>_. None) adminGuard (asks ''10.42.0.7:80'' ''/authorize''
      (\<lambda>n. if n = ''X-Forwarded-Uri'' then [''/%61dmin''] else []))) = 200"
  by code_simp

end
