(* ===== verification/Scopes.thy ===== *)
theory Scopes
  imports Go_Prelude
begin

text \<open>
  What an API token may touch: internal/auth/scopes.go. A scope is read, write, or a resource and an
  action; the resource of a request is found from its path.
\<close>

section \<open>Definitions\<close>

abbreviation ScopeRead :: string where "ScopeRead \<equiv> ''read''"
abbreviation ScopeWrite :: string where "ScopeWrite \<equiv> ''write''"

definition Resources :: "string list" where
  "Resources =
     [''apps'', ''deployments'', ''databases'', ''backups'', ''projects'', ''servers'', ''templates'',
      ''operations'', ''events'', ''teams'', ''settings'', ''account'']"

definition routeResources :: "(string \<times> string) list" where
  "routeResources =
     [(''/api/environments/'', []),
      (''/api/me'', ''account''),
      (''/api/teams'', ''teams''),
      (''/api/servers'', ''servers''),
      (''/api/projects'', ''projects''),
      (''/api/apps'', ''apps''),
      (''/api/databases'', ''databases''),
      (''/api/operations'', ''operations''),
      (''/api/templates'', ''templates''),
      (''/api/events'', ''events''),
      (''/api/settings'', ''settings''),
      (''/api/components'', ''settings''),
      (''/api/audit'', ''teams'')]"

definition nestedResources :: "string \<Rightarrow> string option" where
  "nestedResources = map_of
     [(''apps'', ''apps''), (''databases'', ''databases''), (''deployments'', ''deployments''),
      (''backups'', ''backups'')]"

text \<open>None stands for the index panic of a path shorter than the prefix.\<close>

definition isBoundary :: "string \<Rightarrow> string \<Rightarrow> bool option" where
  "isBoundary path pre =
     (if length path = length pre then Some True
      else if length pre < length path then Some (path ! length pre = CHR ''/'')
      else None)"

definition routeMatches :: "string \<Rightarrow> string \<Rightarrow> bool" where
  "routeMatches path pre \<longleftrightarrow>
     path = trim_suffix ''/'' pre \<or> prefix (pre @ ''/'') path \<or>
     (prefix pre path \<and> isBoundary path pre = Some True)"

fun routeResource :: "string \<Rightarrow> (string \<times> string) list \<Rightarrow> string option" where
  "routeResource path [] = None"
| "routeResource path ((pre, resource) # entries) =
     (if resource = [] then routeResource path entries
      else if routeMatches path pre then Some resource
      else routeResource path entries)"

definition ResourceFor :: "string \<Rightarrow> string" where
  "ResourceFor p =
     (let path = CHR ''/'' # trim_char (CHR ''/'') p;
          segments = split_on (CHR ''/'') (trim_prefix ''/'' path);
          nested = (if length segments \<ge> 4 then nestedResources (segments ! 3) else None)
      in case nested of
           Some resource \<Rightarrow> resource
         | None \<Rightarrow>
             (case routeResource path routeResources of
                Some resource \<Rightarrow> resource
              | None \<Rightarrow> if prefix ''/api/environments'' path then ''projects'' else []))"

definition readOnlyMethod :: "string \<Rightarrow> bool" where
  "readOnlyMethod method \<longleftrightarrow> method = ''GET'' \<or> method = ''HEAD'' \<or> method = ''OPTIONS''"

text \<open>Whether one entry of the list lets the request through.\<close>

definition scopeGrants :: "bool \<Rightarrow> string \<Rightarrow> string \<Rightarrow> bool" where
  "scopeGrants readOnly resource entry =
     (let scope = trim_space entry
      in if scope = [] then False
         else (case cut_at (CHR '':'') scope of
                 (named, action, scoped) \<Rightarrow>
                   (if \<not> scoped then scope = ScopeWrite \<or> (scope = ScopeRead \<and> readOnly)
                    else if resource = [] \<or> named \<noteq> resource then False
                    else action = ScopeWrite \<or> (action = ScopeRead \<and> readOnly))))"

definition TokenAllows :: "string \<Rightarrow> string \<Rightarrow> string \<Rightarrow> bool" where
  "TokenAllows sc method path =
     (let scopes = trim_space sc
      in if scopes = [] then True
         else list_ex (scopeGrants (readOnlyMethod method) (ResourceFor path)) (split_on (CHR '','') scopes))"

definition KnownResource :: "string \<Rightarrow> bool" where
  "KnownResource name \<longleftrightarrow> list_ex (\<lambda>resource. resource = name) Resources"

datatype scope_error = NotAScope string | NotAnAction string | NotAResource string

definition validateScope :: "string \<Rightarrow> scope_error option" where
  "validateScope entry =
     (let scope = trim_space entry
      in if scope = [] then None
         else if scope = ScopeRead \<or> scope = ScopeWrite then None
         else (case cut_at (CHR '':'') scope of
                 (named, action, scoped) \<Rightarrow>
                   (if \<not> scoped then Some (NotAScope scope)
                    else if action \<noteq> ScopeRead \<and> action \<noteq> ScopeWrite then Some (NotAnAction action)
                    else if \<not> KnownResource named then Some (NotAResource named)
                    else None)))"

fun validateEntries :: "string list \<Rightarrow> scope_error option" where
  "validateEntries [] = None"
| "validateEntries (entry # entries) =
     (case validateScope entry of Some e \<Rightarrow> Some e | None \<Rightarrow> validateEntries entries)"

definition ValidateScopes :: "string \<Rightarrow> scope_error option" where
  "ValidateScopes scopes =
     (if trim_space scopes = [] then None else validateEntries (split_on (CHR '','') scopes))"

section \<open>Specification vocabulary\<close>

text \<open>A scope as a value: an action on everything, or on one resource; how it is written; what it
  lets through.\<close>

datatype scope_action = Reads | Writes

datatype scope = Everywhere scope_action | On string scope_action

fun show_action :: "scope_action \<Rightarrow> string" where
  "show_action Reads = ScopeRead"
| "show_action Writes = ScopeWrite"

fun show_scope :: "scope \<Rightarrow> string" where
  "show_scope (Everywhere a) = show_action a"
| "show_scope (On r a) = r @ CHR '':'' # show_action a"

fun known_scope :: "scope \<Rightarrow> bool" where
  "known_scope (Everywhere _) = True"
| "known_scope (On r _) = (r \<in> set Resources)"

fun action_permits :: "scope_action \<Rightarrow> string \<Rightarrow> bool" where
  "action_permits Writes method = True"
| "action_permits Reads method = readOnlyMethod method"

fun scope_permits :: "scope \<Rightarrow> string \<Rightarrow> string \<Rightarrow> bool" where
  "scope_permits (Everywhere a) method path = action_permits a method"
| "scope_permits (On r a) method path = (ResourceFor path = r \<and> action_permits a method)"

text \<open>The scopes a text lists.\<close>

definition listed_scopes :: "string \<Rightarrow> scope set" where
  "listed_scopes text = {sc. known_scope sc \<and> (\<exists>e \<in> set (split_on (CHR '','') text). trim_space e = show_scope sc)}"

section \<open>Lemmas\<close>

lemma isBoundary_total: "prefix pre path \<Longrightarrow> isBoundary path pre \<noteq> None"
  by (auto simp: isBoundary_def prefix_def)

lemma routeResource_range: "routeResource path es = Some r \<Longrightarrow> r \<in> snd ` set es \<and> r \<noteq> []"
  by (induction path es rule: routeResource.induct) (auto split: if_splits)

lemma routeResources_known: "r \<in> snd ` set routeResources \<Longrightarrow> r \<noteq> [] \<Longrightarrow> r \<in> set Resources"
  by (auto simp: routeResources_def Resources_def)

lemma nestedResources_known: "nestedResources s = Some r \<Longrightarrow> r \<in> set Resources"
  by (auto simp: nestedResources_def Resources_def split: if_splits)

lemma ResourceFor_range: "ResourceFor path \<noteq> [] \<Longrightarrow> ResourceFor path \<in> set Resources"
proof -
  have projects: "''projects'' \<in> set Resources" by (simp add: Resources_def)
  assume "ResourceFor path \<noteq> []"
  with projects show ?thesis
    using nestedResources_known routeResource_range routeResources_known
    by (simp add: ResourceFor_def Let_def split: option.splits if_splits)
qed

subsection \<open>Entries\<close>

lemma validateEntries_None: "validateEntries es = None \<longleftrightarrow> (\<forall>e \<in> set es. validateScope e = None)"
  by (induction es) (auto split: option.splits)

lemma KnownResource_iff: "KnownResource r \<longleftrightarrow> r \<in> set Resources"
  by (auto simp: KnownResource_def list_ex_iff)

lemma resource_no_colon: "r \<in> set Resources \<Longrightarrow> CHR '':'' \<notin> set r \<and> r \<noteq> []"
  by (auto simp: Resources_def)

lemma show_scope_not_blank: "show_scope sc \<noteq> []"
  by (cases sc; cases "case sc of Everywhere a \<Rightarrow> a | On r a \<Rightarrow> a") auto

text \<open>An accepted entry is blank or the writing of a known scope.\<close>

lemma validateScope_None:
  assumes "validateScope e = None"
  shows "trim_space e = [] \<or> (\<exists>sc. known_scope sc \<and> trim_space e = show_scope sc)"
proof (cases "trim_space e = [] \<or> trim_space e = ScopeRead \<or> trim_space e = ScopeWrite")
  case True
  then show ?thesis
    by (metis known_scope.simps(1) show_action.simps show_scope.simps(1))
next
  case False
  obtain n a f where c: "cut_at (CHR '':'') (trim_space e) = (n, a, f)"
    by (cases "cut_at (CHR '':'') (trim_space e)") auto
  with assms False have f: "f" "a = ScopeRead \<or> a = ScopeWrite" "n \<in> set Resources"
    by (auto simp: validateScope_def KnownResource_iff Let_def split: if_splits)
  then have "trim_space e = n @ CHR '':'' # a"
    using cut_at_split [of "CHR '':''" "trim_space e" n a] c by simp
  with f show ?thesis
    by (metis known_scope.simps(2) show_action.simps show_scope.simps(2))
qed

lemma scopeGrants_show:
  assumes "known_scope sc" and "trim_space e = show_scope sc"
  shows "scopeGrants (readOnlyMethod method) (ResourceFor path) e = scope_permits sc method path"
proof (cases sc)
  case (Everywhere a)
  have "cut_at (CHR '':'') (show_action a) = (show_action a, [], False)"
    by (rule cut_at_no_sep) (cases a; simp)
  with Everywhere assms(2) show ?thesis
    by (cases a) (auto simp: scopeGrants_def)
next
  case (On r a)
  with assms(1) have r: "CHR '':'' \<notin> set r" "r \<noteq> []"
    using resource_no_colon by auto
  with On assms(2) show ?thesis
    by (cases a) (auto simp: scopeGrants_def cut_at_append_sep)
qed

lemma scopeGrants_blank: "trim_space e = [] \<Longrightarrow> \<not> scopeGrants ro r e"
  by (simp add: scopeGrants_def)

lemma scopeGrants_trim: "trim_space e = trim_space e' \<Longrightarrow> scopeGrants ro r e = scopeGrants ro r e'"
  by (simp add: scopeGrants_def)

lemma list_ex_scopeGrants:
  assumes "map trim_space es = map trim_space es'"
  shows "list_ex (scopeGrants ro r) es = list_ex (scopeGrants ro r) es'"
  using assms
proof (induction es arbitrary: es')
  case Nil
  then show ?case by simp
next
  case (Cons e es)
  then obtain e' es'' where "es' = e' # es''" "trim_space e = trim_space e'" "map trim_space es = map trim_space es''"
    by auto
  with Cons.IH [of es''] scopeGrants_trim [of e e' ro r] show ?case by simp
qed

section \<open>Findings\<close>

text \<open>A list of scopes with no scope in it, such as a lone comma, is accepted when the token is made and
  then refuses every request, while an empty list is full access.\<close>

lemma lone_comma_refuses_everything:
  "ValidateScopes '','' = None" "\<not> TokenAllows '','' method path" "TokenAllows '' '' method path"
proof -
  show "ValidateScopes '','' = None" by code_simp
  have "trim_space '','' = '',''" "split_on (CHR '','') '','' = [[], []]" "trim_space [] = []"
    by code_simp+
  then show "\<not> TokenAllows '','' method path"
    by (simp add: TokenAllows_def scopeGrants_blank)
  have "trim_space '' '' = []"
    by code_simp
  then show "TokenAllows '' '' method path"
    by (simp add: TokenAllows_def)
qed

section \<open>Properties\<close>

text \<open>C35: for a list of scopes that is accepted when a token is made, the check on a request lets
  exactly those requests through that one of the listed scopes permits; the empty list is full
  access. No text is read as more or as less than the scopes it lists.\<close>

theorem TokenAllows_iff_listed:
  assumes "ValidateScopes scopes = None"
  shows "TokenAllows scopes method path \<longleftrightarrow>
           trim_space scopes = [] \<or> (\<exists>sc \<in> listed_scopes scopes. scope_permits sc method path)"
proof (cases "trim_space scopes = []")
  case True
  then show ?thesis by (simp add: TokenAllows_def)
next
  case False
  let ?es = "split_on (CHR '','') scopes"
  have ok: "validateScope e = None" if "e \<in> set ?es" for e
    using assms False that by (simp add: ValidateScopes_def validateEntries_None)
  have "TokenAllows scopes method path \<longleftrightarrow>
      list_ex (scopeGrants (readOnlyMethod method) (ResourceFor path)) ?es"
    using False list_ex_scopeGrants [OF map_trim_split] by (simp add: TokenAllows_def)
  also have "\<dots> \<longleftrightarrow> (\<exists>sc \<in> listed_scopes scopes. scope_permits sc method path)"
    unfolding list_ex_iff listed_scopes_def
    using validateScope_None [OF ok] scopeGrants_show scopeGrants_blank by blast
  finally show ?thesis using False by simp
qed

lemma TokenAllows_iff_listed_witness:
  "TokenAllows ''apps:read, backups:write'' ''POST'' ''/api/databases/7/backups'' \<longleftrightarrow>
     trim_space ''apps:read, backups:write'' = [] \<or>
     (\<exists>sc \<in> listed_scopes ''apps:read, backups:write''. scope_permits sc ''POST'' ''/api/databases/7/backups'')"
  by (rule TokenAllows_iff_listed) code_simp

text \<open>the resources a request can belong to are exactly the ones a scope may name, so no scope is
  without a request it governs and no request falls under a resource that cannot be granted.\<close>

theorem ResourceFor_exact: "(\<exists>path. ResourceFor path = r) \<longleftrightarrow> r = [] \<or> r \<in> set Resources"
proof
  assume "\<exists>path. ResourceFor path = r"
  then show "r = [] \<or> r \<in> set Resources"
    using ResourceFor_range by blast
next
  have "ResourceFor ''/'' = []" "ResourceFor ''/api/apps/1'' = ''apps''"
    "ResourceFor ''/api/apps/1/deployments'' = ''deployments''" "ResourceFor ''/api/databases'' = ''databases''"
    "ResourceFor ''/api/databases/1/backups'' = ''backups''" "ResourceFor ''/api/projects'' = ''projects''"
    "ResourceFor ''/api/servers'' = ''servers''" "ResourceFor ''/api/templates'' = ''templates''"
    "ResourceFor ''/api/operations'' = ''operations''" "ResourceFor ''/api/events'' = ''events''"
    "ResourceFor ''/api/teams'' = ''teams''" "ResourceFor ''/api/settings'' = ''settings''"
    "ResourceFor ''/api/me'' = ''account''"
    by code_simp+
  moreover assume "r = [] \<or> r \<in> set Resources"
  ultimately show "\<exists>path. ResourceFor path = r"
    unfolding Resources_def by auto
qed

end
