(* ===== verification/Go_Encoding.thy ===== *)
theory Go_Encoding
  imports Go_Prelude
begin

text \<open>
  The text encodings of Go's standard library that the program stores bytes in:
  unpadded base64 and base32, for any alphabet. Bytes are characters, as a Go
  string is its bytes. An encoding cuts the bits of the bytes, most significant
  first, into groups of \<^verbatim>\<open>k\<close>, the last one filled up with zeros. The main
  lemma is that decoding gives the encoded bytes back.
\<close>

section \<open>Bits\<close>

fun to_bits :: "nat \<Rightarrow> int \<Rightarrow> bool list" where
  "to_bits 0 n = []"
| "to_bits (Suc k) n = to_bits k (n div 2) @ [odd n]"

definition from_bits :: "bool list \<Rightarrow> int" where
  "from_bits bs = foldl (\<lambda>a b. 2 * a + of_bool b) 0 bs"

lemma length_to_bits [simp]: "length (to_bits k n) = k"
  by (induction k arbitrary: n) auto

lemma from_bits_snoc: "from_bits (bs @ [b]) = 2 * from_bits bs + of_bool b"
  by (simp add: from_bits_def)

lemma from_bits_bounds: "0 \<le> from_bits bs \<and> from_bits bs < 2 ^ length bs"
proof (induction bs rule: rev_induct)
  case (snoc b bs)
  then show ?case by (cases b) (auto simp: from_bits_snoc)
qed (simp add: from_bits_def)

lemma from_to_bits: "0 \<le> n \<Longrightarrow> n < 2 ^ k \<Longrightarrow> from_bits (to_bits k n) = n"
proof (induction k arbitrary: n)
  case (Suc k)
  then have "from_bits (to_bits k (n div 2)) = n div 2" by (intro Suc.IH) auto
  then show ?case by (simp add: from_bits_snoc)
qed (simp add: from_bits_def)

lemma to_from_bits: "to_bits (length bs) (from_bits bs) = bs"
proof (induction bs rule: rev_induct)
  case (snoc b bs)
  have "(2 * from_bits bs + of_bool b) div 2 = from_bits bs" by (cases b) auto
  then show ?case using snoc by (cases b) (simp_all add: from_bits_snoc)
qed simp

definition byte_bits :: "char \<Rightarrow> bool list" where
  "byte_bits c = to_bits 8 (of_char c)"

definition bits_byte :: "bool list \<Rightarrow> char" where
  "bits_byte bs = char_of (from_bits bs)"

lemma bits_byte_bits [simp]: "bits_byte (byte_bits c) = c"
proof -
  have "of_char c = (of_char c mod 256 :: int)" by simp
  then have "(of_char c :: int) < 256" "0 \<le> (of_char c :: int)"
    using pos_mod_bound [of 256 "of_char c :: int"] pos_mod_sign [of 256 "of_char c :: int"] by linarith+
  then show ?thesis by (simp add: bits_byte_def byte_bits_def from_to_bits)
qed

lemma length_byte_bits [simp]: "length (byte_bits c) = 8"
  by (simp add: byte_bits_def)

section \<open>Groups\<close>

function groups :: "nat \<Rightarrow> 'a list \<Rightarrow> 'a list list" where
  "groups k xs = (if xs = [] \<or> k = 0 then [] else take k xs # groups k (drop k xs))"
  by pat_completeness auto
termination by (relation "measure (\<lambda>(k, xs). length xs)") auto

declare groups.simps [simp del]

lemma groups_Nil [simp]: "groups k [] = []"
  by (simp add: groups.simps)

lemma groups_append:
  assumes "length c = k" "0 < k"
  shows "groups k (c @ xs) = c # groups k xs"
  using assms by (cases "c = []") (simp_all add: groups.simps [of k "c @ xs"])

lemma groups_concat:
  "0 < k \<Longrightarrow> \<forall>c \<in> set cs. length c = k \<Longrightarrow> groups k (concat cs @ rest) = cs @ groups k rest"
  by (induction cs) (auto simp: groups_append)

definition pad_to :: "nat \<Rightarrow> bool list \<Rightarrow> bool list" where
  "pad_to k bs = bs @ replicate (k - length bs) False"

lemma groups_pad:
  assumes "0 < k"
  shows "(\<exists>n < k. concat (map (pad_to k) (groups k xs)) = xs @ replicate n False)
    \<and> (\<forall>c \<in> set (groups k xs). length (pad_to k c) = k)"
  using assms
proof (induction k xs rule: groups.induct)
  case (1 k xs)
  show ?case
  proof (cases "xs = []")
    case False
    then have IH: "\<exists>n < k. concat (map (pad_to k) (groups k (drop k xs))) = drop k xs @ replicate n False"
        "\<forall>c \<in> set (groups k (drop k xs)). length (pad_to k c) = k" using 1 by auto
    show ?thesis
    proof (cases "length xs < k")
      case True
      then have "groups k xs = [xs]" using False "1.prems" by (simp add: groups.simps [of k xs])
      moreover have "k - length xs < k" using True False by (simp add: diff_less)
      ultimately show ?thesis using True by (auto simp: pad_to_def)
    next
      case le: False
      then have "groups k xs = take k xs # groups k (drop k xs)" "pad_to k (take k xs) = take k xs"
        using False "1.prems" by (simp_all add: groups.simps [of k xs] pad_to_def)
      then show ?thesis using IH le by auto
    qed
  qed (use "1.prems" in auto)
qed

section \<open>Encodings\<close>

definition encode_bits :: "nat \<Rightarrow> string \<Rightarrow> string \<Rightarrow> string" where
  "encode_bits k alph bytes =
     map (\<lambda>c. alph ! nat (from_bits (pad_to k c))) (groups k (concat (map byte_bits bytes)))"

fun index_of :: "'a \<Rightarrow> 'a list \<Rightarrow> int option" where
  "index_of x [] = None"
| "index_of x (y # ys) = (if x = y then Some 0 else map_option ((+) 1) (index_of x ys))"

fun char_values :: "string \<Rightarrow> string \<Rightarrow> int list option" where
  "char_values alph [] = Some []"
| "char_values alph (c # cs) = (case index_of c alph of None \<Rightarrow> None
     | Some v \<Rightarrow> map_option ((#) v) (char_values alph cs))"

definition whole_bytes :: "bool list \<Rightarrow> string" where
  "whole_bytes bs = map bits_byte (filter (\<lambda>g. length g = 8) (groups 8 bs))"

definition decode_bits :: "nat \<Rightarrow> string \<Rightarrow> string \<Rightarrow> string option" where
  "decode_bits k alph s = map_option (\<lambda>vs. whole_bytes (concat (map (to_bits k) vs))) (char_values alph s)"

lemma index_of_nth: "distinct ys \<Longrightarrow> i < length ys \<Longrightarrow> index_of (ys ! i) ys = Some (int i)"
proof (induction ys arbitrary: i)
  case (Cons y ys)
  then show ?case by (cases i) auto
qed simp

lemma char_values_map:
  "distinct alph \<Longrightarrow> \<forall>v \<in> set vs. 0 \<le> v \<and> v < int (length alph) \<Longrightarrow> char_values alph (map (\<lambda>v. alph ! nat v) vs) = Some vs"
proof (induction vs)
  case (Cons v vs)
  then have "index_of (alph ! nat v) alph = Some v" using index_of_nth [of alph "nat v"] by auto
  then show ?case using Cons by simp
qed simp

lemma whole_bytes_append_short:
  assumes "n < 8"
  shows "whole_bytes (concat (map byte_bits bytes) @ replicate n False) = bytes"
proof -
  have "groups 8 (concat (map byte_bits bytes) @ replicate n False) = map byte_bits bytes @ groups 8 (replicate n False)"
    by (rule groups_concat) auto
  moreover have "filter (\<lambda>g. length g = 8) (groups 8 (replicate n False)) = []"
    using assms groups.simps [of 8 "replicate n False"] by (cases "n = 0") auto
  ultimately show ?thesis by (simp add: whole_bytes_def o_def)
qed

lemma decode_encode_bits:
  assumes "distinct alph" "length alph = 2 ^ k" "0 < k" "k \<le> 8"
  shows "decode_bits k alph (encode_bits k alph bytes) = Some bytes"
proof -
  define gs where "gs = groups k (concat (map byte_bits bytes))"
  define vs where "vs = map (from_bits \<circ> pad_to k) gs"
  have pad: "\<exists>n < k. concat (map (pad_to k) gs) = concat (map byte_bits bytes) @ replicate n False"
      "\<forall>c \<in> set gs. length (pad_to k c) = k"
    using groups_pad [OF assms(3), of "concat (map byte_bits bytes)"] by (simp_all add: gs_def)
  have "encode_bits k alph bytes = map (\<lambda>v. alph ! nat v) vs" by (simp add: encode_bits_def vs_def gs_def)
  moreover have "\<forall>v \<in> set vs. 0 \<le> v \<and> v < int (length alph)"
    using pad(2) from_bits_bounds by (auto simp: vs_def assms(2)) (metis from_bits_bounds)
  ultimately have "char_values alph (encode_bits k alph bytes) = Some vs"
    using char_values_map [OF assms(1)] by simp
  moreover have "map (to_bits k) vs = map (pad_to k) gs"
    using pad(2) by (auto simp: vs_def) (metis to_from_bits)
  ultimately show ?thesis
    using pad(1) assms(4) whole_bytes_append_short by (auto simp: decode_bits_def)
qed

definition std64 :: string where
  "std64 = ''ABCDEFGHIJKLMNOPQRSTUVWXYZabcdefghijklmnopqrstuvwxyz0123456789+/''"

definition url64 :: string where
  "url64 = ''ABCDEFGHIJKLMNOPQRSTUVWXYZabcdefghijklmnopqrstuvwxyz0123456789-_''"

definition std32 :: string where
  "std32 = ''ABCDEFGHIJKLMNOPQRSTUVWXYZ234567''"

text \<open>
  \<^verbatim>\<open>base64.RawStdEncoding.DecodeString\<close>: line breaks are skipped, and a last group
  of one character is an error.
\<close>

definition raw_std64_encode :: "string \<Rightarrow> string" where
  "raw_std64_encode = encode_bits 6 std64"

definition raw_url64_encode :: "string \<Rightarrow> string" where
  "raw_url64_encode = encode_bits 6 url64"

definition raw_std64_decode :: "string \<Rightarrow> string option" where
  "raw_std64_decode s = (let t = filter (\<lambda>c. c \<noteq> CHR 0x0A \<and> c \<noteq> CHR 0x0D) s in
     if length t mod 4 = 1 then None else decode_bits 6 std64 t)"

text \<open>
  \<^verbatim>\<open>base32\<close> without padding: line breaks are skipped; a last group of one,
  three or six characters carries no whole byte of its own and is not an error.
\<close>

definition raw_std32_encode :: "string \<Rightarrow> string" where
  "raw_std32_encode = encode_bits 5 std32"

definition raw_std32_decode :: "string \<Rightarrow> string option" where
  "raw_std32_decode s = (let t = filter (\<lambda>c. c \<noteq> CHR 0x0A \<and> c \<noteq> CHR 0x0D) s; r = length t mod 8 in
     map_option (\<lambda>_. the (decode_bits 5 std32 (take (length t - (if r = 1 \<or> r = 3 \<or> r = 6 then r else 0)) t)))
       (char_values std32 t))"

lemma std64_alphabet: "distinct std64" "length std64 = 2 ^ 6"
  by (simp_all add: std64_def)

lemma url64_alphabet: "distinct url64" "length url64 = 2 ^ 6"
  by (simp_all add: url64_def)

lemma std32_alphabet: "distinct std32" "length std32 = 2 ^ 5"
  by (simp_all add: std32_def)

lemma length_groups: "0 < k \<Longrightarrow> length (groups k xs) = (length xs + k - 1) div k"
proof (induction k xs rule: groups.induct)
  case (1 k xs)
  show ?case
  proof (cases "xs = []")
    case False
    have "length (groups k xs) = Suc (length (groups k (drop k xs)))"
      using False 1 by (simp add: groups.simps [of k xs])
    also have "\<dots> = Suc ((length (drop k xs) + k - 1) div k)" using False 1 by simp
    also have "\<dots> = (length xs + k - 1) div k"
    proof (cases "k \<le> length xs")
      case True
      then have "length xs + k - 1 = (length (drop k xs) + k - 1) + k" using 1(2) by simp
      then show ?thesis using div_add_self2 [of k "length (drop k xs) + k - 1"] 1(2)
        by (metis Suc_eq_plus1 not_gr_zero)
    next
      case False
      have "0 < length xs" using \<open>xs \<noteq> []\<close> by simp
      then have "length xs + k - 1 = length xs - 1 + k" by linarith
      then have "(length xs + k - 1) div k = Suc ((length xs - 1) div k)"
        using div_add_self2 [of k "length xs - 1"] 1(2) by (metis Suc_eq_plus1 not_gr_zero)
      moreover have "(length xs - 1) div k = 0" "(length (drop k xs) + k - 1) div k = 0" using False 1(2) by auto
      ultimately show ?thesis by linarith
    qed
    finally show ?thesis .
  qed (use 1(2) in simp)
qed

lemma length_encode_bits: "0 < k \<Longrightarrow> length (encode_bits k alph bytes) = (8 * length bytes + k - 1) div k"
proof -
  have "length (concat (map byte_bits bytes)) = 8 * length bytes" by (induction bytes) auto
  then show "0 < k \<Longrightarrow> ?thesis" by (simp add: encode_bits_def length_groups)
qed

lemma encode_bits_alphabet:
  assumes "length alph = 2 ^ k" "0 < k" "c \<in> set (encode_bits k alph bytes)"
  shows "c \<in> set alph"
proof -
  obtain g where g: "g \<in> set (groups k (concat (map byte_bits bytes)))" "c = alph ! nat (from_bits (pad_to k g))"
    using assms(3) by (auto simp: encode_bits_def)
  have "length (pad_to k g) = k" using groups_pad [OF assms(2)] g(1) by blast
  then have "nat (from_bits (pad_to k g)) < length alph"
    using from_bits_bounds [of "pad_to k g"] by (simp add: assms(1) nat_less_iff)
  then show ?thesis using g(2) by simp
qed

lemma raw_std64_roundtrip: "raw_std64_decode (raw_std64_encode bytes) = Some bytes"
proof -
  have "c \<noteq> CHR 0x0A \<and> c \<noteq> CHR 0x0D" if "c \<in> set (raw_std64_encode bytes)" for c
    using encode_bits_alphabet [OF std64_alphabet(2) _ that [unfolded raw_std64_encode_def]]
    by (auto simp: std64_def)
  then have f: "filter (\<lambda>c. c \<noteq> CHR 0x0A \<and> c \<noteq> CHR 0x0D) (raw_std64_encode bytes) = raw_std64_encode bytes"
    by (simp add: filter_id_conv)
  have "length (raw_std64_encode bytes) mod 4 \<noteq> 1"
    by (simp add: raw_std64_encode_def length_encode_bits) presburger
  then show ?thesis
    using decode_encode_bits [OF std64_alphabet, of bytes] unfolding raw_std64_decode_def Let_def f
    by (simp add: raw_std64_encode_def)
qed

lemma raw_std64_chars: "c \<in> set (raw_std64_encode bytes) \<Longrightarrow> c \<in> set std64"
  using encode_bits_alphabet [OF std64_alphabet(2)] by (simp add: raw_std64_encode_def)

lemma raw_url64_inj: "raw_url64_encode a = raw_url64_encode b \<longleftrightarrow> a = b"
proof
  assume "raw_url64_encode a = raw_url64_encode b"
  then have "decode_bits 6 url64 (encode_bits 6 url64 a) = decode_bits 6 url64 (encode_bits 6 url64 b)"
    by (simp add: raw_url64_encode_def)
  then show "a = b" by (simp add: decode_encode_bits [OF url64_alphabet])
qed simp

lemma fifths: "(8 * n + 4) div 5 mod 8 \<in> {0, 2, 4, 5, 7 :: nat}"
proof -
  define q r where "q = n div 5" and "r = n mod 5"
  have "n = 5 * q + r" by (simp add: q_def r_def)
  then have "8 * n + 4 = (8 * r + 4) + 8 * q * 5" by linarith
  then have "(8 * n + 4) div 5 = 8 * q + (8 * r + 4) div 5" by simp
  then have "(8 * n + 4) div 5 mod 8 = (8 * r + 4) div 5 mod 8" by simp
  moreover have "r = 0 \<or> r = 1 \<or> r = 2 \<or> r = 3 \<or> r = 4" unfolding r_def by linarith
  ultimately show ?thesis by auto
qed

lemma raw_std32_roundtrip: "raw_std32_decode (raw_std32_encode bytes) = Some bytes"
proof -
  have "c \<noteq> CHR 0x0A \<and> c \<noteq> CHR 0x0D" if "c \<in> set (raw_std32_encode bytes)" for c
    using encode_bits_alphabet [OF std32_alphabet(2) _ that [unfolded raw_std32_encode_def]]
    by (auto simp: std32_def)
  then have f: "filter (\<lambda>c. c \<noteq> CHR 0x0A \<and> c \<noteq> CHR 0x0D) (raw_std32_encode bytes) = raw_std32_encode bytes"
    by (simp add: filter_id_conv)
  have "length (raw_std32_encode bytes) = (8 * length bytes + 4) div 5"
    by (simp add: raw_std32_encode_def length_encode_bits)
  then have "length (raw_std32_encode bytes) mod 8 \<noteq> 1" "length (raw_std32_encode bytes) mod 8 \<noteq> 3"
    "length (raw_std32_encode bytes) mod 8 \<noteq> 6" using fifths [of "length bytes"] by auto
  moreover have "decode_bits 5 std32 (raw_std32_encode bytes) = Some bytes"
    using decode_encode_bits [OF std32_alphabet] by (simp add: raw_std32_encode_def)
  moreover then have "char_values std32 (raw_std32_encode bytes) \<noteq> None" by (auto simp: decode_bits_def)
  ultimately show ?thesis unfolding raw_std32_decode_def Let_def f by auto
qed

lemma std32_class:
  assumes "c \<in> set std32"
  shows "to_upper_char c = c \<and> \<not> is_space c \<and> c \<noteq> CHR ''='' \<and> c \<noteq> CHR '' '' \<and> c \<noteq> CHR ''-''
    \<and> to_upper_char (to_lower_char c) = c \<and> \<not> is_space (to_lower_char c)"
proof -
  have "list_all (\<lambda>c. to_upper_char c = c \<and> \<not> is_space c \<and> c \<noteq> CHR ''='' \<and> c \<noteq> CHR '' '' \<and> c \<noteq> CHR ''-''
    \<and> to_upper_char (to_lower_char c) = c \<and> \<not> is_space (to_lower_char c)) std32" by code_simp
  then show ?thesis using assms unfolding list_all_iff by blast
qed

end
