(* ===== verification/Store_Core.thy ===== *)
theory Store_Core
  imports Go_Encoding "HOL-Library.Char_ord" "HOL-Library.List_Lexorder" "HOL-Library.Product_Lexorder"
begin

text \<open>
  What every repository of \<^verbatim>\<open>internal/store\<close> shares, from \<^verbatim>\<open>store.go\<close>: the
  sentinel errors, statements, transactions, the clock, timestamps as text and
  identifiers.

  An operation is a function from the state to a result (an error or a value)
  and a new state. The part of the state all repositories share is the
  environment: the clock, how far it moves at each reading or statement, which
  statements fail, and the random bytes still to be drawn. The schedule of
  pauses and faults is part of the state, so a lemma about every state is a
  lemma about every schedule. A statement that fails changes no table.

  A timestamp column holds the text of an instant, which parses back to the same
  instant, so rows carry instants; comparisons and sorting inside SQL compare the
  texts, and that is what \<^verbatim>\<open>text_key\<close> models: the fixed-width part down to
  the second sorts as the second, the rest is compared as text.
\<close>

section \<open>Errors and operations\<close>

datatype store_err = ErrNotFound | ErrConflict | ErrDB

record env =
  clock :: instant
  pauses :: "duration list"
  faults :: "bool list"
  entropy :: "string list"

type_synonym ('s, 'e, 'a) op = "'s \<Rightarrow> ('e + 'a) \<times> 's"

definition ret :: "'a \<Rightarrow> ('s, 'e, 'a) op" where
  "ret x s = (Inr x, s)"

definition throw :: "'e \<Rightarrow> ('s, 'e, 'a) op" where
  "throw e s = (Inl e, s)"

definition bind :: "('s, 'e, 'a) op \<Rightarrow> ('a \<Rightarrow> ('s, 'e, 'b) op) \<Rightarrow> ('s, 'e, 'b) op" where
  "bind m k s = (case m s of (Inl e, s1) \<Rightarrow> (Inl e, s1) | (Inr x, s1) \<Rightarrow> k x s1)"

text \<open>Looking at the error of a call, dropping it, and wrapping it.\<close>

definition handle :: "('s, 'e, 'a) op \<Rightarrow> ('e + 'a \<Rightarrow> ('s, 'f, 'b) op) \<Rightarrow> ('s, 'f, 'b) op" where
  "handle m k s = (case m s of (r, s1) \<Rightarrow> k r s1)"

definition ignore :: "('s, 'e, 'a) op \<Rightarrow> ('s, 'f, unit) op" where
  "ignore m s = (Inr (), snd (m s))"

definition wrap :: "('e \<Rightarrow> 'f) \<Rightarrow> ('s, 'e, 'a) op \<Rightarrow> ('s, 'f, 'a) op" where
  "wrap f m s = (case m s of (Inl e, s1) \<Rightarrow> (Inl (f e), s1) | (Inr x, s1) \<Rightarrow> (Inr x, s1))"

definition tick :: "'m env_scheme \<Rightarrow> 'm env_scheme" where
  "tick s = (case pauses s of [] \<Rightarrow> s | d # ds \<Rightarrow> s\<lparr>clock := clock s + max 0 d, pauses := ds\<rparr>)"

definition timeNow :: "('m env_scheme, 'e, instant) op" where
  "timeNow s = (Inr (clock (tick s)), tick s)"

definition random :: "('m env_scheme, 'e, string) op" where
  "random s = (case entropy s of [] \<Rightarrow> (Inr [], s) | r # rs \<Rightarrow> (Inr r, s\<lparr>entropy := rs\<rparr>))"

definition stmt :: "('m env_scheme, store_err, 'a) op \<Rightarrow> ('m env_scheme, store_err, 'a) op" where
  "stmt f s = (let s1 = tick s in case faults s1 of
     [] \<Rightarrow> f s1
   | True # fs \<Rightarrow> (Inl ErrDB, s1\<lparr>faults := fs\<rparr>)
   | False # fs \<Rightarrow> f (s1\<lparr>faults := fs\<rparr>))"

definition query :: "('m env_scheme \<Rightarrow> store_err + 'a) \<Rightarrow> ('m env_scheme, store_err, 'a) op" where
  "query f = stmt (\<lambda>s. (f s, s))"

text \<open>
  \<^verbatim>\<open>Tx\<close>: the function runs between a begin and a commit, either of which can
  fail; on any error the tables are as they were, while time has passed.
\<close>

definition rollback :: "'m env_scheme \<Rightarrow> 'm env_scheme \<Rightarrow> 'm env_scheme" where
  "rollback s0 s1 = s0\<lparr>clock := clock s1, pauses := pauses s1, faults := faults s1, entropy := entropy s1\<rparr>"

definition Tx :: "('m env_scheme, store_err, 'a) op \<Rightarrow> ('m env_scheme, store_err, 'a) op" where
  "Tx f s = (case stmt (ret ()) s of
     (Inl e, s0) \<Rightarrow> (Inl e, s0)
   | (Inr _, s0) \<Rightarrow> (case f s0 of
       (Inl e, s1) \<Rightarrow> (Inl e, rollback s0 s1)
     | (Inr x, s1) \<Rightarrow> (case stmt (ret ()) s1 of
         (Inl e, s2) \<Rightarrow> (Inl e, rollback s0 s2)
       | (Inr _, s2) \<Rightarrow> (Inr x, s2))))"

section \<open>Identifiers\<close>

definition idAlphabet :: string where
  "idAlphabet = ''0123456789abcdefghjkmnpqrstvwxyz''"

text \<open>
  \<^verbatim>\<open>NewID\<close>: six bytes of milliseconds and ten random ones, of whose encoding the
  first twenty characters are kept.
\<close>

definition millis :: "instant \<Rightarrow> int" where
  "millis t = t div 1000000"

definition idBytes :: "instant \<Rightarrow> string \<Rightarrow> string" where
  "idBytes t rand = map bits_byte (groups 8 (to_bits 48 (millis t mod 2 ^ 48)))
     @ take 10 (rand @ replicate 10 (CHR 0x00))"

definition newIDFrom :: "string \<Rightarrow> instant \<Rightarrow> string \<Rightarrow> string" where
  "newIDFrom pre t rand = pre @ ''_'' @ take 20 (encode_bits 5 idAlphabet (idBytes t rand))"

definition NewID :: "string \<Rightarrow> ('m env_scheme, 'e, string) op" where
  "NewID pre = bind timeNow (\<lambda>t. bind random (\<lambda>r. ret (newIDFrom pre t r)))"

lemma NewID_code [code]:
  "NewID pre s = (case timeNow s of (Inl e, s1) \<Rightarrow> (Inl e, s1)
     | (Inr t, s1) \<Rightarrow> (case random s1 of (Inl e, s2) \<Rightarrow> (Inl e, s2) | (Inr r, s2) \<Rightarrow> (Inr (newIDFrom pre t r), s2)))"
  by (simp add: NewID_def bind_def ret_def split: prod.splits sum.splits)

section \<open>Timestamps as text\<close>

text \<open>
  \<^verbatim>\<open>FormatTime\<close> writes RFC 3339 with as many digits of the fraction as are needed:
  none for a whole second, and no trailing zeros. The first nineteen characters
  name the second; what follows is \<^verbatim>\<open>fraction_text\<close>.
\<close>

definition fraction_text :: "instant \<Rightarrow> string" where
  "fraction_text t = (let ns = t mod second in
     if ns = 0 then ''Z''
     else ''.'' @ trim_right (\<lambda>c. c = CHR ''0'') (replicate (9 - length (itoa ns)) (CHR ''0'') @ itoa ns) @ ''Z'')"

definition text_key :: "instant \<Rightarrow> int \<times> string" where
  "text_key t = (t div second, fraction_text t)"

definition text_less :: "instant \<Rightarrow> instant \<Rightarrow> bool" where
  "text_less a b \<longleftrightarrow> text_key a < text_key b"

definition text_leq :: "instant \<Rightarrow> instant \<Rightarrow> bool" where
  "text_leq a b \<longleftrightarrow> text_key a \<le> text_key b"

lemma second_pos: "0 < second"
  by (simp add: second_def)

text \<open>Text order and time order agree between different seconds, and only there.\<close>

lemma text_less_far: "a + second \<le> b \<Longrightarrow> text_less a b"
proof -
  assume "a + second \<le> b"
  then have "(a + second) div second \<le> b div second" using second_pos by (intro zdiv_mono1)
  then have "a div second < b div second" using second_pos div_add_self2 [of second a] by simp
  then show ?thesis by (simp add: text_less_def text_key_def less_prod_def)
qed

lemma text_less_near: "text_less a b \<Longrightarrow> a < b + second"
proof (rule ccontr)
  assume l: "text_less a b" and "\<not> a < b + second"
  then have "text_less b a" by (intro text_less_far) simp
  then show False using l by (simp add: text_less_def)
qed

lemma text_leq_not_less: "text_leq a b \<longleftrightarrow> \<not> text_less b a"
  by (simp add: text_leq_def text_less_def not_less)

text \<open>Inside one second the order can be the wrong way round: a fraction sorts before no fraction.\<close>

lemma text_order_inverted: "text_less (second + 500000000) second"
  by code_simp

section \<open>Running operations\<close>

named_theorems op_simps \<open>how an operation is run\<close>

lemma ret_run [op_simps]: "ret x s = (Inr x, s)" by (simp add: ret_def)
lemma throw_run [op_simps]: "throw e s = (Inl e, s)" by (simp add: throw_def)

lemma bind_ret [op_simps]: "bind (ret x) k s = k x s" by (simp add: bind_def ret_def)
lemma bind_throw [op_simps]: "bind (throw e) k s = (Inl e, s)" by (simp add: bind_def throw_def)
lemma bind_timeNow [op_simps]: "bind timeNow k s = k (clock (tick s)) (tick s)" by (simp add: bind_def timeNow_def)
lemma bind_ignore [op_simps]: "bind (ignore m) k s = k () (snd (m s))" by (simp add: bind_def ignore_def)

lemma bind_cases:
  assumes "bind m k s = (r, s2)"
  obtains (err) e where "m s = (Inl e, s2)" "r = Inl e"
  | (ok) x s1 where "m s = (Inr x, s1)" "k x s1 = (r, s2)"
  using assms by (auto simp: bind_def split: prod.splits sum.splits)

lemma bind_Inr:
  assumes "bind m k s = (Inr y, s2)"
  obtains x s1 where "m s = (Inr x, s1)" "k x s1 = (Inr y, s2)"
  using assms by (auto simp: bind_def split: prod.splits sum.splits)

lemma bind_InrD: "bind m k s = (Inr y, s2) \<Longrightarrow> \<exists>x s1. m s = (Inr x, s1) \<and> k x s1 = (Inr y, s2)"
  by (auto elim: bind_Inr)

lemma handleD: "handle m k s = (r, s2) \<Longrightarrow> \<exists>q s1. m s = (q, s1) \<and> k q s1 = (r, s2)"
  by (auto simp: handle_def split: prod.splits)

lemma handle_run:
  assumes "handle m k s = (r, s2)"
  obtains q s1 where "m s = (q, s1)" "k q s1 = (r, s2)"
  using assms by (auto simp: handle_def split: prod.splits)

lemma wrap_Inr: "wrap f m s = (Inr x, s1) \<longleftrightarrow> m s = (Inr x, s1)"
  by (auto simp: wrap_def split: prod.splits sum.splits)

lemma Tx_Inr:
  assumes "Tx f s = (Inr x, s1)"
  obtains s0 s2 where "stmt (ret ()) s = (Inr (), s0)" "f s0 = (Inr x, s2)" "stmt (ret ()) s2 = (Inr (), s1)"
  using assms by (auto simp: Tx_def split: prod.splits sum.splits)

text \<open>A predicate that does not look at the environment: what an operation keeps.\<close>

definition keeps :: "('s \<Rightarrow> bool) \<Rightarrow> ('s, 'e, 'a) op \<Rightarrow> bool" where
  "keeps P m \<longleftrightarrow> (\<forall>s. P s \<longrightarrow> P (snd (m s)))"

lemma keepsD: "keeps P m \<Longrightarrow> P s \<Longrightarrow> m s = (r, s1) \<Longrightarrow> P s1"
  by (metis keeps_def snd_conv)

named_theorems keeps_intros \<open>what the operations keep\<close>

lemma keeps_ret [keeps_intros]: "keeps P (ret x)" by (simp add: keeps_def ret_def)
lemma keeps_throw [keeps_intros]: "keeps P (throw e)" by (simp add: keeps_def throw_def)

lemma keeps_handle [keeps_intros]: "keeps P m \<Longrightarrow> (\<And>r. keeps P (k r)) \<Longrightarrow> keeps P (handle m k)"
  unfolding keeps_def handle_def by (metis (no_types, lifting) case_prod_beta)

lemma handle_bind: "bind m k = handle m (\<lambda>r. case r of Inl e \<Rightarrow> throw e | Inr x \<Rightarrow> k x)"
  by (auto simp: bind_def handle_def throw_def fun_eq_iff split: prod.splits sum.splits)

lemma keeps_bind [keeps_intros]: "keeps P m \<Longrightarrow> (\<And>x. keeps P (k x)) \<Longrightarrow> keeps P (bind m k)"
  unfolding handle_bind by (intro keeps_handle) (auto split: sum.splits intro: keeps_throw)

lemma keeps_ignore [keeps_intros]: "keeps P m \<Longrightarrow> keeps P (ignore m)"
  by (simp add: keeps_def ignore_def)

lemma handle_wrap: "wrap f m = handle m (\<lambda>r. case r of Inl e \<Rightarrow> throw (f e) | Inr x \<Rightarrow> ret x)"
  by (auto simp: wrap_def handle_def throw_def ret_def fun_eq_iff split: prod.splits sum.splits)

lemma keeps_wrap [keeps_intros]: "keeps P m \<Longrightarrow> keeps P (wrap f m)"
  unfolding handle_wrap by (intro keeps_handle) (auto split: sum.splits intro: keeps_throw keeps_ret)

lemma keeps_if [keeps_intros]: "keeps P a \<Longrightarrow> keeps P b \<Longrightarrow> keeps P (if c then a else b)"
  by simp

lemma keeps_case_sum [keeps_intros]: "(\<And>x. keeps P (f x)) \<Longrightarrow> (\<And>x. keeps P (g x)) \<Longrightarrow> keeps P (case r of Inl x \<Rightarrow> f x | Inr x \<Rightarrow> g x)"
  by (cases r) auto

lemma keeps_case_option [keeps_intros]: "keeps P f \<Longrightarrow> (\<And>x. keeps P (g x)) \<Longrightarrow> keeps P (case r of None \<Rightarrow> f | Some x \<Rightarrow> g x)"
  by (cases r) auto

lemma keeps_case_prod [keeps_intros]: "(\<And>x y. keeps P (f x y)) \<Longrightarrow> keeps P (case r of (x, y) \<Rightarrow> f x y)"
  by (cases r) auto

locale env_free =
  fixes P :: "'m env_scheme \<Rightarrow> bool"
  assumes P_clock: "P (s\<lparr>clock := c\<rparr>) = P s"
    and P_pauses: "P (s\<lparr>pauses := p\<rparr>) = P s"
    and P_faults: "P (s\<lparr>faults := f\<rparr>) = P s"
    and P_entropy: "P (s\<lparr>entropy := n\<rparr>) = P s"
begin

lemma tick: "P (tick s) = P s"
  by (auto simp: tick_def P_clock P_pauses split: list.splits)

lemma keeps_timeNow: "keeps P timeNow"
  by (simp add: keeps_def timeNow_def tick)

lemma keeps_random: "keeps P random"
  by (simp add: keeps_def random_def P_entropy split: list.splits)

lemma keeps_stmt: "keeps P f \<Longrightarrow> keeps P (stmt f)"
  by (auto simp: keeps_def stmt_def Let_def tick P_faults split: list.splits bool.splits)

lemma stmt_result:
  assumes "stmt f s = (r, s1)" "P s"
  obtains (fault) "r = Inl ErrDB" "P s1" | (run) s0 where "P s0" "f s0 = (r, s1)"
proof -
  have t: "P (tick s)" "P (tick s\<lparr>faults := fs\<rparr>)" for fs using assms(2) by (simp_all add: tick P_faults)
  show thesis
  proof (cases "faults (tick s)")
    case Nil
    then show thesis using run [OF t(1)] assms(1) by (simp add: stmt_def Let_def)
  next
    case (Cons b fs)
    then show thesis using fault t(2) [of fs] run [OF t(2) [of fs]] assms(1) by (cases b) (auto simp: stmt_def Let_def)
  qed
qed

lemma keeps_query: "keeps P (query f)"
  unfolding query_def by (rule keeps_stmt) (simp add: keeps_def)

lemma keeps_NewID: "keeps P (NewID pre)"
  unfolding NewID_def by (intro keeps_intros keeps_timeNow keeps_random)

lemma rollback: "P (rollback s0 s1) = P s0"
  by (simp add: rollback_def P_clock P_pauses P_faults P_entropy)

lemma keeps_Tx:
  assumes "keeps P f"
  shows "keeps P (Tx f)"
proof -
  have begin_ok: "P s \<Longrightarrow> stmt (ret ()) s = (r, s0) \<Longrightarrow> P s0" for s r s0
    by (rule keepsD [OF keeps_stmt [OF keeps_ret]])
  have "P (snd (Tx f s))" if "P s" for s
  proof (cases "stmt (ret ()) s")
    case (Pair r s0)
    then have s0: "P s0" using begin_ok that by blast
    obtain r1 s1 where f: "f s0 = (r1, s1)" by force
    then have s1: "P s1" using keepsD [OF assms s0] by blast
    obtain r2 s2 where c: "stmt (ret ()) s1 = (r2, s2)" by force
    then have "P s2" using begin_ok s1 by blast
    then show ?thesis using s0 by (auto simp: Tx_def Pair f c rollback split: sum.splits)
  qed
  then show ?thesis by (simp add: keeps_def)
qed

lemma Tx_failed:
  assumes "Tx f s = (Inl e, s1)" "P s"
  shows "P s1"
proof -
  obtain r s0 where b: "stmt (ret ()) s = (r, s0)" by force
  then have "P s0" by (rule keepsD [OF keeps_stmt [OF keeps_ret] assms(2)])
  then show ?thesis using assms(1) b by (auto simp: Tx_def rollback split: prod.splits sum.splits)
qed

lemmas keeps_env = keeps_timeNow keeps_random keeps_stmt keeps_query keeps_NewID keeps_Tx

end

section \<open>Rows\<close>

definition defaultStr :: "string \<Rightarrow> string \<Rightarrow> string" where
  "defaultStr v fallback = (if v = [] then fallback else v)"

definition idOr :: "string \<Rightarrow> string \<Rightarrow> ('m env_scheme, store_err, string) op" where
  "idOr given pre = (if given = [] then NewID pre else ret given)"

text \<open>An update of the rows that satisfy a condition; the result is how many did.\<close>

definition update_rows :: "('a \<Rightarrow> bool) \<Rightarrow> ('a \<Rightarrow> 'a) \<Rightarrow> 'a list \<Rightarrow> 'a list" where
  "update_rows p f rows = map (\<lambda>r. if p r then f r else r) rows"

definition affected :: "('a \<Rightarrow> bool) \<Rightarrow> 'a list \<Rightarrow> nat" where
  "affected p rows = length (filter p rows)"

definition found :: "'a option \<Rightarrow> store_err + 'a" where
  "found r = (case r of None \<Rightarrow> Inl ErrNotFound | Some x \<Rightarrow> Inr x)"

lemma update_rowsE:
  assumes "x \<in> set (update_rows p f rows)"
  obtains (hit) r where "r \<in> set rows" "p r" "x = f r" | (miss) "x \<in> set rows" "\<not> p x"
  using assms by (auto simp: update_rows_def split: if_splits)

lemma map_update_rows: "(\<And>r. g (f r) = g r) \<Longrightarrow> map g (update_rows p f rows) = map g rows"
  by (simp add: update_rows_def)

section \<open>Time only moves forward\<close>

lemma tick_clock: "clock s \<le> clock (tick s)"
  by (simp add: tick_def split: list.splits)

end
