(* ===== verification/Store_Users.thy ===== *)
theory Store_Users
  imports Store_Core
begin

text \<open>
  Users, sessions, API tokens, sign-in attempts and recovery codes,
  \<^verbatim>\<open>internal/store/users.go\<close> and the structs of \<^verbatim>\<open>models.go\<close>. Each table is a
  list of rows; the constraints of the schema (primary keys, unique columns, the
  case-insensitive email, foreign keys with their cascades) are part of the
  statements. A user row carries one column the struct does not have: the last
  two-factor step that was spent.
\<close>

section \<open>Rows\<close>

record User =
  uID :: string
  Email :: string
  uName :: string
  PasswordHash :: string
  TOTPSecretEnc :: string
  TOTPEnabled :: bool
  IsAdmin :: bool
  Disabled :: bool
  Locale :: string
  Theme :: string
  RecoverySaved :: bool
  uCreatedAt :: instant
  UpdatedAt :: instant
  LastLoginAt :: instant

record user_row = User +
  totp_last_counter :: int

record Session =
  sID :: string
  sUserID :: string
  sTokenHash :: string
  CSRFHash :: string
  sIP :: string
  UserAgent :: string
  sCreatedAt :: instant
  LastSeenAt :: instant
  sExpiresAt :: instant
  ReauthAt :: instant

record APIToken =
  tID :: string
  tUserID :: string
  TeamID :: string
  tName :: string
  tTokenHash :: string
  Prefix :: string
  Scopes :: string
  tCreatedAt :: instant
  LastUsedAt :: instant
  tExpiresAt :: instant

record login_attempt =
  aIdentifier :: string
  aIP :: string
  success :: bool
  aAt :: instant

record recovery_code =
  rID :: string
  rUserID :: string
  code_hash :: string
  rCreatedAt :: instant
  used_at :: "instant option"

record auth_db = env +
  users :: "user_row list"
  sessions :: "Session list"
  api_tokens :: "APIToken list"
  login_attempts :: "login_attempt list"
  recovery_codes :: "recovery_code list"

text \<open>The columns \<^verbatim>\<open>scanUser\<close> reads.\<close>

definition scanUser :: "user_row \<Rightarrow> User" where
  "scanUser r = User.truncate r"

definition user_exists :: "string \<Rightarrow> auth_db \<Rightarrow> bool" where
  "user_exists i s \<longleftrightarrow> i \<in> uID ` set (users s)"

section \<open>Users\<close>

definition user_row_of :: "User \<Rightarrow> int \<Rightarrow> user_row" where
  "user_row_of u n = User.extend u (user_row.fields n)"

definition insertUser :: "user_row \<Rightarrow> (auth_db, store_err, unit) op" where
  "insertUser row s = (if user_exists (uID row) s \<or> to_lower (Email row) \<in> (\<lambda>r. to_lower (Email r)) ` set (users s)
     then (Inl ErrConflict, s) else (Inr (), s\<lparr>users := users s @ [row]\<rparr>))"

definition CreateUser :: "User \<Rightarrow> (auth_db, store_err, User) op" where
  "CreateUser u = bind (idOr (uID u) ''usr'') (\<lambda>i. bind timeNow (\<lambda>now.
     let u' = u\<lparr>uID := i, Email := trim_space (Email u)\<rparr> in
     bind (stmt (insertUser (user_row_of (u'\<lparr>Theme := defaultStr (Theme u) ''system'', uCreatedAt := now,
            UpdatedAt := now, LastLoginAt := zero_time\<rparr>) 0)))
       (\<lambda>_. ret (u'\<lparr>uCreatedAt := now, UpdatedAt := now\<rparr>))))"

definition GetUser :: "string \<Rightarrow> (auth_db, store_err, User) op" where
  "GetUser i = query (\<lambda>s. found (map_option scanUser (find (\<lambda>r. uID r = i) (users s))))"

definition GetUserByEmail :: "string \<Rightarrow> (auth_db, store_err, User) op" where
  "GetUserByEmail email = query (\<lambda>s. found (map_option scanUser
     (find (\<lambda>r. to_lower (Email r) = to_lower (trim_space email)) (users s))))"

definition ListUsers :: "(auth_db, store_err, User list) op" where
  "ListUsers = query (\<lambda>s. Inr (map scanUser (sort_key (\<lambda>r. text_key (uCreatedAt r)) (users s))))"

definition CountUsers :: "(auth_db, store_err, nat) op" where
  "CountUsers = query (\<lambda>s. Inr (length (users s)))"

definition mutable_columns :: "User \<Rightarrow> instant \<Rightarrow> user_row \<Rightarrow> user_row" where
  "mutable_columns u now r = r\<lparr>Email := Email u, uName := uName u, PasswordHash := PasswordHash u,
     TOTPSecretEnc := TOTPSecretEnc u, TOTPEnabled := TOTPEnabled u, IsAdmin := IsAdmin u, Disabled := Disabled u,
     Locale := Locale u, Theme := Theme u, RecoverySaved := RecoverySaved u, UpdatedAt := now\<rparr>"

definition updateUserRow :: "User \<Rightarrow> instant \<Rightarrow> (auth_db, store_err, unit) op" where
  "updateUserRow u now s =
     (if \<exists>r \<in> set (users s). uID r \<noteq> uID u \<and> to_lower (Email r) = to_lower (Email u) \<and> user_exists (uID u) s
      then (Inl ErrConflict, s)
      else if \<not> user_exists (uID u) s then (Inl ErrNotFound, s)
      else (Inr (), s\<lparr>users := update_rows (\<lambda>r. uID r = uID u) (mutable_columns u now) (users s)\<rparr>))"

definition UpdateUser :: "User \<Rightarrow> (auth_db, store_err, User) op" where
  "UpdateUser u = bind timeNow (\<lambda>now. bind (stmt (updateUserRow u now)) (\<lambda>_. ret (u\<lparr>UpdatedAt := now\<rparr>)))"

definition updatePasswordRow :: "string \<Rightarrow> string \<Rightarrow> instant \<Rightarrow> (auth_db, store_err, unit) op" where
  "updatePasswordRow i hash now s = (if user_exists i s
     then (Inr (), s\<lparr>users := update_rows (\<lambda>r. uID r = i) (\<lambda>r. r\<lparr>PasswordHash := hash, UpdatedAt := now\<rparr>) (users s)\<rparr>)
     else (Inl ErrNotFound, s))"

definition UpdatePasswordHash :: "string \<Rightarrow> string \<Rightarrow> (auth_db, store_err, unit) op" where
  "UpdatePasswordHash i hash = bind timeNow (\<lambda>now. stmt (updatePasswordRow i hash now))"

definition TouchUserLogin :: "string \<Rightarrow> (auth_db, store_err, unit) op" where
  "TouchUserLogin i = bind timeNow (\<lambda>now. stmt (\<lambda>s.
     (Inr (), s\<lparr>users := update_rows (\<lambda>r. uID r = i) (\<lambda>r. r\<lparr>LastLoginAt := now\<rparr>) (users s)\<rparr>)))"

definition deleteUserRow :: "string \<Rightarrow> (auth_db, store_err, unit) op" where
  "deleteUserRow i s = (if user_exists i s
     then (Inr (), s\<lparr>users := filter (\<lambda>r. uID r \<noteq> i) (users s),
       sessions := filter (\<lambda>r. sUserID r \<noteq> i) (sessions s),
       api_tokens := filter (\<lambda>r. tUserID r \<noteq> i) (api_tokens s),
       recovery_codes := filter (\<lambda>r. rUserID r \<noteq> i) (recovery_codes s)\<rparr>)
     else (Inl ErrNotFound, s))"

definition DeleteUser :: "string \<Rightarrow> (auth_db, store_err, unit) op" where
  "DeleteUser i = stmt (deleteUserRow i)"

section \<open>Sessions\<close>

definition insertSession :: "Session \<Rightarrow> (auth_db, store_err, unit) op" where
  "insertSession row s =
     (if sID row \<in> sID ` set (sessions s) \<or> sTokenHash row \<in> sTokenHash ` set (sessions s) then (Inl ErrConflict, s)
      else if \<not> user_exists (sUserID row) s then (Inl ErrDB, s)
      else (Inr (), s\<lparr>sessions := sessions s @ [row]\<rparr>))"

definition CreateSession :: "Session \<Rightarrow> (auth_db, store_err, Session) op" where
  "CreateSession x = bind (idOr (sID x) ''ses'') (\<lambda>i. bind timeNow (\<lambda>now.
     let row = x\<lparr>sID := i, sCreatedAt := now, LastSeenAt := now\<rparr> in
     bind (stmt (insertSession row)) (\<lambda>_. ret row)))"

definition GetSessionByHash :: "string \<Rightarrow> (auth_db, store_err, Session) op" where
  "GetSessionByHash hash = bind (query (\<lambda>s. found (find (\<lambda>r. sTokenHash r = hash) (sessions s))))
     (\<lambda>x. bind timeNow (\<lambda>now. if now > sExpiresAt x then throw ErrNotFound else ret x))"

definition update_sessions :: "string \<Rightarrow> (Session \<Rightarrow> Session) \<Rightarrow> (auth_db, store_err, unit) op" where
  "update_sessions i f = stmt (\<lambda>s. (Inr (), s\<lparr>sessions := update_rows (\<lambda>r. sID r = i) f (sessions s)\<rparr>))"

definition MarkSessionReauthenticated :: "string \<Rightarrow> instant \<Rightarrow> (auth_db, store_err, unit) op" where
  "MarkSessionReauthenticated i t = update_sessions i (\<lambda>r. r\<lparr>ReauthAt := t\<rparr>)"

definition TouchSession :: "string \<Rightarrow> instant \<Rightarrow> (auth_db, store_err, unit) op" where
  "TouchSession i expires = bind timeNow (\<lambda>now. update_sessions i (\<lambda>r. r\<lparr>LastSeenAt := now, sExpiresAt := expires\<rparr>))"

definition ListSessions :: "string \<Rightarrow> (auth_db, store_err, Session list) op" where
  "ListSessions i = bind timeNow (\<lambda>now. query (\<lambda>s. Inr (rev (sort_key (\<lambda>r. text_key (LastSeenAt r))
     (filter (\<lambda>r. sUserID r = i \<and> text_less now (sExpiresAt r)) (sessions s))))))"

definition delete_sessions :: "(Session \<Rightarrow> bool) \<Rightarrow> (auth_db, store_err, nat) op" where
  "delete_sessions p = stmt (\<lambda>s. (Inr (affected p (sessions s)), s\<lparr>sessions := filter (\<lambda>r. \<not> p r) (sessions s)\<rparr>))"

definition DeleteSession :: "string \<Rightarrow> (auth_db, store_err, unit) op" where
  "DeleteSession i = bind (delete_sessions (\<lambda>r. sID r = i)) (\<lambda>_. ret ())"

definition DeleteUserSessions :: "string \<Rightarrow> (auth_db, store_err, unit) op" where
  "DeleteUserSessions i = bind (delete_sessions (\<lambda>r. sUserID r = i)) (\<lambda>_. ret ())"

definition PurgeExpiredSessions :: "(auth_db, store_err, nat) op" where
  "PurgeExpiredSessions = bind timeNow (\<lambda>now. delete_sessions (\<lambda>r. text_leq (sExpiresAt r) now))"

section \<open>API tokens\<close>

definition insertToken :: "APIToken \<Rightarrow> (auth_db, store_err, unit) op" where
  "insertToken row s =
     (if tID row \<in> tID ` set (api_tokens s) \<or> tTokenHash row \<in> tTokenHash ` set (api_tokens s) then (Inl ErrConflict, s)
      else if \<not> user_exists (tUserID row) s then (Inl ErrDB, s)
      else (Inr (), s\<lparr>api_tokens := api_tokens s @ [row]\<rparr>))"

definition StoreAPIToken :: "APIToken \<Rightarrow> (auth_db, store_err, APIToken) op" where
  "StoreAPIToken x = bind (idOr (tID x) ''tok'') (\<lambda>i. bind timeNow (\<lambda>now.
     let row = x\<lparr>tID := i, tCreatedAt := now, LastUsedAt := zero_time\<rparr> in
     bind (stmt (insertToken row)) (\<lambda>_. ret (x\<lparr>tID := i, tCreatedAt := now\<rparr>))))"

definition GetAPITokenByHash :: "string \<Rightarrow> (auth_db, store_err, APIToken) op" where
  "GetAPITokenByHash hash = bind (query (\<lambda>s. found (find (\<lambda>r. tTokenHash r = hash) (api_tokens s))))
     (\<lambda>x. if is_zero_time (tExpiresAt x) then ret x
          else bind timeNow (\<lambda>now. if now > tExpiresAt x then throw ErrNotFound else ret x))"

definition ListAPITokens :: "string \<Rightarrow> (auth_db, store_err, APIToken list) op" where
  "ListAPITokens i = query (\<lambda>s. Inr (rev (sort_key (\<lambda>r. text_key (tCreatedAt r)) (filter (\<lambda>r. tUserID r = i) (api_tokens s)))))"

definition TouchAPIToken :: "string \<Rightarrow> (auth_db, store_err, unit) op" where
  "TouchAPIToken i = bind timeNow (\<lambda>now. stmt (\<lambda>s.
     (Inr (), s\<lparr>api_tokens := update_rows (\<lambda>r. tID r = i) (\<lambda>r. r\<lparr>LastUsedAt := now\<rparr>) (api_tokens s)\<rparr>)))"

definition deleteTokenRow :: "string \<Rightarrow> string \<Rightarrow> (auth_db, store_err, unit) op" where
  "deleteTokenRow i user s =
     (if affected (\<lambda>r. tID r = i \<and> tUserID r = user) (api_tokens s) = 0 then (Inl ErrNotFound, s)
      else (Inr (), s\<lparr>api_tokens := filter (\<lambda>r. \<not> (tID r = i \<and> tUserID r = user)) (api_tokens s)\<rparr>))"

definition DeleteAPIToken :: "string \<Rightarrow> string \<Rightarrow> (auth_db, store_err, unit) op" where
  "DeleteAPIToken i user = stmt (deleteTokenRow i user)"

section \<open>Sign-in attempts\<close>

definition RecordLoginAttempt :: "string \<Rightarrow> string \<Rightarrow> bool \<Rightarrow> (auth_db, store_err, unit) op" where
  "RecordLoginAttempt ident ip ok = bind timeNow (\<lambda>now. stmt (\<lambda>s. (Inr (), s\<lparr>login_attempts := login_attempts s
     @ [\<lparr>aIdentifier = to_lower ident, aIP = ip, success = ok, aAt = now\<rparr>]\<rparr>)))"

definition failures :: "(login_attempt \<Rightarrow> bool) \<Rightarrow> instant \<Rightarrow> auth_db \<Rightarrow> nat" where
  "failures p since s = affected (\<lambda>r. p r \<and> \<not> success r \<and> text_less since (aAt r)) (login_attempts s)"

definition CountFailedLogins :: "string \<Rightarrow> string \<Rightarrow> instant \<Rightarrow> (auth_db, store_err, nat \<times> nat) op" where
  "CountFailedLogins ident ip since =
     bind (if ident \<noteq> [] then query (\<lambda>s. Inr (failures (\<lambda>r. aIdentifier r = to_lower ident) since s)) else ret 0)
     (\<lambda>byIdentifier. bind (if ip \<noteq> [] then query (\<lambda>s. Inr (failures (\<lambda>r. aIP r = ip) since s)) else ret 0)
     (\<lambda>byIP. ret (byIdentifier, byIP)))"

definition delete_attempts :: "(login_attempt \<Rightarrow> bool) \<Rightarrow> (auth_db, store_err, unit) op" where
  "delete_attempts p = stmt (\<lambda>s. (Inr (), s\<lparr>login_attempts := filter (\<lambda>r. \<not> p r) (login_attempts s)\<rparr>))"

definition ClearLoginAttempts :: "string \<Rightarrow> (auth_db, store_err, unit) op" where
  "ClearLoginAttempts ident = delete_attempts (\<lambda>r. aIdentifier r = to_lower ident \<and> \<not> success r)"

definition PurgeOldLoginAttempts :: "instant \<Rightarrow> (auth_db, store_err, unit) op" where
  "PurgeOldLoginAttempts before = delete_attempts (\<lambda>r. text_less (aAt r) before)"

section \<open>Two-factor state\<close>

definition insertCode :: "recovery_code \<Rightarrow> (auth_db, store_err, unit) op" where
  "insertCode row s =
     (if rID row \<in> rID ` set (recovery_codes s) \<or> code_hash row \<in> code_hash ` set (recovery_codes s)
         \<or> \<not> user_exists (rUserID row) s then (Inl ErrDB, s)
      else (Inr (), s\<lparr>recovery_codes := recovery_codes s @ [row]\<rparr>))"

fun insertCodes :: "string \<Rightarrow> instant \<Rightarrow> string list \<Rightarrow> (auth_db, store_err, unit) op" where
  "insertCodes user now [] = ret ()"
| "insertCodes user now (h # hs) = bind (NewID ''rec'') (\<lambda>i.
     bind (stmt (insertCode \<lparr>rID = i, rUserID = user, code_hash = h, rCreatedAt = now, used_at = None\<rparr>))
       (\<lambda>_. insertCodes user now hs))"

definition delete_codes :: "string \<Rightarrow> (auth_db, store_err, unit) op" where
  "delete_codes user = stmt (\<lambda>s. (Inr (), s\<lparr>recovery_codes := filter (\<lambda>r. rUserID r \<noteq> user) (recovery_codes s)\<rparr>))"

definition ReplaceRecoveryCodes :: "string \<Rightarrow> string list \<Rightarrow> (auth_db, store_err, unit) op" where
  "ReplaceRecoveryCodes user hashes = Tx (bind (delete_codes user) (\<lambda>_. bind timeNow (\<lambda>now. insertCodes user now hashes)))"

definition unused_code :: "string \<Rightarrow> string \<Rightarrow> recovery_code \<Rightarrow> bool" where
  "unused_code user hash r \<longleftrightarrow> rUserID r = user \<and> code_hash r = hash \<and> used_at r = None"

definition UseRecoveryCode :: "string \<Rightarrow> string \<Rightarrow> (auth_db, store_err, bool) op" where
  "UseRecoveryCode user hash = bind timeNow (\<lambda>now. stmt (\<lambda>s.
     (Inr (affected (unused_code user hash) (recovery_codes s) > 0),
      s\<lparr>recovery_codes := update_rows (unused_code user hash) (\<lambda>r. r\<lparr>used_at := Some now\<rparr>) (recovery_codes s)\<rparr>)))"

definition CountRecoveryCodes :: "string \<Rightarrow> (auth_db, store_err, nat) op" where
  "CountRecoveryCodes user = query (\<lambda>s. Inr (affected (\<lambda>r. rUserID r = user \<and> used_at r = None) (recovery_codes s)))"

definition DeleteRecoveryCodes :: "string \<Rightarrow> (auth_db, store_err, unit) op" where
  "DeleteRecoveryCodes user = delete_codes user"

definition SpendTOTPCounter :: "string \<Rightarrow> int \<Rightarrow> (auth_db, store_err, bool) op" where
  "SpendTOTPCounter user counter = stmt (\<lambda>s.
     (Inr (affected (\<lambda>r. uID r = user \<and> totp_last_counter r < counter) (users s) = 1),
      s\<lparr>users := update_rows (\<lambda>r. uID r = user \<and> totp_last_counter r < counter)
          (\<lambda>r. r\<lparr>totp_last_counter := counter\<rparr>) (users s)\<rparr>))"

section \<open>What the schema guarantees\<close>

text \<open>Keys, unique columns and references.\<close>

definition auth_ok :: "auth_db \<Rightarrow> bool" where
  "auth_ok s \<longleftrightarrow> distinct (map uID (users s)) \<and> distinct (map (\<lambda>r. to_lower (Email r)) (users s))
     \<and> distinct (map sID (sessions s)) \<and> distinct (map sTokenHash (sessions s))
     \<and> distinct (map tID (api_tokens s)) \<and> distinct (map tTokenHash (api_tokens s))
     \<and> distinct (map rID (recovery_codes s)) \<and> distinct (map code_hash (recovery_codes s))
     \<and> (\<forall>r \<in> set (sessions s). user_exists (sUserID r) s) \<and> (\<forall>r \<in> set (api_tokens s). user_exists (tUserID r) s)
     \<and> (\<forall>r \<in> set (recovery_codes s). user_exists (rUserID r) s)"

interpretation auth_inv: env_free auth_ok
  by unfold_locales (simp_all add: auth_ok_def user_exists_def)

lemma map_update_user: "(\<And>r. uID (f r) = uID r) \<Longrightarrow> uID ` set (update_rows p f rows) = uID ` set rows"
  using map_update_rows [of uID f p rows] by (metis set_map)

lemma distinct_email_update:
  assumes "distinct (map uID rows)" "distinct (map (\<lambda>r. to_lower (Email r)) rows)"
    "\<And>r. Email (f r) = e" "\<forall>r \<in> set rows. uID r \<noteq> i \<longrightarrow> to_lower (Email r) \<noteq> to_lower e"
  shows "distinct (map (\<lambda>r. to_lower (Email r)) (update_rows (\<lambda>r. uID r = i) f rows))"
  using assms(1,2,4)
proof (induction rows)
  case (Cons r rows)
  let ?u = "update_rows (\<lambda>r. uID r = i) f"
  have IH: "distinct (map (\<lambda>r. to_lower (Email r)) (?u rows))" using Cons by auto
  have u: "?u (r # rows) = (if uID r = i then f r else r) # ?u rows" by (simp add: update_rows_def)
  show ?case
  proof (cases "uID r = i")
    case True
    have "\<forall>x \<in> set rows. uID x \<noteq> i" using Cons.prems(1) True by (auto simp: image_iff)
    then have "?u rows = rows" by (simp add: update_rows_def map_idI)
    moreover have "to_lower e \<notin> (\<lambda>r. to_lower (Email r)) ` set rows"
      using Cons.prems(3) \<open>\<forall>x \<in> set rows. uID x \<noteq> i\<close> by (auto simp: image_iff)
    ultimately show ?thesis using IH assms(3) True by (simp add: u)
  next
    case False
    have "to_lower (Email r) \<notin> (\<lambda>r. to_lower (Email r)) ` set (?u rows)"
      using Cons.prems(2,3) False assms(3) by (auto simp: update_rows_def)
    then show ?thesis using IH False by (simp add: u)
  qed
qed (simp add: update_rows_def)

lemma keeps_insertUser: "keeps auth_ok (insertUser row)"
  by (auto simp: keeps_def insertUser_def auth_ok_def user_exists_def)

lemma keeps_updateUserRow: "keeps auth_ok (updateUserRow u now)"
proof -
  have "auth_ok (s\<lparr>users := update_rows (\<lambda>r. uID r = uID u) (mutable_columns u now) (users s)\<rparr>)"
    if ok: "auth_ok s" and e: "\<forall>r \<in> set (users s). uID r \<noteq> uID u \<longrightarrow> to_lower (Email r) \<noteq> to_lower (Email u)" for s
  proof -
    have "distinct (map (\<lambda>r. to_lower (Email r)) (update_rows (\<lambda>r. uID r = uID u) (mutable_columns u now) (users s)))"
      using ok e by (intro distinct_email_update) (auto simp: auth_ok_def mutable_columns_def)
    moreover have "map uID (update_rows (\<lambda>r. uID r = uID u) (mutable_columns u now) (users s)) = map uID (users s)"
      by (rule map_update_rows) (simp add: mutable_columns_def)
    ultimately show ?thesis using ok map_update_user [of "mutable_columns u now" "\<lambda>r. uID r = uID u" "users s"]
      by (simp add: auth_ok_def user_exists_def mutable_columns_def)
  qed
  then show ?thesis by (auto simp: keeps_def updateUserRow_def)
qed

text \<open>An update of users that keeps their keys and emails.\<close>

lemma auth_ok_users:
  assumes "auth_ok s" "\<And>r. uID (f r) = uID r" "\<And>r. Email (f r) = Email r"
  shows "auth_ok (s\<lparr>users := update_rows p f (users s)\<rparr>)"
  using assms map_update_rows [of uID f p] map_update_user [of f p]
    map_update_rows [of "\<lambda>r. to_lower (Email r)" f p]
  by (simp add: auth_ok_def user_exists_def)

lemma keeps_updatePasswordRow: "keeps auth_ok (updatePasswordRow i hash now)"
  by (auto simp: keeps_def updatePasswordRow_def intro!: auth_ok_users)

lemma keeps_touch_user: "keeps auth_ok (\<lambda>s. (Inr (), s\<lparr>users := update_rows p (\<lambda>r. r\<lparr>LastLoginAt := now\<rparr>) (users s)\<rparr>))"
  by (auto simp: keeps_def intro!: auth_ok_users)

lemma keeps_spend: "keeps auth_ok (\<lambda>s. (Inr (f s), s\<lparr>users := update_rows p (\<lambda>r. r\<lparr>totp_last_counter := c\<rparr>) (users s)\<rparr>))"
  by (auto simp: keeps_def intro!: auth_ok_users)

lemma keeps_deleteUserRow: "keeps auth_ok (deleteUserRow i)"
  by (auto simp: keeps_def deleteUserRow_def auth_ok_def user_exists_def distinct_map_filter)

lemma keeps_insertSession: "keeps auth_ok (insertSession row)"
  by (auto simp: keeps_def insertSession_def auth_ok_def user_exists_def)

lemma auth_ok_sessions:
  assumes "auth_ok s" "map sID rows = map sID (sessions s)" "map sTokenHash rows = map sTokenHash (sessions s)"
    "sUserID ` set rows \<subseteq> sUserID ` set (sessions s)"
  shows "auth_ok (s\<lparr>sessions := rows\<rparr>)"
proof -
  have "\<forall>i \<in> sUserID ` set (sessions s). user_exists i s" using assms(1) by (simp add: auth_ok_def)
  then have "\<forall>i \<in> sUserID ` set rows. user_exists i s" using assms(4) by (meson subsetD)
  then have "\<forall>r \<in> set rows. user_exists (sUserID r) s" by simp
  moreover have "distinct (map sID rows)" "distinct (map sTokenHash rows)"
    unfolding assms(2,3) using assms(1) by (simp_all add: auth_ok_def)
  ultimately show ?thesis using assms(1) by (simp add: auth_ok_def user_exists_def)
qed

lemma keeps_update_sessions:
  assumes "\<And>r. sID (f r) = sID r" "\<And>r. sTokenHash (f r) = sTokenHash r" "\<And>r. sUserID (f r) = sUserID r"
  shows "keeps auth_ok (update_sessions i f)"
  unfolding update_sessions_def
  using assms by (intro auth_inv.keeps_stmt)
    (auto simp: keeps_def map_update_rows intro!: auth_ok_sessions, auto simp: update_rows_def)

lemma keeps_delete_sessions: "keeps auth_ok (delete_sessions p)"
  unfolding delete_sessions_def
  by (intro auth_inv.keeps_stmt) (auto simp: keeps_def auth_ok_def user_exists_def distinct_map_filter)

lemma keeps_insertToken: "keeps auth_ok (insertToken row)"
  by (auto simp: keeps_def insertToken_def auth_ok_def user_exists_def)

lemma keeps_touch_token: "keeps auth_ok (\<lambda>s. (Inr (), s\<lparr>api_tokens := update_rows p (\<lambda>r. r\<lparr>LastUsedAt := now\<rparr>) (api_tokens s)\<rparr>))"
  by (auto simp: keeps_def auth_ok_def user_exists_def map_update_rows) (auto simp: update_rows_def)

lemma keeps_deleteTokenRow: "keeps auth_ok (deleteTokenRow i user)"
  by (auto simp: keeps_def deleteTokenRow_def auth_ok_def user_exists_def distinct_map_filter)

lemma keeps_attempts: "keeps auth_ok (\<lambda>s. (Inr (), s\<lparr>login_attempts := f s\<rparr>))"
  by (auto simp: keeps_def auth_ok_def user_exists_def)

lemma keeps_insertCode: "keeps auth_ok (insertCode row)"
  by (auto simp: keeps_def insertCode_def auth_ok_def user_exists_def)

lemma keeps_delete_codes: "keeps auth_ok (delete_codes user)"
  unfolding delete_codes_def
  by (intro auth_inv.keeps_stmt) (auto simp: keeps_def auth_ok_def user_exists_def distinct_map_filter)

lemma keeps_use_code: "keeps auth_ok (\<lambda>s. (Inr (f s), s\<lparr>recovery_codes := update_rows p (\<lambda>r. r\<lparr>used_at := t\<rparr>) (recovery_codes s)\<rparr>))"
  by (auto simp: keeps_def auth_ok_def user_exists_def map_update_rows) (auto simp: update_rows_def)

lemmas auth_row_keeps = keeps_insertUser keeps_updateUserRow keeps_updatePasswordRow keeps_touch_user keeps_spend
  keeps_deleteUserRow keeps_insertSession keeps_delete_sessions keeps_insertToken keeps_touch_token
  keeps_deleteTokenRow keeps_attempts keeps_insertCode keeps_delete_codes keeps_use_code

lemmas store_write_defs = CreateUser_def UpdateUser_def UpdatePasswordHash_def TouchUserLogin_def DeleteUser_def
  CreateSession_def MarkSessionReauthenticated_def TouchSession_def DeleteSession_def DeleteUserSessions_def
  PurgeExpiredSessions_def StoreAPIToken_def TouchAPIToken_def DeleteAPIToken_def RecordLoginAttempt_def
  ClearLoginAttempts_def PurgeOldLoginAttempts_def delete_attempts_def ReplaceRecoveryCodes_def UseRecoveryCode_def
  DeleteRecoveryCodes_def SpendTOTPCounter_def idOr_def Let_def

lemma keeps_insertCodes: "keeps auth_ok (insertCodes user now hs)"
  by (induction hs) (auto intro!: keeps_intros auth_inv.keeps_env auth_row_keeps)

section \<open>Sequences of writes\<close>

text \<open>
  Requests run side by side, but the process lets one write statement or one
  transaction through at a time (\<^verbatim>\<open>writeMu\<close>). Whatever the requests do, the
  database sees a sequence of these calls.
\<close>

datatype store_call =
  CreateUserC User | UpdateUserC User | UpdatePasswordHashC string string | TouchUserLoginC string | DeleteUserC string
| CreateSessionC Session | MarkSessionReauthenticatedC string instant | TouchSessionC string instant | DeleteSessionC string
| DeleteUserSessionsC string | PurgeExpiredSessionsC | StoreAPITokenC APIToken | TouchAPITokenC string
| DeleteAPITokenC string string | RecordLoginAttemptC string string bool | ClearLoginAttemptsC string
| PurgeOldLoginAttemptsC instant | ReplaceRecoveryCodesC string "string list" | UseRecoveryCodeC string string
| DeleteRecoveryCodesC string | SpendTOTPCounterC string int

fun call_op :: "store_call \<Rightarrow> (auth_db, store_err, unit) op" where
  "call_op (CreateUserC u) = ignore (CreateUser u)"
| "call_op (UpdateUserC u) = ignore (UpdateUser u)"
| "call_op (UpdatePasswordHashC i h) = UpdatePasswordHash i h"
| "call_op (TouchUserLoginC i) = TouchUserLogin i"
| "call_op (DeleteUserC i) = DeleteUser i"
| "call_op (CreateSessionC x) = ignore (CreateSession x)"
| "call_op (MarkSessionReauthenticatedC i t) = MarkSessionReauthenticated i t"
| "call_op (TouchSessionC i t) = TouchSession i t"
| "call_op (DeleteSessionC i) = DeleteSession i"
| "call_op (DeleteUserSessionsC i) = DeleteUserSessions i"
| "call_op PurgeExpiredSessionsC = ignore PurgeExpiredSessions"
| "call_op (StoreAPITokenC x) = ignore (StoreAPIToken x)"
| "call_op (TouchAPITokenC i) = TouchAPIToken i"
| "call_op (DeleteAPITokenC i u) = DeleteAPIToken i u"
| "call_op (RecordLoginAttemptC i ip ok) = RecordLoginAttempt i ip ok"
| "call_op (ClearLoginAttemptsC i) = ClearLoginAttempts i"
| "call_op (PurgeOldLoginAttemptsC t) = PurgeOldLoginAttempts t"
| "call_op (ReplaceRecoveryCodesC u hs) = ReplaceRecoveryCodes u hs"
| "call_op (UseRecoveryCodeC u h) = ignore (UseRecoveryCode u h)"
| "call_op (DeleteRecoveryCodesC u) = DeleteRecoveryCodes u"
| "call_op (SpendTOTPCounterC u c) = ignore (SpendTOTPCounter u c)"

definition run_calls :: "store_call list \<Rightarrow> auth_db \<Rightarrow> auth_db" where
  "run_calls cs s = fold (\<lambda>c s. snd (call_op c s)) cs s"

lemma run_calls_keeps: "(\<And>c. c \<in> set cs \<Longrightarrow> keeps P (call_op c)) \<Longrightarrow> P s \<Longrightarrow> P (run_calls cs s)"
  by (induction cs arbitrary: s) (auto simp: run_calls_def keeps_def)


section \<open>Codes that work once\<close>

text \<open>The user is there and its last spent step is at least the given one.\<close>

definition step_spent :: "string \<Rightarrow> int \<Rightarrow> auth_db \<Rightarrow> bool" where
  "step_spent u c s \<longleftrightarrow> user_exists u s \<and> (\<forall>r \<in> set (users s). uID r = u \<longrightarrow> c \<le> totp_last_counter r)"

interpretation spent_inv: env_free "step_spent u c"
  by unfold_locales (simp_all add: step_spent_def user_exists_def)

lemma step_spent_update:
  assumes "step_spent u c s" "\<And>r. uID (f r) = uID r" "\<And>r. p r \<Longrightarrow> totp_last_counter r \<le> totp_last_counter (f r)"
  shows "step_spent u c (s\<lparr>users := update_rows p f (users s)\<rparr>)"
proof -
  have "c \<le> totp_last_counter (f r)" if "r \<in> set (users s)" "uID r = u" "p r" for r
    using assms(1) assms(3) [of r] that by (force simp: step_spent_def)
  then show ?thesis
    using assms(1,2) map_update_user [of f p "users s"] by (auto simp: step_spent_def user_exists_def update_rows_def)
qed

lemma step_spent_other: "step_spent u c (s\<lparr>sessions := a\<rparr>) = step_spent u c s"
  "step_spent u c (s\<lparr>api_tokens := b\<rparr>) = step_spent u c s" "step_spent u c (s\<lparr>login_attempts := d\<rparr>) = step_spent u c s"
  "step_spent u c (s\<lparr>recovery_codes := e\<rparr>) = step_spent u c s"
  by (simp_all add: step_spent_def user_exists_def)

lemma spent_insertUser: "keeps (step_spent u c) (insertUser row)"
  by (auto simp: keeps_def insertUser_def step_spent_def user_exists_def)

lemma spent_updateUserRow: "keeps (step_spent u c) (updateUserRow x now)"
  by (auto simp: keeps_def updateUserRow_def mutable_columns_def intro!: step_spent_update)

lemma spent_updatePasswordRow: "keeps (step_spent u c) (updatePasswordRow i h now)"
  by (auto simp: keeps_def updatePasswordRow_def intro!: step_spent_update)

lemma spent_touch: "keeps (step_spent u c) (\<lambda>s. (Inr (), s\<lparr>users := update_rows p (\<lambda>r. r\<lparr>LastLoginAt := now\<rparr>) (users s)\<rparr>))"
  by (auto simp: keeps_def intro!: step_spent_update)

lemma spent_spend: "keeps (step_spent u c) (\<lambda>s. (Inr (f s), s\<lparr>users := update_rows (\<lambda>r. uID r = v \<and> totp_last_counter r < d)
    (\<lambda>r. r\<lparr>totp_last_counter := d\<rparr>) (users s)\<rparr>))"
  by (auto simp: keeps_def intro!: step_spent_update)

lemma spent_deleteUserRow: "i \<noteq> u \<Longrightarrow> keeps (step_spent u c) (deleteUserRow i)"
  by (auto simp: keeps_def deleteUserRow_def step_spent_def user_exists_def)

lemma spent_rows:
  "keeps (step_spent u c) (insertSession x)" "keeps (step_spent u c) (insertToken y)" "keeps (step_spent u c) (insertCode z)"
  "keeps (step_spent u c) (deleteTokenRow i v)"
  by (simp_all add: keeps_def insertSession_def insertToken_def insertCode_def deleteTokenRow_def step_spent_other)

lemma spent_others:
  "keeps (step_spent u c) (\<lambda>s. (g s, s\<lparr>sessions := f1 s\<rparr>))" "keeps (step_spent u c) (\<lambda>s. (g2 s, s\<lparr>api_tokens := f2 s\<rparr>))"
  "keeps (step_spent u c) (\<lambda>s. (g3 s, s\<lparr>login_attempts := f3 s\<rparr>))"
  "keeps (step_spent u c) (\<lambda>s. (g4 s, s\<lparr>recovery_codes := f4 s\<rparr>))"
  by (simp_all add: keeps_def step_spent_other)

lemma spent_update_sessions: "keeps (step_spent u c) (update_sessions i f)"
  unfolding update_sessions_def by (intro spent_inv.keeps_env spent_others)

lemma spent_delete_sessions: "keeps (step_spent u c) (delete_sessions p)"
  unfolding delete_sessions_def by (intro spent_inv.keeps_env spent_others)

lemma spent_delete_codes: "keeps (step_spent u c) (delete_codes v)"
  unfolding delete_codes_def by (intro spent_inv.keeps_env spent_others)

lemma spent_insertCodes: "keeps (step_spent u c) (insertCodes v now hs)"
  by (induction hs) (auto intro!: keeps_intros spent_inv.keeps_env spent_rows)

lemma spent_call: "cl \<noteq> DeleteUserC u \<Longrightarrow> keeps (step_spent u c) (call_op cl)"
  by (cases cl; simp only: call_op.simps store_write_defs)
    (intro keeps_intros spent_inv.keeps_env spent_insertUser spent_updateUserRow spent_updatePasswordRow spent_touch
      spent_spend spent_deleteUserRow spent_rows spent_others spent_update_sessions spent_delete_sessions
      spent_delete_codes spent_insertCodes; simp)+

interpretation true_inv: env_free "\<lambda>s :: auth_db. True"
  by unfold_locales simp_all

lemma SpendTOTPCounter_spends:
  assumes "SpendTOTPCounter u c s = (Inr True, s1)"
  shows "step_spent u c s1"
  using assms TrueI unfolding SpendTOTPCounter_def
proof (cases rule: true_inv.stmt_result)
  case (run s0)
  then have "length (filter (\<lambda>r. uID r = u \<and> totp_last_counter r < c) (users s0)) = 1" by (simp add: affected_def)
  then have "filter (\<lambda>r. uID r = u \<and> totp_last_counter r < c) (users s0) \<noteq> []" by auto
  then have "user_exists u s0" by (auto simp: filter_empty_conv user_exists_def)
  moreover have u1: "users s1 = update_rows (\<lambda>r. uID r = u \<and> totp_last_counter r < c) (\<lambda>r. r\<lparr>totp_last_counter := c\<rparr>) (users s0)"
    using run(2) by auto
  ultimately have "user_exists u s1" by (simp add: user_exists_def map_update_user)
  moreover have "c \<le> totp_last_counter x" if "x \<in> set (users s1)" "uID x = u" for x
    using that unfolding u1 by (elim update_rowsE) auto
  ultimately show ?thesis by (simp add: step_spent_def)
qed auto

lemma SpendTOTPCounter_needs:
  assumes "SpendTOTPCounter u c' s = (Inr True, s1)" "step_spent u c s"
  shows "c < c'"
  using assms unfolding SpendTOTPCounter_def
proof (cases rule: spent_inv.stmt_result)
  case (run s0)
  then have "length (filter (\<lambda>r. uID r = u \<and> totp_last_counter r < c') (users s0)) = 1" by (simp add: affected_def)
  then have "filter (\<lambda>r. uID r = u \<and> totp_last_counter r < c') (users s0) \<noteq> []" by auto
  then show ?thesis using run(1) by (force simp: filter_empty_conv step_spent_def)
qed auto

text \<open>C31: A two-factor step works once: after a sign-in has spent a step, no sequence
  of writes by any other requests lets the same or an earlier step be spent
  again, as long as the user is not deleted.\<close>
theorem two_factor_step_spent_once:
  assumes "SpendTOTPCounter u c s = (Inr True, s1)" "DeleteUserC u \<notin> set cs" "c' \<le> c"
  shows "fst (SpendTOTPCounter u c' (run_calls cs s1)) \<noteq> Inr True"
proof
  have spent: "step_spent u c (run_calls cs s1)"
    by (rule run_calls_keeps [OF spent_call SpendTOTPCounter_spends [OF assms(1)]]) (use assms(2) in auto)
  assume "fst (SpendTOTPCounter u c' (run_calls cs s1)) = Inr True"
  then obtain s2 where "SpendTOTPCounter u c' (run_calls cs s1) = (Inr True, s2)" by (metis prod.collapse)
  from SpendTOTPCounter_needs [OF this spent] show False using assms(3) by simp
qed

definition one_user :: auth_db where
  "one_user = \<lparr>clock = 0, pauses = [], faults = [], entropy = [],
     users = [user_row_of \<lparr>uID = ''usr_1'', Email = ''a@b.c'', uName = ''A'', PasswordHash = ''h'', TOTPSecretEnc = ''x'',
       TOTPEnabled = True, IsAdmin = False, Disabled = False, Locale = [], Theme = ''system'', RecoverySaved = True,
       uCreatedAt = 0, UpdatedAt = 0, LastLoginAt = zero_time\<rparr> 5],
     sessions = [], api_tokens = [], login_attempts = [],
     recovery_codes = [\<lparr>rID = ''rec_1'', rUserID = ''usr_1'', code_hash = ''hash'', rCreatedAt = 0, used_at = None\<rparr>]\<rparr>"

theorem two_factor_step_spent_once_witness:
  "fst (SpendTOTPCounter ''usr_1'' 9 one_user) = Inr True
    \<and> fst (SpendTOTPCounter ''usr_1'' 9 (run_calls [SpendTOTPCounterC ''usr_1'' 7] (snd (SpendTOTPCounter ''usr_1'' 9 one_user))))
      \<noteq> Inr True"
proof -
  have first: "fst (SpendTOTPCounter ''usr_1'' 9 one_user) = Inr True" by code_simp
  then have "SpendTOTPCounter ''usr_1'' 9 one_user = (Inr True, snd (SpendTOTPCounter ''usr_1'' 9 one_user))"
    by (metis prod.collapse)
  from two_factor_step_spent_once [OF this, of "[SpendTOTPCounterC ''usr_1'' 7]" 9] first show ?thesis by simp
qed

definition code_dead :: "string \<Rightarrow> string \<Rightarrow> auth_db \<Rightarrow> bool" where
  "code_dead u h s \<longleftrightarrow> (\<forall>r \<in> set (recovery_codes s). \<not> unused_code u h r)"

interpretation dead_inv: env_free "code_dead u h"
  by unfold_locales (simp_all add: code_dead_def)

lemma dead_other: "code_dead u h (s\<lparr>sessions := a\<rparr>) = code_dead u h s" "code_dead u h (s\<lparr>users := x\<rparr>) = code_dead u h s"
  "code_dead u h (s\<lparr>api_tokens := b\<rparr>) = code_dead u h s" "code_dead u h (s\<lparr>login_attempts := d\<rparr>) = code_dead u h s"
  by (simp_all add: code_dead_def)

lemma dead_rows:
  "keeps (code_dead u h) (insertUser row)" "keeps (code_dead u h) (updateUserRow x now)"
  "keeps (code_dead u h) (updatePasswordRow i p now)" "keeps (code_dead u h) (insertSession y)"
  "keeps (code_dead u h) (insertToken z)" "keeps (code_dead u h) (deleteTokenRow i v)"
  by (simp_all add: keeps_def insertUser_def updateUserRow_def updatePasswordRow_def insertSession_def insertToken_def
      deleteTokenRow_def dead_other)

lemma dead_deleteUserRow: "keeps (code_dead u h) (deleteUserRow i)"
  by (auto simp: keeps_def deleteUserRow_def code_dead_def)

lemma dead_others:
  "keeps (code_dead u h) (\<lambda>s. (g s, s\<lparr>sessions := f1 s\<rparr>))" "keeps (code_dead u h) (\<lambda>s. (g2 s, s\<lparr>api_tokens := f2 s\<rparr>))"
  "keeps (code_dead u h) (\<lambda>s. (g3 s, s\<lparr>login_attempts := f3 s\<rparr>))" "keeps (code_dead u h) (\<lambda>s. (g4 s, s\<lparr>users := f4 s\<rparr>))"
  by (simp_all add: keeps_def dead_other)

lemma dead_use: "keeps (code_dead u h) (\<lambda>s. (g s, s\<lparr>recovery_codes := update_rows p (\<lambda>r. r\<lparr>used_at := Some t\<rparr>) (recovery_codes s)\<rparr>))"
  by (auto simp: keeps_def code_dead_def update_rows_def unused_code_def)

lemma dead_delete_codes: "keeps (code_dead u h) (delete_codes v)"
  unfolding delete_codes_def by (intro dead_inv.keeps_env) (auto simp: keeps_def code_dead_def)

lemma dead_update_sessions: "keeps (code_dead u h) (update_sessions i f)"
  unfolding update_sessions_def by (intro dead_inv.keeps_env dead_others)

lemma dead_delete_sessions: "keeps (code_dead u h) (delete_sessions p)"
  unfolding delete_sessions_def by (intro dead_inv.keeps_env dead_others)

lemma dead_insertCode: "code_hash row \<noteq> h \<Longrightarrow> keeps (code_dead u h) (insertCode row)"
  by (auto simp: keeps_def insertCode_def code_dead_def unused_code_def)

lemma dead_insertCodes: "h \<notin> set hs \<Longrightarrow> keeps (code_dead u h) (insertCodes v now hs)"
  by (induction hs) (auto intro!: keeps_intros dead_inv.keeps_env dead_insertCode)

definition issues :: "string \<Rightarrow> store_call \<Rightarrow> bool" where
  "issues h cl = (case cl of ReplaceRecoveryCodesC v hs \<Rightarrow> h \<in> set hs | _ \<Rightarrow> False)"

lemma dead_call: "\<not> issues h cl \<Longrightarrow> keeps (code_dead u h) (call_op cl)"
  by (cases cl; simp only: call_op.simps store_write_defs issues_def store_call.case)
    (intro keeps_intros dead_inv.keeps_env dead_rows dead_deleteUserRow dead_others dead_use dead_delete_codes
      dead_update_sessions dead_delete_sessions dead_insertCodes; simp)+

lemma UseRecoveryCode_kills:
  assumes "UseRecoveryCode u h s = (Inr b, s1)"
  shows "code_dead u h s1"
proof -
  obtain now s0 where "timeNow s = (Inr now, s0)"
    and st: "stmt (\<lambda>s. (Inr (affected (unused_code u h) (recovery_codes s) > 0),
      s\<lparr>recovery_codes := update_rows (unused_code u h) (\<lambda>r. r\<lparr>used_at := Some now\<rparr>) (recovery_codes s)\<rparr>)) s0 = (Inr b, s1)"
    using assms by (auto simp: UseRecoveryCode_def timeNow_def elim!: bind_Inr)
  from st TrueI show ?thesis
  proof (cases rule: true_inv.stmt_result)
    case (run s2)
    then have "recovery_codes s1 = update_rows (unused_code u h) (\<lambda>r. r\<lparr>used_at := Some now\<rparr>) (recovery_codes s2)" by auto
    then have c1: "recovery_codes s1 = update_rows (unused_code u h) (\<lambda>r. r\<lparr>used_at := Some now\<rparr>) (recovery_codes s2)" .
    have "\<not> unused_code u h x" if "x \<in> set (recovery_codes s1)" for x
      using that unfolding c1 by (elim update_rowsE) (auto simp: unused_code_def)
    then show ?thesis by (simp add: code_dead_def)
  qed simp
qed

lemma UseRecoveryCode_needs:
  assumes "UseRecoveryCode u h s = (Inr True, s1)" "code_dead u h s"
  shows False
proof -
  obtain now s0 where t: "timeNow s = (Inr now, s0)"
    and st: "stmt (\<lambda>s. (Inr (affected (unused_code u h) (recovery_codes s) > 0),
      s\<lparr>recovery_codes := update_rows (unused_code u h) (\<lambda>r. r\<lparr>used_at := Some now\<rparr>) (recovery_codes s)\<rparr>)) s0 = (Inr True, s1)"
    using assms by (auto simp: UseRecoveryCode_def timeNow_def elim!: bind_Inr)
  have "code_dead u h s0" using keepsD [OF dead_inv.keeps_timeNow assms(2) t] .
  from st this show False
    by (cases rule: dead_inv.stmt_result) (auto simp: code_dead_def affected_def filter_empty_conv)
qed

text \<open>A recovery code works once: after it has been used, no sequence of writes by
  any other requests makes it work again, unless the same code is issued anew.\<close>
theorem recovery_code_used_once:
  assumes "UseRecoveryCode u h s = (Inr True, s1)" "\<forall>cl \<in> set cs. \<not> issues h cl"
  shows "fst (UseRecoveryCode u h (run_calls cs s1)) \<noteq> Inr True"
proof
  have "code_dead u h (run_calls cs s1)"
    by (rule run_calls_keeps [OF dead_call UseRecoveryCode_kills [OF assms(1)]]) (use assms(2) in auto)
  moreover assume "fst (UseRecoveryCode u h (run_calls cs s1)) = Inr True"
  then obtain s2 where "UseRecoveryCode u h (run_calls cs s1) = (Inr True, s2)" by (metis prod.collapse)
  ultimately show False using UseRecoveryCode_needs by blast
qed

theorem recovery_code_used_once_witness:
  "fst (UseRecoveryCode ''usr_1'' ''hash'' one_user) = Inr True
    \<and> fst (UseRecoveryCode ''usr_1'' ''hash'' (run_calls [DeleteSessionC ''x''] (snd (UseRecoveryCode ''usr_1'' ''hash'' one_user))))
      \<noteq> Inr True"
proof -
  have first: "fst (UseRecoveryCode ''usr_1'' ''hash'' one_user) = Inr True" by code_simp
  then have "UseRecoveryCode ''usr_1'' ''hash'' one_user = (Inr True, snd (UseRecoveryCode ''usr_1'' ''hash'' one_user))"
    by (metis prod.collapse)
  from recovery_code_used_once [OF this, of "[DeleteSessionC ''x'']"] first show ?thesis by (simp add: issues_def)
qed

end
