(* ===== verification/Store_Teams.thy ===== *)
theory Store_Teams
  imports Store_Users
begin

text \<open>
  Teams, memberships, projects, environments, invitations, settings and the audit
  trail: \<^verbatim>\<open>internal/store/teams.go\<close>, \<^verbatim>\<open>invitations.go\<close> and the first half of
  \<^verbatim>\<open>misc.go\<close>. The tables extend those of the users; of apps, databases and
  deployments only the columns these statements join on are kept. Unique columns,
  checks, references and the cascades of a delete are part of the statements.

  Lemmas: every statement keeps the memberships well formed (one per team and
  user, of an existing team and user, with a known role), and accepting an
  invitation does both of its writes or neither, once.
\<close>

datatype Role = RoleOwner | RoleAdmin | RoleMember | OtherRole string

fun roleRank :: "Role \<Rightarrow> nat" where
  "roleRank RoleMember = 1"
| "roleRank RoleAdmin = 2"
| "roleRank RoleOwner = 3"
| "roleRank (OtherRole _) = 0"

definition AtLeast :: "Role \<Rightarrow> Role \<Rightarrow> bool" where
  "AtLeast r required \<longleftrightarrow> roleRank required \<le> roleRank r"

definition validRole :: "Role \<Rightarrow> bool" where
  "validRole r \<longleftrightarrow> (case r of OtherRole _ \<Rightarrow> False | _ \<Rightarrow> True)"

record Team =
  teamID :: string
  teamName :: string
  teamSlug :: string
  teamCreatedAt :: instant
  teamRole :: "Role option"

record Membership =
  mTeamID :: string
  mUserID :: string
  mRole :: Role
  mCreatedAt :: instant

record Project =
  pID :: string
  pTeamID :: string
  pName :: string
  pSlug :: string
  Description :: string
  pCreatedAt :: instant
  pUpdatedAt :: instant

record Environment =
  eID :: string
  eProjectID :: string
  eName :: string
  eSlug :: string
  eKind :: string
  Namespace :: string
  SourceRef :: string
  PodSecurity :: string
  eCreatedAt :: instant

record Invitation =
  iID :: string
  iTeamID :: string
  iEmail :: string
  iRole :: Role
  InvitedBy :: string
  iExpiresAt :: instant
  AcceptedAt :: instant
  iCreatedAt :: instant

record invitation_row = Invitation +
  token_hash :: string
  accepted_at :: "instant option"

record AuditEvent =
  auID :: string
  auTeamID :: string
  ActorID :: string
  ActorLabel :: string
  Action :: string
  TargetType :: string
  TargetID :: string
  TargetLabel :: string
  auIP :: string
  auUserAgent :: string
  Metadata :: string
  auAt :: instant

record setting_row =
  setKey :: string
  setValue :: string
  setEncrypted :: bool
  setUpdatedAt :: instant
  setUpdatedBy :: string

text \<open>The tables, and what the handlers have published so far: topic, type and the audit event.\<close>

record team_db = auth_db +
  teams :: "Team list"
  memberships :: "Membership list"
  projects :: "Project list"
  environments :: "Environment list"
  app_rows :: "(string \<times> string) list"
  database_rows :: "(string \<times> string) list"
  deployed_at :: "(string \<times> instant) list"
  team_invitations :: "invitation_row list"
  audit_events :: "AuditEvent list"
  settings :: "setting_row list"
  sentEvents :: "(string \<times> string \<times> AuditEvent) list"

type_synonym 'a team_op = "(team_db, store_err, 'a) op"

text \<open>An operation on the tables of the users, run inside the larger database.\<close>

definition onAuth :: "(auth_db, 'e, 'a) op \<Rightarrow> (team_db, 'e, 'a) op" where
  "onAuth m s = (case m (auth_db.truncate s) of (r, a) \<Rightarrow> (r, auth_db.extend a (auth_db.more s)))"

section \<open>Teams\<close>

definition team_exists :: "string \<Rightarrow> team_db \<Rightarrow> bool" where
  "team_exists i s \<longleftrightarrow> i \<in> teamID ` set (teams s)"

definition member_exists :: "string \<Rightarrow> team_db \<Rightarrow> bool" where
  "member_exists i s \<longleftrightarrow> i \<in> uID ` set (users s)"

definition insertTeam :: "Team \<Rightarrow> unit team_op" where
  "insertTeam t s = (if team_exists (teamID t) s \<or> teamSlug t \<in> teamSlug ` set (teams s) then (Inl ErrConflict, s)
     else (Inr (), s\<lparr>teams := teams s @ [t]\<rparr>))"

definition CreateTeam :: "Team \<Rightarrow> Team team_op" where
  "CreateTeam t = bind (idOr (teamID t) ''team'') (\<lambda>i. bind timeNow (\<lambda>now.
     bind (stmt (insertTeam (t\<lparr>teamID := i, teamCreatedAt := now, teamRole := None\<rparr>))) (\<lambda>_.
     ret (t\<lparr>teamID := i, teamCreatedAt := now\<rparr>))))"

definition GetTeam :: "string \<Rightarrow> Team team_op" where
  "GetTeam i = query (\<lambda>s. found (find (\<lambda>t. teamID t = i) (teams s)))"

definition ListTeamsForUser :: "string \<Rightarrow> Team list team_op" where
  "ListTeamsForUser user = query (\<lambda>s. Inr (sort_key (\<lambda>t. text_key (teamCreatedAt t))
     (concat (map (\<lambda>t. map (\<lambda>m. t\<lparr>teamRole := Some (mRole m)\<rparr>)
        (filter (\<lambda>m. mTeamID m = teamID t \<and> mUserID m = user) (memberships s))) (teams s)))))"

definition updateTeamRow :: "Team \<Rightarrow> unit team_op" where
  "updateTeamRow t s = (if team_exists (teamID t) s \<and> (\<exists>x \<in> set (teams s). teamID x \<noteq> teamID t \<and> teamSlug x = teamSlug t)
     then (Inl ErrConflict, s)
     else if \<not> team_exists (teamID t) s then (Inl ErrNotFound, s)
     else (Inr (), s\<lparr>teams := update_rows (\<lambda>x. teamID x = teamID t) (\<lambda>x. x\<lparr>teamName := teamName t, teamSlug := teamSlug t\<rparr>) (teams s)\<rparr>))"

definition UpdateTeam :: "Team \<Rightarrow> unit team_op" where
  "UpdateTeam t = stmt (updateTeamRow t)"

section \<open>Memberships\<close>

definition of_pair :: "string \<Rightarrow> string \<Rightarrow> Membership \<Rightarrow> bool" where
  "of_pair team user m \<longleftrightarrow> mTeamID m = team \<and> mUserID m = user"

text \<open>\<^verbatim>\<open>INSERT ... ON CONFLICT (team_id, user_id) DO UPDATE SET role\<close>.\<close>

definition upsertMember :: "string \<Rightarrow> string \<Rightarrow> Role \<Rightarrow> instant \<Rightarrow> unit team_op" where
  "upsertMember team user role now s = (if \<not> validRole role then (Inl ErrDB, s)
     else if \<exists>m \<in> set (memberships s). of_pair team user m
     then (Inr (), s\<lparr>memberships := update_rows (of_pair team user) (\<lambda>m. m\<lparr>mRole := role\<rparr>) (memberships s)\<rparr>)
     else if \<not> team_exists team s \<or> \<not> member_exists user s then (Inl ErrDB, s)
     else (Inr (), s\<lparr>memberships := memberships s @ [\<lparr>mTeamID = team, mUserID = user, mRole = role, mCreatedAt = now\<rparr>]\<rparr>))"

definition AddMember :: "string \<Rightarrow> string \<Rightarrow> Role \<Rightarrow> unit team_op" where
  "AddMember team user role = (if \<not> validRole role then throw ErrDB
     else bind timeNow (\<lambda>now. stmt (upsertMember team user role now)))"

definition GetMembership :: "string \<Rightarrow> string \<Rightarrow> Membership team_op" where
  "GetMembership team user = query (\<lambda>s. found (find (of_pair team user) (memberships s)))"

definition ListMembers :: "string \<Rightarrow> (User \<times> Role) list team_op" where
  "ListMembers team = query (\<lambda>s. Inr (map (\<lambda>(u, m). (scanUser u, mRole m)) (sort_key (\<lambda>(u, m). text_key (uCreatedAt u))
     (concat (map (\<lambda>u. map (\<lambda>m. (u, m)) (filter (of_pair team (uID u)) (memberships s))) (users s))))))"

definition CountOwners :: "string \<Rightarrow> nat team_op" where
  "CountOwners team = query (\<lambda>s. Inr (affected (\<lambda>m. mTeamID m = team \<and> mRole m = RoleOwner) (memberships s)))"

definition deleteMember :: "string \<Rightarrow> string \<Rightarrow> unit team_op" where
  "deleteMember team user s = (if affected (of_pair team user) (memberships s) = 0 then (Inl ErrNotFound, s)
     else (Inr (), s\<lparr>memberships := filter (\<lambda>m. \<not> of_pair team user m) (memberships s)\<rparr>))"

definition RemoveMember :: "string \<Rightarrow> string \<Rightarrow> unit team_op" where
  "RemoveMember team user = stmt (deleteMember team user)"

section \<open>Projects\<close>

definition insertProject :: "Project \<Rightarrow> unit team_op" where
  "insertProject p s = (if pID p \<in> pID ` set (projects s) \<or> (\<exists>x \<in> set (projects s). pTeamID x = pTeamID p \<and> pSlug x = pSlug p)
     then (Inl ErrConflict, s) else if \<not> team_exists (pTeamID p) s then (Inl ErrDB, s)
     else (Inr (), s\<lparr>projects := projects s @ [p]\<rparr>))"

definition CreateProject :: "Project \<Rightarrow> Project team_op" where
  "CreateProject p = bind (idOr (pID p) ''prj'') (\<lambda>i. bind timeNow (\<lambda>now.
     let row = p\<lparr>pID := i, pCreatedAt := now, pUpdatedAt := now\<rparr> in bind (stmt (insertProject row)) (\<lambda>_. ret row)))"

definition GetProject :: "string \<Rightarrow> Project team_op" where
  "GetProject i = query (\<lambda>s. found (find (\<lambda>p. pID p = i) (projects s)))"

definition ListProjects :: "string \<Rightarrow> Project list team_op" where
  "ListProjects team = query (\<lambda>s. Inr (sort_key (\<lambda>p. text_key (pCreatedAt p)) (filter (\<lambda>p. pTeamID p = team) (projects s))))"

definition updateProjectRow :: "Project \<Rightarrow> instant \<Rightarrow> unit team_op" where
  "updateProjectRow p now s = (case find (\<lambda>x. pID x = pID p) (projects s) of None \<Rightarrow> (Inl ErrNotFound, s)
     | Some old \<Rightarrow> if \<exists>x \<in> set (projects s). pID x \<noteq> pID p \<and> pTeamID x = pTeamID old \<and> pSlug x = pSlug p then (Inl ErrConflict, s)
       else (Inr (), s\<lparr>projects := update_rows (\<lambda>x. pID x = pID p)
         (\<lambda>x. x\<lparr>pName := pName p, pSlug := pSlug p, Description := Description p, pUpdatedAt := now\<rparr>) (projects s)\<rparr>))"

definition UpdateProject :: "Project \<Rightarrow> Project team_op" where
  "UpdateProject p = bind timeNow (\<lambda>now. bind (stmt (updateProjectRow p now)) (\<lambda>_. ret (p\<lparr>pUpdatedAt := now\<rparr>)))"

text \<open>What the references take with them when environments go.\<close>

definition dropEnvironments :: "(Environment \<Rightarrow> bool) \<Rightarrow> team_db \<Rightarrow> team_db" where
  "dropEnvironments p s = (let gone = eID ` set (filter p (environments s));
       apps = fst ` set (filter (\<lambda>a. snd a \<in> gone) (app_rows s)) in
     s\<lparr>environments := filter (\<lambda>e. \<not> p e) (environments s), app_rows := filter (\<lambda>a. snd a \<notin> gone) (app_rows s),
       database_rows := filter (\<lambda>d. snd d \<notin> gone) (database_rows s), deployed_at := filter (\<lambda>d. fst d \<notin> apps) (deployed_at s)\<rparr>)"

definition deleteProjectRow :: "string \<Rightarrow> unit team_op" where
  "deleteProjectRow i s = (if i \<notin> pID ` set (projects s) then (Inl ErrNotFound, s)
     else (Inr (), dropEnvironments (\<lambda>e. eProjectID e = i) (s\<lparr>projects := filter (\<lambda>p. pID p \<noteq> i) (projects s)\<rparr>)))"

definition DeleteProject :: "string \<Rightarrow> unit team_op" where
  "DeleteProject i = stmt (deleteProjectRow i)"

section \<open>Environments\<close>

definition insertEnvironment :: "Environment \<Rightarrow> unit team_op" where
  "insertEnvironment e s = (if eID e \<in> eID ` set (environments s) \<or> Namespace e \<in> Namespace ` set (environments s)
        \<or> (\<exists>x \<in> set (environments s). eProjectID x = eProjectID e \<and> eSlug x = eSlug e) then (Inl ErrConflict, s)
     else if eProjectID e \<notin> pID ` set (projects s) \<or> eKind e \<notin> {''standard'', ''preview''}
        \<or> PodSecurity e \<notin> {''restricted'', ''baseline''} then (Inl ErrDB, s)
     else (Inr (), s\<lparr>environments := environments s @ [e]\<rparr>))"

definition CreateEnvironment :: "Environment \<Rightarrow> Environment team_op" where
  "CreateEnvironment e = bind (idOr (eID e) ''env'') (\<lambda>i.
     let e1 = e\<lparr>eID := i, eKind := defaultStr (eKind e) ''standard'', PodSecurity := defaultStr (PodSecurity e) ''restricted''\<rparr> in
     bind timeNow (\<lambda>now. bind (stmt (insertEnvironment (e1\<lparr>eCreatedAt := now\<rparr>))) (\<lambda>_. ret (e1\<lparr>eCreatedAt := now\<rparr>))))"

definition GetEnvironment :: "string \<Rightarrow> Environment team_op" where
  "GetEnvironment i = query (\<lambda>s. found (find (\<lambda>e. eID e = i) (environments s)))"

definition FindEnvironmentBySourceRef :: "string \<Rightarrow> string \<Rightarrow> Environment team_op" where
  "FindEnvironmentBySourceRef project ref = query (\<lambda>s. found (find (\<lambda>e. eProjectID e = project \<and> SourceRef e = ref
     \<and> eKind e = ''preview'') (environments s)))"

definition ListEnvironments :: "string \<Rightarrow> Environment list team_op" where
  "ListEnvironments project = query (\<lambda>s. Inr (sort_key (\<lambda>e. text_key (eCreatedAt e))
     (filter (\<lambda>e. eProjectID e = project) (environments s))))"

definition ListPreviewEnvironments :: "Environment list team_op" where
  "ListPreviewEnvironments = query (\<lambda>s. Inr (sort_key (\<lambda>e. text_key (eCreatedAt e))
     (filter (\<lambda>e. eKind e = ''preview'') (environments s))))"

definition setPodSecurityRow :: "string \<Rightarrow> string \<Rightarrow> unit team_op" where
  "setPodSecurityRow i level s = (if i \<notin> eID ` set (environments s) then (Inl ErrNotFound, s)
     else if level \<notin> {''restricted'', ''baseline''} then (Inl ErrDB, s)
     else (Inr (), s\<lparr>environments := update_rows (\<lambda>e. eID e = i) (\<lambda>e. e\<lparr>PodSecurity := level\<rparr>) (environments s)\<rparr>))"

definition SetEnvironmentPodSecurity :: "string \<Rightarrow> string \<Rightarrow> unit team_op" where
  "SetEnvironmentPodSecurity i level = stmt (setPodSecurityRow i level)"

definition deleteEnvironmentRow :: "string \<Rightarrow> unit team_op" where
  "deleteEnvironmentRow i s = (if i \<notin> eID ` set (environments s) then (Inl ErrNotFound, s)
     else (Inr (), dropEnvironments (\<lambda>e. eID e = i) s))"

definition DeleteEnvironment :: "string \<Rightarrow> unit team_op" where
  "DeleteEnvironment i = stmt (deleteEnvironmentRow i)"

definition teamOfEnvironment :: "string \<Rightarrow> team_db \<Rightarrow> string option" where
  "teamOfEnvironment env s = (case find (\<lambda>e. eID e = env) (environments s) of None \<Rightarrow> None
     | Some e \<Rightarrow> map_option pTeamID (find (\<lambda>p. pID p = eProjectID e) (projects s)))"

definition TeamIDForEnvironment :: "string \<Rightarrow> string team_op" where
  "TeamIDForEnvironment env = query (\<lambda>s. found (teamOfEnvironment env s))"

definition TeamIDForApp :: "string \<Rightarrow> string team_op" where
  "TeamIDForApp app = query (\<lambda>s. found (Option.bind (map_of (app_rows s) app) (\<lambda>e. teamOfEnvironment e s)))"

definition TeamIDForDatabase :: "string \<Rightarrow> string team_op" where
  "TeamIDForDatabase d = query (\<lambda>s. found (Option.bind (map_of (database_rows s) d) (\<lambda>e. teamOfEnvironment e s)))"

text \<open>The newest deployment of an environment, in the order SQL gives texts.\<close>

fun newestText :: "instant list \<Rightarrow> instant option" where
  "newestText [] = None"
| "newestText (t # ts) = (case newestText ts of None \<Rightarrow> Some t | Some u \<Rightarrow> Some (if text_less t u then u else t))"

definition lastDeployed :: "Environment \<Rightarrow> team_db \<Rightarrow> instant" where
  "lastDeployed e s = (case newestText (map snd (filter (\<lambda>d. (fst d, eID e) \<in> set (app_rows s)) (deployed_at s))) of
     None \<Rightarrow> eCreatedAt e | Some t \<Rightarrow> t)"

definition StalePreviewEnvironments :: "instant \<Rightarrow> Environment list team_op" where
  "StalePreviewEnvironments before = query (\<lambda>s. Inr (sort_key (\<lambda>e. text_key (eCreatedAt e))
     (filter (\<lambda>e. eKind e = ''preview'' \<and> text_less (lastDeployed e s) before) (environments s))))"

section \<open>Column lists\<close>

definition is_column_blank :: "char \<Rightarrow> bool" where
  "is_column_blank c \<longleftrightarrow> c \<in> {CHR '' '', CHR 0x09, CHR 0x0A}"

definition trimSpaceAndNewlines :: "string \<Rightarrow> string" where
  "trimSpaceAndNewlines s = trim_right is_column_blank (dropWhile is_column_blank s)"

definition splitColumns :: "string \<Rightarrow> string list" where
  "splitColumns columns = filter (\<lambda>p. p \<noteq> []) (map trimSpaceAndNewlines (split_on (CHR '','') columns))"

definition prefixColumns :: "string \<Rightarrow> string \<Rightarrow> string" where
  "prefixColumns alias columns = join_with '', '' (map (\<lambda>part. alias @ ''.'' @ part) (splitColumns columns))"

section \<open>Invitations\<close>

definition Expired :: "Invitation \<Rightarrow> (team_db, 'e, bool) op" where
  "Expired i = bind timeNow (\<lambda>now. ret (now > iExpiresAt i))"

definition scanInvitation :: "invitation_row \<Rightarrow> Invitation" where
  "scanInvitation r = (Invitation.truncate r)\<lparr>AcceptedAt := (case accepted_at r of None \<Rightarrow> zero_time | Some t \<Rightarrow> t)\<rparr>"

definition pendingFor :: "string \<Rightarrow> string \<Rightarrow> invitation_row \<Rightarrow> bool" where
  "pendingFor team email r \<longleftrightarrow> iTeamID r = team \<and> iEmail r = email \<and> accepted_at r = None"

definition insertInvitation :: "invitation_row \<Rightarrow> unit team_op" where
  "insertInvitation r s = (if iID r \<in> iID ` set (team_invitations s) \<or> token_hash r \<in> token_hash ` set (team_invitations s)
        \<or> (\<exists>x \<in> set (team_invitations s). pendingFor (iTeamID r) (iEmail r) x) \<or> \<not> team_exists (iTeamID r) s
        \<or> (InvitedBy r \<noteq> [] \<and> \<not> member_exists (InvitedBy r) s) then (Inl ErrDB, s)
     else (Inr (), s\<lparr>team_invitations := team_invitations s @ [r]\<rparr>))"

definition CreateInvitation :: "Invitation \<Rightarrow> string \<Rightarrow> Invitation team_op" where
  "CreateInvitation i hash = bind (idOr (iID i) ''inv'') (\<lambda>newID. bind timeNow (\<lambda>now.
     let i1 = i\<lparr>iID := newID, iCreatedAt := now\<rparr> in
     bind (Tx (bind (stmt (\<lambda>s. (Inr (), s\<lparr>team_invitations := filter (\<lambda>r. \<not> pendingFor (iTeamID i) (iEmail i) r) (team_invitations s)\<rparr>)))
       (\<lambda>_. stmt (insertInvitation (Invitation.extend i1 (invitation_row.fields hash None)))))) (\<lambda>_. ret i1)))"

definition InvitationByTokenHash :: "string \<Rightarrow> Invitation team_op" where
  "InvitationByTokenHash hash = query (\<lambda>s. found (map_option scanInvitation (find (\<lambda>r. token_hash r = hash) (team_invitations s))))"

definition ListInvitations :: "string \<Rightarrow> Invitation list team_op" where
  "ListInvitations team = query (\<lambda>s. Inr (map scanInvitation (rev (sort_key (\<lambda>r. text_key (iCreatedAt r))
     (filter (\<lambda>r. iTeamID r = team \<and> accepted_at r = None) (team_invitations s))))))"

definition unaccepted :: "string \<Rightarrow> invitation_row \<Rightarrow> bool" where
  "unaccepted i r \<longleftrightarrow> iID r = i \<and> accepted_at r = None"

definition acceptRow :: "string \<Rightarrow> instant \<Rightarrow> unit team_op" where
  "acceptRow i now s = (if affected (unaccepted i) (team_invitations s) = 0 then (Inl ErrConflict, s)
     else (Inr (), s\<lparr>team_invitations := update_rows (unaccepted i) (\<lambda>r. r\<lparr>accepted_at := Some now\<rparr>) (team_invitations s)\<rparr>))"

definition AcceptInvitation :: "string \<Rightarrow> string \<Rightarrow> string \<Rightarrow> Role \<Rightarrow> unit team_op" where
  "AcceptInvitation i team user role = Tx (bind timeNow (\<lambda>now. bind (stmt (acceptRow i now)) (\<lambda>_.
     bind timeNow (\<lambda>later. stmt (upsertMember team user role later)))))"

definition deleteInvitationRow :: "string \<Rightarrow> string \<Rightarrow> unit team_op" where
  "deleteInvitationRow team i s = (if affected (\<lambda>r. iID r = i \<and> iTeamID r = team) (team_invitations s) = 0 then (Inl ErrNotFound, s)
     else (Inr (), s\<lparr>team_invitations := filter (\<lambda>r. \<not> (iID r = i \<and> iTeamID r = team)) (team_invitations s)\<rparr>))"

definition DeleteInvitation :: "string \<Rightarrow> string \<Rightarrow> unit team_op" where
  "DeleteInvitation team i = stmt (deleteInvitationRow team i)"

definition PruneInvitations :: "nat team_op" where
  "PruneInvitations = bind timeNow (\<lambda>now. stmt (\<lambda>s.
     (Inr (affected (\<lambda>r. accepted_at r = None \<and> text_less (iExpiresAt r) now) (team_invitations s)),
      s\<lparr>team_invitations := filter (\<lambda>r. \<not> (accepted_at r = None \<and> text_less (iExpiresAt r) now)) (team_invitations s)\<rparr>)))"

section \<open>Settings\<close>

definition GetSetting :: "string \<Rightarrow> (string \<times> bool) team_op" where
  "GetSetting key = query (\<lambda>s. Inr (case find (\<lambda>r. setKey r = key) (settings s) of None \<Rightarrow> ([], False)
     | Some r \<Rightarrow> (setValue r, setEncrypted r)))"

definition upsertSetting :: "setting_row \<Rightarrow> unit team_op" where
  "upsertSetting row s = (Inr (), s\<lparr>settings := (if setKey row \<in> setKey ` set (settings s)
     then update_rows (\<lambda>r. setKey r = setKey row) (\<lambda>_. row) (settings s) else settings s @ [row])\<rparr>)"

definition SetSetting :: "string \<Rightarrow> string \<Rightarrow> bool \<Rightarrow> string \<Rightarrow> unit team_op" where
  "SetSetting key v encrypted updatedBy = bind timeNow (\<lambda>now. stmt (upsertSetting
     \<lparr>setKey = key, setValue = v, setEncrypted = encrypted, setUpdatedAt = now, setUpdatedBy = updatedBy\<rparr>))"

definition DeleteSetting :: "string \<Rightarrow> unit team_op" where
  "DeleteSetting key = stmt (\<lambda>s. (Inr (), s\<lparr>settings := filter (\<lambda>r. setKey r \<noteq> key) (settings s)\<rparr>))"

definition ListSettings :: "(string \<rightharpoonup> string \<times> bool) team_op" where
  "ListSettings = query (\<lambda>s. Inr (map_of (map (\<lambda>r. (setKey r, setValue r, setEncrypted r)) (settings s))))"

section \<open>The audit trail\<close>

definition insertAudit :: "AuditEvent \<Rightarrow> unit team_op" where
  "insertAudit e s = (if auID e \<in> auID ` set (audit_events s) then (Inl ErrDB, s)
     else (Inr (), s\<lparr>audit_events := audit_events s @ [e]\<rparr>))"

text \<open>The event is filled in where it is, so a failed insert leaves it with its identifier and no time.\<close>

definition RecordAudit :: "AuditEvent \<Rightarrow> (team_db, 'e, AuditEvent \<times> bool) op" where
  "RecordAudit e = bind (if auID e = [] then NewID ''aud'' else ret (auID e)) (\<lambda>i.
     let e1 = e\<lparr>auID := i, Metadata := defaultStr (Metadata e) ''{}''\<rparr> in
     bind timeNow (\<lambda>now. handle (stmt (insertAudit (e1\<lparr>auAt := now\<rparr>))) (\<lambda>r. case r of
       Inl _ \<Rightarrow> ret (e1, False) | Inr _ \<Rightarrow> ret (e1\<lparr>auAt := now\<rparr>, True))))"

definition auditVisible :: "string \<Rightarrow> team_db \<Rightarrow> AuditEvent \<Rightarrow> bool" where
  "auditVisible team s e \<longleftrightarrow> auTeamID e = team \<or> (auTeamID e = [] \<and> (ActorID e = []
     \<or> (\<exists>m \<in> set (memberships s). mTeamID m = team \<and> mUserID m = ActorID e)))"

definition ListAudit :: "string \<Rightarrow> string \<Rightarrow> string \<Rightarrow> int \<Rightarrow> AuditEvent list team_op" where
  "ListAudit team action target limit = query (\<lambda>s. Inr (take (nat (if limit \<le> 0 \<or> limit > 500 then 100 else limit))
     (rev (sort_key (\<lambda>e. text_key (auAt e)) (filter (\<lambda>e. auditVisible team s e \<and> (action = [] \<or> Action e = action)
        \<and> (target = [] \<or> TargetID e = target)) (audit_events s))))))"

definition PurgeOldAudit :: "instant \<Rightarrow> unit team_op" where
  "PurgeOldAudit before = stmt (\<lambda>s. (Inr (), s\<lparr>audit_events := filter (\<lambda>e. \<not> text_less (auAt e) before) (audit_events s)\<rparr>))"

section \<open>Well-formed memberships\<close>

definition members_ok :: "team_db \<Rightarrow> bool" where
  "members_ok s \<longleftrightarrow> distinct (map (\<lambda>m. (mTeamID m, mUserID m)) (memberships s))
     \<and> (\<forall>m \<in> set (memberships s). team_exists (mTeamID m) s \<and> member_exists (mUserID m) s \<and> validRole (mRole m))"

interpretation members_inv: env_free members_ok
  by unfold_locales (simp_all add: members_ok_def team_exists_def member_exists_def)

text \<open>What the handlers rely on of an operation on the users: no account disappears, and the
  teams' tables are not its own.\<close>

definition grows_users :: "(auth_db, 'e, 'a) op \<Rightarrow> bool" where
  "grows_users m \<longleftrightarrow> (\<forall>s. uID ` set (users s) \<subseteq> uID ` set (users (snd (m s))))"

lemma onAuth_run:
  "snd (onAuth m s) = auth_db.extend (snd (m (auth_db.truncate s))) (auth_db.more s)"
  "fst (onAuth m s) = fst (m (auth_db.truncate s))"
  by (simp_all add: onAuth_def split: prod.splits)

lemma onAuth_tables [simp]:
  "teams (snd (onAuth m s)) = teams s" "memberships (snd (onAuth m s)) = memberships s"
  "team_invitations (snd (onAuth m s)) = team_invitations s" "audit_events (snd (onAuth m s)) = audit_events s"
  "users (snd (onAuth m s)) = users (snd (m (auth_db.truncate s)))"
  by (simp_all add: onAuth_run) (cases s, simp add: auth_db.defs)+

lemma keeps_onAuth: "grows_users m \<Longrightarrow> keeps members_ok (onAuth m)"
  by (fastforce simp: keeps_def grows_users_def members_ok_def team_exists_def member_exists_def auth_db.defs)

lemma members_ok_add:
  "\<lbrakk>members_ok s; team_exists (mTeamID m) s; member_exists (mUserID m) s; validRole (mRole m);
    \<not> (\<exists>x \<in> set (memberships s). of_pair (mTeamID m) (mUserID m) x)\<rbrakk> \<Longrightarrow> members_ok (s\<lparr>memberships := memberships s @ [m]\<rparr>)"
  by (auto simp: members_ok_def team_exists_def member_exists_def of_pair_def)

lemma keeps_upsertMember: "keeps members_ok (upsertMember team user role now)"
proof -
  have upd: "members_ok (s\<lparr>memberships := update_rows (of_pair team user) (\<lambda>m. m\<lparr>mRole := role\<rparr>) (memberships s)\<rparr>)"
    if "members_ok s" "validRole role" for s
  proof -
    have "map (\<lambda>m. (mTeamID m, mUserID m)) (update_rows (of_pair team user) (\<lambda>m. m\<lparr>mRole := role\<rparr>) (memberships s))
        = map (\<lambda>m. (mTeamID m, mUserID m)) (memberships s)" by (rule map_update_rows) simp
    then show ?thesis using that
      by (auto simp: members_ok_def team_exists_def member_exists_def elim!: update_rowsE)
  qed
  have "members_ok (snd (upsertMember team user role now s))" if "members_ok s" for s
    unfolding upsertMember_def using that upd [OF that] members_ok_add [OF that, of "\<lparr>mTeamID = team, mUserID = user, mRole = role, mCreatedAt = now\<rparr>"]
    by (simp split: if_split)
  then show ?thesis by (simp add: keeps_def)
qed


text \<open>A statement that writes other tables, or adds rows to those the memberships refer to.\<close>

lemma members_ok_mono:
  "\<lbrakk>members_ok s; memberships s' = memberships s; teamID ` set (teams s) \<subseteq> teamID ` set (teams s');
    uID ` set (users s) \<subseteq> uID ` set (users s')\<rbrakk> \<Longrightarrow> members_ok s'"
  by (auto simp: members_ok_def team_exists_def member_exists_def)

lemma keeps_insertTeam: "keeps members_ok (insertTeam t)"
  by (auto simp: keeps_def insertTeam_def intro: members_ok_mono)

lemma team_ids_updated: "teamID ` set (update_rows p (\<lambda>x. x\<lparr>teamName := n, teamSlug := g\<rparr>) ts) = teamID ` set ts"
  using map_update_rows [of teamID "\<lambda>x. x\<lparr>teamName := n, teamSlug := g\<rparr>" p ts] by (metis set_map Team.simps(1) Team.update_convs(2,3) Team.surjective)

lemma keeps_updateTeamRow: "keeps members_ok (updateTeamRow t)"
  by (auto simp: keeps_def updateTeamRow_def team_ids_updated intro: members_ok_mono)

lemma keeps_deleteMember: "keeps members_ok (deleteMember team user)"
  by (auto simp: keeps_def deleteMember_def members_ok_def team_exists_def member_exists_def distinct_map_filter)

lemma keeps_insertInvitation: "keeps members_ok (insertInvitation r)"
  by (auto simp: keeps_def insertInvitation_def intro: members_ok_mono)

lemma keeps_acceptRow: "keeps members_ok (acceptRow i now)"
  by (auto simp: keeps_def acceptRow_def intro: members_ok_mono)

lemma keeps_deleteInvitationRow: "keeps members_ok (deleteInvitationRow team i)"
  by (auto simp: keeps_def deleteInvitationRow_def intro: members_ok_mono)

lemma keeps_insertAudit: "keeps members_ok (insertAudit e)"
  by (auto simp: keeps_def insertAudit_def intro: members_ok_mono)

lemma keeps_set_invitations: "keeps members_ok (\<lambda>s. (Inr (f s), s\<lparr>team_invitations := g s\<rparr>))"
  by (auto simp: keeps_def intro: members_ok_mono)

lemmas keeps_team_rows = keeps_insertTeam keeps_updateTeamRow keeps_upsertMember keeps_deleteMember keeps_insertInvitation
  keeps_acceptRow keeps_deleteInvitationRow keeps_insertAudit keeps_set_invitations

lemma keeps_idOr: "env_free P \<Longrightarrow> keeps P (idOr given pre)"
  unfolding idOr_def by (intro keeps_intros env_free.keeps_NewID)

lemma keeps_team_ops:
  "keeps members_ok (CreateTeam t)" "keeps members_ok (UpdateTeam t)" "keeps members_ok (AddMember team user role)"
  "keeps members_ok (RemoveMember team user)" "keeps members_ok (CreateInvitation i hash)"
  "keeps members_ok (AcceptInvitation j team user role)" "keeps members_ok (DeleteInvitation team j)"
  "keeps members_ok PruneInvitations" "keeps members_ok (RecordAudit e)"
  unfolding CreateTeam_def UpdateTeam_def AddMember_def RemoveMember_def CreateInvitation_def AcceptInvitation_def
    DeleteInvitation_def PruneInvitations_def RecordAudit_def Let_def
  by (intro keeps_intros members_inv.keeps_env keeps_team_rows keeps_idOr members_inv.env_free_axioms)+

section \<open>Reading\<close>

text \<open>The tables of the teams are what an operation that only reads leaves as they are.\<close>

definition team_tables where
  "team_tables s = (users s, teams s, memberships s, projects s, environments s, team_invitations s, audit_events s)"

interpretation team_tab: env_free "\<lambda>s. team_tables s = t"
  by unfold_locales (simp_all add: team_tables_def)

lemma team_query:
  assumes "query f s = (r, s1)"
  shows "team_tables s1 = team_tables s" "r = Inl ErrDB \<or> (\<exists>s0. team_tables s0 = team_tables s \<and> r = f s0)"
proof -
  have "team_tables s1 = team_tables s \<and> (r = Inl ErrDB \<or> (\<exists>s0. team_tables s0 = team_tables s \<and> r = f s0))"
    using assms unfolding query_def
    by (elim team_tab.stmt_result [where t = "team_tables s"]) auto
  then show "team_tables s1 = team_tables s" "r = Inl ErrDB \<or> (\<exists>s0. team_tables s0 = team_tables s \<and> r = f s0)"
    by blast+
qed


section \<open>Accepting an invitation\<close>

lemma team_stmt:
  assumes "stmt f s = (r, s1)"
  obtains (fault) "r = Inl ErrDB" "team_tables s1 = team_tables s" | (run) s0 where "team_tables s0 = team_tables s" "f s0 = (r, s1)"
  using assms by (rule team_tab.stmt_result [where t = "team_tables s"]) auto

lemma team_stmt_ret: "stmt (ret ()) s = (r, s1) \<Longrightarrow> team_tables s1 = team_tables s"
  by (elim team_stmt) (auto simp: ret_def)

lemma team_tick [simp]: "team_tables (tick s) = team_tables s"
  using team_tab.tick [where t = "team_tables s" and s = s] by simp

lemma team_tables_eq: "team_tables s1 = team_tables s \<longleftrightarrow> users s1 = users s \<and> teams s1 = teams s \<and> memberships s1 = memberships s
    \<and> projects s1 = projects s \<and> environments s1 = environments s \<and> team_invitations s1 = team_invitations s
    \<and> audit_events s1 = audit_events s"
  by (auto simp: team_tables_def)

definition has_role :: "string \<Rightarrow> string \<Rightarrow> Role \<Rightarrow> team_db \<Rightarrow> bool" where
  "has_role team user role s \<longleftrightarrow> (\<exists>m \<in> set (memberships s). of_pair team user m) \<and>
     (\<forall>m \<in> set (memberships s). of_pair team user m \<longrightarrow> mRole m = role)"

lemma filter_update_rows:
  "(\<And>r. p r \<Longrightarrow> p (f r)) \<Longrightarrow> filter (\<lambda>r. \<not> p r) (update_rows p f rows) = filter (\<lambda>r. \<not> p r) rows"
  by (induction rows) (auto simp: update_rows_def)

lemma set_update_rows: "set (update_rows p f rows) = f ` {r \<in> set rows. p r} \<union> {r \<in> set rows. \<not> p r}"
  by (auto simp: update_rows_def)

lemma upsertMember_Inr:
  assumes "upsertMember team user role now s = (Inr (), s1)"
  shows "has_role team user role s1 \<and> validRole role
    \<and> team_invitations s1 = team_invitations s \<and> users s1 = users s \<and> teams s1 = teams s
    \<and> filter (\<lambda>m. \<not> of_pair team user m) (memberships s1) = filter (\<lambda>m. \<not> of_pair team user m) (memberships s)"
proof (cases "\<exists>m \<in> set (memberships s). of_pair team user m")
  case True
  then have "s1 = s\<lparr>memberships := update_rows (of_pair team user) (\<lambda>m. m\<lparr>mRole := role\<rparr>) (memberships s)\<rparr>" "validRole role"
    using assms by (auto simp: upsertMember_def split: if_splits)
  moreover have p: "of_pair team user (m\<lparr>mRole := role\<rparr>) = of_pair team user m" for m by (simp add: of_pair_def)
  moreover have "filter (\<lambda>m. \<not> of_pair team user m) (update_rows (of_pair team user) (\<lambda>m. m\<lparr>mRole := role\<rparr>) (memberships s))
      = filter (\<lambda>m. \<not> of_pair team user m) (memberships s)" by (rule filter_update_rows) (simp add: p)
  moreover obtain m where "m \<in> set (memberships s)" "of_pair team user m" using True by blast
  then have "\<exists>x \<in> set (update_rows (of_pair team user) (\<lambda>m. m\<lparr>mRole := role\<rparr>) (memberships s)). of_pair team user x"
    by (intro bexI [of _ "m\<lparr>mRole := role\<rparr>"]) (simp_all add: p set_update_rows)
  ultimately show ?thesis by (auto simp: has_role_def set_update_rows)
next
  case False
  then have "s1 = s\<lparr>memberships := memberships s @ [\<lparr>mTeamID = team, mUserID = user, mRole = role, mCreatedAt = now\<rparr>]\<rparr>" "validRole role"
    using assms by (auto simp: upsertMember_def split: if_splits)
  then show ?thesis using False by (auto simp: has_role_def of_pair_def)
qed

lemma acceptRow_Inr:
  "acceptRow i now s = (Inr (), s1) \<Longrightarrow> (\<exists>r \<in> set (team_invitations s). unaccepted i r)
    \<and> (\<forall>r \<in> set (team_invitations s1). \<not> unaccepted i r) \<and> memberships s1 = memberships s \<and> users s1 = users s \<and> teams s1 = teams s"
  by (auto simp: acceptRow_def affected_def unaccepted_def filter_empty_conv update_rows_def split: if_splits)

lemma AcceptInvitation_Inr:
  assumes "AcceptInvitation i team user role s = (Inr (), s1)"
  shows "(\<exists>r \<in> set (team_invitations s). unaccepted i r) \<and> (\<forall>r \<in> set (team_invitations s1). \<not> unaccepted i r)
    \<and> has_role team user role s1 \<and> users s1 = users s \<and> teams s1 = teams s
    \<and> filter (\<lambda>m. \<not> of_pair team user m) (memberships s1) = filter (\<lambda>m. \<not> of_pair team user m) (memberships s)"
proof -
  obtain s0 s2 where b: "stmt (ret ()) s = (Inr (), s0)"
    and f: "bind timeNow (\<lambda>now. bind (stmt (acceptRow i now)) (\<lambda>_. bind timeNow (\<lambda>later. stmt (upsertMember team user role later)))) s0 = (Inr (), s2)"
    and c: "stmt (ret ()) s2 = (Inr (), s1)"
    using assms unfolding AcceptInvitation_def by (rule Tx_Inr)
  obtain s3 where a: "stmt (acceptRow i (clock (tick s0))) (tick s0) = (Inr (), s3)"
    and u: "stmt (upsertMember team user role (clock (tick s3))) (tick s3) = (Inr (), s2)"
    using f by (auto simp: op_simps timeNow_def elim!: bind_Inr)
  obtain s4 where "team_tables s4 = team_tables s" "acceptRow i (clock (tick s0)) s4 = (Inr (), s3)"
    using a team_stmt_ret [OF b] by (elim team_stmt) auto
  moreover obtain s5 where "team_tables s5 = team_tables s3" "upsertMember team user role (clock (tick s3)) s5 = (Inr (), s2)"
    using u by (elim team_stmt) auto
  ultimately show ?thesis using acceptRow_Inr [of i _ s4 s3] upsertMember_Inr [of team user role _ s5 s2] team_stmt_ret [OF c]
    by (auto simp: team_tables_eq has_role_def)
qed

lemma AcceptInvitation_Inl: "AcceptInvitation i team user role s = (Inl e, s1) \<Longrightarrow> team_tables s1 = team_tables s"
  unfolding AcceptInvitation_def by (rule team_tab.Tx_failed) auto

theorem invitation_both_or_neither:
  assumes "AcceptInvitation i team user role s = (r, s1)"
  shows "case r of Inl _ \<Rightarrow> team_tables s1 = team_tables s
    | Inr _ \<Rightarrow> has_role team user role s1 \<and> (\<exists>x \<in> set (team_invitations s). unaccepted i x)
        \<and> (\<forall>t u q s2. isl (fst (AcceptInvitation i t u q s1)) )"
proof (cases r)
  case (Inl e)
  then show ?thesis using AcceptInvitation_Inl assms by simp
next
  case (Inr x)
  then have ok: "AcceptInvitation i team user role s = (Inr (), s1)" using assms by simp
  have "isl (fst (AcceptInvitation i t u q s1))" for t u q
  proof (cases "AcceptInvitation i t u q s1")
    case (Pair r2 s2)
    then show ?thesis using AcceptInvitation_Inr [OF ok] AcceptInvitation_Inr [of i t u q s1 s2] by (cases r2) auto
  qed
  then show ?thesis using AcceptInvitation_Inr [OF ok] Inr by simp
qed

end
