(* ===== verification/Store_Deployments.thy ===== *)
theory Store_Deployments
  imports Store_Core "HOL-Library.Multiset"
begin

text \<open>
  Deployments and their build logs, \<^verbatim>\<open>internal/store/deployments.go\<close>: numbering,
  the status machine, superseding, build log lines and the rollback window. The
  tables are lists of rows and the constraints of the schema are part of the
  statements; of the apps only their ids matter here. A nullable time column is
  an option, and a status the caller left empty is \<^verbatim>\<open>DeployUnset\<close>.
\<close>

datatype DeploymentStatus = DeployUnset | DeployQueued | DeployBuilding | DeployDeploying | DeploySucceeded
  | DeployFailed | DeployCancelled | DeploySuperseded

definition Terminal :: "DeploymentStatus \<Rightarrow> bool" where
  "Terminal st \<longleftrightarrow> st \<in> {DeploySucceeded, DeployFailed, DeployCancelled, DeploySuperseded}"

definition in_flight :: "DeploymentStatus \<Rightarrow> bool" where
  "in_flight st \<longleftrightarrow> st \<in> {DeployQueued, DeployBuilding, DeployDeploying}"

record Deployment =
  dID :: string
  dAppID :: string
  Number :: int
  Status :: DeploymentStatus
  Trigger :: string
  RollbackOf :: int
  CommitSHA :: string
  CommitMessage :: string
  CommitAuthor :: string
  Image :: string
  BuildFingerprint :: string
  RuntimeSpec :: string
  ErrorCode :: string
  ErrorMessage :: string
  ErrorHint :: string
  CreatedBy :: string
  dCreatedAt :: instant
  StartedAt :: instant
  FinishedAt :: instant
  CanRollback :: bool

record deployment_row = Deployment +
  started_at :: "instant option"
  finished_at :: "instant option"

record LogLine =
  lSeq :: int
  Stream :: string
  lLine :: string
  lAt :: instant

record log_row = LogLine +
  logID :: string
  deployment_id :: string

record deploy_db = env +
  app_ids :: "string list"
  deployments :: "deployment_row list"
  build_logs :: "log_row list"

type_synonym 'a deploy_op = "(deploy_db, store_err, 'a) op"

section \<open>Deployments\<close>

definition scanTime :: "instant option \<Rightarrow> instant" where
  "scanTime v = (case v of None \<Rightarrow> zero_time | Some t \<Rightarrow> t)"

definition scanDeployment :: "deployment_row \<Rightarrow> Deployment" where
  "scanDeployment r = (Deployment.truncate r)\<lparr>StartedAt := scanTime (started_at r), FinishedAt := scanTime (finished_at r),
     CanRollback := False\<rparr>"

definition deployment_row_of :: "Deployment \<Rightarrow> deployment_row" where
  "deployment_row_of d = Deployment.extend (d\<lparr>ErrorCode := [], ErrorMessage := [], ErrorHint := []\<rparr>) (deployment_row.fields None None)"

definition insertDeployment :: "deployment_row \<Rightarrow> unit deploy_op" where
  "insertDeployment r s = (if dID r \<in> dID ` set (deployments s) \<or> dAppID r \<notin> set (app_ids s) \<or> Status r = DeployUnset
        \<or> (dAppID r, Number r) \<in> (\<lambda>x. (dAppID x, Number x)) ` set (deployments s)
     then (Inl ErrDB, s) else (Inr (), s\<lparr>deployments := deployments s @ [r]\<rparr>))"

definition maxOr0 :: "int list \<Rightarrow> int" where
  "maxOr0 xs = (if xs = [] then 0 else Max (set xs))"

definition maxNumber :: "string \<Rightarrow> deploy_db \<Rightarrow> int" where
  "maxNumber app s = maxOr0 (map Number (filter (\<lambda>r. dAppID r = app) (deployments s)))"

definition withDefaults :: "Deployment \<Rightarrow> string \<Rightarrow> Deployment" where
  "withDefaults d i = d\<lparr>dID := i, Status := (if Status d = DeployUnset then DeployQueued else Status d),
     RuntimeSpec := defaultStr (RuntimeSpec d) ''{}''\<rparr>"

definition numberAndInsert :: "Deployment \<Rightarrow> instant \<Rightarrow> int deploy_op" where
  "numberAndInsert d now = bind (query (\<lambda>s. Inr (maxNumber (dAppID d) s))) (\<lambda>next'.
     bind (stmt (insertDeployment (deployment_row_of (d\<lparr>Number := next' + 1, Trigger := defaultStr (Trigger d) ''manual'',
        dCreatedAt := now\<rparr>)))) (\<lambda>_. ret (next' + 1)))"

definition CreateDeployment :: "Deployment \<Rightarrow> Deployment deploy_op" where
  "CreateDeployment d = bind (idOr (dID d) ''dep'') (\<lambda>i. bind timeNow (\<lambda>now.
     bind (Tx (numberAndInsert (withDefaults d i) now)) (\<lambda>n.
     ret ((withDefaults d i)\<lparr>Number := n, dCreatedAt := now\<rparr>))))"

definition GetDeployment :: "string \<Rightarrow> Deployment deploy_op" where
  "GetDeployment i = query (\<lambda>s. found (map_option scanDeployment (find (\<lambda>r. dID r = i) (deployments s))))"

definition newest :: "(deployment_row \<Rightarrow> bool) \<Rightarrow> deploy_db \<Rightarrow> deployment_row list" where
  "newest p s = rev (sort_key Number (filter p (deployments s)))"

definition ListDeployments :: "string \<Rightarrow> int \<Rightarrow> Deployment list deploy_op" where
  "ListDeployments app limit = (let n = (if limit \<le> 0 \<or> limit > 200 then 50 else limit) in
     query (\<lambda>s. Inr (map scanDeployment (take (nat n) (newest (\<lambda>r. dAppID r = app) s)))))"

definition firstOf :: "deployment_row list \<Rightarrow> store_err + Deployment" where
  "firstOf rows = found (case rows of [] \<Rightarrow> None | r # _ \<Rightarrow> Some (scanDeployment r))"

definition LatestSuccessfulDeployment :: "string \<Rightarrow> Deployment deploy_op" where
  "LatestSuccessfulDeployment app = query (\<lambda>s. firstOf (newest (\<lambda>r. dAppID r = app \<and> Status r = DeploySucceeded) s))"

definition LatestDeployment :: "string \<Rightarrow> Deployment deploy_op" where
  "LatestDeployment app = query (\<lambda>s. firstOf (newest (\<lambda>r. dAppID r = app) s))"

definition FindDeploymentByFingerprint :: "string \<Rightarrow> string \<Rightarrow> Deployment deploy_op" where
  "FindDeploymentByFingerprint app fingerprint = (if fingerprint = [] then throw ErrNotFound
     else query (\<lambda>s. firstOf (newest (\<lambda>r. dAppID r = app \<and> BuildFingerprint r = fingerprint
       \<and> Status r = DeploySucceeded \<and> Image r \<noteq> []) s)))"

definition coalesce :: "'a option \<Rightarrow> 'a option \<Rightarrow> 'a option" where
  "coalesce a b = (case a of Some x \<Rightarrow> Some x | None \<Rightarrow> b)"

definition update_deployments :: "(deployment_row \<Rightarrow> bool) \<Rightarrow> (deployment_row \<Rightarrow> deployment_row) \<Rightarrow> unit deploy_op" where
  "update_deployments p f s = (Inr (), s\<lparr>deployments := update_rows p f (deployments s)\<rparr>)"

definition nowIf :: "bool \<Rightarrow> instant option deploy_op" where
  "nowIf b = (if b then bind timeNow (\<lambda>t. ret (Some t)) else ret None)"

definition UpdateDeploymentStatus :: "string \<Rightarrow> DeploymentStatus \<Rightarrow> string \<Rightarrow> string \<Rightarrow> string \<Rightarrow> unit deploy_op" where
  "UpdateDeploymentStatus i status errCode errMsg hint =
     bind (nowIf (status \<in> {DeployBuilding, DeployDeploying})) (\<lambda>started.
     bind (nowIf (Terminal status)) (\<lambda>finished.
     stmt (\<lambda>s. if status = DeployUnset \<and> (\<exists>r \<in> set (deployments s). dID r = i \<and> in_flight (Status r)) then (Inl ErrDB, s)
       else update_deployments (\<lambda>r. dID r = i \<and> in_flight (Status r)) (\<lambda>r. r\<lparr>Status := status, ErrorCode := errCode,
         ErrorMessage := errMsg, ErrorHint := hint, started_at := coalesce (started_at r) started,
         finished_at := coalesce finished (finished_at r)\<rparr>) s)))"

definition SetDeploymentImage :: "string \<Rightarrow> string \<Rightarrow> unit deploy_op" where
  "SetDeploymentImage i img = stmt (update_deployments (\<lambda>r. dID r = i) (\<lambda>r. r\<lparr>Image := img\<rparr>))"

definition others_running :: "string \<Rightarrow> string \<Rightarrow> deployment_row \<Rightarrow> bool" where
  "others_running app except r \<longleftrightarrow> dAppID r = app \<and> dID r \<noteq> except \<and> in_flight (Status r)"

definition SupersedeRunningDeployments :: "string \<Rightarrow> string \<Rightarrow> string list deploy_op" where
  "SupersedeRunningDeployments app except =
     bind (query (\<lambda>s. Inr (map dID (filter (others_running app except) (deployments s))))) (\<lambda>ids.
     if ids = [] then ret []
     else bind timeNow (\<lambda>now. bind (stmt (update_deployments (others_running app except)
            (\<lambda>r. r\<lparr>Status := DeploySuperseded, finished_at := Some now\<rparr>))) (\<lambda>_. ret ids)))"

definition ListUnfinishedDeployments :: "Deployment list deploy_op" where
  "ListUnfinishedDeployments = query (\<lambda>s. Inr (map scanDeployment
     (sort_key (\<lambda>r. text_key (dCreatedAt r)) (filter (\<lambda>r. in_flight (Status r)) (deployments s)))))"

section \<open>Build logs\<close>

definition insertLog :: "log_row \<Rightarrow> unit deploy_op" where
  "insertLog r s = (if logID r \<in> logID ` set (build_logs s) \<or> deployment_id r \<notin> dID ` set (deployments s)
        \<or> (deployment_id r, lSeq r) \<in> (\<lambda>x. (deployment_id x, lSeq x)) ` set (build_logs s)
     then (Inl ErrDB, s) else (Inr (), s\<lparr>build_logs := build_logs s @ [r]\<rparr>))"

definition maxSeq :: "string \<Rightarrow> deploy_db \<Rightarrow> int" where
  "maxSeq dep s = maxOr0 (map lSeq (filter (\<lambda>r. deployment_id r = dep) (build_logs s)))"

definition log_row_of :: "string \<Rightarrow> string \<Rightarrow> LogLine \<Rightarrow> log_row" where
  "log_row_of i dep l = LogLine.extend l (log_row.fields i dep)"

definition AppendBuildLog :: "string \<Rightarrow> string \<Rightarrow> string \<Rightarrow> int deploy_op" where
  "AppendBuildLog dep stream line = Tx (bind (query (\<lambda>s. Inr (maxSeq dep s))) (\<lambda>next'. bind (NewID ''log'') (\<lambda>i. bind timeNow (\<lambda>now.
     bind (stmt (insertLog (log_row_of i dep \<lparr>lSeq = next' + 1, Stream = stream, lLine = line, lAt = now\<rparr>)))
       (\<lambda>_. ret (next' + 1))))))"

fun appendLines :: "string \<Rightarrow> int \<Rightarrow> LogLine list \<Rightarrow> unit deploy_op" where
  "appendLines dep seq [] = ret ()"
| "appendLines dep seq (l # ls) = bind (if is_zero_time (lAt l) then timeNow else ret (lAt l)) (\<lambda>at. bind (NewID ''log'') (\<lambda>i.
     bind (stmt (insertLog (log_row_of i dep (l\<lparr>lSeq := seq + 1, Stream := defaultStr (Stream l) ''stdout'', lAt := at\<rparr>))))
       (\<lambda>_. appendLines dep (seq + 1) ls)))"

definition AppendBuildLogs :: "string \<Rightarrow> LogLine list \<Rightarrow> unit deploy_op" where
  "AppendBuildLogs dep ls = (if ls = [] then ret ()
     else Tx (bind (query (\<lambda>s. Inr (maxSeq dep s))) (\<lambda>next'. bind (stmt (ret ())) (\<lambda>_. appendLines dep next' ls))))"

definition ListBuildLogs :: "string \<Rightarrow> int \<Rightarrow> int \<Rightarrow> LogLine list deploy_op" where
  "ListBuildLogs dep sinceSeq limit = (let n = (if limit \<le> 0 \<or> limit > 5000 then 2000 else limit) in
     query (\<lambda>s. Inr (map LogLine.truncate (take (nat n)
       (sort_key lSeq (filter (\<lambda>r. deployment_id r = dep \<and> lSeq r > sinceSeq) (build_logs s)))))))"

definition PruneBuildLogs :: "string \<Rightarrow> int \<Rightarrow> unit deploy_op" where
  "PruneBuildLogs app keep = stmt (\<lambda>s. (Inr (), s\<lparr>build_logs := filter (\<lambda>l. deployment_id l \<notin>
     dID ` set (drop (nat keep) (newest (\<lambda>r. dAppID r = app) s))) (build_logs s)\<rparr>))"

section \<open>The rollback window\<close>

definition deployed :: "Deployment \<Rightarrow> bool" where
  "deployed d \<longleftrightarrow> Status d = DeploySucceeded \<and> Image d \<noteq> []"

fun markFrom :: "int \<Rightarrow> int \<Rightarrow> Deployment list \<Rightarrow> Deployment list" where
  "markFrom keep seen [] = []"
| "markFrom keep seen (d # ds) = (if \<not> deployed d then d # markFrom keep seen ds
     else d\<lparr>CanRollback := seen + 1 \<le> keep\<rparr> # markFrom keep (seen + 1) ds)"

definition MarkRollbackTargets :: "Deployment list \<Rightarrow> int \<Rightarrow> Deployment list" where
  "MarkRollbackTargets ds keep = markFrom (if keep < 1 then 1 else keep) 0 ds"

definition rowNumber :: "string \<Rightarrow> deployment_row list \<Rightarrow> int option" where
  "rowNumber i rows = map_option ((+) 1) (index_of i (map dID rows))"

definition WithinRollbackWindow :: "string \<Rightarrow> string \<Rightarrow> int \<Rightarrow> bool deploy_op" where
  "WithinRollbackWindow app i keep = (let k = (if keep < 1 then 1 else keep) in
     query (\<lambda>s. Inr (case rowNumber i (newest (\<lambda>r. dAppID r = app \<and> Status r = DeploySucceeded \<and> Image r \<noteq> []) s) of
       None \<Rightarrow> False | Some rank \<Rightarrow> rank \<le> k)))"

section \<open>What the schema guarantees\<close>

definition deploy_ok :: "deploy_db \<Rightarrow> bool" where
  "deploy_ok s \<longleftrightarrow> distinct (map dID (deployments s)) \<and> distinct (map (\<lambda>r. (dAppID r, Number r)) (deployments s))
     \<and> distinct (map logID (build_logs s)) \<and> distinct (map (\<lambda>r. (deployment_id r, lSeq r)) (build_logs s))
     \<and> (\<forall>r \<in> set (deployments s). dAppID r \<in> set (app_ids s) \<and> Status r \<noteq> DeployUnset)
     \<and> (\<forall>r \<in> set (build_logs s). deployment_id r \<in> dID ` set (deployments s))"

interpretation deploy_inv: env_free deploy_ok
  by unfold_locales (simp_all add: deploy_ok_def)

datatype deploy_call = CreateDeploymentC Deployment | UpdateDeploymentStatusC string DeploymentStatus string string string
  | SetDeploymentImageC string string | SupersedeRunningDeploymentsC string string | AppendBuildLogC string string string
  | AppendBuildLogsC string "LogLine list" | PruneBuildLogsC string int

fun deploy_call_op :: "deploy_call \<Rightarrow> unit deploy_op" where
  "deploy_call_op (CreateDeploymentC d) = ignore (CreateDeployment d)"
| "deploy_call_op (UpdateDeploymentStatusC i st c m h) = UpdateDeploymentStatus i st c m h"
| "deploy_call_op (SetDeploymentImageC i img) = SetDeploymentImage i img"
| "deploy_call_op (SupersedeRunningDeploymentsC a e) = ignore (SupersedeRunningDeployments a e)"
| "deploy_call_op (AppendBuildLogC d st l) = ignore (AppendBuildLog d st l)"
| "deploy_call_op (AppendBuildLogsC d ls) = AppendBuildLogs d ls"
| "deploy_call_op (PruneBuildLogsC a k) = PruneBuildLogs a k"

definition run_deploy_calls :: "deploy_call list \<Rightarrow> deploy_db \<Rightarrow> deploy_db" where
  "run_deploy_calls cs s = fold (\<lambda>c s. snd (deploy_call_op c s)) cs s"

lemma run_deploy_keeps: "(\<And>c. keeps P (deploy_call_op c)) \<Longrightarrow> P s \<Longrightarrow> P (run_deploy_calls cs s)"
  by (induction cs arbitrary: s) (auto simp: run_deploy_calls_def keeps_def)

lemmas deploy_write_defs = CreateDeployment_def numberAndInsert_def UpdateDeploymentStatus_def SetDeploymentImage_def
  SupersedeRunningDeployments_def AppendBuildLog_def AppendBuildLogs_def PruneBuildLogs_def idOr_def nowIf_def

lemma keeps_insertDeployment: "keeps deploy_ok (insertDeployment r)"
  by (auto simp: keeps_def insertDeployment_def deploy_ok_def)

lemma keeps_insertLog: "keeps deploy_ok (insertLog r)"
  by (auto simp: keeps_def insertLog_def deploy_ok_def)

lemma deploy_ok_update:
  assumes "deploy_ok s" "\<And>r. dID (f r) = dID r" "\<And>r. dAppID (f r) = dAppID r" "\<And>r. Number (f r) = Number r"
    and "\<And>r. p r \<Longrightarrow> Status r \<noteq> DeployUnset \<Longrightarrow> Status (f r) \<noteq> DeployUnset"
  shows "deploy_ok (s\<lparr>deployments := update_rows p f (deployments s)\<rparr>)"
proof -
  have ids: "map dID (update_rows p f (deployments s)) = map dID (deployments s)"
      "map (\<lambda>r. (dAppID r, Number r)) (update_rows p f (deployments s)) = map (\<lambda>r. (dAppID r, Number r)) (deployments s)"
    using assms by (simp_all add: map_update_rows)
  moreover have "dID ` set (update_rows p f (deployments s)) = dID ` set (deployments s)" using ids(1) by (metis set_map)
  moreover have "dAppID r \<in> set (app_ids s) \<and> Status r \<noteq> DeployUnset" if "r \<in> set (update_rows p f (deployments s))" for r
    using that assms by (elim update_rowsE) (auto simp: deploy_ok_def)
  ultimately show ?thesis using assms(1) by (simp add: deploy_ok_def)
qed

lemma keeps_update_deployments:
  assumes "\<And>r. dID (f r) = dID r" "\<And>r. dAppID (f r) = dAppID r" "\<And>r. Number (f r) = Number r"
    and "\<And>r. p r \<Longrightarrow> Status r \<noteq> DeployUnset \<Longrightarrow> Status (f r) \<noteq> DeployUnset"
  shows "keeps deploy_ok (update_deployments p f)"
  using deploy_ok_update [OF _ assms] by (simp add: keeps_def update_deployments_def)

lemma keeps_status_stmt: "keeps deploy_ok (\<lambda>s. if st = DeployUnset \<and> (\<exists>r \<in> set (deployments s). dID r = i \<and> in_flight (Status r))
    then (Inl ErrDB, s) else update_deployments (\<lambda>r. dID r = i \<and> in_flight (Status r)) (\<lambda>r. r\<lparr>Status := st, ErrorCode := c,
      ErrorMessage := m, ErrorHint := h, started_at := coalesce (started_at r) a, finished_at := coalesce b (finished_at r)\<rparr>) s)"
proof -
  let ?p = "\<lambda>r. dID r = i \<and> in_flight (Status r)"
  let ?f = "\<lambda>r. r\<lparr>Status := st, ErrorCode := c, ErrorMessage := m, ErrorHint := h, started_at := coalesce (started_at r) a,
      finished_at := coalesce b (finished_at r)\<rparr>"
  have "deploy_ok (s\<lparr>deployments := update_rows ?p ?f (deployments s)\<rparr>)"
    if "deploy_ok s" "st = DeployUnset \<longrightarrow> \<not> (\<exists>r \<in> set (deployments s). ?p r)" for s
  proof (cases "st = DeployUnset")
    case True
    then have "update_rows ?p ?f (deployments s) = deployments s" using that(2) by (auto simp: update_rows_def intro!: map_idI)
    then show ?thesis using that(1) by simp
  next
    case False
    show ?thesis by (rule deploy_ok_update [OF that(1)]) (use False in auto)
  qed
  then show ?thesis by (auto simp: keeps_def update_deployments_def)
qed

lemma keeps_prune: "keeps deploy_ok (\<lambda>s. (Inr (), s\<lparr>build_logs := filter (p s) (build_logs s)\<rparr>))"
  by (auto simp: keeps_def deploy_ok_def distinct_map_filter)

lemma keeps_appendLines: "keeps deploy_ok (appendLines dep n ls)"
  by (induction ls arbitrary: n) (auto intro!: keeps_intros deploy_inv.keeps_env keeps_insertLog)

lemma keeps_deploy_call: "keeps deploy_ok (deploy_call_op c)"
proof (cases c)
  case (SupersedeRunningDeploymentsC a e)
  then show ?thesis
    by (auto simp: deploy_write_defs intro!: keeps_intros deploy_inv.keeps_env keeps_update_deployments)
qed (auto simp: deploy_write_defs intro!: keeps_intros deploy_inv.keeps_env keeps_insertDeployment keeps_insertLog
    keeps_update_deployments keeps_status_stmt keeps_prune keeps_appendLines)

text \<open>Every write of deployments and build logs, with whatever faults, keeps the schema:
  ids are unique, an app never has two deployments with one number nor a deployment two log lines
  with one sequence number, every status is one of the seven, and references point at rows.\<close>
theorem deploy_store_keeps_schema: "keeps deploy_ok (deploy_call_op c)"
  by (rule keeps_deploy_call)

section \<open>A finished deployment never moves again\<close>

definition final :: "string \<Rightarrow> (DeploymentStatus \<times> string \<times> string \<times> string \<times> instant option) \<Rightarrow> deploy_db \<Rightarrow> bool" where
  "final i v s \<longleftrightarrow> i \<in> dID ` set (deployments s)
     \<and> (\<forall>r \<in> set (deployments s). dID r = i \<longrightarrow> (Status r, ErrorCode r, ErrorMessage r, ErrorHint r, finished_at r) = v)"

interpretation final_inv: env_free "final i v"
  by unfold_locales (simp_all add: final_def)

lemma not_in_flight: "Terminal st \<Longrightarrow> \<not> in_flight st"
  by (auto simp: Terminal_def in_flight_def)

lemma final_update:
  assumes "final i v s" "Terminal (fst v)" "\<And>r. dID (f r) = dID r"
    and "\<And>r. p r \<Longrightarrow> \<not> in_flight (Status r) \<Longrightarrow> (Status (f r), ErrorCode (f r), ErrorMessage (f r), ErrorHint (f r), finished_at (f r))
        = (Status r, ErrorCode r, ErrorMessage r, ErrorHint r, finished_at r)"
  shows "final i v (s\<lparr>deployments := update_rows p f (deployments s)\<rparr>)"
proof -
  have "(Status x, ErrorCode x, ErrorMessage x, ErrorHint x, finished_at x) = v"
    if x: "x \<in> set (update_rows p f (deployments s))" "dID x = i" for x
    using x(1)
  proof (cases rule: update_rowsE)
    case (hit r)
    then have "(Status r, ErrorCode r, ErrorMessage r, ErrorHint r, finished_at r) = v"
      using assms(1,3) x(2) by (simp add: final_def)
    moreover then have "\<not> in_flight (Status r)" using assms(2) not_in_flight by auto
    ultimately show ?thesis using assms(4) [of r] hit by simp
  qed (use assms(1) x(2) in \<open>simp add: final_def\<close>)
  moreover have "dID ` set (update_rows p f (deployments s)) = dID ` set (deployments s)"
    using map_update_rows [of dID f p "deployments s"] assms(3) by (metis set_map)
  ultimately show ?thesis using assms(1) by (simp add: final_def)
qed

lemma final_update_deployments:
  assumes "Terminal (fst v)" "\<And>r. dID (f r) = dID r"
    and "\<And>r. p r \<Longrightarrow> \<not> in_flight (Status r) \<Longrightarrow> (Status (f r), ErrorCode (f r), ErrorMessage (f r), ErrorHint (f r), finished_at (f r))
        = (Status r, ErrorCode r, ErrorMessage r, ErrorHint r, finished_at r)"
  shows "keeps (final i v) (update_deployments p f)"
  using final_update [OF _ assms] by (simp add: keeps_def update_deployments_def)

lemma final_insertDeployment: "keeps (final i v) (insertDeployment r)"
  by (auto simp: keeps_def insertDeployment_def final_def)

lemma final_logs: "final i v (s\<lparr>build_logs := x\<rparr>) = final i v s"
  by (simp add: final_def)

lemma final_insertLog: "keeps (final i v) (insertLog r)"
  by (simp add: keeps_def insertLog_def final_logs)

lemma final_prune: "keeps (final i v) (\<lambda>s. (Inr (), s\<lparr>build_logs := f s\<rparr>))"
  by (simp add: keeps_def final_logs)

lemma final_appendLines: "keeps (final i v) (appendLines dep n ls)"
  by (induction ls arbitrary: n) (auto intro!: keeps_intros final_inv.keeps_env final_insertLog)

lemma final_status:
  assumes "Terminal (fst v)"
  shows "keeps (final i v) (UpdateDeploymentStatus j st c m h)"
proof -
  have "keeps (final i v) (update_deployments (\<lambda>r. dID r = j \<and> in_flight (Status r)) (\<lambda>r. r\<lparr>Status := st, ErrorCode := c,
      ErrorMessage := m, ErrorHint := h, started_at := coalesce (started_at r) a, finished_at := coalesce b (finished_at r)\<rparr>))" for a b
    using assms by (intro final_update_deployments) auto
  then have "keeps (final i v) (\<lambda>s. if st = DeployUnset \<and> (\<exists>r \<in> set (deployments s). dID r = j \<and> in_flight (Status r)) then (Inl ErrDB, s)
      else update_deployments (\<lambda>r. dID r = j \<and> in_flight (Status r)) (\<lambda>r. r\<lparr>Status := st, ErrorCode := c,
      ErrorMessage := m, ErrorHint := h, started_at := coalesce (started_at r) a, finished_at := coalesce b (finished_at r)\<rparr>) s)" for a b
    by (simp add: keeps_def)
  then show ?thesis unfolding UpdateDeploymentStatus_def nowIf_def
    by (intro keeps_intros final_inv.keeps_env) simp_all
qed

lemma final_call:
  assumes "Terminal (fst v)"
  shows "keeps (final i v) (deploy_call_op c)"
proof (cases c)
  case (UpdateDeploymentStatusC j st c' m h)
  then show ?thesis using final_status [OF assms] by simp
next
  case (SupersedeRunningDeploymentsC a e)
  have "keeps (final i v) (update_deployments (others_running a e) (\<lambda>r. r\<lparr>Status := DeploySuperseded, finished_at := Some t\<rparr>))" for t
    using assms by (intro final_update_deployments) (auto simp: others_running_def)
  then show ?thesis unfolding SupersedeRunningDeploymentsC deploy_call_op.simps SupersedeRunningDeployments_def
    by (intro keeps_intros final_inv.keeps_env) simp_all
next
  case (SetDeploymentImageC j img)
  then show ?thesis using assms
    by (auto simp: deploy_write_defs intro!: keeps_intros final_inv.keeps_env final_update_deployments)
qed (auto simp: deploy_write_defs intro!: keeps_intros final_inv.keeps_env final_insertDeployment final_insertLog
    final_prune final_appendLines)

text \<open>C29: Once a deployment has finished, no sequence of writes, whatever their order and
  faults, changes its status, its error or the time it finished: a build that is still running after
  a newer deploy replaced it cannot put itself back.\<close>
theorem finished_deployment_is_final:
  assumes "final i v s" "Terminal (fst v)"
  shows "final i v (run_deploy_calls cs s)"
  using run_deploy_keeps [OF final_call [OF assms(2)] assms(1)] .

section \<open>Numbering\<close>

definition dtables :: "deploy_db \<Rightarrow> string list \<times> deployment_row list \<times> log_row list" where
  "dtables s = (app_ids s, deployments s, build_logs s)"

interpretation dtables_same: env_free "\<lambda>s. dtables s = T"
  by unfold_locales (simp_all add: dtables_def)

lemma stmt_dtables:
  assumes "stmt f s = (r, s1)"
  obtains (fault) "r = Inl ErrDB" "dtables s1 = dtables s" | (run) s0 where "dtables s0 = dtables s" "f s0 = (r, s1)"
  using dtables_same.stmt_result [OF assms refl] by blast

lemma query_dtables: "query f s = (r, s1) \<Longrightarrow> dtables s1 = dtables s"
  using keepsD [OF dtables_same.keeps_query [of "dtables s"] refl] by blast

lemma query_Inr_dtables:
  assumes "query f s = (Inr x, s1)"
  shows "dtables s1 = dtables s \<and> (\<exists>s0. dtables s0 = dtables s \<and> f s0 = Inr x)"
proof -
  have "stmt (\<lambda>s. (f s, s)) s = (Inr x, s1)" using assms by (simp add: query_def)
  then show ?thesis using query_dtables [OF assms] by (cases rule: stmt_dtables) auto
qed

lemma query_reads:
  assumes "query f s = (Inr x, s1)" "\<And>a. dtables a = dtables s \<Longrightarrow> f a = f s"
  shows "f s = Inr x" "dtables s1 = dtables s"
proof -
  obtain s0 where "dtables s0 = dtables s" "f s0 = Inr x" "dtables s1 = dtables s" using query_Inr_dtables [OF assms(1)] by blast
  then show "f s = Inr x" "dtables s1 = dtables s" using assms(2) [of s0] by simp_all
qed

lemma stmt_ret_dtables: "stmt (ret ()) s = (r, s1) \<Longrightarrow> dtables s1 = dtables s"
  by (elim stmt_dtables) (auto simp: ret_def)

lemma keeps_dtables: "keeps (\<lambda>s. dtables s = T) m \<Longrightarrow> dtables s = T \<Longrightarrow> m s = (r, s1) \<Longrightarrow> dtables s1 = T"
  using keepsD [of "\<lambda>s. dtables s = T"] by blast

lemma Tx_Inl_dtables:
  assumes "Tx f s = (Inl e, s1)"
  shows "dtables s1 = dtables s"
proof -
  obtain q s0 where b: "stmt (ret ()) s = (q, s0)" by force
  then have s0: "dtables s0 = dtables s" by (rule stmt_ret_dtables)
  have "dtables (rollback s0 s2) = dtables s0" for s2 by (rule dtables_same.rollback [THEN iffD2]) simp
  then show ?thesis using assms b s0 by (auto simp: Tx_def split: prod.splits sum.splits)
qed

lemma maxOr0_ge: "x \<in> set xs \<Longrightarrow> x \<le> maxOr0 xs"
  by (auto simp: maxOr0_def)

lemma maxNumber_cong: "dtables s = dtables t \<Longrightarrow> maxNumber a s = maxNumber a t"
  by (simp add: maxNumber_def dtables_def)

lemma maxNumber_ge: "r \<in> set (deployments s) \<Longrightarrow> dAppID r = a \<Longrightarrow> Number r \<le> maxNumber a s"
  unfolding maxNumber_def by (rule maxOr0_ge) auto

lemma numberAndInsert_Inr:
  assumes "numberAndInsert d now s = (Inr n, s1)"
  shows "n = maxNumber (dAppID d) s + 1 \<and> deployments s1 = deployments s @ [deployment_row_of (d\<lparr>Number := n,
      Trigger := defaultStr (Trigger d) ''manual'', dCreatedAt := now\<rparr>)]"
proof -
  let ?q = "query (\<lambda>s. Inr (maxNumber (dAppID d) s))"
  obtain m s2 where q: "?q s = (Inr m, s2)"
      and r: "bind (stmt (insertDeployment (deployment_row_of (d\<lparr>Number := m + 1, Trigger := defaultStr (Trigger d) ''manual'',
        dCreatedAt := now\<rparr>)))) (\<lambda>_. ret (m + 1)) s2 = (Inr n, s1)"
    using bind_InrD [OF assms [unfolded numberAndInsert_def]] by blast
  have "Inr (maxNumber (dAppID d) s) = (Inr m :: store_err + int)" and m2: "dtables s2 = dtables s"
    by (rule query_reads [OF q]; simp add: maxNumber_def dtables_def)+
  then have m: "m = maxNumber (dAppID d) s" "dtables s2 = dtables s" by simp_all
  from r obtain u where i: "stmt (insertDeployment (deployment_row_of (d\<lparr>Number := m + 1, Trigger := defaultStr (Trigger d) ''manual'',
        dCreatedAt := now\<rparr>))) s2 = (Inr u, s1)" and n: "n = m + 1"
    by (auto simp: bind_def ret_def split: prod.splits sum.splits)
  from i show ?thesis
    using m(2) by (cases rule: stmt_dtables) (auto simp: insertDeployment_def m(1) n dtables_def split: if_splits)
qed

text \<open>A deployment that is created gets a number one above the highest its app has had,
  and is stored with it; when creating fails, whatever failed, no table has changed.\<close>
theorem CreateDeployment_numbers:
  assumes "CreateDeployment d s = (res, s1)"
  shows "case res of Inl e \<Rightarrow> dtables s1 = dtables s
    | Inr d1 \<Rightarrow> Number d1 = maxNumber (dAppID d) s + 1 \<and> dAppID d1 = dAppID d
        \<and> (\<forall>r \<in> set (deployments s). dAppID r = dAppID d \<longrightarrow> Number r < Number d1)
        \<and> (\<exists>r. deployments s1 = deployments s @ [r] \<and> dID r = dID d1 \<and> dAppID r = dAppID d \<and> Number r = Number d1
             \<and> Status r = Status d1)"
proof -
  obtain q s2 where i: "idOr (dID d) ''dep'' s = (q, s2)" by force
  have "keeps (\<lambda>x. dtables x = dtables s) (idOr (dID d) ''dep'')"
    unfolding idOr_def by (intro keeps_intros dtables_same.keeps_env)
  then have t2: "dtables s2 = dtables s" using keeps_dtables i by blast
  show ?thesis
  proof (cases q)
    case (Inl e)
    then show ?thesis using assms i t2 by (auto simp: CreateDeployment_def bind_def)
  next
    case (Inr i')
    let ?now = "clock (tick s2)" and ?d = "withDefaults d i'"
    obtain p s3 where tx: "Tx (numberAndInsert ?d ?now) (tick s2) = (p, s3)" by force
    have t3: "dtables (tick s2) = dtables s" using t2 dtables_same.tick [of s2 "dtables s"] by simp
    have run: "(res, s1) = (case p of Inl e \<Rightarrow> (Inl e, s3) | Inr n \<Rightarrow> (Inr (?d\<lparr>Number := n, dCreatedAt := ?now\<rparr>), s3))"
      using assms i Inr tx by (simp add: CreateDeployment_def bind_def timeNow_def ret_def split: sum.splits)
    show ?thesis
    proof (cases p)
      case (Inl e)
      then show ?thesis using run Tx_Inl_dtables [of _ "tick s2"] tx t3 by simp
    next
      case (Inr n)
      from tx [unfolded Inr] obtain s4 s5 where x: "dtables s4 = dtables s" "numberAndInsert ?d ?now s4 = (Inr n, s5)" "dtables s3 = dtables s5"
        by (elim Tx_Inr) (metis stmt_ret_dtables t3)
      note ins = numberAndInsert_Inr [OF x(2)]
      have app: "dAppID ?d = dAppID d" by (simp add: withDefaults_def)
      have n: "n = maxNumber (dAppID d) s + 1" using ins app maxNumber_cong [OF x(1)] by simp
      have rows: "deployments s3 = deployments s @ [deployment_row_of (?d\<lparr>Number := n, Trigger := defaultStr (Trigger ?d) ''manual'',
          dCreatedAt := ?now\<rparr>)]" using ins x by (simp add: dtables_def)
      moreover have "Number r < n" if "r \<in> set (deployments s)" "dAppID r = dAppID d" for r
        using maxNumber_ge [OF that] n by simp
      ultimately show ?thesis using run Inr n app
        by (simp add: deployment_row_of_def Deployment.defs deployment_row.defs)
    qed
  qed
qed

section \<open>The rollback window is one question\<close>

lemma index_of_None: "index_of x xs = None \<longleftrightarrow> x \<notin> set xs"
  by (induction xs) auto

lemma scan_fields: "dID (scanDeployment r) = dID r" "Status (scanDeployment r) = Status r" "Image (scanDeployment r) = Image r"
    "CanRollback (scanDeployment r) = False" "Number (scanDeployment r) = Number r"
  by (simp_all add: scanDeployment_def Deployment.truncate_def)

lemma markFrom_ids: "map dID (markFrom keep seen ds) = map dID ds"
  by (induction keep seen ds rule: markFrom.induct) auto

definition good_row :: "deployment_row \<Rightarrow> bool" where
  "good_row r \<longleftrightarrow> Status r = DeploySucceeded \<and> Image r \<noteq> []"

lemma markFrom_rank:
  assumes "d \<in> set (markFrom keep seen (map scanDeployment (take n rows)))" "distinct (map dID rows)"
  shows "CanRollback d = (case index_of (dID d) (map dID (filter good_row rows)) of None \<Rightarrow> False | Some k \<Rightarrow> seen + (1 + k) \<le> keep)"
  using assms
proof (induction rows arbitrary: seen n)
  case (Cons r rows)
  obtain m where n: "n = Suc m" using Cons.prems(1) by (cases n) auto
  have fresh: "dID r \<notin> dID ` set rows" "distinct (map dID rows)" using Cons.prems(2) by auto
  have dep: "deployed (scanDeployment r) = good_row r" by (simp add: deployed_def good_row_def scan_fields)
  let ?ds = "map scanDeployment (take m rows)"
  have other: "dID d \<noteq> dID r" if "d \<in> set (markFrom keep k ?ds)" for k
  proof -
    have "dID d \<in> dID ` set (markFrom keep k ?ds)" using that by blast
    then have "dID d \<in> dID ` set ?ds" using markFrom_ids [of keep k ?ds] by (metis set_map)
    then have "dID d \<in> dID ` set rows" by (auto simp: scan_fields dest: in_set_takeD)
    then show ?thesis using fresh by auto
  qed
  show ?case
  proof (cases "good_row r")
    case True
    then consider "d = (scanDeployment r)\<lparr>CanRollback := seen + 1 \<le> keep\<rparr>" | "d \<in> set (markFrom keep (seen + 1) ?ds)"
      using Cons.prems(1) n dep by auto
    then show ?thesis
    proof cases
      case 1
      then show ?thesis using True by (simp add: scan_fields)
    next
      case 2
      then show ?thesis using Cons.IH [OF 2 fresh(2)] True other [OF 2] by (auto split: option.splits)
    qed
  next
    case False
    then consider "d = scanDeployment r" | "d \<in> set (markFrom keep seen ?ds)" using Cons.prems(1) n dep by auto
    then show ?thesis
    proof cases
      case 1
      then have "index_of (dID d) (map dID (filter good_row rows)) = None" using fresh(1) by (auto simp: index_of_None scan_fields)
      then show ?thesis using False 1 by (simp add: scan_fields)
    qed (use Cons.IH fresh(2) False in auto)
  qed
qed simp

lemma newest_filter: "newest (\<lambda>r. p r \<and> q r) s = filter q (newest p s)"
proof -
  have "filter q (filter p xs) = filter (\<lambda>r. p r \<and> q r) xs" for xs :: "deployment_row list" by (simp add: conj_commute)
  then show ?thesis by (simp add: newest_def rev_filter [symmetric] filter_sort)
qed

lemma newest_cong: "dtables s = dtables t \<Longrightarrow> newest p s = newest p t"
  by (simp add: newest_def dtables_def)

lemma newest_distinct: "deploy_ok s \<Longrightarrow> distinct (map dID (newest p s))"
proof -
  assume "deploy_ok s"
  then have "distinct (map dID (filter p (deployments s)))" by (simp add: deploy_ok_def distinct_map_filter)
  moreover have "mset (map dID (newest p s)) = mset (map dID (filter p (deployments s)))" by (simp add: newest_def)
  ultimately show ?thesis by (metis mset_eq_imp_distinct_iff)
qed

text \<open>C30: The mark a deployment carries in the list and the check that is made when a rollback
  is asked for give the same answer, for every deployment of the list and however long the list is.\<close>
theorem rollback_mark_agrees:
  assumes "deploy_ok s" "ListDeployments app limit s = (Inr ds, s1)" "d \<in> set (MarkRollbackTargets ds keep)"
    and "dtables s2 = dtables s" "WithinRollbackWindow app (dID d) keep s2 = (Inr w, s3)"
  shows "CanRollback d = w"
proof -
  let ?k = "if keep < 1 then 1 else keep" and ?rows = "newest (\<lambda>r. dAppID r = app) s"
  define n where "n = nat (if limit \<le> 0 \<or> limit > 200 then 50 else limit)"
  have q: "query (\<lambda>s. Inr (map scanDeployment (take n (newest (\<lambda>r. dAppID r = app) s)))) s = (Inr ds, s1)"
    using assms(2) unfolding ListDeployments_def Let_def n_def .
  have "Inr (map scanDeployment (take n ?rows)) = (Inr ds :: store_err + Deployment list)"
    by (rule query_reads [OF q]) (simp add: newest_def dtables_def)
  then have ds: "ds = map scanDeployment (take n ?rows)" by simp
  let ?good = "newest (\<lambda>r. dAppID r = app \<and> Status r = DeploySucceeded \<and> Image r \<noteq> [])"
  have good: "?good s2 = filter good_row ?rows"
    using newest_filter [of "\<lambda>r. dAppID r = app" good_row s2] newest_cong [OF assms(4)] by (simp add: good_row_def)
  have q2: "query (\<lambda>s. Inr (case rowNumber (dID d) (?good s) of None \<Rightarrow> False | Some rank \<Rightarrow> rank \<le> ?k)) s2 = (Inr w, s3)"
    using assms(5) unfolding WithinRollbackWindow_def Let_def .
  have "Inr (case rowNumber (dID d) (?good s2) of None \<Rightarrow> False | Some rank \<Rightarrow> rank \<le> ?k) = (Inr w :: store_err + bool)"
    by (rule query_reads [OF q2]) (simp add: newest_def dtables_def)
  then have w: "w = (case rowNumber (dID d) (filter good_row ?rows) of None \<Rightarrow> False | Some rank \<Rightarrow> rank \<le> ?k)"
    by (simp add: good)
  have "d \<in> set (markFrom ?k 0 (map scanDeployment (take n ?rows)))"
    using assms(3) by (simp only: MarkRollbackTargets_def ds)
  from markFrom_rank [OF this newest_distinct [OF assms(1)]] show ?thesis
    unfolding w rowNumber_def by (cases "index_of (dID d) (map dID (filter good_row ?rows))") simp_all
qed

section \<open>Build log lines\<close>

text \<open>Rows a batch of lines adds: numbered on from the last line, in order.\<close>

definition log_batch :: "string \<Rightarrow> int \<Rightarrow> LogLine list \<Rightarrow> log_row list \<Rightarrow> bool" where
  "log_batch dep m ls rows \<longleftrightarrow> map lLine rows = map lLine ls \<and> map lSeq rows = map (\<lambda>j. m + 1 + int j) [0 ..< length ls]
     \<and> (\<forall>r \<in> set rows. deployment_id r = dep)"

lemma log_batch_Cons:
  assumes "log_batch dep (m + 1) ls rows" "lLine r = lLine l" "lSeq r = m + 1" "deployment_id r = dep"
  shows "log_batch dep m (l # ls) (r # rows)"
proof -
  have "map (\<lambda>j. m + 1 + int j) [0 ..< length (l # ls)] = (m + 1) # map (\<lambda>j. m + 1 + 1 + int j) [0 ..< length ls]"
    using map_upt_Suc [of "\<lambda>j. m + 1 + int j" "length ls"] by simp
  then show ?thesis using assms by (simp add: log_batch_def)
qed

lemma insertLog_Inr:
  assumes "stmt (insertLog r) s = (Inr u, s1)"
  shows "build_logs s1 = build_logs s @ [r]"
  using assms by (cases rule: stmt_dtables) (auto simp: insertLog_def dtables_def split: if_splits)

lemma log_row_fields: "lLine (log_row_of i dep l) = lLine l" "lSeq (log_row_of i dep l) = lSeq l" "deployment_id (log_row_of i dep l) = dep"
  by (simp_all add: log_row_of_def LogLine.defs log_row.defs)

lemma appendLines_batch:
  "appendLines dep m ls s = (Inr (), s1) \<Longrightarrow> \<exists>rows. build_logs s1 = build_logs s @ rows \<and> log_batch dep m ls rows"
proof (induction ls arbitrary: m s)
  case Nil
  then show ?case by (simp add: ret_def log_batch_def)
next
  case (Cons l ls)
  let ?at = "(if is_zero_time (lAt l) then timeNow else ret (lAt l)) :: instant deploy_op"
  from bind_InrD [OF Cons.prems [unfolded appendLines.simps]] obtain at s2 where a: "?at s = (Inr at, s2)"
    and r2: "bind (NewID ''log'') (\<lambda>i. bind (stmt (insertLog (log_row_of i dep (l\<lparr>lSeq := m + 1,
      Stream := defaultStr (Stream l) ''stdout'', lAt := at\<rparr>)))) (\<lambda>_. appendLines dep (m + 1) ls)) s2 = (Inr (), s1)" by blast
  from bind_InrD [OF r2] obtain i s3 where b: "(NewID ''log'' :: string deploy_op) s2 = (Inr i, s3)"
    and r3: "bind (stmt (insertLog (log_row_of i dep (l\<lparr>lSeq := m + 1,
      Stream := defaultStr (Stream l) ''stdout'', lAt := at\<rparr>)))) (\<lambda>_. appendLines dep (m + 1) ls) s3 = (Inr (), s1)" by blast
  let ?r = "log_row_of i dep (l\<lparr>lSeq := m + 1, Stream := defaultStr (Stream l) ''stdout'', lAt := at\<rparr>)"
  from bind_InrD [OF r3] obtain u s4 where c: "stmt (insertLog ?r) s3 = (Inr u, s4)" and r4: "appendLines dep (m + 1) ls s4 = (Inr (), s1)" by blast
  have "keeps (\<lambda>x. dtables x = dtables s) ?at" by (intro keeps_intros dtables_same.keeps_env)
  then have "dtables s2 = dtables s" using keeps_dtables a by blast
  moreover have "dtables s3 = dtables s2" using keeps_dtables [OF dtables_same.keeps_NewID refl b] .
  ultimately have "build_logs s4 = build_logs s @ [?r]" using insertLog_Inr [OF c] by (simp add: dtables_def)
  moreover obtain rows where "build_logs s1 = build_logs s4 @ rows" "log_batch dep (m + 1) ls rows" using Cons.IH [OF r4] by blast
  ultimately show ?case using log_batch_Cons [of dep m ls rows ?r l] by (auto simp: log_row_fields)
qed

lemma maxSeq_cong: "dtables s = dtables t \<Longrightarrow> maxSeq dep s = maxSeq dep t"
  by (simp add: maxSeq_def dtables_def)

lemma maxSeq_ge: "r \<in> set (build_logs s) \<Longrightarrow> deployment_id r = dep \<Longrightarrow> lSeq r \<le> maxSeq dep s"
  unfolding maxSeq_def by (rule maxOr0_ge) auto

lemma AppendBuildLogs_batch:
  assumes "AppendBuildLogs dep ls s = (Inr (), s1)"
  shows "\<exists>rows. build_logs s1 = build_logs s @ rows \<and> log_batch dep (maxSeq dep s) ls rows"
proof (cases "ls = []")
  case True
  then show ?thesis using assms by (simp add: AppendBuildLogs_def ret_def log_batch_def)
next
  case False
  let ?body = "bind (query (\<lambda>s. Inr (maxSeq dep s))) (\<lambda>next'. bind (stmt (ret ())) (\<lambda>_. appendLines dep next' ls))"
  have "Tx ?body s = (Inr (), s1)" using assms False by (simp add: AppendBuildLogs_def)
  then obtain s0 s2 where x: "stmt (ret ()) s = (Inr (), s0)" "?body s0 = (Inr (), s2)" "stmt (ret ()) s2 = (Inr (), s1)" by (rule Tx_Inr)
  from bind_InrD [OF x(2)] obtain m s3 where q: "query (\<lambda>s. Inr (maxSeq dep s)) s0 = (Inr m, s3)"
    and r: "bind (stmt (ret ())) (\<lambda>_. appendLines dep m ls) s3 = (Inr (), s2)" by blast
  from bind_InrD [OF r] obtain u s4 where p: "stmt (ret ()) s3 = (Inr u, s4)" and a: "appendLines dep m ls s4 = (Inr (), s2)" by blast
  have "Inr (maxSeq dep s0) = (Inr m :: store_err + int)" and t3: "dtables s3 = dtables s0"
    by (rule query_reads [OF q]; simp add: maxSeq_def dtables_def)+
  then have m: "m = maxSeq dep s" using maxSeq_cong [OF stmt_ret_dtables [OF x(1)]] by simp
  have "dtables s4 = dtables s" using stmt_ret_dtables [OF x(1)] stmt_ret_dtables [OF p] t3 by simp
  then show ?thesis using appendLines_batch [OF a] stmt_ret_dtables [OF x(3)] m by (simp add: dtables_def)
qed

lemma filter_increasing:
  "map g xs = map (\<lambda>j. m + 1 + int j) [0 ..< length xs] \<Longrightarrow> filter (\<lambda>x. m + int k < g x) xs = drop k xs"
proof (induction xs arbitrary: m k)
  case (Cons x xs)
  have "map (\<lambda>j. m + 1 + int j) [0 ..< length (x # xs)] = (m + 1) # map (\<lambda>j. m + 1 + 1 + int j) [0 ..< length xs]"
    using map_upt_Suc [of "\<lambda>j. m + 1 + int j" "length xs"] by simp
  then have g: "g x = m + 1" "map g xs = map (\<lambda>j. (m + 1) + 1 + int j) [0 ..< length xs]" using Cons.prems by auto
  show ?case
  proof (cases k)
    case 0
    then have "filter (\<lambda>x. (m + 1) + int 0 < g x) xs = xs" using Cons.IH [OF g(2), of 0] by simp
    then have "\<forall>y \<in> set xs. m < g y" by (auto simp: filter_id_conv)
    then show ?thesis using 0 g(1) by (simp add: filter_id_conv)
  next
    case (Suc j)
    then show ?thesis using Cons.IH [OF g(2), of j] g(1) by (simp add: add.assoc)
  qed
qed simp

text \<open>After a batch of lines is stored, a reader that has already seen the first
  \<^verbatim>\<open>k\<close> of them and asks for what follows gets exactly the rest in order, up to the limit: nothing
  twice and nothing missing.\<close>
theorem build_log_resume:
  assumes "AppendBuildLogs dep ls s = (Inr (), s1)" "dtables s2 = dtables s1" "0 < limit" "limit \<le> 5000"
    and "ListBuildLogs dep (maxSeq dep s + int k) limit s2 = (Inr out, s3)"
  shows "map lLine out = take (nat limit) (drop k (map lLine ls))"
proof -
  obtain rows where rows: "build_logs s1 = build_logs s @ rows" "log_batch dep (maxSeq dep s) ls rows"
    using AppendBuildLogs_batch [OF assms(1)] by blast
  let ?p = "\<lambda>r. deployment_id r = dep \<and> lSeq r > maxSeq dep s + int k"
  have len: "length rows = length ls" using rows(2) by (metis log_batch_def length_map)
  have "filter ?p (build_logs s) = []" using maxSeq_ge [of _ s dep] by (auto simp: filter_empty_conv) (smt (verit) of_nat_0_le_iff)
  moreover have "filter ?p rows = filter (\<lambda>r. maxSeq dep s + int k < lSeq r) rows" using rows(2) by (auto simp: log_batch_def intro: filter_cong)
  moreover have "filter (\<lambda>r. maxSeq dep s + int k < lSeq r) rows = drop k rows"
    using rows(2) len by (intro filter_increasing) (simp add: log_batch_def)
  ultimately have f: "filter ?p (build_logs s1) = drop k rows" using rows(1) by simp
  have "sorted (map lSeq rows)" using rows(2) by (auto simp: log_batch_def sorted_map sorted_wrt_upt intro: sorted_wrt_mono_rel)
  then have "sorted (map lSeq (drop k rows))" by (simp add: drop_map [symmetric] sorted_wrt_drop)
  then have srt: "sort_key lSeq (filter ?p (build_logs s2)) = drop k rows"
    using f assms(2) by (simp add: dtables_def sort_key_id_if_sorted)
  let ?out = "\<lambda>s. map LogLine.truncate (take (nat limit) (sort_key lSeq (filter ?p (build_logs s))))"
  have q: "query (\<lambda>s. Inr (?out s)) s2 = (Inr out, s3)" using assms(3-5) by (simp add: ListBuildLogs_def Let_def)
  have "Inr (?out s2) = (Inr out :: store_err + LogLine list)" by (rule query_reads [OF q]) (simp add: dtables_def)
  then have "out = map LogLine.truncate (take (nat limit) (drop k rows))" using srt by simp
  then have "map lLine out = take (nat limit) (drop k (map lLine rows))"
    by (simp add: LogLine.truncate_def o_def take_map drop_map)
  then show ?thesis using rows(2) by (simp add: log_batch_def)
qed

section \<open>Concrete runs\<close>

text \<open>
  Operations are evaluated only once they are applied to a state: the bodies
  under the binders of \<^verbatim>\<open>bind\<close> are left alone until then.
\<close>

declare numberAndInsert_def [code del] CreateDeployment_def [code del] nowIf_def [code del]
  UpdateDeploymentStatus_def [code del] SupersedeRunningDeployments_def [code del] AppendBuildLogs_def [code del]
  ListDeployments_def [code del] ListBuildLogs_def [code del] WithinRollbackWindow_def [code del]

lemmas deploy_ops_code [code] = fun_cong [OF numberAndInsert_def] fun_cong [OF CreateDeployment_def] fun_cong [OF nowIf_def]
  fun_cong [OF UpdateDeploymentStatus_def] fun_cong [OF SupersedeRunningDeployments_def] fun_cong [OF AppendBuildLogs_def]
  fun_cong [OF ListDeployments_def] fun_cong [OF ListBuildLogs_def] fun_cong [OF WithinRollbackWindow_def]

definition some_deployment :: "string \<Rightarrow> Deployment" where
  "some_deployment i = \<lparr>dID = i, dAppID = ''app'', Number = 0, Status = DeployUnset, Trigger = [], RollbackOf = 0, CommitSHA = [],
     CommitMessage = [], CommitAuthor = [], Image = ''img'', BuildFingerprint = [], RuntimeSpec = [], ErrorCode = [],
     ErrorMessage = [], ErrorHint = [], CreatedBy = [], dCreatedAt = 0, StartedAt = 0, FinishedAt = 0, CanRollback = False\<rparr>"

definition empty_deploys :: deploy_db where
  "empty_deploys = \<lparr>clock = hour, pauses = [], faults = [], entropy = [''1'', ''2'', ''3''], app_ids = [''app''], deployments = [], build_logs = []\<rparr>"

definition one_succeeded :: deploy_db where
  "one_succeeded = run_deploy_calls [CreateDeploymentC (some_deployment ''d1''), UpdateDeploymentStatusC ''d1'' DeploySucceeded [] [] []] empty_deploys"

lemma deploy_run_pair: "fst (m s) = Inr x \<Longrightarrow> m s = (Inr x, snd (m s))"
  by (metis prod.collapse)

theorem finished_deployment_is_final_witness:
  "final ''d1'' (DeploySucceeded, [], [], [], Some hour)
     (run_deploy_calls [UpdateDeploymentStatusC ''d1'' DeployBuilding [] [] [], SupersedeRunningDeploymentsC ''app'' ''d2''] one_succeeded)"
proof (rule finished_deployment_is_final)
  show "final ''d1'' (DeploySucceeded, [], [], [], Some hour) one_succeeded" by code_simp
  show "Terminal (fst (DeploySucceeded, [] :: string, [] :: string, [] :: string, Some hour))" by (simp add: Terminal_def)
qed

theorem CreateDeployment_numbers_witness:
  "Number (projr (fst (CreateDeployment (some_deployment ''d2'') one_succeeded))) = maxNumber ''app'' one_succeeded + 1"
proof -
  let ?m = "CreateDeployment (some_deployment ''d2'')"
  have "isl (fst (?m one_succeeded)) = False" by code_simp
  then have "?m one_succeeded = (Inr (projr (fst (?m one_succeeded))), snd (?m one_succeeded))"
    by (intro deploy_run_pair) (simp add: sum.collapse(2))
  from CreateDeployment_numbers [OF this] show ?thesis by (simp add: some_deployment_def)
qed

theorem rollback_mark_agrees_witness:
  "CanRollback (hd (MarkRollbackTargets (projr (fst (ListDeployments ''app'' 0 one_succeeded))) 1)) = True"
proof (rule rollback_mark_agrees)
  let ?ds = "projr (fst (ListDeployments ''app'' 0 one_succeeded))"
  show "deploy_ok one_succeeded" by code_simp
  have "isl (fst (ListDeployments ''app'' 0 one_succeeded)) = False" by code_simp
  then show "ListDeployments ''app'' 0 one_succeeded = (Inr ?ds, snd (ListDeployments ''app'' 0 one_succeeded))"
    by (intro deploy_run_pair) (simp add: sum.collapse(2))
  have "MarkRollbackTargets ?ds 1 \<noteq> []" by code_simp
  then show "hd (MarkRollbackTargets ?ds 1) \<in> set (MarkRollbackTargets ?ds 1)" by simp
  have "dID (hd (MarkRollbackTargets ?ds 1)) = ''d1''" by code_simp
  moreover have "fst (WithinRollbackWindow ''app'' ''d1'' 1 one_succeeded) = Inr True" by code_simp
  ultimately show "WithinRollbackWindow ''app'' (dID (hd (MarkRollbackTargets ?ds 1))) 1 one_succeeded
      = (Inr True, snd (WithinRollbackWindow ''app'' ''d1'' 1 one_succeeded))"
    using deploy_run_pair [of "WithinRollbackWindow ''app'' ''d1'' 1" one_succeeded True] by simp
  show "dtables one_succeeded = dtables one_succeeded" ..
qed

definition two_lines :: "LogLine list" where
  "two_lines = [\<lparr>lSeq = 0, Stream = [], lLine = ''x'', lAt = 1\<rparr>, \<lparr>lSeq = 0, Stream = [], lLine = ''y'', lAt = 1\<rparr>]"

theorem build_log_resume_witness:
  "map lLine (projr (fst (ListBuildLogs ''d1'' (maxSeq ''d1'' one_succeeded + int 1) 10
      (snd (AppendBuildLogs ''d1'' two_lines one_succeeded))))) = [''y'']"
proof -
  let ?s1 = "snd (AppendBuildLogs ''d1'' two_lines one_succeeded)"
  let ?m = "ListBuildLogs ''d1'' (maxSeq ''d1'' one_succeeded + int 1) 10"
  have "fst (AppendBuildLogs ''d1'' two_lines one_succeeded) = Inr ()" by code_simp
  then have a: "AppendBuildLogs ''d1'' two_lines one_succeeded = (Inr (), ?s1)" by (rule deploy_run_pair)
  have "isl (fst (?m ?s1)) = False" by code_simp
  then have l: "?m ?s1 = (Inr (projr (fst (?m ?s1))), snd (?m ?s1))" by (intro deploy_run_pair) (simp add: sum.collapse(2))
  show ?thesis using build_log_resume [OF a refl _ _ l] by (simp add: two_lines_def)
qed

text \<open>
  Superseding takes every other deployment of the app that is in flight, a newer
  one too. Two deploys that start together each supersede the other: both are
  replaced, and neither version goes live.
\<close>

lemma deploys_supersede_each_other:
  "map Status (deployments (run_deploy_calls [CreateDeploymentC (some_deployment ''d1''), CreateDeploymentC (some_deployment ''d2''),
      SupersedeRunningDeploymentsC ''app'' ''d1'', SupersedeRunningDeploymentsC ''app'' ''d2''] empty_deploys))
     = [DeploySuperseded, DeploySuperseded]"
  by code_simp

end
