(* ===== verification/Store_Apps.thy ===== *)
theory Store_Apps
  imports Store_Teams Store_Deployments
begin

text \<open>
  Apps and what hangs off them, \<^verbatim>\<open>internal/store/apps.go\<close>: variables, shared
  variables, domains, volumes and scheduled commands, and the images worth
  keeping. The tables extend those of the teams; the deployments are those of
  Store_Deployments. An operation of an earlier repository runs on its own tables
  inside the larger database (\<^verbatim>\<open>onTeam\<close>, \<^verbatim>\<open>onDeploy\<close>), and what a delete takes with it
  is removed here. Unique columns, checks and references are part of the
  statements, checked in the order SQLite checks them.

  The column list of an app holds a call of COALESCE. Two queries put a table's
  alias in front of every comma-separated part of it, so whether the text is a
  list of columns at all is part of the model (\<^verbatim>\<open>qualified_call\<close>).
\<close>

section \<open>Rows\<close>

record App =
  aID :: string
  aEnvironmentID :: string
  aName :: string
  aSlug :: string
  SourceType :: string
  GitSourceID :: string
  RepoURL :: string
  Branch :: string
  RootDir :: string
  Builder :: string
  DockerfilePath :: string
  BuildCommand :: string
  StaticDir :: string
  aImage :: string
  Port :: int
  HealthPath :: string
  StartCommand :: string
  ReleaseCommand :: string
  Replicas :: int
  Autoscale :: bool
  MinReplicas :: int
  MaxReplicas :: int
  CPUTarget :: int
  MemoryTarget :: int
  ScaleToZero :: bool
  CPURequestM :: int
  CPULimitM :: int
  MemRequestMB :: int
  MemLimitMB :: int
  AutoDeploy :: bool
  PreviewDeploys :: bool
  aStatus :: string
  aCreatedAt :: instant
  aUpdatedAt :: instant

record Variable =
  vID :: string
  vAppID :: string
  vKey :: string
  IsSecret :: bool
  BuildTime :: bool
  vCreatedAt :: instant
  vUpdatedAt :: instant

record variableRow = Variable +
  vSealed :: string

record SharedVariable =
  svID :: string
  svProjectID :: string
  svKey :: string
  svIsSecret :: bool
  svCreatedAt :: instant
  svUpdatedAt :: instant

record sharedVariableRow = SharedVariable +
  svSealed :: string

record Domain =
  domID :: string
  domAppID :: string
  Hostname :: string
  domPath :: string
  TLS :: bool
  Auto :: bool
  domStatus :: string
  StatusDetail :: string
  domCreatedAt :: instant

record Volume =
  volID :: string
  volAppID :: string
  volName :: string
  MountPath :: string
  SizeGB :: int
  StorageClass :: string
  volCreatedAt :: instant

record AppJob =
  jID :: string
  jAppID :: string
  jName :: string
  Schedule :: string
  Command :: string
  jEnabled :: bool
  jCreatedAt :: instant
  jUpdatedAt :: instant

record panel_db = team_db +
  apps :: "App list"
  app_variables :: "variableRow list"
  shared_variables :: "sharedVariableRow list"
  domains :: "Domain list"
  volumes :: "Volume list"
  app_jobs :: "AppJob list"
  database_slugs :: "(string \<times> string) list"
  git_source_ids :: "string list"
  deps :: "deployment_row list"
  dlogs :: "log_row list"

type_synonym 'a panel_op = "(panel_db, store_err, 'a) op"

section \<open>The other repositories\<close>

text \<open>Of the apps and the deployments, the tables of the teams hold the columns they join on.\<close>

definition team_view :: "panel_db \<Rightarrow> team_db" where
  "team_view s = (team_db.truncate s)\<lparr>app_rows := map (\<lambda>a. (aID a, aEnvironmentID a)) (apps s),
     deployed_at := map (\<lambda>d. (dAppID d, dCreatedAt d)) (deps s)\<rparr>"

text \<open>What goes when an app or a project goes.\<close>

definition cascade :: "panel_db \<Rightarrow> panel_db" where
  "cascade s = (let live = aID ` set (apps s); deployed = dID ` set (filter (\<lambda>d. dAppID d \<in> live) (deps s)) in
     s\<lparr>app_variables := filter (\<lambda>v. vAppID v \<in> live) (app_variables s),
       shared_variables := filter (\<lambda>v. svProjectID v \<in> pID ` set (projects s)) (shared_variables s),
       domains := filter (\<lambda>d. domAppID d \<in> live) (domains s), volumes := filter (\<lambda>v. volAppID v \<in> live) (volumes s),
       app_jobs := filter (\<lambda>j. jAppID j \<in> live) (app_jobs s), deps := filter (\<lambda>d. dAppID d \<in> live) (deps s),
       dlogs := filter (\<lambda>l. deployment_id l \<in> deployed) (dlogs s)\<rparr>)"

definition onTeam :: "(team_db, 'e, 'a) op \<Rightarrow> (panel_db, 'e, 'a) op" where
  "onTeam m s = (case m (team_view s) of (r, t) \<Rightarrow>
     (r, cascade ((team_db.extend t (team_db.more s))\<lparr>apps := filter (\<lambda>a. (aID a, aEnvironmentID a) \<in> set (app_rows t)) (apps s)\<rparr>)))"

definition deploy_view :: "panel_db \<Rightarrow> deploy_db" where
  "deploy_view s = \<lparr>clock = clock s, pauses = pauses s, faults = faults s, entropy = entropy s,
     app_ids = map aID (apps s), deployments = deps s, build_logs = dlogs s\<rparr>"

definition onDeploy :: "(deploy_db, 'e, 'a) op \<Rightarrow> (panel_db, 'e, 'a) op" where
  "onDeploy m s = (case m (deploy_view s) of (r, d) \<Rightarrow>
     (r, s\<lparr>clock := clock d, pauses := pauses d, faults := faults d, entropy := entropy d,
          deps := deployments d, dlogs := build_logs d\<rparr>))"

section \<open>Apps\<close>

definition env_exists :: "string \<Rightarrow> panel_db \<Rightarrow> bool" where
  "env_exists e s \<longleftrightarrow> e \<in> eID ` set (environments s)"

definition app_exists :: "string \<Rightarrow> panel_db \<Rightarrow> bool" where
  "app_exists i s \<longleftrightarrow> i \<in> aID ` set (apps s)"

definition sourceTypes :: "string list" where
  "sourceTypes = [''git'', ''image'', ''upload'', ''compose'']"

definition bad_git_source :: "App \<Rightarrow> panel_db \<Rightarrow> bool" where
  "bad_git_source a s \<longleftrightarrow> GitSourceID a \<noteq> [] \<and> GitSourceID a \<notin> set (git_source_ids s)"

definition insertApp :: "App \<Rightarrow> unit panel_op" where
  "insertApp a s = (if SourceType a \<notin> set sourceTypes then (Inl ErrDB, s)
     else if app_exists (aID a) s \<or> (\<exists>x \<in> set (apps s). aEnvironmentID x = aEnvironmentID a \<and> aSlug x = aSlug a) then (Inl ErrConflict, s)
     else if \<not> env_exists (aEnvironmentID a) s \<or> bad_git_source a s then (Inl ErrDB, s)
     else (Inr (), s\<lparr>apps := apps s @ [a]\<rparr>))"

definition CreateApp :: "App \<Rightarrow> App panel_op" where
  "CreateApp a = bind (idOr (aID a) ''app'') (\<lambda>i. bind timeNow (\<lambda>now.
     bind (stmt (insertApp (a\<lparr>aID := i, SourceType := defaultStr (SourceType a) ''git'', Builder := defaultStr (Builder a) ''auto'',
         aStatus := defaultStr (aStatus a) ''created'', aCreatedAt := now, aUpdatedAt := now\<rparr>))) (\<lambda>_.
     ret (a\<lparr>aID := i, aCreatedAt := now, aUpdatedAt := now\<rparr>))))"

definition GetApp :: "string \<Rightarrow> App panel_op" where
  "GetApp i = query (\<lambda>s. found (find (\<lambda>a. aID a = i) (apps s)))"

text \<open>The columns of an app, in two lines of text with the quotes of an empty string between.\<close>

definition appColumns :: string where
  "appColumns = ''id, environment_id, name, slug, source_type, COALESCE(git_source_id,'' @ [CHR 0x27, CHR 0x27] @ ''), repo_url, branch,'' @
     [CHR 0x0A, CHR 0x09] @ ''root_dir, builder, dockerfile_path, build_command, static_dir, image, port, health_path, start_command, release_command, replicas,'' @
     [CHR 0x0A, CHR 0x09] @ ''autoscale, min_replicas, max_replicas, cpu_target, memory_target, scale_to_zero,'' @
     [CHR 0x0A, CHR 0x09] @ ''cpu_request_m, cpu_limit_m, mem_request_mb, mem_limit_mb, auto_deploy, preview_deploys,'' @
     [CHR 0x0A, CHR 0x09] @ ''status, created_at, updated_at''"

text \<open>SQL has no qualified functions: a name after a dot with an opening parenthesis behind it does not parse.\<close>

definition ident_char :: "char \<Rightarrow> bool" where
  "ident_char c \<longleftrightarrow> to_lower_char c \<in> set ''abcdefghijklmnopqrstuvwxyz_'' \<or> is_digit c"

fun qualified_call :: "bool \<Rightarrow> string \<Rightarrow> bool" where
  "qualified_call qualified [] = False"
| "qualified_call qualified (c # cs) =
     (qualified \<and> c = CHR ''('' \<or> qualified_call (c = CHR ''.'' \<or> qualified \<and> ident_char c) cs)"

definition queryApps :: "string \<Rightarrow> (panel_db \<Rightarrow> App \<Rightarrow> bool) \<Rightarrow> App list panel_op" where
  "queryApps columns cond = query (\<lambda>s. if qualified_call False columns then Inl ErrDB
     else Inr (sort_key (\<lambda>a. text_key (aCreatedAt a)) (filter (cond s) (apps s))))"

definition ListApps :: "string \<Rightarrow> App list panel_op" where
  "ListApps env = queryApps appColumns (\<lambda>s a. aEnvironmentID a = env)"

definition ListAppsForProject :: "string \<Rightarrow> App list panel_op" where
  "ListAppsForProject project = queryApps (prefixColumns ''a'' appColumns)
     (\<lambda>s a. \<exists>e \<in> set (environments s). eID e = aEnvironmentID a \<and> eProjectID e = project)"

definition ListAppsByRepo :: "string \<Rightarrow> App list panel_op" where
  "ListAppsByRepo repo = queryApps appColumns (\<lambda>s a. RepoURL a = repo)"

datatype slug_owner = NobodyOwns | AppOwns | DatabaseOwns

definition SlugOwnerInEnvironment :: "string \<Rightarrow> string \<Rightarrow> slug_owner panel_op" where
  "SlugOwnerInEnvironment env slug = query (\<lambda>s. Inr (if \<exists>a \<in> set (apps s). aEnvironmentID a = env \<and> aSlug a = slug then AppOwns
     else if \<exists>(i, e) \<in> set (database_rows s). e = env \<and> map_of (database_slugs s) i = Some slug then DatabaseOwns
     else NobodyOwns))"

text \<open>The rank of a deployment with an image among those of its app, the newest first.\<close>

definition imageRank :: "deployment_row list \<Rightarrow> deployment_row \<Rightarrow> nat" where
  "imageRank ds d = length (filter (\<lambda>x. dAppID x = dAppID d \<and> Image x \<noteq> [] \<and> Number x \<ge> Number d) ds)"

definition ImagesWorthKeeping :: "int \<Rightarrow> string list panel_op" where
  "ImagesWorthKeeping perApp = (let k = (if perApp < 1 then 1 else perApp) in
     query (\<lambda>s. Inr (remdups (map Image (filter (\<lambda>d. Image d \<noteq> [] \<and> int (imageRank (deps s) d) \<le> k) (deps s))
       @ filter (\<lambda>i. i \<noteq> []) (map aImage (apps s))))))"

definition updateAppRow :: "App \<Rightarrow> instant \<Rightarrow> unit panel_op" where
  "updateAppRow a now s = (case find (\<lambda>x. aID x = aID a) (apps s) of None \<Rightarrow> (Inl ErrNotFound, s)
     | Some old \<Rightarrow> if SourceType a \<notin> set sourceTypes then (Inl ErrDB, s)
       else if \<exists>x \<in> set (apps s). aID x \<noteq> aID a \<and> aEnvironmentID x = aEnvironmentID old \<and> aSlug x = aSlug a then (Inl ErrConflict, s)
       else if bad_git_source a s then (Inl ErrDB, s)
       else (Inr (), s\<lparr>apps := update_rows (\<lambda>x. aID x = aID a)
         (\<lambda>x. a\<lparr>aEnvironmentID := aEnvironmentID x, aCreatedAt := aCreatedAt x, aUpdatedAt := now\<rparr>) (apps s)\<rparr>))"

definition UpdateApp :: "App \<Rightarrow> App panel_op" where
  "UpdateApp a = bind timeNow (\<lambda>now. bind (stmt (updateAppRow a now)) (\<lambda>_. ret (a\<lparr>aUpdatedAt := now\<rparr>)))"

definition SetAppStatus :: "string \<Rightarrow> string \<Rightarrow> unit panel_op" where
  "SetAppStatus i status = bind timeNow (\<lambda>now. stmt (\<lambda>s. (Inr (), s\<lparr>apps := update_rows (\<lambda>a. aID a = i)
     (\<lambda>a. a\<lparr>aStatus := status, aUpdatedAt := now\<rparr>) (apps s)\<rparr>)))"

definition deleteAppRow :: "string \<Rightarrow> unit panel_op" where
  "deleteAppRow i s = (if \<not> app_exists i s then (Inl ErrNotFound, s)
     else (Inr (), cascade (s\<lparr>apps := filter (\<lambda>a. aID a \<noteq> i) (apps s)\<rparr>)))"

definition DeleteApp :: "string \<Rightarrow> unit panel_op" where
  "DeleteApp i = stmt (deleteAppRow i)"

section \<open>Variables\<close>

definition of_key :: "string \<Rightarrow> string \<Rightarrow> variableRow \<Rightarrow> bool" where
  "of_key app key v \<longleftrightarrow> vAppID v = app \<and> vKey v = key"

text \<open>\<^verbatim>\<open>INSERT ... ON CONFLICT (app_id, key) DO UPDATE\<close>: a row of the same app and key keeps its id.\<close>

definition upsertVariable :: "variableRow \<Rightarrow> unit panel_op" where
  "upsertVariable v s = (if \<exists>x \<in> set (app_variables s). of_key (vAppID v) (vKey v) x
     then (Inr (), s\<lparr>app_variables := update_rows (of_key (vAppID v) (vKey v)) (\<lambda>x. x\<lparr>vSealed := vSealed v,
       IsSecret := IsSecret v, BuildTime := BuildTime v, vUpdatedAt := vUpdatedAt v\<rparr>) (app_variables s)\<rparr>)
     else if vID v \<in> vID ` set (app_variables s) then (Inl ErrConflict, s)
     else if \<not> app_exists (vAppID v) s then (Inl ErrDB, s)
     else (Inr (), s\<lparr>app_variables := app_variables s @ [v]\<rparr>))"

definition SetVariable :: "Variable \<Rightarrow> string \<Rightarrow> Variable panel_op" where
  "SetVariable v sealed = bind (idOr (vID v) ''var'') (\<lambda>i. bind timeNow (\<lambda>now.
     bind (stmt (upsertVariable (Variable.extend (v\<lparr>vID := i, vCreatedAt := now, vUpdatedAt := now\<rparr>) (variableRow.fields sealed)))) (\<lambda>_.
     ret (v\<lparr>vID := i, vUpdatedAt := now\<rparr>))))"

definition ListVariables :: "string \<Rightarrow> variableRow list panel_op" where
  "ListVariables app = query (\<lambda>s. Inr (sort_key vKey (filter (\<lambda>v. vAppID v = app) (app_variables s))))"

definition deleteVariableRow :: "string \<Rightarrow> string \<Rightarrow> unit panel_op" where
  "deleteVariableRow app key s = (if affected (of_key app key) (app_variables s) = 0 then (Inl ErrNotFound, s)
     else (Inr (), s\<lparr>app_variables := filter (\<lambda>v. \<not> of_key app key v) (app_variables s)\<rparr>))"

definition DeleteVariable :: "string \<Rightarrow> string \<Rightarrow> unit panel_op" where
  "DeleteVariable app key = stmt (deleteVariableRow app key)"

definition of_project_key :: "string \<Rightarrow> string \<Rightarrow> sharedVariableRow \<Rightarrow> bool" where
  "of_project_key project key v \<longleftrightarrow> svProjectID v = project \<and> svKey v = key"

definition upsertShared :: "sharedVariableRow \<Rightarrow> unit panel_op" where
  "upsertShared v s = (if \<exists>x \<in> set (shared_variables s). of_project_key (svProjectID v) (svKey v) x
     then (Inr (), s\<lparr>shared_variables := update_rows (of_project_key (svProjectID v) (svKey v)) (\<lambda>x. x\<lparr>svSealed := svSealed v,
       svIsSecret := svIsSecret v, svUpdatedAt := svUpdatedAt v\<rparr>) (shared_variables s)\<rparr>)
     else if svID v \<in> svID ` set (shared_variables s) then (Inl ErrConflict, s)
     else if svProjectID v \<notin> pID ` set (projects s) then (Inl ErrDB, s)
     else (Inr (), s\<lparr>shared_variables := shared_variables s @ [v]\<rparr>))"

definition SetSharedVariable :: "SharedVariable \<Rightarrow> string \<Rightarrow> SharedVariable panel_op" where
  "SetSharedVariable v sealed = bind (idOr (svID v) ''svar'') (\<lambda>i. bind timeNow (\<lambda>now.
     bind (stmt (upsertShared (SharedVariable.extend (v\<lparr>svID := i, svCreatedAt := now, svUpdatedAt := now\<rparr>) (sharedVariableRow.fields sealed)))) (\<lambda>_.
     ret (v\<lparr>svID := i\<rparr>))))"

definition ListSharedVariables :: "string \<Rightarrow> sharedVariableRow list panel_op" where
  "ListSharedVariables project = query (\<lambda>s. Inr (sort_key svKey (filter (\<lambda>v. svProjectID v = project) (shared_variables s))))"

definition deleteSharedRow :: "string \<Rightarrow> string \<Rightarrow> unit panel_op" where
  "deleteSharedRow project key s = (if affected (of_project_key project key) (shared_variables s) = 0 then (Inl ErrNotFound, s)
     else (Inr (), s\<lparr>shared_variables := filter (\<lambda>v. \<not> of_project_key project key v) (shared_variables s)\<rparr>))"

definition DeleteSharedVariable :: "string \<Rightarrow> string \<Rightarrow> unit panel_op" where
  "DeleteSharedVariable project key = stmt (deleteSharedRow project key)"

section \<open>Domains\<close>

definition insertDomain :: "Domain \<Rightarrow> unit panel_op" where
  "insertDomain d s = (if domID d \<in> domID ` set (domains s) \<or> Hostname d \<in> Hostname ` set (domains s) then (Inl ErrConflict, s)
     else if \<not> app_exists (domAppID d) s then (Inl ErrDB, s)
     else (Inr (), s\<lparr>domains := domains s @ [d]\<rparr>))"

definition CreateDomain :: "Domain \<Rightarrow> Domain panel_op" where
  "CreateDomain d = bind (idOr (domID d) ''dom'') (\<lambda>i. bind timeNow (\<lambda>now.
     bind (stmt (insertDomain (d\<lparr>domID := i, domPath := defaultStr (domPath d) ''/'', domStatus := defaultStr (domStatus d) ''pending'',
       domCreatedAt := now\<rparr>))) (\<lambda>_. ret (d\<lparr>domID := i, domCreatedAt := now\<rparr>))))"

definition ownerOf :: "string \<Rightarrow> panel_db \<Rightarrow> string" where
  "ownerOf host s = (case find (\<lambda>d. Hostname d = host) (domains s) of None \<Rightarrow> [] | Some d \<Rightarrow> domAppID d)"

definition DomainOwner :: "string \<Rightarrow> string panel_op" where
  "DomainOwner host = query (\<lambda>s. Inr (ownerOf host s))"

definition ListDomains :: "string \<Rightarrow> Domain list panel_op" where
  "ListDomains app = query (\<lambda>s. Inr (sort_key (\<lambda>d. (\<not> Auto d, Hostname d)) (filter (\<lambda>d. domAppID d = app) (domains s))))"

definition setAutoRow :: "string \<Rightarrow> string \<Rightarrow> bool \<Rightarrow> unit panel_op" where
  "setAutoRow i host tls s = (if (\<exists>d \<in> set (domains s). domID d = i \<and> Auto d) \<and> (\<exists>d \<in> set (domains s). domID d \<noteq> i \<and> Hostname d = host)
     then (Inl ErrConflict, s)
     else (Inr (), s\<lparr>domains := update_rows (\<lambda>d. domID d = i \<and> Auto d)
       (\<lambda>d. d\<lparr>Hostname := host, TLS := tls, domStatus := ''pending'', StatusDetail := []\<rparr>) (domains s)\<rparr>))"

definition SetAutoDomain :: "string \<Rightarrow> string \<Rightarrow> bool \<Rightarrow> unit panel_op" where
  "SetAutoDomain i host tls = stmt (setAutoRow i host tls)"

definition SetDomainStatus :: "string \<Rightarrow> string \<Rightarrow> string \<Rightarrow> unit panel_op" where
  "SetDomainStatus i status detail = stmt (\<lambda>s. (Inr (), s\<lparr>domains := update_rows (\<lambda>d. domID d = i)
     (\<lambda>d. d\<lparr>domStatus := status, StatusDetail := detail\<rparr>) (domains s)\<rparr>))"

definition deleteDomainRow :: "string \<Rightarrow> unit panel_op" where
  "deleteDomainRow i s = (if affected (\<lambda>d. domID d = i) (domains s) = 0 then (Inl ErrNotFound, s)
     else (Inr (), s\<lparr>domains := filter (\<lambda>d. domID d \<noteq> i) (domains s)\<rparr>))"

definition DeleteDomain :: "string \<Rightarrow> unit panel_op" where
  "DeleteDomain i = stmt (deleteDomainRow i)"

section \<open>Volumes and scheduled commands\<close>

definition insertVolume :: "Volume \<Rightarrow> unit panel_op" where
  "insertVolume v s = (if volID v \<in> volID ` set (volumes s) \<or> (\<exists>x \<in> set (volumes s). volAppID x = volAppID v \<and> volName x = volName v)
     then (Inl ErrConflict, s) else if \<not> app_exists (volAppID v) s then (Inl ErrDB, s)
     else (Inr (), s\<lparr>volumes := volumes s @ [v]\<rparr>))"

definition CreateVolume :: "Volume \<Rightarrow> Volume panel_op" where
  "CreateVolume v = bind (idOr (volID v) ''vol'') (\<lambda>i. bind timeNow (\<lambda>now. let row = v\<lparr>volID := i, volCreatedAt := now\<rparr> in
     bind (stmt (insertVolume row)) (\<lambda>_. ret row)))"

definition ListVolumes :: "string \<Rightarrow> Volume list panel_op" where
  "ListVolumes app = query (\<lambda>s. Inr (sort_key volName (filter (\<lambda>v. volAppID v = app) (volumes s))))"

definition GetVolume :: "string \<Rightarrow> Volume panel_op" where
  "GetVolume i = query (\<lambda>s. found (find (\<lambda>v. volID v = i) (volumes s)))"

definition deleteVolumeRow :: "string \<Rightarrow> string \<Rightarrow> unit panel_op" where
  "deleteVolumeRow app i s = (if affected (\<lambda>v. volID v = i \<and> volAppID v = app) (volumes s) = 0 then (Inl ErrNotFound, s)
     else (Inr (), s\<lparr>volumes := filter (\<lambda>v. \<not> (volID v = i \<and> volAppID v = app)) (volumes s)\<rparr>))"

definition DeleteVolume :: "string \<Rightarrow> string \<Rightarrow> unit panel_op" where
  "DeleteVolume app i = stmt (deleteVolumeRow app i)"

definition insertJob :: "AppJob \<Rightarrow> unit panel_op" where
  "insertJob j s = (if jID j \<in> jID ` set (app_jobs s) \<or> (\<exists>x \<in> set (app_jobs s). jAppID x = jAppID j \<and> jName x = jName j)
     then (Inl ErrConflict, s) else if \<not> app_exists (jAppID j) s then (Inl ErrDB, s)
     else (Inr (), s\<lparr>app_jobs := app_jobs s @ [j]\<rparr>))"

definition CreateAppJob :: "AppJob \<Rightarrow> AppJob panel_op" where
  "CreateAppJob j = bind (idOr (jID j) ''job'') (\<lambda>i. bind timeNow (\<lambda>now. let row = j\<lparr>jID := i, jCreatedAt := now, jUpdatedAt := now\<rparr> in
     bind (stmt (insertJob row)) (\<lambda>_. ret row)))"

definition ListAppJobs :: "string \<Rightarrow> AppJob list panel_op" where
  "ListAppJobs app = query (\<lambda>s. Inr (sort_key jName (filter (\<lambda>j. jAppID j = app) (app_jobs s))))"

definition updateJobRow :: "AppJob \<Rightarrow> instant \<Rightarrow> unit panel_op" where
  "updateJobRow j now s = (let p = (\<lambda>x. jID x = jID j \<and> jAppID x = jAppID j) in
     if affected p (app_jobs s) = 0 then (Inl ErrNotFound, s)
     else if \<exists>x \<in> set (app_jobs s). jID x \<noteq> jID j \<and> jAppID x = jAppID j \<and> jName x = jName j then (Inl ErrConflict, s)
     else (Inr (), s\<lparr>app_jobs := update_rows p (\<lambda>x. x\<lparr>jName := jName j, Schedule := Schedule j, Command := Command j,
       jEnabled := jEnabled j, jUpdatedAt := now\<rparr>) (app_jobs s)\<rparr>))"

definition UpdateAppJob :: "AppJob \<Rightarrow> unit panel_op" where
  "UpdateAppJob j = bind timeNow (\<lambda>now. stmt (updateJobRow j now))"

definition deleteJobRow :: "string \<Rightarrow> string \<Rightarrow> unit panel_op" where
  "deleteJobRow app i s = (if affected (\<lambda>j. jID j = i \<and> jAppID j = app) (app_jobs s) = 0 then (Inl ErrNotFound, s)
     else (Inr (), s\<lparr>app_jobs := filter (\<lambda>j. \<not> (jID j = i \<and> jAppID j = app)) (app_jobs s)\<rparr>))"

definition DeleteAppJob :: "string \<Rightarrow> string \<Rightarrow> unit panel_op" where
  "DeleteAppJob app i = stmt (deleteJobRow app i)"

section \<open>Deployed apps\<close>

record DeployedApp = App +
  daTeamID :: string
  daNamespace :: string

text \<open>What the row of a deployed app is scanned into.\<close>

definition deployedAppDestinations :: "string list" where
  "deployedAppDestinations = [''ID'', ''EnvironmentID'', ''Name'', ''Slug'', ''SourceType'', ''GitSourceID'',
     ''RepoURL'', ''Branch'', ''RootDir'', ''Builder'', ''DockerfilePath'', ''Image'', ''Port'',
     ''HealthPath'', ''StartCommand'', ''ReleaseCommand'', ''Replicas'', ''Autoscale'', ''MinReplicas'', ''MaxReplicas'',
     ''CPUTarget'', ''MemoryTarget'', ''ScaleToZero'', ''CPURequestM'', ''CPULimitM'',
     ''MemRequestMB'', ''MemLimitMB'', ''AutoDeploy'', ''PreviewDeploys'', ''Status'',
     ''created'', ''updated'', ''TeamID'', ''Namespace'']"

text \<open>The number of columns of a list of names and of calls with a list of arguments each.\<close>

fun columnCount :: "nat \<Rightarrow> string \<Rightarrow> nat" where
  "columnCount depth [] = 1"
| "columnCount depth (c # cs) = (if c = CHR ''('' then columnCount (depth + 1) cs
     else if c = CHR '')'' then columnCount (depth - 1) cs
     else (if c = CHR '','' \<and> depth = 0 then 1 else 0) + columnCount depth cs)"

definition deployedApps :: "panel_db \<Rightarrow> DeployedApp list" where
  "deployedApps s = concat (map (\<lambda>a. concat (map (\<lambda>e. map (\<lambda>p. App.extend a (DeployedApp.fields (pTeamID p) (Namespace e)))
       (filter (\<lambda>p. pID p = eProjectID e) (projects s)))
     (filter (\<lambda>e. eID e = aEnvironmentID a) (environments s))))
     (sort_key (\<lambda>a. text_key (aCreatedAt a)) (filter (\<lambda>a. aStatus a \<noteq> ''created'') (apps s))))"

definition ListDeployedApps :: "DeployedApp list panel_op" where
  "ListDeployedApps = (let columns = prefixColumns ''a'' appColumns @ '', p.team_id, e.namespace'' in
     query (\<lambda>s. if qualified_call False columns then Inl ErrDB
       else if deployedApps s \<noteq> [] \<and> columnCount 0 columns \<noteq> length deployedAppDestinations then Inl ErrDB
       else Inr (deployedApps s)))"

section \<open>What the schema guarantees\<close>

text \<open>Rows with two unique keys.\<close>

definition keyed :: "('r \<Rightarrow> 'a) \<Rightarrow> ('r \<Rightarrow> 'b) \<Rightarrow> 'r list \<Rightarrow> bool" where
  "keyed k1 k2 rows \<longleftrightarrow> distinct (map k1 rows) \<and> distinct (map k2 rows)"

lemma keyed_Nil [simp]: "keyed k1 k2 []"
  by (simp add: keyed_def)

lemma keyed_snoc [simp]: "keyed k1 k2 (rows @ [r]) \<longleftrightarrow> keyed k1 k2 rows \<and> k1 r \<notin> k1 ` set rows \<and> k2 r \<notin> k2 ` set rows"
  by (auto simp: keyed_def)

lemma keyed_filter [simp]: "keyed k1 k2 rows \<Longrightarrow> keyed k1 k2 (filter p rows)"
  by (simp add: keyed_def distinct_map_filter)

lemma keyed_update:
  "keyed k1 k2 rows \<Longrightarrow> (\<And>r. k1 (f r) = k1 r) \<Longrightarrow> (\<And>r. k2 (f r) = k2 r) \<Longrightarrow> keyed k1 k2 (update_rows p f rows)"
  by (simp add: keyed_def map_update_rows)

lemma map_update_same: "(\<And>r. r \<in> set rows \<Longrightarrow> p r \<Longrightarrow> k (f r) = k r) \<Longrightarrow> map k (update_rows p f rows) = map k rows"
  by (simp add: update_rows_def)

text \<open>Changing the second key of the one row with a given first key, to one no other row has.\<close>

lemma keyed_rekey:
  assumes "keyed k1 k2 rows" and "\<And>r. p r \<Longrightarrow> k1 r = i" and "\<And>r. r \<in> set rows \<Longrightarrow> p r \<Longrightarrow> k1 (f r) = k1 r"
    and "\<And>r. r \<in> set rows \<Longrightarrow> p r \<Longrightarrow> k2 (f r) = k" and "\<And>r. r \<in> set rows \<Longrightarrow> k1 r \<noteq> i \<Longrightarrow> k2 r \<noteq> k"
  shows "keyed k1 k2 (update_rows p f rows)"
  using assms(1,3-5)
proof (induction rows)
  case Nil
  then show ?case by (simp add: update_rows_def)
next
  case (Cons r rows)
  have ids: "map k1 (update_rows p f (r # rows)) = map k1 (r # rows)"
    by (rule map_update_same) (use Cons.prems(2) in auto)
  have tl: "keyed k1 k2 (update_rows p f rows)" using Cons by (auto simp: keyed_def)
  have rest: "update_rows p f rows = rows" if "p r"
    using that Cons.prems(1) assms(2) by (auto simp: update_rows_def keyed_def intro!: map_idI) (metis imageI)
  have other: "k2 x \<noteq> k2 (if p r then f r else r)" if "x \<in> set (update_rows p f rows)" for x
  proof (cases "p r")
    case True
    with that rest have "x \<in> set rows" by simp
    moreover have "k1 x \<noteq> i" using Cons.prems(1) assms(2) [OF True] calculation by (auto simp: keyed_def image_iff)
    ultimately show ?thesis using True Cons.prems(3) [of r] Cons.prems(4) [of x] by auto
  next
    case False
    from that show ?thesis
    proof (cases rule: update_rowsE)
      case (hit y)
      then have "k1 r \<noteq> i" using Cons.prems(1) assms(2) [OF hit(2)] by (auto simp: keyed_def image_iff)
      with hit False Cons.prems(3) [of y] Cons.prems(4) [of r] show ?thesis by auto
    next
      case miss
      with False Cons.prems(1) show ?thesis by (auto simp: keyed_def image_iff)
    qed
  qed
  have step: "update_rows p f (r # rows) = (if p r then f r else r) # update_rows p f rows"
    by (simp add: update_rows_def)
  have "distinct (map k1 (update_rows p f (r # rows)))"
    unfolding ids using Cons.prems(1) by (simp add: keyed_def)
  moreover have "distinct (map k2 (update_rows p f (r # rows)))"
  proof -
    have "k2 (if p r then f r else r) \<notin> k2 ` set (update_rows p f rows)" using other by (metis imageE)
    with tl show ?thesis unfolding step by (simp add: keyed_def)
  qed
  ultimately show ?case by (simp add: keyed_def)
qed

lemma set_update_image: "(\<And>r. r \<in> set rows \<Longrightarrow> p r \<Longrightarrow> k (f r) = k r) \<Longrightarrow> k ` set (update_rows p f rows) = k ` set rows"
  by (metis list.set_map map_update_same)

definition apps_ok :: "panel_db \<Rightarrow> bool" where
  "apps_ok s \<longleftrightarrow> keyed aID (\<lambda>a. (aEnvironmentID a, aSlug a)) (apps s) \<and> aEnvironmentID ` set (apps s) \<subseteq> eID ` set (environments s)
     \<and> keyed vID (\<lambda>v. (vAppID v, vKey v)) (app_variables s) \<and> vAppID ` set (app_variables s) \<subseteq> aID ` set (apps s)
     \<and> keyed svID (\<lambda>v. (svProjectID v, svKey v)) (shared_variables s) \<and> svProjectID ` set (shared_variables s) \<subseteq> pID ` set (projects s)
     \<and> keyed domID Hostname (domains s) \<and> domAppID ` set (domains s) \<subseteq> aID ` set (apps s)
     \<and> keyed volID (\<lambda>v. (volAppID v, volName v)) (volumes s) \<and> volAppID ` set (volumes s) \<subseteq> aID ` set (apps s)
     \<and> keyed jID (\<lambda>j. (jAppID j, jName j)) (app_jobs s) \<and> jAppID ` set (app_jobs s) \<subseteq> aID ` set (apps s)
     \<and> deploy_ok (deploy_view s)"

lemma deploy_ok_tables:
  "deploy_ok s = deploy_ok \<lparr>clock = 0, pauses = [], faults = [], entropy = [], app_ids = app_ids s, deployments = deployments s, build_logs = build_logs s\<rparr>"
  by (simp add: deploy_ok_def)

lemma deploy_ok_view [simp]:
  "deploy_ok (deploy_view (s\<lparr>clock := c\<rparr>)) = deploy_ok (deploy_view s)" "deploy_ok (deploy_view (s\<lparr>pauses := p\<rparr>)) = deploy_ok (deploy_view s)"
  "deploy_ok (deploy_view (s\<lparr>faults := f\<rparr>)) = deploy_ok (deploy_view s)" "deploy_ok (deploy_view (s\<lparr>entropy := n\<rparr>)) = deploy_ok (deploy_view s)"
  by (simp_all add: deploy_ok_def deploy_view_def)

interpretation apps_inv: env_free apps_ok
  by unfold_locales (simp_all add: apps_ok_def)

lemma deploy_ok_view_same:
  "map aID (apps s) = map aID (apps s') \<Longrightarrow> deps s = deps s' \<Longrightarrow> dlogs s = dlogs s' \<Longrightarrow> deploy_ok (deploy_view s) = deploy_ok (deploy_view s')"
  by (simp add: deploy_ok_def deploy_view_def)

subsection \<open>Every statement keeps it\<close>

lemma deploy_ok_more_apps: "deploy_ok (deploy_view s) \<Longrightarrow> deploy_ok (deploy_view (s\<lparr>apps := apps s @ [a]\<rparr>))"
  by (auto simp: deploy_ok_def deploy_view_def)

lemma deploy_view_apps [simp]:
  "deploy_view (s\<lparr>app_variables := v\<rparr>) = deploy_view s" "deploy_view (s\<lparr>shared_variables := sv\<rparr>) = deploy_view s"
  "deploy_view (s\<lparr>domains := d\<rparr>) = deploy_view s" "deploy_view (s\<lparr>volumes := vo\<rparr>) = deploy_view s"
  "deploy_view (s\<lparr>app_jobs := j\<rparr>) = deploy_view s"
  by (simp_all add: deploy_view_def)

lemma keeps_insertApp: "keeps apps_ok (insertApp a)"
  by (auto simp: keeps_def insertApp_def apps_ok_def app_exists_def env_exists_def deploy_ok_more_apps)

lemma apps_ok_update_apps:
  assumes "apps_ok s" "keyed aID (\<lambda>a. (aEnvironmentID a, aSlug a)) (update_rows p f (apps s))"
    and "\<And>a. a \<in> set (apps s) \<Longrightarrow> p a \<Longrightarrow> aID (f a) = aID a" "\<And>a. aEnvironmentID (f a) = aEnvironmentID a"
  shows "apps_ok (s\<lparr>apps := update_rows p f (apps s)\<rparr>)"
proof -
  have ids: "map aID (update_rows p f (apps s)) = map aID (apps s)" using assms(3) by (rule map_update_same)
  then have "aID ` set (update_rows p f (apps s)) = aID ` set (apps s)" by (metis list.set_map)
  moreover have "aEnvironmentID ` set (update_rows p f (apps s)) = aEnvironmentID ` set (apps s)"
    by (rule set_update_image) (rule assms(4))
  moreover have "deploy_ok (deploy_view (s\<lparr>apps := update_rows p f (apps s)\<rparr>)) = deploy_ok (deploy_view s)"
    by (rule deploy_ok_view_same) (simp_all add: ids)
  ultimately show ?thesis using assms(1,2) by (simp add: apps_ok_def)
qed

lemma keeps_updateAppRow: "keeps apps_ok (updateAppRow a now)"
proof -
  have "apps_ok (s\<lparr>apps := update_rows (\<lambda>x. aID x = aID a) (\<lambda>x. a\<lparr>aEnvironmentID := aEnvironmentID x, aCreatedAt := aCreatedAt x, aUpdatedAt := now\<rparr>) (apps s)\<rparr>)"
    if ok: "apps_ok s" and old: "find (\<lambda>x. aID x = aID a) (apps s) = Some old"
      and free: "\<not> (\<exists>x \<in> set (apps s). aID x \<noteq> aID a \<and> aEnvironmentID x = aEnvironmentID old \<and> aSlug x = aSlug a)" for s old
  proof -
    have o: "old \<in> set (apps s)" "aID old = aID a" using old by (auto simp: find_Some_iff)
    have d: "distinct (map aID (apps s))" using ok by (simp add: apps_ok_def keyed_def)
    have one: "x = old" if "x \<in> set (apps s)" "aID x = aID a" for x
      using that o d by (auto simp: distinct_map inj_on_def)
    show ?thesis
    proof (rule apps_ok_update_apps [OF ok])
      show "keyed aID (\<lambda>a. (aEnvironmentID a, aSlug a)) (update_rows (\<lambda>x. aID x = aID a)
          (\<lambda>x. a\<lparr>aEnvironmentID := aEnvironmentID x, aCreatedAt := aCreatedAt x, aUpdatedAt := now\<rparr>) (apps s))"
        by (rule keyed_rekey [where i = "aID a" and k = "(aEnvironmentID old, aSlug a)"])
          (use ok free one in \<open>auto simp: apps_ok_def\<close>)
    qed auto
  qed
  then show ?thesis by (auto simp: keeps_def updateAppRow_def split: option.splits)
qed

lemma keeps_setStatus: "keeps apps_ok (\<lambda>s. (Inr (), s\<lparr>apps := update_rows (\<lambda>a. aID a = i) (\<lambda>a. a\<lparr>aStatus := st, aUpdatedAt := now\<rparr>) (apps s)\<rparr>))"
proof -
  have "apps_ok (s\<lparr>apps := update_rows (\<lambda>a. aID a = i) (\<lambda>a. a\<lparr>aStatus := st, aUpdatedAt := now\<rparr>) (apps s)\<rparr>)" if "apps_ok s" for s
    by (rule apps_ok_update_apps [OF that]) (use that in \<open>auto simp: apps_ok_def intro!: keyed_update\<close>)
  then show ?thesis by (simp add: keeps_def)
qed

text \<open>Removing apps, with what hangs off them.\<close>

lemma cascade_apps [simp]:
  "apps (cascade s) = apps s" "environments (cascade s) = environments s" "projects (cascade s) = projects s"
  by (simp_all add: cascade_def Let_def)

lemma deploy_ok_cascade:
  assumes "deploy_ok (deploy_view s)" shows "deploy_ok (deploy_view (cascade (s\<lparr>apps := as\<rparr>)))"
  using assms by (auto simp: deploy_ok_def deploy_view_def cascade_def Let_def distinct_map_filter)

lemma apps_ok_cascade:
  assumes "apps_ok s" and "apps s' = filter p (apps s)" and "aEnvironmentID ` set (apps s') \<subseteq> eID ` set (environments s')"
    and "app_variables s' = app_variables s" "shared_variables s' = shared_variables s" "domains s' = domains s"
    "volumes s' = volumes s" "app_jobs s' = app_jobs s" "deps s' = deps s" "dlogs s' = dlogs s"
  shows "apps_ok (cascade s')"
proof -
  have "deploy_ok (deploy_view (cascade s')) = deploy_ok (deploy_view (cascade (s\<lparr>apps := apps s'\<rparr>)))"
    by (rule deploy_ok_view_same) (simp_all add: cascade_def Let_def assms)
  then show ?thesis
    using assms deploy_ok_cascade [of s "apps s'"] by (auto simp: apps_ok_def cascade_def Let_def)
qed

lemma keeps_deleteAppRow: "keeps apps_ok (deleteAppRow i)"
proof -
  have "apps_ok (cascade (s\<lparr>apps := filter (\<lambda>a. aID a \<noteq> i) (apps s)\<rparr>))" if ok: "apps_ok s" for s
    by (rule apps_ok_cascade [OF ok, where p = "\<lambda>a. aID a \<noteq> i"]) (use ok in \<open>auto simp: apps_ok_def\<close>)
  then show ?thesis by (auto simp: keeps_def deleteAppRow_def)
qed

text \<open>Deleting environments and projects.\<close>

definition team_refs :: "team_db \<Rightarrow> bool" where
  "team_refs t \<longleftrightarrow> snd ` set (app_rows t) \<subseteq> eID ` set (environments t)"

interpretation refs_inv: env_free team_refs
  by unfold_locales (simp_all add: team_refs_def)

lemma extend_panel [simp]:
  "app_variables (team_db.extend t (team_db.more s)) = app_variables (s :: panel_db)"
  "shared_variables (team_db.extend t (team_db.more s)) = shared_variables s" "domains (team_db.extend t (team_db.more s)) = domains s"
  "volumes (team_db.extend t (team_db.more s)) = volumes s" "app_jobs (team_db.extend t (team_db.more s)) = app_jobs s"
  "deps (team_db.extend t (team_db.more s)) = deps s" "dlogs (team_db.extend t (team_db.more s)) = dlogs s"
  "environments (team_db.extend t (team_db.more s)) = environments t" "projects (team_db.extend t (team_db.more s)) = projects t"
  by (cases s, simp add: team_db.defs)+

lemma keeps_onTeam:
  assumes "keeps team_refs m" shows "keeps apps_ok (onTeam m)"
proof -
  have "apps_ok (snd (onTeam m s))" if ok: "apps_ok s" for s
  proof -
    obtain r t where m: "m (team_view s) = (r, t)" by force
    have "team_refs (team_view s)" using ok by (auto simp: team_refs_def team_view_def apps_ok_def team_db.defs)
    with assms m have refs: "team_refs t" by (auto dest: keepsD)
    let ?as = "filter (\<lambda>a. (aID a, aEnvironmentID a) \<in> set (app_rows t)) (apps s)"
    have "apps_ok (cascade ((team_db.extend t (team_db.more s))\<lparr>apps := ?as\<rparr>))"
      by (rule apps_ok_cascade [OF ok, where p = "\<lambda>a. (aID a, aEnvironmentID a) \<in> set (app_rows t)"])
        (use refs in \<open>auto simp: team_refs_def\<close>)
    then show ?thesis by (simp add: onTeam_def m)
  qed
  then show ?thesis by (simp add: keeps_def)
qed

lemma team_refs_drop: "team_refs s \<Longrightarrow> team_refs (dropEnvironments p s)"
proof (unfold team_refs_def, rule subsetI)
  fix b assume refs: "snd ` set (app_rows s) \<subseteq> eID ` set (environments s)"
    and "b \<in> snd ` set (app_rows (dropEnvironments p s))"
  then have b: "b \<in> snd ` set (app_rows s)" "b \<notin> eID ` set (filter p (environments s))"
    by (auto simp: dropEnvironments_def Let_def)
  with refs obtain e where "e \<in> set (environments s)" "b = eID e" by blast
  with b(2) have "b \<in> eID ` set (filter (\<lambda>e. \<not> p e) (environments s))" by auto
  then show "b \<in> eID ` set (environments (dropEnvironments p s))" by (simp add: dropEnvironments_def Let_def)
qed

lemma team_refs_projects: "team_refs (s\<lparr>projects := ps\<rparr>) = team_refs s"
  by (simp add: team_refs_def)

lemma keeps_refs_delete: "keeps team_refs (DeleteEnvironment i)" "keeps team_refs (DeleteProject i)"
  unfolding DeleteEnvironment_def DeleteProject_def
  by (rule refs_inv.keeps_stmt, simp add: keeps_def deleteEnvironmentRow_def deleteProjectRow_def team_refs_drop team_refs_projects)+

lemma keeps_upsertVariable: "keeps apps_ok (upsertVariable v)"
  by (auto simp: keeps_def upsertVariable_def apps_ok_def app_exists_def of_key_def set_update_image intro!: keyed_update)

lemma keeps_deleteVariableRow: "keeps apps_ok (deleteVariableRow app key)"
  by (auto simp: keeps_def deleteVariableRow_def apps_ok_def)

lemma keeps_upsertShared: "keeps apps_ok (upsertShared v)"
  by (auto simp: keeps_def upsertShared_def apps_ok_def of_project_key_def set_update_image intro!: keyed_update)

lemma keeps_deleteSharedRow: "keeps apps_ok (deleteSharedRow project key)"
  by (auto simp: keeps_def deleteSharedRow_def apps_ok_def)

lemma keeps_insertDomain: "keeps apps_ok (insertDomain d)"
  by (auto simp: keeps_def insertDomain_def apps_ok_def app_exists_def)

lemma apps_ok_domains:
  "apps_ok s \<Longrightarrow> keyed domID Hostname ds \<Longrightarrow> domAppID ` set ds \<subseteq> aID ` set (apps s) \<Longrightarrow> apps_ok (s\<lparr>domains := ds\<rparr>)"
  by (simp add: apps_ok_def)

lemma keeps_setAutoRow: "keeps apps_ok (setAutoRow i host tls)"
proof -
  let ?p = "\<lambda>d. domID d = i \<and> Auto d" and ?f = "\<lambda>d. d\<lparr>Hostname := host, TLS := tls, domStatus := ''pending'', StatusDetail := []\<rparr>"
  have "apps_ok (s\<lparr>domains := update_rows ?p ?f (domains s)\<rparr>)"
    if ok: "apps_ok s" and free: "(\<exists>d \<in> set (domains s). ?p d) \<longrightarrow> (\<forall>d \<in> set (domains s). domID d \<noteq> i \<longrightarrow> Hostname d \<noteq> host)" for s
  proof (cases "\<exists>d \<in> set (domains s). ?p d")
    case True
    show ?thesis
      by (rule apps_ok_domains [OF ok], rule keyed_rekey [where i = i and k = host])
        (use ok True free in \<open>auto simp: apps_ok_def set_update_image\<close>)
  next
    case False
    then have "update_rows ?p ?f (domains s) = domains s" by (auto simp: update_rows_def intro!: map_idI)
    with ok show ?thesis by simp
  qed
  then show ?thesis by (auto simp: keeps_def setAutoRow_def)
qed

lemma keeps_domainStatus: "keeps apps_ok (\<lambda>s. (Inr (), s\<lparr>domains := update_rows (\<lambda>d. domID d = i) (\<lambda>d. d\<lparr>domStatus := st, StatusDetail := dt\<rparr>) (domains s)\<rparr>))"
  by (auto simp: keeps_def apps_ok_def set_update_image intro!: keyed_update)

lemma keeps_deleteDomainRow: "keeps apps_ok (deleteDomainRow i)"
  by (auto simp: keeps_def deleteDomainRow_def apps_ok_def)

lemma keeps_volume_rows: "keeps apps_ok (insertVolume v)" "keeps apps_ok (deleteVolumeRow app i)"
  by (auto simp: keeps_def insertVolume_def deleteVolumeRow_def apps_ok_def app_exists_def)

lemma keeps_job_rows: "keeps apps_ok (insertJob j)" "keeps apps_ok (deleteJobRow app i)"
  by (auto simp: keeps_def insertJob_def deleteJobRow_def apps_ok_def app_exists_def)

lemma apps_ok_jobs:
  "apps_ok s \<Longrightarrow> keyed jID (\<lambda>j. (jAppID j, jName j)) js \<Longrightarrow> jAppID ` set js \<subseteq> aID ` set (apps s) \<Longrightarrow> apps_ok (s\<lparr>app_jobs := js\<rparr>)"
  by (simp add: apps_ok_def)

lemma keeps_updateJobRow: "keeps apps_ok (updateJobRow j now)"
proof -
  let ?p = "\<lambda>x. jID x = jID j \<and> jAppID x = jAppID j"
  let ?f = "\<lambda>x. x\<lparr>jName := jName j, Schedule := Schedule j, Command := Command j, jEnabled := jEnabled j, jUpdatedAt := now\<rparr>"
  have "apps_ok (s\<lparr>app_jobs := update_rows ?p ?f (app_jobs s)\<rparr>)"
    if ok: "apps_ok s" and free: "\<forall>x \<in> set (app_jobs s). jID x \<noteq> jID j \<longrightarrow> jAppID x = jAppID j \<longrightarrow> jName x \<noteq> jName j" for s
    by (rule apps_ok_jobs [OF ok], rule keyed_rekey [where i = "jID j" and k = "(jAppID j, jName j)"])
      (use ok free in \<open>auto simp: apps_ok_def set_update_image\<close>)
  then show ?thesis by (auto simp: keeps_def updateJobRow_def Let_def)
qed

text \<open>The writes of deployments leave the apps alone.\<close>

interpretation ids_inv: env_free "\<lambda>s :: deploy_db. app_ids s = A"
  by unfold_locales simp_all

lemma keeps_ids_rows:
  "keeps (\<lambda>s. app_ids s = A) (insertDeployment r)" "keeps (\<lambda>s. app_ids s = A) (insertLog l)" "keeps (\<lambda>s. app_ids s = A) (update_deployments p f)"
  "keeps (\<lambda>s. app_ids s = A) (\<lambda>s. if c s then (Inl ErrDB, s) else update_deployments (q s) (g s) s)"
  by (auto simp: keeps_def insertDeployment_def insertLog_def update_deployments_def)

lemma keeps_ids_lines: "keeps (\<lambda>s. app_ids s = A) (appendLines dep n ls)"
  by (induction ls arbitrary: n) (auto intro!: keeps_intros ids_inv.keeps_env keeps_ids_rows)

lemma keeps_ids_call: "keeps (\<lambda>s. app_ids s = A) (deploy_call_op c)"
proof (cases c)
  case (PruneBuildLogsC a k)
  then show ?thesis by (auto simp: deploy_write_defs keeps_def intro!: ids_inv.keeps_stmt [unfolded keeps_def, rule_format])
qed (auto simp: deploy_write_defs intro!: keeps_intros ids_inv.keeps_env keeps_ids_rows keeps_ids_lines)

lemma keeps_onDeploy:
  assumes "keeps deploy_ok m" "\<And>A. keeps (\<lambda>s. app_ids s = A) m" shows "keeps apps_ok (onDeploy m)"
proof -
  have "apps_ok (snd (onDeploy m s))" if ok: "apps_ok s" for s
  proof -
    obtain r d where m: "m (deploy_view s) = (r, d)" by force
    have "deploy_ok d" using ok assms(1) m by (auto simp: apps_ok_def dest: keepsD)
    moreover have "app_ids d = map aID (apps s)"
      using keepsD [OF assms(2) _ m, of "app_ids (deploy_view s)"] by (simp add: deploy_view_def)
    ultimately have "deploy_ok (deploy_view (s\<lparr>clock := clock d, pauses := pauses d, faults := faults d, entropy := entropy d,
        deps := deployments d, dlogs := build_logs d\<rparr>))"
      by (simp add: deploy_ok_def deploy_view_def)
    with ok show ?thesis by (simp add: onDeploy_def m apps_ok_def)
  qed
  then show ?thesis by (simp add: keeps_def)
qed

section \<open>Properties\<close>

datatype app_call = CreateAppC App | UpdateAppC App | SetAppStatusC string string | DeleteAppC string
  | SetVariableC Variable string | DeleteVariableC string string | SetSharedVariableC SharedVariable string
  | DeleteSharedVariableC string string | CreateDomainC Domain | SetAutoDomainC string string bool
  | SetDomainStatusC string string string | DeleteDomainC string | CreateVolumeC Volume | DeleteVolumeC string string
  | CreateAppJobC AppJob | UpdateAppJobC AppJob | DeleteAppJobC string string
  | DeleteEnvironmentC string | DeleteProjectC string | DeployC deploy_call

fun app_call_op :: "app_call \<Rightarrow> unit panel_op" where
  "app_call_op (CreateAppC a) = ignore (CreateApp a)"
| "app_call_op (UpdateAppC a) = ignore (UpdateApp a)"
| "app_call_op (SetAppStatusC i st) = SetAppStatus i st"
| "app_call_op (DeleteAppC i) = DeleteApp i"
| "app_call_op (SetVariableC v sealed) = ignore (SetVariable v sealed)"
| "app_call_op (DeleteVariableC a k) = DeleteVariable a k"
| "app_call_op (SetSharedVariableC v sealed) = ignore (SetSharedVariable v sealed)"
| "app_call_op (DeleteSharedVariableC p k) = DeleteSharedVariable p k"
| "app_call_op (CreateDomainC d) = ignore (CreateDomain d)"
| "app_call_op (SetAutoDomainC i h tls) = SetAutoDomain i h tls"
| "app_call_op (SetDomainStatusC i st dt) = SetDomainStatus i st dt"
| "app_call_op (DeleteDomainC i) = DeleteDomain i"
| "app_call_op (CreateVolumeC v) = ignore (CreateVolume v)"
| "app_call_op (DeleteVolumeC a i) = DeleteVolume a i"
| "app_call_op (CreateAppJobC j) = ignore (CreateAppJob j)"
| "app_call_op (UpdateAppJobC j) = UpdateAppJob j"
| "app_call_op (DeleteAppJobC a i) = DeleteAppJob a i"
| "app_call_op (DeleteEnvironmentC i) = onTeam (DeleteEnvironment i)"
| "app_call_op (DeleteProjectC i) = onTeam (DeleteProject i)"
| "app_call_op (DeployC c) = onDeploy (deploy_call_op c)"

lemmas app_write_defs = CreateApp_def UpdateApp_def SetAppStatus_def DeleteApp_def SetVariable_def DeleteVariable_def
  SetSharedVariable_def DeleteSharedVariable_def CreateDomain_def SetAutoDomain_def SetDomainStatus_def DeleteDomain_def
  CreateVolume_def DeleteVolume_def CreateAppJob_def UpdateAppJob_def DeleteAppJob_def idOr_def

lemmas keeps_app_rows = keeps_insertApp keeps_updateAppRow keeps_setStatus keeps_deleteAppRow keeps_upsertVariable keeps_deleteVariableRow
  keeps_upsertShared keeps_deleteSharedRow keeps_insertDomain keeps_setAutoRow keeps_domainStatus keeps_deleteDomainRow
  keeps_volume_rows keeps_job_rows keeps_updateJobRow keeps_onTeam keeps_onDeploy keeps_refs_delete keeps_deploy_call keeps_ids_call

lemma keeps_app_call: "keeps apps_ok (app_call_op c)"
  by (cases c) (simp_all only: app_call_op.simps app_write_defs Let_def,
    (intro keeps_intros apps_inv.keeps_env keeps_app_rows)+)


text \<open>Which tables a statement of this file can see, and the state it runs in.\<close>

definition panel_tables :: "panel_db \<Rightarrow> App list \<times> variableRow list \<times> Domain list \<times> Volume list \<times> AppJob list \<times> deployment_row list" where
  "panel_tables s = (apps s, app_variables s, domains s, volumes s, app_jobs s, deps s)"

interpretation panel_tab: env_free "\<lambda>s. panel_tables s = T"
  by unfold_locales (simp_all add: panel_tables_def)

lemma idOr_panel:
  assumes "idOr i pre s = (r, s1)" shows "panel_tables s1 = panel_tables s"
proof -
  have "keeps (\<lambda>x. panel_tables x = panel_tables s) (idOr i pre)"
    unfolding idOr_def by (intro keeps_intros panel_tab.keeps_NewID)
  from keepsD [OF this refl assms] show ?thesis .
qed

text \<open>An insert that first makes an id and reads the clock.\<close>

lemma insert_runs:
  assumes "bind (idOr i pre) (\<lambda>i. bind timeNow (\<lambda>now. bind (stmt (f i now)) (\<lambda>_. ret (g i now)))) s = (r, s1)"
  obtains (early) e where "r = Inl e" "panel_tables s1 = panel_tables s"
  | (run) i' now s0 where "panel_tables s0 = panel_tables s" "f i' now s0 = (map_sum id (\<lambda>_. ()) r, s1)" "\<And>x. r = Inr x \<Longrightarrow> x = g i' now"
proof -
  obtain q sa where a: "idOr i pre s = (q, sa)" by force
  show thesis
  proof (cases q)
    case (Inl e)
    with a assms early [of e] idOr_panel [OF a] show thesis by (simp add: bind_def)
  next
    case (Inr i')
    have sb: "panel_tables (tick sa) = panel_tables s"
      using panel_tab.tick [of sa "panel_tables s"] idOr_panel [OF a] by simp
    obtain r1 sc where c: "stmt (f i' (clock (tick sa))) (tick sa) = (r1, sc)" by force
    have "bind (idOr i pre) (\<lambda>i. bind timeNow (\<lambda>now. bind (stmt (f i now)) (\<lambda>_. ret (g i now)))) s =
        bind (stmt (f i' (clock (tick sa)))) (\<lambda>_. ret (g i' (clock (tick sa)))) (tick sa)"
      using a Inr by (simp add: bind_def [of "idOr i pre"] bind_timeNow)
    then have r: "(r, s1) = (map_sum id (\<lambda>_. g i' (clock (tick sa))) r1, sc)"
      using assms c by (cases r1) (simp_all add: bind_def ret_def)
    from c sb show thesis
    proof (cases rule: panel_tab.stmt_result)
      case fault
      with r early [of ErrDB] show thesis by simp
    next
      case (run s0)
      show thesis
      proof (rule that(2))
        show "panel_tables s0 = panel_tables s" by (rule run(1))
        show "f i' (clock (tick sa)) s0 = (map_sum id (\<lambda>_. ()) r, s1)" using run(2) r by (cases r1) simp_all
        show "x = g i' (clock (tick sa))" if "r = Inr x" for x using that r by (cases r1) simp_all
      qed
    qed
  qed
qed

lemma find_append: "find p (xs @ ys) = (case find p xs of None \<Rightarrow> find p ys | Some x \<Rightarrow> Some x)"
  by (induction xs) auto

text \<open>C33: a hostname has one owner. Attaching one that is taken fails, and an attempt that fails leaves
  every owner as it was; one that succeeds makes the app the owner of exactly that hostname.\<close>

theorem CreateDomain_owner:
  assumes "CreateDomain d s = (r, s1)"
  shows "case r of Inl e \<Rightarrow> domains s1 = domains s
    | Inr d' \<Rightarrow> Hostname d \<notin> Hostname ` set (domains s) \<and> app_exists (domAppID d) s1 \<and>
        ownerOf (Hostname d) s1 = domAppID d \<and> (\<forall>h. h \<noteq> Hostname d \<longrightarrow> ownerOf h s1 = ownerOf h s)"
  using assms unfolding CreateDomain_def
proof (cases rule: insert_runs)
  case (early e)
  then show ?thesis by (simp add: panel_tables_def)
next
  case (run i now s0)
  have t: "domains s0 = domains s" "apps s0 = apps s" using run(1) by (simp_all add: panel_tables_def)
  show ?thesis
  proof (cases r)
    case (Inl e)
    with run(2) t show ?thesis by (auto simp: insertDomain_def split: if_splits)
  next
    case (Inr d')
    with run(2) have free: "Hostname d \<notin> Hostname ` set (domains s0)" "app_exists (domAppID d) s0"
      and doms: "\<exists>row. domains s1 = domains s0 @ [row] \<and> Hostname row = Hostname d \<and> domAppID row = domAppID d" "apps s1 = apps s0"
      by (auto simp: insertDomain_def split: if_splits)
    have "find (\<lambda>x. Hostname x = Hostname d) (domains s0) = None" using free(1) by (auto simp: find_None_iff image_iff)
    with free doms t Inr show ?thesis
      by (auto simp: ownerOf_def find_append app_exists_def split: option.split)
  qed
qed

definition valueOf :: "string \<Rightarrow> string \<Rightarrow> panel_db \<Rightarrow> string option" where
  "valueOf app key s = map_option vSealed (find (of_key app key) (app_variables s))"

lemma find_holds: "find p xs = Some x \<Longrightarrow> p x"
  by (auto simp: find_Some_iff)

lemma find_update:
  "(\<And>x. q (f x) = q x) \<Longrightarrow> find q (update_rows p f rows) = map_option (\<lambda>x. if p x then f x else x) (find q rows)"
  by (induction rows) (auto simp: update_rows_def)

lemma valueOf_upsert:
  assumes "upsertVariable v s0 = (Inr u, s1)"
  shows "valueOf a k s1 = (if (a, k) = (vAppID v, vKey v) then Some (vSealed v) else valueOf a k s0)"
proof (cases "\<exists>x \<in> set (app_variables s0). of_key (vAppID v) (vKey v) x")
  case True
  let ?p = "of_key (vAppID v) (vKey v)"
  let ?f = "\<lambda>x. x\<lparr>vSealed := vSealed v, IsSecret := IsSecret v, BuildTime := BuildTime v, vUpdatedAt := vUpdatedAt v\<rparr>"
  have s1: "app_variables s1 = update_rows ?p ?f (app_variables s0)"
    using True assms by (auto simp: upsertVariable_def)
  have f: "find (of_key a k) (app_variables s1) = map_option (\<lambda>x. if ?p x then ?f x else x) (find (of_key a k) (app_variables s0))"
    unfolding s1 by (rule find_update) (simp add: of_key_def)
  obtain y where y: "find ?p (app_variables s0) = Some y" "?p y"
    using True by (metis find_None_iff find_Some_iff option.exhaust)
  show ?thesis
  proof (cases "(a, k) = (vAppID v, vKey v)")
    case True
    with f y show ?thesis by (simp add: valueOf_def)
  next
    case False
    then have "\<not> ?p x" if "of_key a k x" for x using that by (auto simp: of_key_def)
    with f False find_holds [of "of_key a k" "app_variables s0"] show ?thesis
      by (cases "find (of_key a k) (app_variables s0)") (auto simp: valueOf_def)
  qed
next
  case False
  then have "find (of_key (vAppID v) (vKey v)) (app_variables s0) = None" by (simp add: find_None_iff)
  with False assms show ?thesis
    by (auto simp: upsertVariable_def valueOf_def find_append of_key_def split: if_splits option.splits)
qed

text \<open>what was set last is what is read: setting a variable gives it that sealed value and leaves the
  value of every other variable of every app as it was; a failed attempt changes no value.\<close>

theorem SetVariable_last_write:
  assumes "SetVariable v sealed s = (r, s1)"
  shows "valueOf a k s1 = (if r \<in> range Inr \<and> (a, k) = (vAppID v, vKey v) then Some sealed else valueOf a k s)"
  using assms unfolding SetVariable_def
proof (cases rule: insert_runs)
  case (early e)
  then show ?thesis by (auto simp: panel_tables_def valueOf_def)
next
  case (run i now s0)
  show ?thesis
  proof (cases r)
    case (Inr x)
    with run valueOf_upsert [of _ s0 "()" s1 a k] show ?thesis
      by (auto simp: panel_tables_def valueOf_def Variable.defs variableRow.defs)
  next
    case (Inl e)
    with run show ?thesis by (auto simp: upsertVariable_def panel_tables_def valueOf_def split: if_splits)
  qed
qed

text \<open>Rows an update does not concern.\<close>

lemma filter_spared_rows: "(\<And>x. p x \<Longrightarrow> \<not> q x \<and> \<not> q (f x)) \<Longrightarrow> filter q (update_rows p f rows) = filter q rows"
  by (induction rows) (auto simp: update_rows_def)

interpretation volumes_free: env_free "\<lambda>s :: panel_db. filter q (volumes s) = V"
  by unfold_locales simp_all

interpretation jobs_free: env_free "\<lambda>s :: panel_db. filter q (app_jobs s) = J"
  by unfold_locales simp_all

text \<open>the app is part of the condition: deleting a volume, deleting a scheduled command or changing
  one touches no row of another app, whatever id it is given.\<close>

theorem writes_stay_in_the_app:
  "keeps (\<lambda>s. filter (\<lambda>v. volAppID v \<noteq> app) (volumes s) = V) (DeleteVolume app i) \<and>
   keeps (\<lambda>s. filter (\<lambda>x. jAppID x \<noteq> app) (app_jobs s) = J) (DeleteAppJob app i) \<and>
   keeps (\<lambda>s. filter (\<lambda>x. jAppID x \<noteq> jAppID j) (app_jobs s) = J) (UpdateAppJob j)"
proof (intro conjI)
  show "keeps (\<lambda>s. filter (\<lambda>v. volAppID v \<noteq> app) (volumes s) = V) (DeleteVolume app i)"
    unfolding DeleteVolume_def
    by (rule volumes_free.keeps_stmt) (auto simp: keeps_def deleteVolumeRow_def intro!: filter_cong)
  show "keeps (\<lambda>s. filter (\<lambda>x. jAppID x \<noteq> app) (app_jobs s) = J) (DeleteAppJob app i)"
    unfolding DeleteAppJob_def
    by (rule jobs_free.keeps_stmt) (auto simp: keeps_def deleteJobRow_def intro!: filter_cong)
  show "keeps (\<lambda>s. filter (\<lambda>x. jAppID x \<noteq> jAppID j) (app_jobs s) = J) (UpdateAppJob j)"
  proof -
    have "filter (\<lambda>x. jAppID x \<noteq> jAppID j) (update_rows (\<lambda>x. jID x = jID j \<and> jAppID x = jAppID j)
        (\<lambda>x. x\<lparr>jName := jName j, Schedule := Schedule j, Command := Command j, jEnabled := jEnabled j, jUpdatedAt := now\<rparr>) rows)
      = filter (\<lambda>x. jAppID x \<noteq> jAppID j) rows" for now and rows :: "AppJob list"
      by (rule filter_spared_rows) simp
    then show ?thesis
      unfolding UpdateAppJob_def
      by (intro keeps_intros jobs_free.keeps_env) (simp add: keeps_def updateJobRow_def Let_def)
  qed
qed

definition sampleApp :: App where
  "sampleApp = \<lparr>aID = ''app1'', aEnvironmentID = ''env1'', aName = ''Shop'', aSlug = ''shop'', SourceType = ''git'', GitSourceID = [],
     RepoURL = ''https://git.example/shop'', Branch = ''main'', RootDir = [], Builder = ''auto'', DockerfilePath = [], BuildCommand = [],
     StaticDir = [], aImage = [], Port = 3000, HealthPath = [], StartCommand = [], ReleaseCommand = [], Replicas = 1, Autoscale = False,
     MinReplicas = 1, MaxReplicas = 3, CPUTarget = 75, MemoryTarget = 0, ScaleToZero = False, CPURequestM = 50, CPULimitM = 1000,
     MemRequestMB = 128, MemLimitMB = 512, AutoDeploy = True, PreviewDeploys = False, aStatus = ''created'', aCreatedAt = 1, aUpdatedAt = 1\<rparr>"

definition samplePanel :: panel_db where
  "samplePanel = \<lparr>clock = 10, pauses = [], faults = [], entropy = [], users = [], sessions = [], api_tokens = [], login_attempts = [],
     recovery_codes = [], teams = [\<lparr>teamID = ''team1'', teamName = ''T'', teamSlug = ''t'', teamCreatedAt = 1, teamRole = None\<rparr>],
     memberships = [], projects = [\<lparr>pID = ''prj1'', pTeamID = ''team1'', pName = ''P'', pSlug = ''p'', Description = [], pCreatedAt = 1, pUpdatedAt = 1\<rparr>],
     environments = [\<lparr>eID = ''env1'', eProjectID = ''prj1'', eName = ''E'', eSlug = ''e'', eKind = ''standard'', Namespace = ''n'',
       SourceRef = [], PodSecurity = ''restricted'', eCreatedAt = 1\<rparr>],
     app_rows = [], database_rows = [], deployed_at = [], team_invitations = [], audit_events = [], settings = [], sentEvents = [],
     apps = [sampleApp], app_variables = [], shared_variables = [], domains = [], volumes = [], app_jobs = [], database_slugs = [],
     git_source_ids = [], deps = [], dlogs = []\<rparr>"

definition sampleDomain :: Domain where
  "sampleDomain = \<lparr>domID = ''dom1'', domAppID = ''app1'', Hostname = ''shop.example'', domPath = [], TLS = True, Auto = False,
     domStatus = [], StatusDetail = [], domCreatedAt = 0\<rparr>"

lemma CreateDomain_owner_witness:
  "ownerOf ''shop.example'' (snd (CreateDomain sampleDomain samplePanel)) = ''app1''"
proof -
  have run: "CreateDomain sampleDomain samplePanel = (Inr (sampleDomain\<lparr>domCreatedAt := 10\<rparr>), snd (CreateDomain sampleDomain samplePanel))"
    by (simp add: CreateDomain_def sampleDomain_def samplePanel_def sampleApp_def idOr_def bind_def ret_def timeNow_def tick_def stmt_def
        insertDomain_def app_exists_def Let_def)
  from CreateDomain_owner [OF run] show ?thesis by (simp add: sampleDomain_def)
qed

definition sampleVariable :: Variable where
  "sampleVariable = \<lparr>vID = ''var1'', vAppID = ''app1'', vKey = ''PORT'', IsSecret = False, BuildTime = True, vCreatedAt = 0, vUpdatedAt = 0\<rparr>"

lemma SetVariable_last_write_witness:
  "valueOf ''app1'' ''PORT'' (snd (SetVariable sampleVariable ''sealed'' samplePanel)) = Some ''sealed''"
proof -
  have run: "SetVariable sampleVariable ''sealed'' samplePanel =
      (Inr (sampleVariable\<lparr>vUpdatedAt := 10\<rparr>), snd (SetVariable sampleVariable ''sealed'' samplePanel))"
    by (simp add: SetVariable_def sampleVariable_def samplePanel_def sampleApp_def idOr_def bind_def ret_def timeNow_def tick_def stmt_def
        upsertVariable_def app_exists_def Let_def Variable.defs variableRow.defs)
  from SetVariable_last_write [OF run, of "''app1''" "''PORT''"] show ?thesis by (auto simp: sampleVariable_def)
qed

section \<open>Queries that do not parse, and images that are gone\<close>

lemma alias_breaks_columns: "qualified_call False (prefixColumns ''a'' appColumns) \<and> \<not> qualified_call False appColumns"
  by code_simp

lemma query_error: "(\<And>s. f s = Inl ErrDB) \<Longrightarrow> fst (query f s) = Inl ErrDB"
  by (simp add: query_def stmt_def Let_def split: list.splits bool.splits)

text \<open>the column list with a table's alias in front of each part is not SQL: the apps of a project can
  never be listed, nor can the apps that were ever deployed.\<close>

theorem listing_by_project_fails: "fst (ListAppsForProject project s) = Inl ErrDB"
  unfolding ListAppsForProject_def queryApps_def by (rule query_error) (simp add: alias_breaks_columns)

lemma qualified_call_append: "qualified_call b xs \<Longrightarrow> qualified_call b (xs @ ys)"
  by (induction b xs rule: qualified_call.induct) auto

theorem listing_deployed_fails: "fst (ListDeployedApps s) = Inl ErrDB"
  unfolding ListDeployedApps_def Let_def by (rule query_error) (simp add: alias_breaks_columns qualified_call_append)

text \<open>and were the list repaired, its columns would still be two more than what a row is scanned into.\<close>

theorem scan_count_differs: "columnCount 0 (appColumns @ '', p.team_id, e.namespace'') = length deployedAppDestinations + 2"
  by code_simp

text \<open>An app whose first deployment succeeded and whose ten later ones have images and the given status.\<close>

definition deployedAs :: "DeploymentStatus \<Rightarrow> int \<Rightarrow> deployment_row" where
  "deployedAs st n = \<lparr>dID = itoa n, dAppID = ''app1'', Number = n, Status = (if n = 1 then DeploySucceeded else st), Trigger = ''push'',
     RollbackOf = 0, CommitSHA = itoa n, CommitMessage = [], CommitAuthor = [], Image = ''r/shop:'' @ itoa n, BuildFingerprint = itoa n,
     RuntimeSpec = ''{}'', ErrorCode = [], ErrorMessage = [], ErrorHint = [], CreatedBy = [], dCreatedAt = n, StartedAt = 0, FinishedAt = 0,
     CanRollback = False, started_at = None, finished_at = None\<rparr>"

definition elevenTimes :: "DeploymentStatus \<Rightarrow> panel_db" where
  "elevenTimes st = samplePanel\<lparr>deps := map (deployedAs st) [1..11]\<rparr>"

text \<open>the images that are kept are ranked among all deployments with an image, the versions that may be
  rolled back to among those that succeeded: after ten failed rollouts the version still serving may be
  rolled back to and its image is not kept.\<close>

theorem rollback_offered_image_collected:
  "fst (onDeploy (WithinRollbackWindow ''app1'' ''1'' 10) (elevenTimes DeployFailed)) = Inr True \<and>
   ''r/shop:1'' \<notin> set (case fst (ImagesWorthKeeping 10 (elevenTimes DeployFailed)) of Inr ks \<Rightarrow> ks | Inl _ \<Rightarrow> [])"
  by code_simp

text \<open>a deployment reuses the image of an equal build however old it is, and that image may have been
  collected.\<close>

theorem reused_image_collected:
  "map_sum id Image (fst (onDeploy (FindDeploymentByFingerprint ''app1'' ''1'') (elevenTimes DeploySucceeded))) = Inr ''r/shop:1'' \<and>
   ''r/shop:1'' \<notin> set (case fst (ImagesWorthKeeping 10 (elevenTimes DeploySucceeded)) of Inr ks \<Rightarrow> ks | Inl _ \<Rightarrow> [])"
  by code_simp

end
