(* ===== verification/Go_Base64.thy ===== *)
theory Go_Base64
  imports Go_Encoding
begin

text \<open>
  Two more forms of base64 that secrets are stored in: the padded standard
  encoding of a key file, and the strict unpadded encoding of an envelope,
  which refuses a last character whose unused bits are not zero. Both decoders
  skip line breaks, the strict one too.
\<close>

definition no_breaks :: "string \<Rightarrow> string" where
  "no_breaks = filter (\<lambda>c. c \<noteq> CHR 0x0A \<and> c \<noteq> CHR 0x0D)"

section \<open>Strict decoding\<close>

text \<open>\<^verbatim>\<open>base64.RawURLEncoding.Strict().DecodeString\<close>.\<close>

definition raw_url64_strict :: "string \<Rightarrow> string option" where
  "raw_url64_strict s = (let t = no_breaks s in
     if length t mod 4 = 1 then None
     else (case char_values url64 t of None \<Rightarrow> None
       | Some vs \<Rightarrow> let bits = concat (map (to_bits 6) vs); whole = 8 * (length bits div 8) in
           if True \<in> set (drop whole bits) then None else Some (whole_bytes bits)))"

lemma no_breaks_id: "\<forall>c \<in> set s. c \<noteq> CHR 0x0A \<and> c \<noteq> CHR 0x0D \<Longrightarrow> no_breaks s = s"
  by (simp add: no_breaks_def filter_id_conv)

lemma no_breaks_idem [simp]: "no_breaks (no_breaks s) = no_breaks s"
  by (simp add: no_breaks_def)

lemma raw_url64_chars: "c \<in> set (raw_url64_encode bytes) \<Longrightarrow> c \<in> set url64"
  using encode_bits_alphabet [OF url64_alphabet(2)] by (simp add: raw_url64_encode_def)

lemma no_breaks_url64 [simp]: "no_breaks (raw_url64_encode bytes) = raw_url64_encode bytes"
proof (rule no_breaks_id)
  show "\<forall>c \<in> set (raw_url64_encode bytes). c \<noteq> CHR 0x0A \<and> c \<noteq> CHR 0x0D"
    using raw_url64_chars [of _ bytes] by (auto simp: url64_def)
qed

lemma char_values_bounds:
  "char_values alph s = Some vs \<Longrightarrow> v \<in> set vs \<Longrightarrow> 0 \<le> v \<and> v < int (length alph)"
proof (induction s arbitrary: vs)
  case (Cons c s)
  have ix: "index_of x ys = Some i \<Longrightarrow> 0 \<le> i \<and> i < int (length ys)" for x :: char and ys i
    by (induction ys arbitrary: i) (auto split: if_splits)
  show ?case using Cons ix by (fastforce split: option.splits)
qed simp

lemma char_values_chars:
  "char_values alph s = Some vs \<Longrightarrow> map (\<lambda>v. alph ! nat v) vs = s"
proof (induction s arbitrary: vs)
  case (Cons c s)
  have ix: "index_of x ys = Some i \<Longrightarrow> 0 \<le> i \<and> ys ! nat i = x" for x :: char and ys i
    by (induction ys arbitrary: i) (auto split: if_splits simp: nat_add_distrib)
  show ?case using Cons ix by (fastforce split: option.splits)
qed simp

lemma char_values_length: "char_values alph s = Some vs \<Longrightarrow> length vs = length s"
  using char_values_chars [of alph s vs] by (metis length_map)

lemma length_concat_bits: "length (concat (map (to_bits k) vs)) = k * length vs"
  by (induction vs) auto

lemma byte_bits_byte: "length bs = 8 \<Longrightarrow> byte_bits (bits_byte bs) = bs"
proof -
  assume l: "length bs = 8"
  have "from_bits bs mod 256 = from_bits bs" using from_bits_bounds [of bs] l by simp
  then show ?thesis using to_from_bits [of bs] l by (simp add: byte_bits_def bits_byte_def)
qed

lemma whole_bytes_bits:
  "length bs = 8 * n + r \<Longrightarrow> r < 8 \<Longrightarrow> concat (map byte_bits (whole_bytes bs)) = take (8 * n) bs"
proof (induction n arbitrary: bs)
  case 0
  then have "filter (\<lambda>g. length g = 8) (groups 8 bs) = []" by (cases "bs = []") (simp_all add: groups.simps [of 8 bs])
  then show ?case by (simp add: whole_bytes_def)
next
  case (Suc n)
  then have "groups 8 bs = take 8 bs # groups 8 (drop 8 bs)"
    by (subst groups.simps) auto
  moreover have "length (take 8 bs) = 8" using Suc by simp
  ultimately have "whole_bytes bs = bits_byte (take 8 bs) # whole_bytes (drop 8 bs)" by (simp add: whole_bytes_def)
  moreover have "concat (map byte_bits (whole_bytes (drop 8 bs))) = take (8 * n) (drop 8 bs)"
    using Suc by (intro Suc.IH) auto
  ultimately show ?case using Suc.prems
    by (simp add: byte_bits_byte) (metis add.commute take_add)
qed

lemma groups_of_padded:
  assumes "0 < k" "length bs = k * n" "m < k" "m \<le> length bs" "\<forall>b \<in> set (drop (length bs - m) bs). \<not> b"
  shows "map (pad_to k) (groups k (take (length bs - m) bs)) = groups k bs"
  using assms
proof (induction n arbitrary: bs)
  case (Suc n)
  have bs: "groups k bs = take k bs # groups k (drop k bs)" using Suc.prems by (subst groups.simps) auto
  show ?case
  proof (cases "n = 0")
    case True
    then have l: "length bs = k" using Suc.prems by simp
    have z: "drop (k - m) bs = replicate m False"
      using Suc.prems(3,5) l by (intro replicate_eqI) (auto)
    have "take (k - m) bs \<noteq> []" using l Suc.prems(1,3) by auto
    then have g: "groups k (take (k - m) bs) = [take (k - m) bs]"
      using Suc.prems(1) by (subst groups.simps) (simp add: l)
    have "take (k - m) bs @ replicate m False = bs" using z append_take_drop_id [of "k - m" bs] by simp
    then have "pad_to k (take (k - m) bs) = bs" using l Suc.prems(3) by (simp add: pad_to_def)
    then show ?thesis using g l bs True by simp
  next
    case False
    then have "k * 2 \<le> k * Suc n" by (intro mult_le_mono2) simp
    then have lk: "k + m \<le> length bs" "k \<le> length bs - m" using Suc.prems by linarith+
    have split: "length bs - m = k + (length (drop k bs) - m)" using lk by simp
    have "take (length bs - m) bs = take k bs @ take (length (drop k bs) - m) (drop k bs)"
      using take_add [of k "length (drop k bs) - m" bs] unfolding split [symmetric] .
    then have "groups k (take (length bs - m) bs) = take k bs # groups k (take (length (drop k bs) - m) (drop k bs))"
      using Suc.prems lk by (simp add: groups_append)
    moreover have "map (pad_to k) (groups k (take (length (drop k bs) - m) (drop k bs))) = groups k (drop k bs)"
      using Suc.prems lk by (intro Suc.IH) (auto simp: algebra_simps)
    moreover have "pad_to k (take k bs) = take k bs" using Suc.prems by (simp add: pad_to_def)
    ultimately show ?thesis using bs by simp
  qed
qed simp

lemma sextets: "n mod 4 \<noteq> 1 \<Longrightarrow> 6 * n mod 8 < (6 :: nat)"
proof -
  assume "n mod 4 \<noteq> 1"
  then have "3 * n mod 4 \<noteq> 3" by presburger
  moreover have "6 * n mod 8 = 2 * (3 * n mod 4)" using mult_mod_right [of 2 "3 * n" 4] by simp
  ultimately show ?thesis using mod_less_divisor [of 4 "3 * n"] by linarith
qed

lemma raw_url64_strict_canonical:
  assumes "raw_url64_strict s = Some bytes"
  shows "raw_url64_encode bytes = no_breaks s"
proof -
  define t where "t = no_breaks s"
  obtain vs where vs: "char_values url64 t = Some vs" and l1: "length t mod 4 \<noteq> 1"
      and z: "True \<notin> set (drop (8 * (length (concat (map (to_bits 6) vs)) div 8)) (concat (map (to_bits 6) vs)))"
      and b: "bytes = whole_bytes (concat (map (to_bits 6) vs))"
    using assms by (auto simp: raw_url64_strict_def Let_def t_def split: if_splits option.splits)
  define bits where "bits = concat (map (to_bits 6) vs)"
  have len: "length bits = 6 * length vs" "length vs = length t"
    using vs by (simp_all add: bits_def length_concat_bits char_values_length)
  define m where "m = length bits mod 8"
  have m: "m < 6" "m \<le> length bits" "8 * (length bits div 8) = length bits - m"
    using sextets [of "length t"] l1 len minus_mod_eq_mult_div [of "length bits" 8] unfolding m_def by (simp_all add: mod_less_eq_dividend)
  have "concat (map byte_bits bytes) = take (8 * (length bits div 8)) bits"
    unfolding b bits_def [symmetric] by (rule whole_bytes_bits [of _ _ "length bits mod 8"]) simp_all
  then have take: "concat (map byte_bits bytes) = take (length bits - m) bits" by (simp only: m(3))
  have "True \<notin> set (drop (length bits - m) bits)" using z unfolding bits_def [symmetric] m(3) .
  then have "\<forall>b \<in> set (drop (length bits - m) bits). \<not> b" by (metis (full_types))
  then have "map (pad_to 6) (groups 6 (concat (map byte_bits bytes))) = groups 6 bits"
    unfolding take using m len by (intro groups_of_padded [of 6 bits "length vs" m]) simp_all
  moreover have "groups 6 bits = map (to_bits 6) vs"
    using groups_concat [of 6 "map (to_bits 6) vs" "[]"] by (simp add: bits_def)
  ultimately have g: "map (pad_to 6) (groups 6 (concat (map byte_bits bytes))) = map (to_bits 6) vs" by simp
  have "raw_url64_encode bytes
      = map (\<lambda>c. url64 ! nat (from_bits c)) (map (pad_to 6) (groups 6 (concat (map byte_bits bytes))))"
    by (simp add: raw_url64_encode_def encode_bits_def)
  then have "raw_url64_encode bytes = map (\<lambda>v. url64 ! nat (from_bits (to_bits 6 v))) vs" by (simp add: g)
  also have "\<dots> = map (\<lambda>v. url64 ! nat v) vs"
    using char_values_bounds [OF vs] url64_alphabet(2) by (intro map_cong refl) (simp add: from_to_bits)
  finally show ?thesis using char_values_chars [OF vs] by (simp add: t_def)
qed

lemma raw_url64_strict_roundtrip: "raw_url64_strict (raw_url64_encode bytes) = Some bytes"
proof -
  define t where "t = raw_url64_encode bytes"
  have d: "decode_bits 6 url64 t = Some bytes" using decode_encode_bits [OF url64_alphabet] by (simp add: t_def raw_url64_encode_def)
  then obtain vs where vs: "char_values url64 t = Some vs" and b: "bytes = whole_bytes (concat (map (to_bits 6) vs))"
    by (auto simp: decode_bits_def)
  define gs where "gs = groups 6 (concat (map byte_bits bytes))"
  define bits where "bits = concat (map (to_bits 6) vs)"
  have t4: "length t mod 4 \<noteq> 1" by (simp add: t_def raw_url64_encode_def length_encode_bits) presburger
  have pad: "\<exists>n < 6. concat (map (pad_to 6) gs) = concat (map byte_bits bytes) @ replicate n False"
      "\<forall>c \<in> set gs. length (pad_to 6 c) = 6"
    using groups_pad [of 6 "concat (map byte_bits bytes)"] by (simp_all add: gs_def)
  have "map (\<lambda>v. url64 ! nat v) (map (from_bits \<circ> pad_to 6) gs) = t" by (simp add: t_def raw_url64_encode_def encode_bits_def gs_def)
  moreover have "char_values url64 (map (\<lambda>v. url64 ! nat v) (map (from_bits \<circ> pad_to 6) gs)) = Some (map (from_bits \<circ> pad_to 6) gs)"
  proof (intro char_values_map url64_alphabet(1) ballI)
    fix v assume "v \<in> set (map (from_bits \<circ> pad_to 6) gs)"
    then obtain c where "c \<in> set gs" "v = from_bits (pad_to 6 c)" by auto
    then show "0 \<le> v \<and> v < int (length url64)" using pad(2) from_bits_bounds [of "pad_to 6 c"] by (simp add: url64_alphabet(2))
  qed
  ultimately have "vs = map (from_bits \<circ> pad_to 6) gs" using vs by simp
  then have "map (to_bits 6) vs = map (pad_to 6) gs" using pad(2) by (auto) (metis to_from_bits)
  then obtain n where n: "n < 6" "bits = concat (map byte_bits bytes) @ replicate n False"
    using pad(1) by (auto simp: bits_def)
  have "length (concat (map byte_bits bytes)) = 8 * length bytes" by (induction bytes) auto
  then have "drop (8 * (length bits div 8)) bits = replicate n False" using n by simp
  then have "True \<notin> set (drop (8 * (length bits div 8)) bits)" by simp
  then show ?thesis using vs t4 b
    by (simp add: raw_url64_strict_def Let_def t_def bits_def)
qed

section \<open>Padded encoding\<close>

text \<open>\<^verbatim>\<open>base64.StdEncoding\<close>: filled up with \<^verbatim>\<open>=\<close> to a multiple of four.\<close>

definition std64_encode :: "string \<Rightarrow> string" where
  "std64_encode bytes = (let s = raw_std64_encode bytes in s @ replicate ((4 - length s mod 4) mod 4) (CHR ''=''))"

definition std64_decode :: "string \<Rightarrow> string option" where
  "std64_decode s = (let t = no_breaks s; n = length t in
     if n mod 4 \<noteq> 0 then None
     else if n > 0 \<and> t ! (n - 1) = CHR ''=''
     then (if t ! (n - 2) = CHR ''='' then decode_bits 6 std64 (take (n - 2) t) else decode_bits 6 std64 (take (n - 1) t))
     else decode_bits 6 std64 t)"

lemma std64_roundtrip: "std64_decode (std64_encode bytes) = Some bytes"
proof -
  define s where "s = raw_std64_encode bytes"
  have c: "c \<noteq> CHR 0x0A \<and> c \<noteq> CHR 0x0D \<and> c \<noteq> CHR ''=''" if "c \<in> set s" for c
    using raw_std64_chars [of c bytes] that by (auto simp: s_def std64_def)
  have d: "decode_bits 6 std64 s = Some bytes" using decode_encode_bits [OF std64_alphabet] by (simp add: s_def raw_std64_encode_def)
  have "length s mod 4 \<noteq> 1" by (simp add: s_def raw_std64_encode_def length_encode_bits) presburger
  then consider "length s mod 4 = 0" | "length s mod 4 = 2" | "length s mod 4 = 3" by linarith
  then show ?thesis
  proof cases
    case 1
    have e: "std64_encode bytes = s" using 1 by (simp add: std64_encode_def s_def Let_def)
    moreover have "s \<noteq> [] \<Longrightarrow> s ! (length s - 1) \<noteq> CHR ''=''" using c by (simp add: last_conv_nth [symmetric])
    moreover have "no_breaks s = s" using c by (intro no_breaks_id) auto
    ultimately show ?thesis using 1 d by (auto simp: std64_decode_def Let_def)
  next
    case 2
    have e: "std64_encode bytes = s @ ''==''" using 2 by (simp add: std64_encode_def s_def Let_def numeral_2_eq_2)
    moreover have "no_breaks (s @ ''=='') = s @ ''==''" using c by (intro no_breaks_id) auto
    moreover have "(length s + 2) mod 4 = 0" using 2 by presburger
    ultimately show ?thesis using d by (simp add: std64_decode_def Let_def nth_append)
  next
    case 3
    have e: "std64_encode bytes = s @ ''=''" using 3 by (simp add: std64_encode_def s_def Let_def)
    moreover have "no_breaks (s @ ''='') = s @ ''=''" using c by (intro no_breaks_id) auto
    moreover have "(length s + 1) mod 4 = 0" "s \<noteq> []" using 3 by (presburger, auto)
    moreover have "s ! (length s - 1) \<noteq> CHR ''=''" using c \<open>s \<noteq> []\<close> by (simp add: last_conv_nth [symmetric])
    ultimately show ?thesis using d by (simp add: std64_decode_def Let_def nth_append)
  qed
qed

end
