(* ===== verification/Go_Map.thy ===== *)
theory Go_Map
  imports Go_Prelude "HOL-Library.AList" "HOL-Library.Multiset"
begin

text \<open>
  Go maps and buffered channels.

  A Go map is an association list with distinct keys. Ranging over a map visits
  its entries in an order the language leaves open; the list order stands for
  the order of one such iteration, and the lemmas hold for every list, hence
  for every order.

  Two interfaces that several components rely on are locales here: a keyed
  table (what a lookup returns after an insert or a delete) and a lossy queue
  (a bounded channel a sender never waits for). They are interpreted on the
  maps below, and in the theory of the event hub on its subscribers.
\<close>

named_theorems table_simps \<open>what a lookup returns after an update of a table\<close>

section \<open>Keyed tables\<close>

locale keyed_table =
  fixes lookup :: "'t \<Rightarrow> 'k \<Rightarrow> 'v option"
    and insert_at :: "'k \<Rightarrow> 'v \<Rightarrow> 't \<Rightarrow> 't"
    and delete_at :: "'k \<Rightarrow> 't \<Rightarrow> 't"
    and keys_of :: "'t \<Rightarrow> 'k list"
    and well :: "'t \<Rightarrow> bool"
  assumes lookup_insert: "lookup (insert_at k v t) = (lookup t)(k \<mapsto> v)"
    and lookup_delete: "well t \<Longrightarrow> lookup (delete_at k t) = (lookup t)(k := None)"
    and keys_lookup: "set (keys_of t) = dom (lookup t)"
    and well_distinct: "well t \<Longrightarrow> distinct (keys_of t)"
    and well_insert: "well t \<Longrightarrow> well (insert_at k v t)"
    and well_delete: "well t \<Longrightarrow> well (delete_at k t)"
begin

lemma keys_insert: "set (keys_of (insert_at k v t)) = insert k (set (keys_of t))"
  by (simp add: keys_lookup lookup_insert)

lemma keys_delete: "well t \<Longrightarrow> set (keys_of (delete_at k t)) = set (keys_of t) - {k}"
  by (simp add: keys_lookup lookup_delete)

lemma card_keys: "well t \<Longrightarrow> length (keys_of t) = card (dom (lookup t))"
  using well_distinct distinct_card keys_lookup by metis

lemma key_iff: "k \<in> set (keys_of t) \<longleftrightarrow> lookup t k \<noteq> None"
  by (auto simp: keys_lookup)

lemma size_insert_new:
  "well t \<Longrightarrow> lookup t k = None \<Longrightarrow> length (keys_of (insert_at k v t)) = Suc (length (keys_of t))"
  using key_iff [of k t] by (simp add: keys_insert well_insert well_distinct flip: distinct_card)

lemma size_insert_old:
  "well t \<Longrightarrow> lookup t k \<noteq> None \<Longrightarrow> length (keys_of (insert_at k v t)) = length (keys_of t)"
  by (simp add: card_keys well_insert lookup_insert insert_absorb domIff)

lemma size_delete_old:
  "well t \<Longrightarrow> lookup t k \<noteq> None \<Longrightarrow> Suc (length (keys_of (delete_at k t))) = length (keys_of t)"
  using key_iff [of k t] card_Suc_Diff1 [of "set (keys_of t)" k]
  by (simp add: keys_delete well_delete well_distinct flip: distinct_card)

lemma size_delete: "well t \<Longrightarrow> length (keys_of (delete_at k t)) \<le> length (keys_of t)"
  using keys_lookup [of t] by (simp add: card_keys well_delete lookup_delete card_Diff1_le flip: keys_lookup)

end

section \<open>Lossy queues\<close>

text \<open>
  A queue that takes what fits and counts what does not. The client lemmas say
  what happens to a whole run of offers, whatever was in the queue before.
\<close>

locale lossy_queue =
  fixes offer :: "'e \<Rightarrow> 'q \<Rightarrow> 'q"
    and queued :: "'q \<Rightarrow> 'e list"
    and lost :: "'q \<Rightarrow> int"
    and room :: "'q \<Rightarrow> int"
  assumes offer_fits: "0 < room q \<Longrightarrow> queued (offer e q) = queued q @ [e] \<and> lost (offer e q) = lost q
      \<and> room (offer e q) = room q - 1"
    and offer_full: "\<not> 0 < room q \<Longrightarrow> queued (offer e q) = queued q \<and> lost (offer e q) = lost q + 1
      \<and> room (offer e q) = room q"
begin

lemma offer_conserves:
  "int (length (queued (offer e q))) + lost (offer e q) = int (length (queued q)) + lost q + 1"
  by (cases "0 < room q") (use offer_fits [of q e] offer_full [of q e] in auto)

lemma lost_mono: "lost q \<le> lost (offer e q)"
  by (cases "0 < room q") (use offer_fits [of q e] offer_full [of q e] in auto)

lemma offer_lossless: "lost (offer e q) = lost q \<Longrightarrow> queued (offer e q) = queued q @ [e]"
  by (cases "0 < room q") (use offer_fits [of q e] offer_full [of q e] in auto)

lemma offers_take:
  assumes "0 \<le> room q"
  shows "queued (fold offer es q) = queued q @ take (nat (room q)) es
    \<and> lost (fold offer es q) = lost q + int (length (drop (nat (room q)) es))"
  using assms
proof (induction es arbitrary: q)
  case (Cons e es)
  show ?case
  proof (cases "0 < room q")
    case True
    then have "nat (room q) = Suc (nat (room (offer e q)))"
      using offer_fits [OF True, of e] by (simp add: Suc_nat_eq_nat_zadd1)
    then show ?thesis using Cons.IH [of "offer e q"] offer_fits [OF True, of e] True by simp
  next
    case False
    then show ?thesis using Cons.IH [of "offer e q"] Cons.prems offer_full [OF False, of e] by simp
  qed
qed simp

end

section \<open>Go maps as association lists\<close>

definition map_well :: "('k \<times> 'v) list \<Rightarrow> bool" where
  "map_well m \<longleftrightarrow> distinct (map fst m)"

interpretation go_map: keyed_table "map_of" "AList.update" "AList.delete" "map fst" "map_well"
  by unfold_locales
    (auto simp: map_well_def update_conv' delete_conv' dom_map_of_conv_image_fst distinct_update distinct_delete)

lemma map_filter_lookup:
  "map_well m \<Longrightarrow> map_of (filter p m) k = (case map_of m k of None \<Rightarrow> None | Some v \<Rightarrow> if p (k, v) then Some v else None)"
  by (induction m) (auto simp: map_well_def split: option.splits if_splits
    dest: map_of_SomeD intro!: map_of_eq_None_iff [THEN iffD2])

lemma map_well_filter [simp]: "map_well m \<Longrightarrow> map_well (filter p m)"
  by (simp add: map_well_def distinct_map_filter)

lemma map_well_Nil [simp]: "map_well []"
  by (simp add: map_well_def)

lemmas [table_simps] = update_conv' delete_conv' go_map.well_insert go_map.well_delete

end
