(* ===== verification/Keyring.thy ===== *)
theory Keyring
  imports Go_Base64 Go_Map "HOL-Library.List_Lexorder" "HOL-Library.Char_ord"
begin

text \<open>
  Envelope encryption and the master keys, \<^verbatim>\<open>internal/crypto\<close>: the text form of
  an envelope, the keyring with its active and retired keys, sealing, opening
  and rewrapping, rotation, the recovery key, and the key file with the steps
  that write it.

  AES-GCM is a parameter, a pair of functions on bytes; what is assumed of it is
  said where it is used: opening what was sealed gives the text back. The random
  bytes of a key or a nonce are an argument, \<^term>\<open>None\<close> when reading them failed.
  Every method of the keyring runs under its lock from its first read to its
  last write, so one call is one step. Bytes are characters, a Go map is an
  association list.
\<close>

datatype crypto_err = ErrUnknownKey | ErrMalformed | ErrOpenFailed | ErrKeySize | ErrEmptyKeyring | ErrDuplicateKeyI
  | ErrEmptyID | ErrColonID | ErrLongID | ErrLongWrapped | ErrRandom | ErrAuth | ErrDropActive
  | ErrNotRecovery | ErrNoKeyID | ErrBadText | ErrTruncated
  | ErrNoActiveLine | ErrNoKeys | ErrLine int | ErrActiveMissing | ErrNoFile | ErrPermissions | ErrIO
  | ErrLength

definition orFail :: "crypto_err + 'a \<Rightarrow> ('a \<Rightarrow> crypto_err + 'b) \<Rightarrow> crypto_err + 'b" where
  "orFail r k = (case r of Inl e \<Rightarrow> Inl e | Inr x \<Rightarrow> k x)"

definition KeySize :: nat where "KeySize = 32"
definition nonceSize :: nat where "nonceSize = 12"
definition magic :: string where "magic = ''SKF1''"
definition magicV1 :: char where "magicV1 = CHR 0x01"
definition maxKeyIDLen :: int where "maxKeyIDLen = 255"

record cipher =
  gcmSeal :: "string \<Rightarrow> string \<Rightarrow> string \<Rightarrow> string \<Rightarrow> string"
  gcmOpen :: "string \<Rightarrow> string \<Rightarrow> string \<Rightarrow> string \<Rightarrow> string option"

record Envelope =
  KeyID :: string
  WrappedDEK :: string
  Ciphertext :: string

record Keyring =
  keys :: "(string \<times> string) list"
  activeID :: string

section \<open>The text form\<close>

definition encode :: "Envelope \<Rightarrow> crypto_err + string" where
  "encode e = (if int (length (KeyID e)) > maxKeyIDLen then Inl ErrLongID
     else if int (length (WrappedDEK e)) > 65535 then Inl ErrLongWrapped
     else let n = int (length (WrappedDEK e));
              body = [magicV1, char_of (int (length (KeyID e)))] @ KeyID e
                @ [char_of (n div 256), char_of (n mod 256)] @ WrappedDEK e @ Ciphertext e
          in Inr (magic @ ''.'' @ raw_url64_encode body))"

definition byte_at :: "string \<Rightarrow> nat \<Rightarrow> nat" where
  "byte_at s i = of_char (s ! i)"

definition decodeBody :: "string \<Rightarrow> crypto_err + Envelope" where
  "decodeBody body = (if length body < 2 \<or> body ! 0 \<noteq> magicV1 then Inl ErrMalformed
     else let idLen = byte_at body 1 in
       if length body < 2 + idLen + 2 then Inl ErrMalformed
       else let keyID = take idLen (drop 2 body);
                pos = 2 + idLen;
                wrappedLen = 256 * byte_at body pos + byte_at body (pos + 1);
                rest = drop (pos + 2) body in
         if length rest < wrappedLen + nonceSize then Inl ErrMalformed
         else Inr \<lparr>KeyID = keyID, WrappedDEK = take wrappedLen rest, Ciphertext = drop wrappedLen rest\<rparr>)"

definition decode :: "string \<Rightarrow> crypto_err + Envelope" where
  "decode stored = (if \<not> prefix (magic @ ''.'') stored then Inl ErrMalformed
     else case raw_url64_strict (drop 5 stored) of None \<Rightarrow> Inl ErrMalformed | Some body \<Rightarrow> decodeBody body)"

definition KeyIDOf :: "string \<Rightarrow> crypto_err + string" where
  "KeyIDOf stored = orFail (decode stored) (\<lambda>env. Inr (KeyID env))"

definition IsEnvelope :: "string \<Rightarrow> bool" where
  "IsEnvelope stored = (case decode stored of Inl _ \<Rightarrow> False | Inr _ \<Rightarrow> True)"

section \<open>Keys\<close>

definition checkKeyID :: "string \<Rightarrow> crypto_err option" where
  "checkKeyID i = (if i = [] then Some ErrEmptyID else if CHR '':'' \<in> set i then Some ErrColonID
     else if int (length i) > maxKeyIDLen then Some ErrLongID else None)"

definition NewKeyring :: "string \<Rightarrow> string \<Rightarrow> crypto_err + Keyring" where
  "NewKeyring i key = (if length key \<noteq> KeySize then Inl ErrKeySize
     else if i = [] then Inl ErrEmptyID
     else case checkKeyID i of Some e \<Rightarrow> Inl e | None \<Rightarrow> Inr \<lparr>keys = [(i, key)], activeID = i\<rparr>)"

definition addLocked :: "string \<Rightarrow> string \<Rightarrow> Keyring \<Rightarrow> crypto_err + Keyring" where
  "addLocked i key k = (if map_of (keys k) i \<noteq> None then Inl ErrDuplicateKeyI
     else Inr (k\<lparr>keys := AList.update i key (keys k)\<rparr>))"

definition AddRetired :: "string \<Rightarrow> string \<Rightarrow> Keyring \<Rightarrow> crypto_err + Keyring" where
  "AddRetired i key k = (if length key \<noteq> KeySize then Inl ErrKeySize
     else case checkKeyID i of Some e \<Rightarrow> Inl e | None \<Rightarrow> addLocked i key k)"

definition IDs :: "Keyring \<Rightarrow> string list" where
  "IDs k = map fst (keys k)"

definition Promote :: "string \<Rightarrow> Keyring \<Rightarrow> crypto_err + Keyring" where
  "Promote i k = (if map_of (keys k) i = None then Inl ErrUnknownKey else Inr (k\<lparr>activeID := i\<rparr>))"

text \<open>An unused id: the loop ends because only finitely many are taken.\<close>

lemma show_dec_inj: "show_dec (int m) = show_dec (int n) \<longleftrightarrow> m = n"
  by (metis digits_val_show_dec of_nat_0_le_iff of_nat_eq_iff option.inject)

function nextKeyFrom :: "string list \<Rightarrow> nat \<Rightarrow> string" where
  "nextKeyFrom ids n = (let i = ''k'' @ show_dec (int n) in if i \<notin> set ids then i else nextKeyFrom ids (Suc n))"
  by pat_completeness auto
termination
proof (relation "measure (\<lambda>(ids, n). card {i \<in> set ids. \<exists>m \<ge> n. i = ''k'' @ show_dec (int m)})")
  fix ids :: "string list" and n i
  assume "i = ''k'' @ show_dec (int n)" "\<not> i \<notin> set ids"
  then have "i \<in> {x \<in> set ids. \<exists>m \<ge> n. x = ''k'' @ show_dec (int m)}"
      "i \<notin> {x \<in> set ids. \<exists>m \<ge> Suc n. x = ''k'' @ show_dec (int m)}"
    by (auto simp: show_dec_inj)
  moreover have "{x \<in> set ids. \<exists>m \<ge> Suc n. x = ''k'' @ show_dec (int m)} \<subseteq> {x \<in> set ids. \<exists>m \<ge> n. x = ''k'' @ show_dec (int m)}"
    by (auto intro: Suc_leD)
  ultimately have "{x \<in> set ids. \<exists>m \<ge> Suc n. x = ''k'' @ show_dec (int m)} \<subset> {x \<in> set ids. \<exists>m \<ge> n. x = ''k'' @ show_dec (int m)}"
    by blast
  then show "((ids, Suc n), ids, n) \<in> measure (\<lambda>(ids, n). card {i \<in> set ids. \<exists>m \<ge> n. i = ''k'' @ show_dec (int m)})"
    by (simp add: psubset_card_mono)
qed simp

declare nextKeyFrom.simps [simp del]

definition nextKeyIDLocked :: "Keyring \<Rightarrow> string" where
  "nextKeyIDLocked k = nextKeyFrom (map fst (keys k)) (length (keys k) + 1)"

definition BeginRotation :: "string option \<Rightarrow> Keyring \<Rightarrow> crypto_err + string \<times> Keyring" where
  "BeginRotation rand k = (case rand of None \<Rightarrow> Inl ErrRandom
     | Some key \<Rightarrow> let i = nextKeyIDLocked k in
         orFail (addLocked i key k) (\<lambda>k1. Inr (i, k1\<lparr>activeID := i\<rparr>)))"

definition DropKey :: "string \<Rightarrow> Keyring \<Rightarrow> crypto_err + Keyring" where
  "DropKey i k = (if i = activeID k then Inl ErrDropActive
     else if map_of (keys k) i = None then Inl ErrUnknownKey
     else Inr (k\<lparr>keys := AList.delete i (keys k)\<rparr>))"

section \<open>Sealing and opening\<close>

definition sealWith :: "cipher \<Rightarrow> string \<Rightarrow> string option \<Rightarrow> string \<Rightarrow> string \<Rightarrow> crypto_err + string" where
  "sealWith c key rand plaintext aad = (if length key \<noteq> KeySize then Inl ErrKeySize
     else case rand of None \<Rightarrow> Inl ErrRandom | Some nonce \<Rightarrow> Inr (nonce @ gcmSeal c key nonce plaintext aad))"

definition openWith :: "cipher \<Rightarrow> string \<Rightarrow> string \<Rightarrow> string \<Rightarrow> crypto_err + string" where
  "openWith c key blob aad = (if length key \<noteq> KeySize then Inl ErrKeySize
     else if length blob < nonceSize then Inl ErrMalformed
     else case gcmOpen c key (take nonceSize blob) (drop nonceSize blob) aad of None \<Rightarrow> Inl ErrAuth | Some p \<Rightarrow> Inr p)"

definition Seal :: "cipher \<Rightarrow> string option \<Rightarrow> string option \<Rightarrow> string option \<Rightarrow> Keyring \<Rightarrow> string \<Rightarrow> string \<Rightarrow> crypto_err + string" where
  "Seal c dekRand nonce1 nonce2 k plaintext ctx = (if keys k = [] then Inl ErrEmptyKeyring
     else case map_of (keys k) (activeID k) of None \<Rightarrow> Inl ErrUnknownKey
     | Some master \<Rightarrow> (case dekRand of None \<Rightarrow> Inl ErrRandom
       | Some dek \<Rightarrow> orFail (sealWith c dek nonce1 plaintext ctx) (\<lambda>ciphertext.
           orFail (sealWith c master nonce2 dek (activeID k)) (\<lambda>wrapped.
           encode \<lparr>KeyID = activeID k, WrappedDEK = wrapped, Ciphertext = ciphertext\<rparr>))))"

definition Open :: "cipher \<Rightarrow> Keyring \<Rightarrow> string \<Rightarrow> string \<Rightarrow> crypto_err + string" where
  "Open c k stored ctx = orFail (decode stored) (\<lambda>env.
     case map_of (keys k) (KeyID env) of None \<Rightarrow> Inl ErrUnknownKey
     | Some master \<Rightarrow> (case openWith c master (WrappedDEK env) (KeyID env) of Inl _ \<Rightarrow> Inl ErrOpenFailed
       | Inr dek \<Rightarrow> (case openWith c dek (Ciphertext env) ctx of Inl _ \<Rightarrow> Inl ErrOpenFailed
         | Inr plaintext \<Rightarrow> Inr plaintext)))"

definition Rewrap :: "cipher \<Rightarrow> string option \<Rightarrow> Keyring \<Rightarrow> string \<Rightarrow> crypto_err + string \<times> bool" where
  "Rewrap c nonce k stored = orFail (decode stored) (\<lambda>env.
     if KeyID env = activeID k then Inr (stored, False)
     else case map_of (keys k) (KeyID env) of None \<Rightarrow> Inl ErrUnknownKey
     | Some old \<Rightarrow> (case map_of (keys k) (activeID k) of None \<Rightarrow> Inl ErrUnknownKey
       | Some active \<Rightarrow> (case openWith c old (WrappedDEK env) (KeyID env) of Inl _ \<Rightarrow> Inl ErrOpenFailed
         | Inr dek \<Rightarrow> orFail (sealWith c active nonce dek (activeID k)) (\<lambda>wrapped.
             orFail (encode \<lparr>KeyID = activeID k, WrappedDEK = wrapped, Ciphertext = Ciphertext env\<rparr>) (\<lambda>s. Inr (s, True))))))"

section \<open>The recovery key\<close>

definition RecoveryKey :: "Keyring \<Rightarrow> crypto_err + string" where
  "RecoveryKey k = (case map_of (keys k) (activeID k) of None \<Rightarrow> Inl ErrUnknownKey
     | Some key \<Rightarrow> Inr (''SKIFITY-RECOVERY-v1-'' @ activeID k @ ''-'' @ join_with ''-'' (groups 8 (raw_std32_encode key))))"

definition ParseRecoveryKey :: "string \<Rightarrow> crypto_err + Keyring" where
  "ParseRecoveryKey s = (let t = to_upper (concat (str_fields s)); pre = ''SKIFITY-RECOVERY-V1-'' in
     if \<not> prefix pre t then Inl ErrNotRecovery
     else case cut_at (CHR ''-'') (drop (length pre) t) of (keyID, body, ok) \<Rightarrow>
       if \<not> ok \<or> keyID = [] then Inl ErrNoKeyID
       else case raw_std32_decode (filter (\<lambda>c. c \<noteq> CHR ''-'') body) of None \<Rightarrow> Inl ErrBadText
       | Some raw \<Rightarrow> if length raw \<noteq> KeySize then Inl ErrTruncated else NewKeyring (to_lower keyID) raw)"

section \<open>The key file\<close>

record KeyFile =
  Active :: string
  Keys :: "(string \<times> string) list"

definition decodeKey :: "string \<Rightarrow> crypto_err + string" where
  "decodeKey encoded = (case std64_decode encoded of None \<Rightarrow> Inl ErrBadText
     | Some raw \<Rightarrow> if length raw \<noteq> KeySize then Inl ErrTruncated else Inr raw)"

fun parseLines :: "int \<Rightarrow> string list \<Rightarrow> KeyFile \<Rightarrow> crypto_err + KeyFile" where
  "parseLines i [] kf = Inr kf"
| "parseLines i (raw # ls) kf = (let line = trim_space raw in
     if line = [] \<or> prefix ''#'' line then parseLines (i + 1) ls kf
     else case cut_at (CHR ''='') line of (key0, value0, ok) \<Rightarrow>
       if \<not> ok then Inl (ErrLine (i + 1))
       else let key = trim_space key0; v = trim_space value0 in
         if key = ''active'' then parseLines (i + 1) ls (kf\<lparr>Active := v\<rparr>)
         else parseLines (i + 1) ls (kf\<lparr>Keys := AList.update key v (Keys kf)\<rparr>))"

definition parseKeyFile :: "string \<Rightarrow> crypto_err + KeyFile" where
  "parseKeyFile src = orFail (parseLines 0 (split_on (CHR 0x0A) src) \<lparr>Active = [], Keys = []\<rparr>) (\<lambda>kf.
     if Active kf = [] then Inl ErrNoActiveLine else if Keys kf = [] then Inl ErrNoKeys else Inr kf)"

fun addAll :: "KeyFile \<Rightarrow> string list \<Rightarrow> Keyring \<Rightarrow> crypto_err + Keyring" where
  "addAll kf [] ring = Inr ring"
| "addAll kf (i # ids) ring = (if i = Active kf then addAll kf ids ring
     else orFail (decodeKey (the (map_of (Keys kf) i))) (\<lambda>key. orFail (AddRetired i key ring) (addAll kf ids)))"

definition fileKeyring :: "KeyFile \<Rightarrow> crypto_err + Keyring" where
  "fileKeyring kf = (case map_of (Keys kf) (Active kf) of None \<Rightarrow> Inl ErrActiveMissing
     | Some activeRaw \<Rightarrow> orFail (decodeKey activeRaw) (\<lambda>activeKey.
         orFail (NewKeyring (Active kf) activeKey) (addAll kf (sort (map fst (Keys kf))))))"

definition keyLine :: "Keyring \<Rightarrow> string \<Rightarrow> string" where
  "keyLine ring i = i @ '' = '' @ std64_encode (the (map_of (keys ring) i)) @ [CHR 0x0A]"

definition renderKeyring :: "Keyring \<Rightarrow> string" where
  "renderKeyring ring = ''# Skifity master keys. Anyone holding this file can read every stored secret.'' @ [CHR 0x0A]
     @ ''# Losing it means losing every stored secret. Keep the recovery key somewhere safe.'' @ [CHR 0x0A]
     @ ''active = '' @ activeID ring @ [CHR 0x0A] @ concat (map (keyLine ring) (sort (map fst (keys ring))))"

text \<open>
  A file is its bytes and its permission bits. Writing the key file goes through
  a temporary file in the same directory; \<^verbatim>\<open>failing\<close> is the step that fails, if
  one does, and \<^verbatim>\<open>written\<close> how much of the text a failing write put down.
\<close>

record key_file =
  bytes :: string
  mode :: nat

record key_dir =
  target :: "key_file option"
  temp :: "key_file option"

datatype save_step = MkdirAll | CreateTemp | Chmod | WriteString | SyncFile | CloseFile | Rename | OpenDir | SyncDir

definition saveSteps :: "save_step list" where
  "saveSteps = [MkdirAll, CreateTemp, Chmod, WriteString, SyncFile, CloseFile, Rename, OpenDir, SyncDir]"

fun saveEffect :: "string \<Rightarrow> save_step \<Rightarrow> key_dir \<Rightarrow> key_dir" where
  "saveEffect txt CreateTemp d = d\<lparr>temp := Some \<lparr>bytes = [], mode = 384\<rparr>\<rparr>"
| "saveEffect txt Chmod d = d\<lparr>temp := map_option (\<lambda>f. f\<lparr>mode := 384\<rparr>) (temp d)\<rparr>"
| "saveEffect txt WriteString d = d\<lparr>temp := map_option (\<lambda>f. f\<lparr>bytes := bytes f @ txt\<rparr>) (temp d)\<rparr>"
| "saveEffect txt Rename d = d\<lparr>target := temp d, temp := None\<rparr>"
| "saveEffect txt _ d = d"

fun runSave :: "string \<Rightarrow> nat \<Rightarrow> save_step option \<Rightarrow> save_step list \<Rightarrow> key_dir \<Rightarrow> (crypto_err + unit) \<times> key_dir" where
  "runSave txt written failing [] d = (Inr (), d)"
| "runSave txt written failing (st # sts) d = (if failing = Some st
     then (Inl ErrIO, if st = WriteString then saveEffect (take written txt) WriteString d else d)
     else runSave txt written failing sts (saveEffect txt st d))"

definition SaveKeyring :: "nat \<Rightarrow> save_step option \<Rightarrow> Keyring \<Rightarrow> key_dir \<Rightarrow> (crypto_err + unit) \<times> key_dir" where
  "SaveKeyring written failing ring d = (case runSave (renderKeyring ring) written failing saveSteps d of
     (r, d1) \<Rightarrow> (r, d1\<lparr>temp := None\<rparr>))"

definition checkPermissions :: "key_file \<Rightarrow> crypto_err option" where
  "checkPermissions f = (if mode f mod 64 \<noteq> 0 then Some ErrPermissions else None)"

definition LoadKeyring :: "key_dir \<Rightarrow> crypto_err + Keyring" where
  "LoadKeyring d = (case target d of None \<Rightarrow> Inl ErrNoFile
     | Some f \<Rightarrow> (case checkPermissions f of Some e \<Rightarrow> Inl e
       | None \<Rightarrow> orFail (parseKeyFile (bytes f)) fileKeyring))"

definition InitKeyring :: "string option \<Rightarrow> nat \<Rightarrow> save_step option \<Rightarrow> key_dir \<Rightarrow> (crypto_err + Keyring) \<times> key_dir" where
  "InitKeyring rand written failing d = (if target d \<noteq> None then (LoadKeyring d, d)
     else case rand of None \<Rightarrow> (Inl ErrRandom, d)
     | Some key \<Rightarrow> (case NewKeyring ''k1'' key of Inl e \<Rightarrow> (Inl e, d)
       | Inr ring \<Rightarrow> (case SaveKeyring written failing ring d of
           (Inl e, d1) \<Rightarrow> (Inl e, d1) | (Inr _, d1) \<Rightarrow> (Inr ring, d1))))"

definition RandomToken :: "nat \<Rightarrow> string option \<Rightarrow> crypto_err + string" where
  "RandomToken n rand = (if n < 16 then Inl ErrLength
     else case rand of None \<Rightarrow> Inl ErrRandom | Some buf \<Rightarrow> Inr (raw_url64_encode buf))"

definition RandomName :: "nat \<Rightarrow> string option \<Rightarrow> crypto_err + string" where
  "RandomName n rand = (if n < 4 \<or> n > 32 then Inl ErrLength
     else case rand of None \<Rightarrow> Inl ErrRandom | Some buf \<Rightarrow> Inr (take n (to_lower (raw_std32_encode buf))))"

section \<open>Encoding and decoding\<close>

lemma of_char_byte: "0 \<le> n \<Longrightarrow> n < 256 \<Longrightarrow> (of_char (char_of (n :: int)) :: nat) = nat n"
proof -
  assume n: "0 \<le> n" "n < 256"
  have "int (of_char (char_of n) :: nat) = (of_char (char_of n) :: int)" by (rule of_nat_of_char)
  also have "\<dots> = n" using n by simp
  finally show ?thesis by simp
qed

lemma byte_at_bound: "byte_at s i < 256"
proof -
  have "(of_char c :: nat) < 256" for c :: char
    by (metis nat_of_char_less_256)
  then show ?thesis by (simp add: byte_at_def)
qed

lemma char_of_byte_at: "char_of (int (byte_at s i)) = s ! i" "char_of (byte_at s i) = s ! i"
  by (simp_all add: byte_at_def)

lemma decode_encode:
  assumes "encode e = Inr s" "nonceSize \<le> length (Ciphertext e)"
  shows "decode s = Inr e"
proof -
  let ?n = "int (length (WrappedDEK e))" and ?l = "int (length (KeyID e))"
  define body where "body = [magicV1, char_of ?l] @ KeyID e @ [char_of (?n div 256), char_of (?n mod 256)] @ WrappedDEK e @ Ciphertext e"
  have b: "?l \<le> 255" "?n \<le> 65535" and s: "s = magic @ ''.'' @ raw_url64_encode body"
    using assms(1) by (auto simp: encode_def body_def Let_def maxKeyIDLen_def split: if_splits)
  have i1: "byte_at body 1 = length (KeyID e)" using b(1) by (simp add: byte_at_def body_def of_char_byte)
  have "body ! (2 + length (KeyID e)) = char_of (?n div 256)" "body ! (2 + length (KeyID e) + 1) = char_of (?n mod 256)"
    by (simp_all add: body_def nth_append)
  then have w: "256 * byte_at body (2 + length (KeyID e)) + byte_at body (2 + length (KeyID e) + 1) = length (WrappedDEK e)"
    using b(2) by (simp add: byte_at_def of_char_byte nat_div_distrib nat_mod_distrib)
  have d: "drop (2 + length (KeyID e) + 2) body = WrappedDEK e @ Ciphertext e" by (simp add: body_def)
  have "decodeBody body = Inr e"
    unfolding decodeBody_def Let_def i1 w d using assms(2) by (simp add: body_def)
  then show ?thesis by (simp add: decode_def s magic_def raw_url64_strict_roundtrip)
qed

lemma decodeBody_parts:
  assumes "decodeBody body = Inr e"
  shows "body = [magicV1, char_of (int (length (KeyID e)))] @ KeyID e
      @ [char_of (int (length (WrappedDEK e)) div 256), char_of (int (length (WrappedDEK e)) mod 256)] @ WrappedDEK e @ Ciphertext e
    \<and> length (KeyID e) < 256 \<and> length (WrappedDEK e) < 65536 \<and> nonceSize \<le> length (Ciphertext e)"
proof -
  define l where "l = byte_at body 1"
  define w where "w = 256 * byte_at body (2 + l) + byte_at body (2 + l + 1)"
  define rest where "rest = drop (2 + l + 2) body"
  have g: "2 \<le> length body" "body ! 0 = magicV1" "2 + l + 2 \<le> length body" "w + nonceSize \<le> length rest"
    and e: "e = \<lparr>KeyID = take l (drop 2 body), WrappedDEK = take w rest, Ciphertext = drop w rest\<rparr>"
    using assms by (auto simp: decodeBody_def Let_def l_def w_def rest_def not_less split: if_splits)
  have len: "length (KeyID e) = l" "length (WrappedDEK e) = w" using g by (simp_all add: e)
  have parts: "body = take 2 body @ take l (drop 2 body) @ take 2 (drop l (drop 2 body)) @ rest"
  proof -
    have "drop 2 (drop l (drop 2 body)) = rest" by (simp add: rest_def add.commute add.left_commute)
    then show ?thesis
      using append_take_drop_id [of 2 body] append_take_drop_id [of l "drop 2 body"] append_take_drop_id [of 2 "drop l (drop 2 body)"]
      by simp
  qed
  have p1: "take 2 body = [magicV1, char_of (int l)]"
  proof (rule nth_equalityI)
    show "length (take 2 body) = length [magicV1, char_of (int l)]" using g by simp
    fix i assume "i < length (take 2 body)"
    then have "i = 0 \<or> i = 1" by auto
    then show "take 2 body ! i = [magicV1, char_of (int l)] ! i" using g by (auto simp: l_def char_of_byte_at)
  qed
  have p2: "take 2 (drop l (drop 2 body)) = [char_of (int w div 256), char_of (int w mod 256)]"
  proof (rule nth_equalityI)
    show "length (take 2 (drop l (drop 2 body))) = length [char_of (int w div 256), char_of (int w mod 256)]" using g by simp
    have "int w div 256 = int (byte_at body (2 + l))" "int w mod 256 = int (byte_at body (2 + l + 1))"
      using byte_at_bound [of body "2 + l + 1"] by (simp_all add: w_def)
    moreover fix i assume "i < length (take 2 (drop l (drop 2 body)))"
    then have "i = 0 \<or> i = 1" by auto
    ultimately show "take 2 (drop l (drop 2 body)) ! i = [char_of (int w div 256), char_of (int w mod 256)] ! i"
      using g by (auto simp: char_of_byte_at add.commute add.left_commute)
  qed
  have p3: "rest = WrappedDEK e @ Ciphertext e" "take l (drop 2 body) = KeyID e" by (simp_all add: e)
  have "l < 256" "w < 65536"
    using byte_at_bound [of body 1] byte_at_bound [of body "2 + l"] byte_at_bound [of body "2 + l + 1"]
    by (simp_all add: l_def w_def)
  moreover have "nonceSize \<le> length (Ciphertext e)" using g(4) by (simp add: e)
  moreover have "body = [magicV1, char_of (int l)] @ KeyID e @ [char_of (int w div 256), char_of (int w mod 256)] @ WrappedDEK e @ Ciphertext e"
    using parts unfolding p1 p2 p3 .
  ultimately show ?thesis unfolding len by blast
qed

lemma encode_decode:
  assumes "decode s = Inr e"
  shows "encode e = Inr (no_breaks s)"
proof -
  obtain body where p: "prefix (magic @ ''.'') s" and b: "raw_url64_strict (drop 5 s) = Some body" "decodeBody body = Inr e"
    using assms by (auto simp: decode_def split: if_splits option.splits)
  obtain t where t: "s = magic @ ''.'' @ t" using p by (auto simp: prefix_def)
  have "no_breaks s = magic @ ''.'' @ no_breaks t" by (simp add: t no_breaks_def magic_def)
  moreover have "raw_url64_encode body = no_breaks t" using raw_url64_strict_canonical [OF b(1)] by (simp add: t magic_def)
  ultimately show ?thesis using decodeBody_parts [OF b(2)] by (simp add: encode_def Let_def maxKeyIDLen_def)
qed

section \<open>The keyring\<close>

definition ring_ok :: "Keyring \<Rightarrow> bool" where
  "ring_ok k \<longleftrightarrow> map_well (keys k) \<and> map_of (keys k) (activeID k) \<noteq> None
    \<and> (\<forall>(i, key) \<in> set (keys k). checkKeyID i = None \<and> length key = KeySize)"

lemma ring_ok_lookup:
  assumes "ring_ok k" "map_of (keys k) i = Some key"
  shows "checkKeyID i = None" "length key = KeySize"
  using assms map_of_SomeD [OF assms(2)] by (auto simp: ring_ok_def)

lemma ring_ok_update:
  assumes "ring_ok k" "checkKeyID i = None" "length key = KeySize"
  shows "ring_ok (k\<lparr>keys := AList.update i key (keys k)\<rparr>)"
proof -
  have "set (AList.update i key al) \<subseteq> insert (i, key) (set al)" for al by (induction al) auto
  note this [of "keys k"]
  then show ?thesis using assms by (auto simp: ring_ok_def go_map.well_insert update_conv')
qed

lemma nextKeyFrom_fresh: "nextKeyFrom ids n \<notin> set ids"
  by (induction ids n rule: nextKeyFrom.induct) (subst nextKeyFrom.simps, auto simp: Let_def)

lemma nextKeyFrom_form: "\<exists>m \<ge> n. nextKeyFrom ids n = ''k'' @ show_dec (int m)
    \<and> (\<forall>j. n \<le> j \<and> j < m \<longrightarrow> ''k'' @ show_dec (int j) \<in> set ids)"
proof (induction ids n rule: nextKeyFrom.induct)
  case (1 ids n)
  show ?case
  proof (cases "''k'' @ show_dec (int n) \<in> set ids")
    case True
    then obtain m where "m \<ge> Suc n" "nextKeyFrom ids (Suc n) = ''k'' @ show_dec (int m)"
        "\<forall>j. Suc n \<le> j \<and> j < m \<longrightarrow> ''k'' @ show_dec (int j) \<in> set ids" using 1 by auto
    moreover have "nextKeyFrom ids n = nextKeyFrom ids (Suc n)" using True by (subst nextKeyFrom.simps) (simp add: Let_def)
    ultimately show ?thesis using True by (intro exI [of _ m]) (auto simp: le_Suc_eq Suc_le_eq nat_less_le)
  next
    case False
    then have "nextKeyFrom ids n = ''k'' @ show_dec (int n)" by (subst nextKeyFrom.simps) (simp add: Let_def)
    then show ?thesis by auto
  qed
qed

text \<open>The search looks at no more numbers than there are keys.\<close>

lemma nextKeyFrom_bound: "\<exists>m. n \<le> m \<and> m \<le> n + length ids \<and> nextKeyFrom ids n = ''k'' @ show_dec (int m)"
proof -
  obtain m where m: "m \<ge> n" "nextKeyFrom ids n = ''k'' @ show_dec (int m)"
      "\<forall>j. n \<le> j \<and> j < m \<longrightarrow> ''k'' @ show_dec (int j) \<in> set ids" using nextKeyFrom_form by blast
  have "(\<lambda>j. ''k'' @ show_dec (int j)) ` {n ..< m} \<subseteq> set ids" using m(3) by auto
  moreover have "inj_on (\<lambda>j. ''k'' @ show_dec (int j)) {n ..< m}" by (auto simp: inj_on_def show_dec_inj)
  ultimately have "card {n ..< m} \<le> card (set ids)" by (metis card_image card_mono List.finite_set)
  then have "m - n \<le> length ids" using card_length [of ids] by simp
  then show ?thesis using m by (intro exI [of _ m]) auto
qed

lemma nextKeyID_valid:
  assumes "length (keys k) < 10 ^ 18"
  shows "checkKeyID (nextKeyIDLocked k) = None" "map_of (keys k) (nextKeyIDLocked k) = None"
proof -
  show "map_of (keys k) (nextKeyIDLocked k) = None"
    using nextKeyFrom_fresh [of "map fst (keys k)"] by (simp add: nextKeyIDLocked_def map_of_eq_None_iff)
  obtain m where m: "m \<le> length (keys k) + 1 + length (keys k)" "nextKeyIDLocked k = ''k'' @ show_dec (int m)"
    using nextKeyFrom_bound [of "length (keys k) + 1" "map fst (keys k)"] by (auto simp: nextKeyIDLocked_def)
  have "int m < 10 ^ 20" using m(1) assms by simp
  then have "length (show_dec (int m)) \<le> 20" using length_show_dec [of "int m" 20] by simp
  moreover have "\<not> is_digit (CHR '':'')" by code_simp
  then have "CHR '':'' \<notin> set (show_dec (int m))" using show_dec_digits [of "int m" "CHR '':''"] by auto
  ultimately show "checkKeyID (nextKeyIDLocked k) = None" by (auto simp: checkKeyID_def m(2) maxKeyIDLen_def)
qed

text \<open>
  The keyrings a panel can hold: a first key, then keys added, promoted, rotated
  in and dropped. A generated key has the right size; that a keyring holds fewer
  than \<^verbatim>\<open>10 ^ 18\<close> keys is a bound of the machine.
\<close>

inductive ring_step :: "Keyring \<Rightarrow> Keyring \<Rightarrow> bool" where
  add: "AddRetired i key k = Inr k1 \<Longrightarrow> ring_step k k1"
| promote: "Promote i k = Inr k1 \<Longrightarrow> ring_step k k1"
| rotate: "length key = KeySize \<Longrightarrow> length (keys k) < 10 ^ 18 \<Longrightarrow> BeginRotation (Some key) k = Inr (i, k1) \<Longrightarrow> ring_step k k1"
| drop: "DropKey i k = Inr k1 \<Longrightarrow> ring_step k k1"

inductive reachable_ring :: "Keyring \<Rightarrow> bool" where
  new: "NewKeyring i key = Inr k \<Longrightarrow> reachable_ring k"
| step: "reachable_ring k \<Longrightarrow> ring_step k k1 \<Longrightarrow> reachable_ring k1"

lemma NewKeyring_ok: "NewKeyring i key = Inr k \<Longrightarrow> ring_ok k"
  by (auto simp: NewKeyring_def ring_ok_def map_well_def split: if_splits option.splits)

lemma BeginRotation_Inr:
  assumes "BeginRotation (Some key) k = Inr (i, k1)"
  shows "i = nextKeyIDLocked k" "k1 = k\<lparr>keys := AList.update i key (keys k), activeID := i\<rparr>" "map_of (keys k) i = None"
  using assms by (auto simp: BeginRotation_def addLocked_def orFail_def Let_def split: if_splits)

lemma ring_step_ok: "ring_step k k1 \<Longrightarrow> ring_ok k \<Longrightarrow> ring_ok k1"
proof (induction rule: ring_step.induct)
  case (add i key k k1)
  then show ?case by (auto simp: AddRetired_def addLocked_def intro: ring_ok_update split: if_splits option.splits)
next
  case (promote i k k1)
  then show ?case by (auto simp: Promote_def ring_ok_def split: if_splits)
next
  case (rotate key k i k1)
  note k1 = BeginRotation_Inr [OF rotate(3)]
  have "ring_ok (k\<lparr>keys := AList.update i key (keys k)\<rparr>)"
    using rotate nextKeyID_valid [OF rotate(2)] k1(1) by (intro ring_ok_update) auto
  then show ?case by (simp add: k1(2) ring_ok_def update_conv')
next
  case (drop i k k1)
  then have "k1 = k\<lparr>keys := AList.delete i (keys k)\<rparr>" "i \<noteq> activeID k" by (auto simp: DropKey_def split: if_splits)
  moreover have "set (AList.delete i (keys k)) \<subseteq> set (keys k)" by (auto simp: AList.delete_eq)
  ultimately show ?case using drop(2)
    by (auto simp: ring_ok_def go_map.well_delete go_map.lookup_delete)
qed

lemma reachable_ring_ok: "reachable_ring k \<Longrightarrow> ring_ok k"
  by (induction rule: reachable_ring.induct) (auto intro: NewKeyring_ok ring_step_ok)

section \<open>Sealed text comes back\<close>

definition gcm_correct :: "cipher \<Rightarrow> bool" where
  "gcm_correct c \<longleftrightarrow> (\<forall>key n p a. length key = KeySize \<longrightarrow> length n = nonceSize \<longrightarrow>
     gcmOpen c key n (gcmSeal c key n p a) a = Some p \<and> length (gcmSeal c key n p a) = length p + 16)"

lemma openWith_sealWith:
  assumes "gcm_correct c" "sealWith c key (Some n) p a = Inr blob" "length n = nonceSize"
  shows "openWith c key blob a = Inr p" "length blob = length p + 28"
  using assms by (auto simp: sealWith_def openWith_def gcm_correct_def nonceSize_def split: if_splits)

lemma sealWith_some: "length key = KeySize \<Longrightarrow> \<exists>blob. sealWith c key (Some n) p a = Inr blob"
  by (simp add: sealWith_def)

lemma encode_some:
  assumes "checkKeyID (KeyID e) = None" "length (WrappedDEK e) \<le> 60"
  shows "\<exists>s. encode e = Inr s"
  using assms by (auto simp: encode_def checkKeyID_def Let_def split: if_splits)

lemma Open_envelope:
  assumes "decode s = Inr e" "map_of (keys k) (KeyID e) = Some master" "openWith c master (WrappedDEK e) (KeyID e) = Inr dek"
  shows "Open c k s ctx = (case openWith c dek (Ciphertext e) ctx of Inl _ \<Rightarrow> Inl ErrOpenFailed | Inr p \<Rightarrow> Inr p)"
  using assms by (simp add: Open_def orFail_def)

text \<open>Whatever keys were added, promoted, rotated in or dropped before, sealing succeeds
  and opening under the same context gives the plaintext back; the envelope names the active key and
  holds no line break.\<close>
theorem Seal_Open:
  assumes "reachable_ring k" "gcm_correct c" "length dek = KeySize" "length n1 = nonceSize" "length n2 = nonceSize"
  shows "\<exists>s. Seal c (Some dek) (Some n1) (Some n2) k p ctx = Inr s \<and> Open c k s ctx = Inr p
    \<and> KeyIDOf s = Inr (activeID k) \<and> no_breaks s = s"
proof -
  have ok: "ring_ok k" using assms(1) by (rule reachable_ring_ok)
  then obtain master where m: "map_of (keys k) (activeID k) = Some master" by (auto simp: ring_ok_def)
  note mk = ring_ok_lookup [OF ok m]
  obtain ct where ct: "sealWith c dek (Some n1) p ctx = Inr ct" using sealWith_some [OF assms(3)] by blast
  obtain w where w: "sealWith c master (Some n2) dek (activeID k) = Inr w" using sealWith_some [OF mk(2)] by blast
  note oct = openWith_sealWith [OF assms(2) ct assms(4)] and ow = openWith_sealWith [OF assms(2) w assms(5)]
  let ?e = "\<lparr>KeyID = activeID k, WrappedDEK = w, Ciphertext = ct\<rparr>"
  obtain s where s: "encode ?e = Inr s" using encode_some [of ?e] mk ow(2) assms(3) by (auto simp: KeySize_def)
  have d: "decode s = Inr ?e" using decode_encode [OF s] oct(2) by (simp add: nonceSize_def)
  have "Seal c (Some dek) (Some n1) (Some n2) k p ctx = Inr s"
    using m ct w s by (auto simp: Seal_def orFail_def)
  moreover have "Open c k s ctx = Inr p" using Open_envelope [OF d, of k master c dek ctx] m ow(1) oct(1) by simp
  moreover have "no_breaks s = s" using encode_decode [OF d] s by simp
  ultimately show ?thesis using d by (auto simp: KeyIDOf_def orFail_def)
qed

lemma Rewrap_Inr:
  assumes "Rewrap c (Some n) k s = Inr (s1, True)"
  obtains e old active dek w where "decode s = Inr e" "KeyID e \<noteq> activeID k" "map_of (keys k) (KeyID e) = Some old"
    "map_of (keys k) (activeID k) = Some active" "openWith c old (WrappedDEK e) (KeyID e) = Inr dek"
    "sealWith c active (Some n) dek (activeID k) = Inr w"
    "encode \<lparr>KeyID = activeID k, WrappedDEK = w, Ciphertext = Ciphertext e\<rparr> = Inr s1"
  using assms by (auto simp: Rewrap_def orFail_def split: sum.splits if_splits option.splits)

lemma decode_ciphertext: "decode s = Inr e \<Longrightarrow> nonceSize \<le> length (Ciphertext e)"
  using decodeBody_parts by (auto simp: decode_def split: if_splits option.splits)

text \<open>C15: Rewrapping moves an envelope to the active key and changes nothing else: under
  every context it opens, or fails to open, exactly as before.\<close>
theorem Rewrap_opens_alike:
  assumes "gcm_correct c" "length n = nonceSize" "Rewrap c (Some n) k s = Inr (s1, changed)"
  shows "KeyIDOf s1 = Inr (activeID k) \<and> (\<forall>ctx. Open c k s1 ctx = Open c k s ctx) \<and> (changed \<or> s1 = s)"
proof (cases changed)
  case True
  obtain e old active dek w where r: "decode s = Inr e" "map_of (keys k) (KeyID e) = Some old"
    "map_of (keys k) (activeID k) = Some active" "openWith c old (WrappedDEK e) (KeyID e) = Inr dek"
    "sealWith c active (Some n) dek (activeID k) = Inr w"
    "encode \<lparr>KeyID = activeID k, WrappedDEK = w, Ciphertext = Ciphertext e\<rparr> = Inr s1"
    using Rewrap_Inr assms(3) True by (metis (full_types))
  have d: "decode s1 = Inr \<lparr>KeyID = activeID k, WrappedDEK = w, Ciphertext = Ciphertext e\<rparr>"
    using decode_encode [OF r(6)] decode_ciphertext [OF r(1)] by simp
  have "Open c k s1 ctx = Open c k s ctx" for ctx
    using Open_envelope [OF d, of k active c dek ctx] Open_envelope [OF r(1,2,4), of ctx] r(3)
      openWith_sealWith(1) [OF assms(1) r(5) assms(2)] by simp
  then show ?thesis using d True by (auto simp: KeyIDOf_def orFail_def)
next
  case False
  then show ?thesis using assms(3)
    by (auto simp: Rewrap_def KeyIDOf_def orFail_def split: sum.splits if_splits option.splits)
qed

text \<open>C16: A rotation loses nothing: after a new key is rotated in, every envelope that
  opened can be rewrapped, and what comes out opens with the new key alone.\<close>
theorem rotation_keeps_secrets:
  assumes "gcm_correct c" "Open c k s ctx = Inr p" "BeginRotation (Some key) k = Inr (i, k1)"
    and "length key = KeySize" "length n = nonceSize" "length (keys k) < 10 ^ 18"
  shows "\<exists>s1. Rewrap c (Some n) k1 s = Inr (s1, True) \<and> (\<forall>k2. map_of (keys k2) i = Some key \<longrightarrow> Open c k2 s1 ctx = Inr p)"
proof -
  obtain e old dek where r: "decode s = Inr e" "map_of (keys k) (KeyID e) = Some old"
      "openWith c old (WrappedDEK e) (KeyID e) = Inr dek" "openWith c dek (Ciphertext e) ctx = Inr p"
    using assms(2) by (auto simp: Open_def orFail_def split: sum.splits option.splits)
  note k1 = BeginRotation_Inr [OF assms(3)]
  have ids: "KeyID e \<noteq> i" "map_of (keys k1) (KeyID e) = Some old" "map_of (keys k1) i = Some key" "activeID k1 = i"
    using k1 r(2) by (auto simp: update_conv')
  have dek: "length dek = KeySize" using r(4) by (simp add: openWith_def split: if_splits)
  obtain w where w: "sealWith c key (Some n) dek i = Inr w" using sealWith_some [OF assms(4)] by blast
  note ow = openWith_sealWith [OF assms(1) w assms(5)]
  let ?e = "\<lparr>KeyID = i, WrappedDEK = w, Ciphertext = Ciphertext e\<rparr>"
  have "checkKeyID i = None" using nextKeyID_valid(1) [OF assms(6)] k1(1) by simp
  then obtain s1 where s1: "encode ?e = Inr s1" using encode_some [of ?e] ow(2) dek by (auto simp: KeySize_def)
  have d: "decode s1 = Inr ?e" using decode_encode [OF s1] decode_ciphertext [OF r(1)] by simp
  have "Rewrap c (Some n) k1 s = Inr (s1, True)" using r ids w s1 by (simp add: Rewrap_def orFail_def)
  moreover have "Open c k2 s1 ctx = Inr p" if "map_of (keys k2) i = Some key" for k2
    using Open_envelope [OF d, of k2 key c dek ctx] that ow(1) r(4) by simp
  ultimately show ?thesis by blast
qed

section \<open>The recovery key comes back\<close>

lemma concat_groups: "0 < k \<Longrightarrow> concat (groups k xs) = xs"
  by (induction k xs rule: groups.induct) (subst groups.simps, auto)

lemma concat_str_fields: "concat (str_fields t) = filter (\<lambda>c. \<not> is_space c) t"
proof -
  have "concat (fields_acc p cur t) = rev cur @ filter (\<lambda>c. \<not> p c) t" for p cur
    by (induction t arbitrary: cur) auto
  then show ?thesis by (simp add: str_fields_def fields_func_def)
qed

lemma filter_join: "\<forall>g \<in> set gs. c \<notin> set g \<Longrightarrow> filter (\<lambda>x. x \<noteq> c) (join_with [c] gs) = concat gs"
proof (induction "[c]" gs rule: join_with.induct)
  case (3 x y ys)
  then show ?case by (auto simp: filter_id_conv)
qed (auto simp: filter_id_conv)

lemma join_chars: "x \<in> set (join_with sep gs) \<Longrightarrow> x \<in> set sep \<or> (\<exists>g \<in> set gs. x \<in> set g)"
  by (induction sep gs rule: join_with.induct) auto

lemma to_upper_dash: "to_upper_char c = CHR ''-'' \<longleftrightarrow> c = CHR ''-''"
proof -
  have "list_all (\<lambda>c. (to_upper_char c = CHR ''-'') = (c = CHR ''-'')) Enum.enum" by code_simp
  then show ?thesis by (simp add: list_all_iff UNIV_enum [symmetric])
qed

definition plain_id :: "string \<Rightarrow> bool" where
  "plain_id i \<longleftrightarrow> (\<forall>c \<in> set i. c \<noteq> CHR ''-'' \<and> to_lower_char (to_upper_char c) = c)"

lemma plain_id_case: "plain_id i \<Longrightarrow> to_lower (to_upper i) = i \<and> CHR ''-'' \<notin> set (to_upper i)"
proof
  assume p: "plain_id i"
  have "to_lower (to_upper i) = map (\<lambda>c. to_lower_char (to_upper_char c)) i" by (simp add: to_lower_def to_upper_def)
  also have "\<dots> = i" using p by (intro map_idI) (simp add: plain_id_def)
  finally show "to_lower (to_upper i) = i" .
  have "c \<noteq> CHR ''-''" if "c \<in> set (to_upper i)" for c
    using that p to_upper_dash unfolding to_upper_def plain_id_def by force
  then show "CHR ''-'' \<notin> set (to_upper i)" by blast
qed

text \<open>A recovery key that is typed back, with any spacing and in either case, gives a
  keyring of the active key alone, under its own id, that opens whatever that key has sealed.
  The id must have no dash and no upper-case letter, as the ids the panel makes have.\<close>
theorem recovery_key_roundtrip:
  assumes "ring_ok k" "plain_id (activeID k)" "RecoveryKey k = Inr s"
    and typed: "to_upper (filter (\<lambda>ch. \<not> is_space ch) t) = to_upper s"
  shows "\<exists>k1. ParseRecoveryKey t = Inr k1 \<and> activeID k1 = activeID k \<and> IDs k1 = [activeID k]
    \<and> (\<forall>c e ctx. KeyIDOf e = Inr (activeID k) \<longrightarrow> Open c k1 e ctx = Open c k e ctx)"
proof -
  obtain key where key: "map_of (keys k) (activeID k) = Some key" using assms(1) by (auto simp: ring_ok_def)
  note kk = ring_ok_lookup [OF assms(1) key]
  define enc where "enc = raw_std32_encode key"
  define grps where "grps = join_with ''-'' (groups 8 enc)"
  have c32: "c \<in> set std32" if "c \<in> set enc" for c
    using encode_bits_alphabet [OF std32_alphabet(2)] that by (simp add: enc_def raw_std32_encode_def)
  have in_enc: "c \<in> set enc" if "g \<in> set (groups 8 enc)" "c \<in> set g" for c g
    using concat_groups [of 8 enc] that by (metis UN_I set_concat zero_less_numeral)
  have s: "s = ''SKIFITY-RECOVERY-v1-'' @ activeID k @ ''-'' @ grps"
    using assms(3) key by (simp add: RecoveryKey_def enc_def grps_def)
  have "to_upper_char c = c" if "c \<in> set grps" for c
  proof -
    have "c = CHR ''-'' \<or> c \<in> set enc" using join_chars [of c "''-''" "groups 8 enc"] that in_enc by (auto simp: grps_def)
    then show ?thesis using std32_class c32 to_upper_dash by blast
  qed
  then have ug: "to_upper grps = grps" unfolding to_upper_def by (simp add: map_idI)
  have up: "to_upper ''SKIFITY-RECOVERY-v1-'' = ''SKIFITY-RECOVERY-V1-''" by code_simp
  have ud: "to_upper ''-'' = ''-''" by code_simp
  have ua: "to_upper (a @ b) = to_upper a @ to_upper b" for a b by (simp add: to_upper_def)
  have u: "to_upper s = ''SKIFITY-RECOVERY-V1-'' @ to_upper (activeID k) @ ''-'' @ grps"
    unfolding s ua ug up ud by (rule refl)
  have cut: "cut_at (CHR ''-'') (to_upper (activeID k) @ ''-'' @ grps) = (to_upper (activeID k), grps, True)"
    using plain_id_case [OF assms(2)] by (simp add: cut_at_append_sep)
  have "filter (\<lambda>c. c \<noteq> CHR ''-'') grps = enc"
    unfolding grps_def using filter_join [of "groups 8 enc" "CHR ''-''"] concat_groups [of 8 enc] in_enc c32 std32_class by auto
  moreover have "raw_std32_decode enc = Some key" by (simp add: enc_def raw_std32_roundtrip)
  moreover have ne: "to_upper (activeID k) \<noteq> []" "activeID k \<noteq> []" using kk(1) by (auto simp: checkKeyID_def to_upper_def split: if_splits)
  ultimately have "ParseRecoveryKey t = NewKeyring (activeID k) key"
    using cut kk plain_id_case [OF assms(2)] typed u by (simp add: ParseRecoveryKey_def Let_def concat_str_fields prefix_def)
  also have "\<dots> = Inr \<lparr>keys = [(activeID k, key)], activeID = activeID k\<rparr>" using kk ne by (simp add: NewKeyring_def)
  finally show ?thesis using key
    by (intro exI [of _ "\<lparr>keys = [(activeID k, key)], activeID = activeID k\<rparr>"])
      (auto simp: IDs_def KeyIDOf_def Open_def orFail_def split: sum.splits)
qed

section \<open>The key file comes back\<close>

definition file_id :: "string \<Rightarrow> bool" where
  "file_id i \<longleftrightarrow> i \<noteq> [] \<and> \<not> is_space (hd i) \<and> \<not> is_space (last i) \<and> CHR ''='' \<notin> set i \<and> CHR 0x0A \<notin> set i
    \<and> hd i \<noteq> CHR ''#'' \<and> i \<noteq> ''active''"

lemma split_on_lines:
  "\<forall>l \<in> set ls. c \<notin> set l \<Longrightarrow> split_on c (concat (map (\<lambda>l. l @ [c]) ls)) = ls @ [[]]"
  by (induction ls) (auto simp: split_on_append_sep)

lemma parse_line:
  assumes "a \<noteq> []" "\<not> is_space (hd a)" "\<not> is_space (last a)" "CHR ''='' \<notin> set a" "hd a \<noteq> CHR ''#''"
    and "v \<noteq> []" "\<not> is_space (hd v)" "\<not> is_space (last v)"
  shows "parseLines n ((a @ '' = '' @ v) # ls) kf = parseLines (n + 1) ls
     (if a = ''active'' then kf\<lparr>Active := v\<rparr> else kf\<lparr>Keys := AList.update a v (Keys kf)\<rparr>)"
proof -
  have t: "trim_space (a @ '' = '' @ v) = a @ '' = '' @ v" using assms by (intro trim_space_fixed) simp_all
  have "\<not> prefix ''#'' (a @ '' = '' @ v)" using assms(1,5) by (cases a) auto
  moreover have "cut_at (CHR ''='') (a @ '' = '' @ v) = (a @ '' '', '' '' @ v, True)"
    using cut_at_append_sep [of "CHR ''=''" "a @ '' ''" "'' '' @ v"] assms(4) by simp
  moreover have "trim_space (a @ '' '') = a"
    using trim_space_right [of "'' ''" a] trim_space_fixed [OF assms(1-3)] by (simp add: is_space_def)
  moreover have "trim_space ('' '' @ v) = v"
    using trim_space_dropWhile [of "'' '' @ v"] trim_space_dropWhile [of v] trim_space_fixed [OF assms(6-8)] by (simp add: is_space_def)
  ultimately show ?thesis using t assms(1) by simp
qed

lemma std64_encode_text:
  assumes "bs \<noteq> []"
  shows "std64_encode bs \<noteq> []" "\<not> is_space (hd (std64_encode bs))" "\<not> is_space (last (std64_encode bs))"
    "CHR 0x0A \<notin> set (std64_encode bs)"
proof -
  have l: "length (raw_std64_encode bs) > 0" using assms by (cases bs) (simp_all add: raw_std64_encode_def length_encode_bits)
  then show ne: "std64_encode bs \<noteq> []" by (auto simp: std64_encode_def Let_def)
  have c: "c \<in> set std64 \<or> c = CHR ''=''" if "c \<in> set (std64_encode bs)" for c
    using that raw_std64_chars by (auto simp: std64_encode_def Let_def)
  have sp: "\<not> is_space c" if "c \<in> set std64 \<or> c = CHR ''=''" for c using that by (auto simp: std64_def is_space_def)
  show "\<not> is_space (hd (std64_encode bs))" "\<not> is_space (last (std64_encode bs))" using sp c ne by simp_all
  show "CHR 0x0A \<notin> set (std64_encode bs)" using sp c by (auto simp: is_space_def)
qed

lemma parse_keys:
  assumes "\<forall>i \<in> set ids. file_id i \<and> f i \<noteq> []"
  shows "parseLines n (map (\<lambda>i. i @ '' = '' @ std64_encode (f i)) ids @ [[]]) kf
    = Inr (kf\<lparr>Keys := fold (\<lambda>i. AList.update i (std64_encode (f i))) ids (Keys kf)\<rparr>)"
  using assms
proof (induction ids arbitrary: n kf)
  case Nil
  then show ?case by (simp add: trim_space_def trim_right_def)
next
  case (Cons i ids)
  then have "parseLines n ((i @ '' = '' @ std64_encode (f i)) # ls) kf
      = parseLines (n + 1) ls (kf\<lparr>Keys := AList.update i (std64_encode (f i)) (Keys kf)\<rparr>)" for ls
    using parse_line [of i "std64_encode (f i)"] std64_encode_text [of "f i"] by (simp add: file_id_def)
  then show ?case using Cons by simp
qed

lemma fold_update:
  "map_of (fold (\<lambda>i. AList.update i (g i)) ids m) j = (if j \<in> set ids then Some (g j) else map_of m j)"
  "map_well m \<Longrightarrow> map_well (fold (\<lambda>i. AList.update i (g i)) ids m)"
  by (induction ids arbitrary: m) (auto simp: update_conv' go_map.well_insert)

lemma parse_render:
  assumes "ring_ok k" "\<forall>i \<in> set (IDs k). file_id i"
  shows "\<exists>kf. parseKeyFile (renderKeyring k) = Inr kf \<and> Active kf = activeID k \<and> map_well (Keys kf)
    \<and> (\<forall>i. map_of (Keys kf) i = map_option std64_encode (map_of (keys k) i))"
proof -
  define ids where "ids = sort (map fst (keys k))"
  define f where "f = (\<lambda>i. the (map_of (keys k) i))"
  define c1 where "c1 = ''# Skifity master keys. Anyone holding this file can read every stored secret.''"
  define c2 where "c2 = ''# Losing it means losing every stored secret. Keep the recovery key somewhere safe.''"
  have act: "activeID k \<in> set ids" using assms(1)
    by (simp add: ids_def ring_ok_def map_of_eq_None_iff)
  have ids: "file_id i \<and> f i \<noteq> [] \<and> map_of (keys k) i = Some (f i)" if "i \<in> set ids" for i
  proof -
    have "map_of (keys k) i \<noteq> None" using that by (simp add: ids_def map_of_eq_None_iff)
    then obtain key where "map_of (keys k) i = Some key" by blast
    moreover then have "length key = KeySize" using ring_ok_lookup(2) [OF assms(1)] by blast
    ultimately show ?thesis using that assms(2) by (auto simp: ids_def IDs_def f_def KeySize_def)
  qed
  define ls where "ls = [c1, c2, ''active'' @ '' = '' @ activeID k] @ map (\<lambda>i. i @ '' = '' @ std64_encode (f i)) ids"
  have "renderKeyring k = concat (map (\<lambda>l. l @ [CHR 0x0A]) ls)"
    unfolding renderKeyring_def ls_def ids_def f_def keyLine_def [abs_def] c1_def [symmetric] c2_def [symmetric] by (simp add: o_def)
  moreover have "\<forall>l \<in> set ls. CHR 0x0A \<notin> set l"
  proof -
    have "CHR 0x0A \<notin> set c1" "CHR 0x0A \<notin> set c2" by (simp_all add: c1_def c2_def)
    then show ?thesis using ids act std64_encode_text(4) by (auto simp: ls_def file_id_def)
  qed
  ultimately have sp: "split_on (CHR 0x0A) (renderKeyring k) = ls @ [[]]" by (simp only: split_on_lines)
  define kf where "kf = \<lparr>Active = activeID k, Keys = fold (\<lambda>i. AList.update i (std64_encode (f i))) ids []\<rparr>"
  have comments: "trim_space c1 = c1" "trim_space c2 = c2" "c1 \<noteq> []" "c2 \<noteq> []" "prefix ''#'' c1" "prefix ''#'' c2"
    by (simp_all add: trim_space_fixed c1_def c2_def is_space_def)
  then have "parseLines 0 (ls @ [[]]) \<lparr>Active = [], Keys = []\<rparr> = parseLines 2
      ((''active'' @ '' = '' @ activeID k) # map (\<lambda>i. i @ '' = '' @ std64_encode (f i)) ids @ [[]]) \<lparr>Active = [], Keys = []\<rparr>"
    by (simp add: ls_def)
  also have "\<dots> = parseLines 3 (map (\<lambda>i. i @ '' = '' @ std64_encode (f i)) ids @ [[]]) \<lparr>Active = activeID k, Keys = []\<rparr>"
    using ids [OF act] by (subst parse_line) (simp_all add: file_id_def is_space_def)
  also have "\<dots> = Inr kf" using ids by (subst parse_keys) (auto simp: kf_def)
  finally have p: "parseLines 0 (split_on (CHR 0x0A) (renderKeyring k)) \<lparr>Active = [], Keys = []\<rparr> = Inr kf" using sp by simp
  have m: "map_of (Keys kf) i = map_option std64_encode (map_of (keys k) i)" for i
  proof (cases "i \<in> set ids")
    case False
    then have "map_of (keys k) i = None" by (simp add: ids_def map_of_eq_None_iff)
    then show ?thesis using False by (simp add: kf_def fold_update)
  qed (use ids in \<open>simp add: kf_def fold_update\<close>)
  have "activeID k \<noteq> []" "Keys kf \<noteq> []" using ids [OF act] m [of "activeID k"] by (auto simp: file_id_def)
  then show ?thesis using p m fold_update(2) [OF map_well_Nil]
    by (intro exI [of _ kf]) (simp add: parseKeyFile_def orFail_def kf_def)
qed

lemma decodeKey_encode: "length key = KeySize \<Longrightarrow> decodeKey (std64_encode key) = Inr key"
  by (simp add: decodeKey_def std64_roundtrip)

lemma addAll_keys:
  assumes "distinct ids" "\<And>i. i \<in> set ids \<Longrightarrow> i \<noteq> Active kf \<Longrightarrow> map_of (keys r) i = None"
    and "\<And>i. i \<in> set ids \<Longrightarrow> \<exists>key. map_of (Keys kf) i = Some (std64_encode key) \<and> src i = Some key \<and> length key = KeySize \<and> checkKeyID i = None"
  shows "\<exists>r1. addAll kf ids r = Inr r1 \<and> activeID r1 = activeID r
    \<and> (\<forall>j. map_of (keys r1) j = (if j \<in> set ids \<and> j \<noteq> Active kf then src j else map_of (keys r) j))"
  using assms
proof (induction ids arbitrary: r)
  case (Cons i ids)
  show ?case
  proof (cases "i = Active kf")
    case True
    then show ?thesis using Cons.IH [of r] Cons.prems by auto
  next
    case False
    obtain key where key: "map_of (Keys kf) i = Some (std64_encode key)" "src i = Some key" "length key = KeySize" "checkKeyID i = None"
      using Cons.prems(3) [of i] by auto
    let ?r = "r\<lparr>keys := AList.update i key (keys r)\<rparr>"
    have add: "AddRetired i key r = Inr ?r" using key Cons.prems(2) [of i] False by (simp add: AddRetired_def addLocked_def)
    obtain r1 where r1: "addAll kf ids ?r = Inr r1" "activeID r1 = activeID r"
        "\<forall>j. map_of (keys r1) j = (if j \<in> set ids \<and> j \<noteq> Active kf then src j else map_of (keys ?r) j)"
      using Cons.IH [of ?r] Cons.prems by (fastforce simp: update_conv')
    have "addAll kf (i # ids) r = Inr r1" using False key decodeKey_encode [OF key(3)] add r1(1) by (simp add: orFail_def)
    then show ?thesis using r1 key(2) False Cons.prems(1) by (intro exI [of _ r1]) (auto simp: update_conv')
  qed
qed simp

text \<open>A key file that was saved loads as the keyring that was saved: the same active id
  and the same key under every id, and it is readable by its owner only. The ids must be ones the
  line format can carry, as the ids the panel makes are.\<close>
theorem SaveKeyring_LoadKeyring:
  assumes "ring_ok k" "\<forall>i \<in> set (IDs k). file_id i" "SaveKeyring written None k d = (r, d1)"
  shows "r = Inr () \<and> (\<exists>k1. LoadKeyring d1 = Inr k1 \<and> activeID k1 = activeID k \<and> map_of (keys k1) = map_of (keys k))"
proof -
  have d1: "r = Inr ()" "target d1 = Some \<lparr>bytes = renderKeyring k, mode = 384\<rparr>"
    using assms(3) by (auto simp: SaveKeyring_def saveSteps_def)
  obtain kf where kf: "parseKeyFile (renderKeyring k) = Inr kf" "Active kf = activeID k" "map_well (Keys kf)"
      "\<forall>i. map_of (Keys kf) i = map_option std64_encode (map_of (keys k) i)" using parse_render [OF assms(1,2)] by blast
  obtain key where key: "map_of (keys k) (activeID k) = Some key" using assms(1) by (auto simp: ring_ok_def)
  note kk = ring_ok_lookup [OF assms(1) key]
  let ?r = "\<lparr>keys = [(activeID k, key)], activeID = activeID k\<rparr>"
  have new: "NewKeyring (activeID k) key = Inr ?r" using kk by (auto simp: NewKeyring_def checkKeyID_def split: if_splits)
  have "\<exists>key. map_of (Keys kf) i = Some (std64_encode key) \<and> map_of (keys k) i = Some key \<and> length key = KeySize \<and> checkKeyID i = None"
    if "i \<in> set (sort (map fst (Keys kf)))" for i
  proof -
    have "map_of (Keys kf) i \<noteq> None" using that by (simp add: map_of_eq_None_iff)
    then obtain x where "map_of (keys k) i = Some x" using kf(4) by (cases "map_of (keys k) i") auto
    then show ?thesis using ring_ok_lookup [OF assms(1)] kf(4) by auto
  qed
  then obtain r1 where r1: "addAll kf (sort (map fst (Keys kf))) ?r = Inr r1" "activeID r1 = activeID k"
      "\<forall>j. map_of (keys r1) j = (if j \<in> set (sort (map fst (Keys kf))) \<and> j \<noteq> Active kf then map_of (keys k) j else map_of (keys ?r) j)"
    using addAll_keys [of "sort (map fst (Keys kf))" kf ?r "map_of (keys k)"] kf(2,3) by (auto simp: map_well_def)
  have "map_of (keys r1) j = map_of (keys k) j" for j
  proof (cases "j \<in> set (map fst (Keys kf))")
    case False
    then have "map_of (Keys kf) j = None" by (simp add: map_of_eq_None_iff)
    then have "map_of (keys k) j = None" using kf(4) by simp
    then show ?thesis using r1(3) False key by auto
  qed (use r1(3) kf(2) key in auto)
  moreover have "fileKeyring kf = Inr r1"
    using kf(2,4) key decodeKey_encode [OF kk(2)] new r1(1) by (simp add: fileKeyring_def orFail_def)
  ultimately show ?thesis using d1 kf(1) r1(2) by (auto simp: LoadKeyring_def checkPermissions_def orFail_def)
qed

lemma runSave_target:
  "runSave txt written failing saveSteps d = (r, d1) \<Longrightarrow>
     target d1 = target d \<or> target d1 = Some \<lparr>bytes = txt, mode = 384\<rparr>"
  by (cases failing; cases "the failing") (auto simp: saveSteps_def)

text \<open>C17: Whichever step of writing the key file fails, and however much of the text a
  failed write put down, the key file is the old one or the complete new one.\<close>
theorem SaveKeyring_atomic:
  assumes "SaveKeyring written failing k d = (r, d1)"
  shows "(target d1 = target d \<or> target d1 = Some \<lparr>bytes = renderKeyring k, mode = 384\<rparr>) \<and> temp d1 = None"
proof -
  obtain d2 where "runSave (renderKeyring k) written failing saveSteps d = (r, d2)" "d1 = d2\<lparr>temp := None\<rparr>"
    using assms by (auto simp: SaveKeyring_def split: prod.splits)
  then show ?thesis using runSave_target [of "renderKeyring k" written failing d r d2] by simp
qed

section \<open>Concrete runs\<close>

definition toy_cipher :: cipher where
  "toy_cipher = \<lparr>gcmSeal = (\<lambda>key n p a. p @ replicate 16 (CHR ''t'')),
     gcmOpen = (\<lambda>key n ct a. if length ct < 16 then None else Some (take (length ct - 16) ct))\<rparr>"

lemma gcm_correct_toy: "gcm_correct toy_cipher"
  by (simp add: gcm_correct_def toy_cipher_def)

definition old_key :: string where "old_key = replicate 32 (CHR ''a'')"
definition new_key :: string where "new_key = replicate 32 (CHR ''b'')"
definition some_nonce :: string where "some_nonce = replicate 12 (CHR ''n'')"
definition old_ring :: Keyring where "old_ring = \<lparr>keys = [(''k1'', old_key)], activeID = ''k1''\<rparr>"
definition new_ring :: Keyring where "new_ring = \<lparr>keys = [(''k1'', old_key), (''k2'', new_key)], activeID = ''k2''\<rparr>"

definition old_envelope :: string where
  "old_envelope = projr (Seal toy_cipher (Some new_key) (Some some_nonce) (Some some_nonce) old_ring ''pw'' ''ctx'')"

lemma old_ring_reachable: "reachable_ring old_ring"
proof (rule reachable_ring.new)
  show "NewKeyring ''k1'' old_key = Inr old_ring" by code_simp
qed

lemma demo_lengths: "length old_key = KeySize" "length new_key = KeySize" "length some_nonce = nonceSize"
  by (simp_all add: old_key_def new_key_def some_nonce_def KeySize_def nonceSize_def)

theorem Seal_Open_witness:
  "\<exists>s. Seal toy_cipher (Some new_key) (Some some_nonce) (Some some_nonce) old_ring ''pw'' ''ctx'' = Inr s
     \<and> Open toy_cipher old_ring s ''ctx'' = Inr ''pw''"
  using Seal_Open [OF old_ring_reachable gcm_correct_toy demo_lengths(2,3,3), of "''pw''" "''ctx''"] by blast

lemma rotated: "BeginRotation (Some new_key) old_ring = Inr (''k2'', new_ring)"
  by code_simp

lemma old_opens: "Open toy_cipher old_ring old_envelope ''ctx'' = Inr ''pw''"
  by code_simp

theorem Rewrap_opens_alike_witness:
  "KeyIDOf (fst (projr (Rewrap toy_cipher (Some some_nonce) new_ring old_envelope))) = Inr ''k2''"
proof -
  have "isl (Rewrap toy_cipher (Some some_nonce) new_ring old_envelope) = False" by code_simp
  then have "Rewrap toy_cipher (Some some_nonce) new_ring old_envelope
      = Inr (fst (projr (Rewrap toy_cipher (Some some_nonce) new_ring old_envelope)), snd (projr (Rewrap toy_cipher (Some some_nonce) new_ring old_envelope)))"
    by (simp add: sum.collapse(2))
  from Rewrap_opens_alike [OF gcm_correct_toy demo_lengths(3) this] show ?thesis by (simp add: new_ring_def)
qed

theorem rotation_keeps_secrets_witness:
  "\<exists>s1. Rewrap toy_cipher (Some some_nonce) new_ring old_envelope = Inr (s1, True)
     \<and> Open toy_cipher \<lparr>keys = [(''k2'', new_key)], activeID = ''k2''\<rparr> s1 ''ctx'' = Inr ''pw''"
proof -
  have "length (keys old_ring) < 10 ^ 18" by (simp add: old_ring_def)
  note r = rotation_keeps_secrets [OF gcm_correct_toy old_opens rotated demo_lengths(2,3) this]
  have "map_of (keys \<lparr>keys = [(''k2'', new_key)], activeID = ''k2''\<rparr>) ''k2'' = Some new_key" by simp
  then show ?thesis using r by blast
qed

theorem recovery_key_roundtrip_witness:
  "\<exists>k1. ParseRecoveryKey (to_lower (projr (RecoveryKey old_ring)) @ '' '') = Inr k1 \<and> activeID k1 = ''k1''"
proof -
  have "isl (RecoveryKey old_ring) = False" by code_simp
  then have s: "RecoveryKey old_ring = Inr (projr (RecoveryKey old_ring))" by (simp add: sum.collapse(2))
  have p: "plain_id (activeID old_ring)" by code_simp
  have t: "to_upper (filter (\<lambda>ch. \<not> is_space ch) (to_lower (projr (RecoveryKey old_ring)) @ '' '')) = to_upper (projr (RecoveryKey old_ring))"
    by code_simp
  have "activeID old_ring = ''k1''" by (simp add: old_ring_def)
  then show ?thesis using recovery_key_roundtrip [OF reachable_ring_ok [OF old_ring_reachable] p s t] by auto
qed

theorem SaveKeyring_LoadKeyring_witness:
  "\<exists>k1. LoadKeyring (snd (SaveKeyring 0 None old_ring \<lparr>target = None, temp = None\<rparr>)) = Inr k1 \<and> activeID k1 = ''k1''"
proof -
  have saved: "SaveKeyring 0 None old_ring \<lparr>target = None, temp = None\<rparr>
      = (Inr (), snd (SaveKeyring 0 None old_ring \<lparr>target = None, temp = None\<rparr>))" by (simp add: SaveKeyring_def saveSteps_def)
  have ids: "\<forall>i \<in> set (IDs old_ring). file_id i" by code_simp
  have "activeID old_ring = ''k1''" by (simp add: old_ring_def)
  then show ?thesis using SaveKeyring_LoadKeyring [OF reachable_ring_ok [OF old_ring_reachable] ids saved] by auto
qed

theorem SaveKeyring_atomic_witness:
  "target (snd (SaveKeyring 3 (Some WriteString) old_ring \<lparr>target = None, temp = None\<rparr>)) = None"
proof -
  let ?r = "SaveKeyring 3 (Some WriteString) old_ring \<lparr>target = None, temp = None\<rparr>"
  have "target (snd ?r) \<noteq> Some \<lparr>bytes = renderKeyring old_ring, mode = 384\<rparr>" by (simp add: SaveKeyring_def saveSteps_def)
  then show ?thesis using SaveKeyring_atomic [of 3 "Some WriteString" old_ring "\<lparr>target = None, temp = None\<rparr>" "fst ?r" "snd ?r"] by simp
qed

text \<open>
  Strict decoding still skips line breaks, so an envelope has more than one
  textual form. A recovery key whose id has a dash is cut at the wrong place.
\<close>

lemma line_breaks_ignored: "decode (magic @ ''.'' @ a @ [CHR 0x0A] @ b) = decode (magic @ ''.'' @ a @ b)"
  by (simp add: decode_def magic_def raw_url64_strict_def no_breaks_def)

lemma dashed_id_not_recovered:
  "checkKeyID ''key-2'' = None \<and> ParseRecoveryKey (projr (RecoveryKey \<lparr>keys = [(''key-2'', old_key)], activeID = ''key-2''\<rparr>)) = Inl ErrTruncated"
proof
  show "checkKeyID ''key-2'' = None" by code_simp
  show "ParseRecoveryKey (projr (RecoveryKey \<lparr>keys = [(''key-2'', old_key)], activeID = ''key-2''\<rparr>)) = Inl ErrTruncated" by code_simp
qed

end
