(* ===== verification/Deployer.thy ===== *)
theory Deployer
  imports Store_Apps Keyring Errdoc
begin

text \<open>
  The deployer, \<^verbatim>\<open>internal/deploy/deployer.go\<close>: queueing a deployment and the reuse
  of an image, the run of a deployment from build to rollout, cancelling, rolling
  back, and the variables and registry credentials that go with it; and of
  \<^verbatim>\<open>internal/plugins/dispatch.go\<close> the question put to the plugins before a rollout.

  Each deployment runs in a goroutine of its own, under a context that a cancel
  stops and that expires after 45 minutes; from then on every call under it
  fails. The deployer's own state is the set of running deployments and which
  contexts are done. Before each call of a run, the other goroutines may act: a
  schedule in the state, like that of faults and pauses, says what they do (a
  cancel, the deadline, a deployment that replaces this one, any write of the
  store), so a statement about every state is one about every interleaving at
  the calls.

  The cluster, the build and the release command are outside: the outcome of each
  call is a field of the world, which also holds the codecs of the standard
  library and the uploads on disk. What was done to the cluster is recorded in
  order (\<^verbatim>\<open>effects\<close>). Log lines of the panel and metrics are left out.
\<close>

section \<open>State\<close>

datatype ctx_err = Canceled | DeadlineExceeded

datatype run_err = StoreE store_err | CtxE ctx_err | ProbE Problem | OtherE string

datatype hub_msg = DeploymentMsg Deployment | FailedMsg Problem | LogMsg int string

datatype effect = Built string | Asked bool | Released string | Applied string string | RolledOut string

datatype outside = OCancel string | OExpire string | OStop string | OStore app_call

record run_db = panel_db +
  running :: "string list"
  doneCtx :: "(string \<times> ctx_err) list"
  meddling :: "outside list list"
  hubLog :: "(string \<times> hub_msg) list"
  notices :: "(string \<times> string \<times> string) list"
  effects :: "effect list"

type_synonym 'a run_op = "(run_db, run_err, 'a) op"

definition onPanel :: "'a panel_op \<Rightarrow> (run_db, store_err, 'a) op" where
  "onPanel m s = (case m (panel_db.truncate s) of (r, p) \<Rightarrow> (r, panel_db.extend p (panel_db.more s)))"

definition setDone :: "string \<Rightarrow> ctx_err \<Rightarrow> run_db \<Rightarrow> run_db" where
  "setDone i e s = (if i \<in> set (running s) \<and> map_of (doneCtx s) i = None then s\<lparr>doneCtx := (i, e) # doneCtx s\<rparr> else s)"

definition emit :: "string \<Rightarrow> hub_msg \<Rightarrow> unit run_op" where
  "emit topic m s = (Inr (), s\<lparr>hubLog := hubLog s @ [(topic, m)]\<rparr>)"

definition effect :: "effect \<Rightarrow> unit run_op" where
  "effect e s = (Inr (), s\<lparr>effects := effects s @ [e]\<rparr>)"

definition andThen :: "'a run_op \<Rightarrow> 'b run_op \<Rightarrow> 'b run_op" where
  "andThen a b = handle a (\<lambda>_. b)"

text \<open>What the other goroutines do, with their own contexts: the part of a cancel and of a replacement
  that touches this deployment.\<close>

definition markCancelled :: "string \<Rightarrow> (run_db, store_err, unit) op" where
  "markCancelled i = onPanel (onDeploy (UpdateDeploymentStatus i DeployCancelled ''cancelled'' ''Cancelled by a user.'' []))"

definition outsideStep :: "outside \<Rightarrow> run_db \<Rightarrow> run_db" where
  "outsideStep e s = (case e of
     OCancel i \<Rightarrow> if i \<in> set (running s) then snd (markCancelled i (setDone i Canceled s)) else s
   | OExpire i \<Rightarrow> setDone i DeadlineExceeded s
   | OStop i \<Rightarrow> setDone i Canceled s
   | OStore c \<Rightarrow> snd (onPanel (app_call_op c) s))"

definition meddle :: "run_db \<Rightarrow> run_db" where
  "meddle s = (case meddling s of [] \<Rightarrow> s | es # rest \<Rightarrow> fold outsideStep es (s\<lparr>meddling := rest\<rparr>))"

text \<open>The context of a run, and that of a request, which is taken to outlive its calls.\<close>

datatype ctx = RunCtx string | ReqCtx

definition ctxErr :: "ctx \<Rightarrow> run_db \<Rightarrow> ctx_err option" where
  "ctxErr c s = (case c of RunCtx i \<Rightarrow> map_of (doneCtx s) i | ReqCtx \<Rightarrow> None)"

text \<open>A call of the store, and of something outside.\<close>

definition call :: "ctx \<Rightarrow> 'a panel_op \<Rightarrow> 'a run_op" where
  "call c m s = (let s1 = meddle s in case ctxErr c s1 of
     Some e \<Rightarrow> (Inl (CtxE e), s1) | None \<Rightarrow> wrap StoreE (onPanel m) s1)"

definition extern :: "ctx \<Rightarrow> run_err + 'a \<Rightarrow> 'a run_op" where
  "extern c out s = (let s1 = meddle s in case ctxErr c s1 of
     Some e \<Rightarrow> (Inl (CtxE e), s1) | None \<Rightarrow> (out, s1))"

section \<open>The world\<close>

record runtime_spec =
  rsReplicas :: int
  rsAutoscale :: bool
  rsMinReplicas :: int
  rsMaxReplicas :: int
  rsCPUTarget :: int
  rsCPURequestM :: int
  rsCPULimitM :: int
  rsMemRequestMB :: int
  rsMemLimitMB :: int
  rsPort :: int
  rsHealthPath :: string
  rsStartCommand :: string
  rsDomains :: "string list"

record Target =
  tgName :: string
  tgBlocking :: bool

record Verdict =
  Allow :: bool
  Reason :: string

record app_spec =
  spDeploymentID :: string
  spImage :: string
  spRevision :: string
  spDesired :: int

record app_status =
  stReady :: int
  stDesired :: int
  stDetail :: string

record world =
  wCipher :: cipher
  wKeyring :: Keyring
  wClustered :: bool
  wUploads :: bool
  sha256hex :: "string \<Rightarrow> string"
  marshalSpec :: "runtime_spec \<Rightarrow> string"
  unmarshalSpec :: "string \<Rightarrow> runtime_spec option"
  errorTextOf :: "run_err \<Rightarrow> string"
  uploadLatest :: "string \<Rightarrow> string option"
  uploadHas :: "string \<Rightarrow> string \<Rightarrow> bool"
  pluginTargets :: "string \<Rightarrow> string \<Rightarrow> Target list option"
  pluginAnswer :: "Target \<Rightarrow> Verdict option"
  buildOut :: "Deployment \<Rightarrow> App \<Rightarrow> Environment \<Rightarrow> run_err + string"
  releaseOut :: "Deployment \<Rightarrow> App \<Rightarrow> Environment \<Rightarrow> run_err + unit"
  autoDomainOut :: "App \<Rightarrow> Environment \<Rightarrow> string \<Rightarrow> run_err + unit"
  specFor :: "App \<Rightarrow> Environment \<Rightarrow> string \<Rightarrow> run_err + app_spec"
  specInvalid :: "app_spec \<Rightarrow> string option"
  namespaceOut :: "Environment \<Rightarrow> run_err + unit"
  applyOut :: "app_spec \<Rightarrow> (string \<times> string) list \<Rightarrow> run_err + unit"
  applySecretOut :: "string \<Rightarrow> string \<times> string \<times> string \<Rightarrow> run_err + unit"
  applyJobsOut :: "app_spec \<Rightarrow> App \<Rightarrow> run_err + unit"
  rolloutOut :: "Environment \<Rightarrow> App \<Rightarrow> run_err + unit"
  statusOut :: "Environment \<Rightarrow> App \<Rightarrow> run_err + app_status"
  wBuildNamespace :: string
  inClusterRegistry :: string

definition problemOf :: "world \<Rightarrow> run_err \<Rightarrow> Problem" where
  "problemOf w e = (case e of ProbE p \<Rightarrow> p | _ \<Rightarrow> From (errorTextOf w e))"

section \<open>Reporting\<close>

definition DeploymentTopic :: "string \<Rightarrow> string" where
  "DeploymentTopic i = ''deployment:'' @ i"

definition TeamTopic :: "string \<Rightarrow> string" where
  "TeamTopic i = ''team:'' @ i"

definition publishDeployment :: "ctx \<Rightarrow> string \<Rightarrow> unit run_op" where
  "publishDeployment c i = handle (call c (onDeploy (GetDeployment i))) (\<lambda>r. case r of
     Inl _ \<Rightarrow> ret ()
   | Inr d \<Rightarrow> andThen (emit (DeploymentTopic i) (DeploymentMsg d))
       (handle (call c (onTeam (TeamIDForApp (dAppID d)))) (\<lambda>t. case t of
          Inl _ \<Rightarrow> ret () | Inr team \<Rightarrow> emit (TeamTopic team) (DeploymentMsg d))))"

definition appendLog :: "ctx \<Rightarrow> string \<Rightarrow> string \<Rightarrow> unit run_op" where
  "appendLog c i line = handle (call c (onDeploy (AppendBuildLog i ''stdout'' line))) (\<lambda>r. case r of
     Inl _ \<Rightarrow> ret () | Inr seq \<Rightarrow> emit (DeploymentTopic i) (LogMsg seq line))"

fun appendLogLines :: "ctx \<Rightarrow> string \<Rightarrow> string list \<Rightarrow> unit run_op" where
  "appendLogLines c i [] = ret ()"
| "appendLogLines c i (l # ls) = andThen (appendLog c i l) (appendLogLines c i ls)"

definition setStatus :: "string \<Rightarrow> DeploymentStatus \<Rightarrow> unit run_op" where
  "setStatus i st = andThen (call (RunCtx i) (onDeploy (UpdateDeploymentStatus i st [] [] []))) (publishDeployment (RunCtx i) i)"

definition notice :: "string \<Rightarrow> string \<Rightarrow> string \<Rightarrow> unit run_op" where
  "notice kind team event s = (Inr (), s\<lparr>notices := notices s @ [(kind, team, event)]\<rparr>)"

text \<open>\<^verbatim>\<open>notify\<close>: a team that cannot be worked out drops the notification.\<close>

definition notify :: "string \<Rightarrow> App \<Rightarrow> string \<Rightarrow> unit run_op" where
  "notify i a event = handle (call (RunCtx i) (onTeam (TeamIDForApp (aID a)))) (\<lambda>r. case r of
     Inl _ \<Rightarrow> ret () | Inr team \<Rightarrow> notice ''message'' team event)"

definition shortSHA :: "string \<Rightarrow> string" where
  "shortSHA sha = (if length sha > 7 then take 7 sha else sha)"

definition finish :: "string \<Rightarrow> unit run_op" where
  "finish i s = (Inr (), s\<lparr>running := removeAll i (running s)\<rparr>)"

definition fail :: "world \<Rightarrow> Deployment \<Rightarrow> run_err \<Rightarrow> unit run_op" where
  "fail w d e = (let i = dID d; p = problemOf w e in
     if e = CtxE Canceled
     then andThen (call (RunCtx i) (onDeploy (UpdateDeploymentStatus i DeployCancelled ''cancelled'' ''Cancelled.'' []))) (publishDeployment (RunCtx i) i)
     else andThen (call (RunCtx i) (onDeploy (UpdateDeploymentStatus i DeployFailed (Code p) (ErrorText p) (Fix p))))
       (andThen (call (RunCtx i) (SetAppStatus (dAppID d) ''failed''))
       (andThen (appendLogLines (RunCtx i) i ([] # split_on (CHR 0x0A) (Text p)))
       (andThen (emit (DeploymentTopic i) (FailedMsg p))
       (andThen (publishDeployment (RunCtx i) i)
       (handle (call (RunCtx i) (GetApp (dAppID d))) (\<lambda>r. case r of
          Inl _ \<Rightarrow> ret ()
        | Inr a \<Rightarrow> andThen (notify i a ''deploy.failed'')
            (handle (call (RunCtx i) (onTeam (TeamIDForApp (aID a)))) (\<lambda>t. case t of
               Inl _ \<Rightarrow> ret () | Inr team \<Rightarrow> notice ''plugin'' team ''deploy.failed'')))))))))"

definition failPanicked :: "string \<Rightarrow> string \<Rightarrow> unit run_op" where
  "failPanicked i err = (let p = WithFix ''Deploy again. If it happens every time, copy this error and open an issue: it is a bug in Skifity, not in your app.'' []
       (WithImpact ''The deployment stopped where it was. Whatever had already been applied is still applied.'' []
       (WithCause ''The panel hit an unexpected error while deploying.'' [] (New ''internal'' ''Something went wrong''))) in
     andThen (call (RunCtx i) (onDeploy (UpdateDeploymentStatus i DeployFailed (Code p) err (Fix p))))
     (andThen (handle (call (RunCtx i) (onDeploy (GetDeployment i))) (\<lambda>r. case r of
         Inl _ \<Rightarrow> ret () | Inr d \<Rightarrow> ignore (call (RunCtx i) (SetAppStatus (dAppID d) ''failed''))))
     (emit (DeploymentTopic i) (FailedMsg p))))"

section \<open>Explanations\<close>

definition ClusterUnreachable :: Problem where
  "ClusterUnreachable = Wrap None (Retry (WithStatus 503 (WithDocs ''/docs/troubleshooting#the-cluster-is-unreachable''
     (WithFix ''This usually clears up on its own within a minute. If it does not, check that the control plane server is up and that port 6443 is reachable between your servers.'' []
     (WithImpact ''Your apps keep running, but Skifity cannot make changes or read live status right now.'' []
     (WithCause ''The Kubernetes API did not answer.'' [] (New ''cluster.unreachable'' ''The cluster is not responding'')))))))"

definition NotConfigured :: "string \<Rightarrow> string \<Rightarrow> Problem" where
  "NotConfigured feature place = WithContext ''feature'' feature (WithStatus 400 (WithDocs ''/docs/configuration''
     (WithFix ''Open %s and fill it in. Nothing needs to be changed in code or on the server.'' [Str place]
     (WithImpact ''The action was not performed.'' []
     (WithCause ''%s needs configuration that has not been provided.'' [Str feature] (Newf ''config.missing'' ''%s is not set up yet'' [Str feature]))))))"

definition NoUpload :: "string \<Rightarrow> Problem" where
  "NoUpload app = WithContext ''app'' app (WithStatus 409 (WithDocs ''/docs/cli#deploying-a-folder''
     (WithFix ''Press Send a new version on the app's page and pick its folder, or run `skifity up` in the folder.'' []
     (WithImpact ''Nothing was built or deployed.'' []
     (WithCause ''%s deploys a folder from somebody's computer, and nothing has been sent yet.'' [Str app] (New ''upload.none'' ''There is no code to deploy yet''))))))"

definition UploadNotFound :: "string \<Rightarrow> Problem" where
  "UploadNotFound sha = WithContext ''sha'' sha (WithStatus 404 (WithDocs ''/docs/cli#deploying-a-folder''
     (WithFix ''Send the folder again, from the app's page or with `skifity up`.'' []
     (WithImpact ''Nothing was built or deployed.'' []
     (WithCause ''No upload with the hash %s belongs to this app. The panel keeps each app's ten newest uploads.'' [Str sha]
       (New ''upload.not_found'' ''That upload is not on the panel''))))))"

definition ImageCollected :: "int \<Rightarrow> int \<Rightarrow> Problem" where
  "ImageCollected number kept = WithContext ''version'' (itoa number) (WithStatus 409
     (WithFix ''Roll back to one of the last %d versions, or deploy the commit you want again, which builds it fresh.'' [Num kept]
     (WithImpact ''Nothing was changed. The version that is running now is still running.'' []
     (WithCause ''Only the last %d versions of an app keep their image. Version %d is further back than that, and its image was removed to keep the disk free.'' [Num kept, Num number]
       (New ''deploy.image_collected'' ''That version is too old to roll back to'')))))"

definition RolloutTimedOut :: "string \<Rightarrow> int \<Rightarrow> int \<Rightarrow> string \<Rightarrow> Problem" where
  "RolloutTimedOut app ready want reason = WithContext ''wanted_instances'' (itoa want) (WithContext ''ready_instances'' (itoa ready) (WithContext ''app'' app
     (Retry (WithStatus 504 (WithDocs ''/docs/troubleshooting#a-deployment-failed''
     (WithFix ''Check the app logs for a crash on startup. The usual causes are a missing environment variable, a health check path that does not exist yet, and a port mismatch between the app and the configured port.'' []
     (WithImpact ''Kubernetes kept the previous version running, so your app is still up. The new version was not rolled out.'' []
     (WithCause ''%d of %d instances of %s became ready before the timeout. %s'' [Num ready, Num want, Str app, Str reason]
       (New ''deploy.rollout_timeout'' ''The new version did not start'')))))))))"

section \<open>Plugins\<close>

text \<open>\<^verbatim>\<open>Ask\<close>: the first blocking plugin that answers and refuses decides; no answer is no refusal.\<close>

fun askTargets :: "world \<Rightarrow> Target list \<Rightarrow> Verdict \<times> string" where
  "askTargets w [] = (\<lparr>Allow = True, Reason = []\<rparr>, [])"
| "askTargets w (t # ts) = (if \<not> tgBlocking t then askTargets w ts
     else (case pluginAnswer w t of None \<Rightarrow> askTargets w ts
       | Some v \<Rightarrow> if \<not> Allow v then (v, tgName t) else askTargets w ts))"

definition Ask :: "world \<Rightarrow> string \<Rightarrow> string \<Rightarrow> Verdict \<times> string" where
  "Ask w event team = (case pluginTargets w event team of
     None \<Rightarrow> (\<lparr>Allow = True, Reason = []\<rparr>, []) | Some ts \<Rightarrow> askTargets w ts)"

definition refusedByPlugin :: "string \<Rightarrow> string \<Rightarrow> Problem" where
  "refusedByPlugin who reason = WithFix ''Take up whatever it is asking for, or switch that plugin off under Plugins.'' []
     (WithImpact ''Nothing was changed. The version that was serving is still serving.'' []
     (WithCause ''%s refused it: %s'' [Str who, Str reason] (New ''deploy.refused_by_plugin'' ''A plugin stopped this deployment'')))"

section \<open>Variables and settings\<close>

definition opened :: "world \<Rightarrow> string \<Rightarrow> string \<Rightarrow> string \<Rightarrow> run_err + string" where
  "opened w what sealed ctx = (case Open (wCipher w) (wKeyring w) sealed ctx of
     Inl _ \<Rightarrow> Inl (OtherE what) | Inr plain \<Rightarrow> Inr plain)"

text \<open>Filling a map from rows, in the order of the rows; a later value replaces an earlier one.\<close>

fun fillVariables :: "('r \<Rightarrow> string) \<Rightarrow> ('r \<Rightarrow> run_err + string) \<Rightarrow> (string \<times> string) list \<Rightarrow> 'r list \<Rightarrow> run_err + (string \<times> string) list" where
  "fillVariables key plain out [] = Inr out"
| "fillVariables key plain out (r # rs) = (case plain r of Inl e \<Rightarrow> Inl e
     | Inr v \<Rightarrow> fillVariables key plain (AList.update (key r) v out) rs)"

definition sharedPlain :: "world \<Rightarrow> string \<Rightarrow> sharedVariableRow \<Rightarrow> run_err + string" where
  "sharedPlain w project r = opened w (''read the shared variable '' @ svKey r) (svSealed r) (''shared_variable:'' @ project @ '':'' @ svKey r)"

definition ownPlain :: "world \<Rightarrow> string \<Rightarrow> string \<Rightarrow> variableRow \<Rightarrow> run_err + string" where
  "ownPlain w what app r = opened w (what @ vKey r) (vSealed r) (''variable:'' @ app @ '':'' @ vKey r)"

definition lift :: "run_err + 'a \<Rightarrow> 'a run_op" where
  "lift x = (case x of Inl e \<Rightarrow> throw e | Inr v \<Rightarrow> ret v)"

definition runtimeVariables :: "world \<Rightarrow> ctx \<Rightarrow> App \<Rightarrow> Environment \<Rightarrow> (string \<times> string) list run_op" where
  "runtimeVariables w c a e = bind (call c (ListSharedVariables (eProjectID e))) (\<lambda>shared.
     bind (lift (fillVariables svKey (sharedPlain w (eProjectID e)) [] shared)) (\<lambda>out.
     bind (call c (ListVariables (aID a))) (\<lambda>own.
     lift (fillVariables vKey (ownPlain w ''read the variable '' (aID a)) out own))))"

definition buildTimeVariables :: "world \<Rightarrow> ctx \<Rightarrow> App \<Rightarrow> (string \<times> string) list run_op" where
  "buildTimeVariables w c a = bind (call c (ListVariables (aID a))) (\<lambda>rows.
     lift (fillVariables vKey (ownPlain w ''read the build variable '' (aID a)) [] (filter BuildTime rows)))"

definition settingValue :: "world \<Rightarrow> ctx \<Rightarrow> string \<Rightarrow> string run_op" where
  "settingValue w c key = bind (call c (onTeam (GetSetting key))) (\<lambda>(v, encrypted).
     if v = [] \<or> \<not> encrypted then ret v else lift (opened w (''read '' @ key) v (''setting:'' @ key)))"

definition registryAddress :: "world \<Rightarrow> ctx \<Rightarrow> (string \<times> bool \<times> string) run_op" where
  "registryAddress w c = bind (call c (onTeam (GetSetting ''registry.url''))) (\<lambda>(external, _).
     if external \<noteq> [] then ret (trim_suffix ''/'' external, False, ''skifity-registry-auth'')
     else if \<not> wClustered w then throw (ProbE ClusterUnreachable)
     else ret (inClusterRegistry w, True, []))"

definition registryHost :: "string \<Rightarrow> string" where
  "registryHost address = (let a = trim_prefix ''http://'' (trim_prefix ''https://'' address);
       host = takeWhile (\<lambda>c. c \<noteq> CHR ''/'') a in if host = [] then a else host)"

definition ensureRegistryAuth :: "world \<Rightarrow> ctx \<Rightarrow> string \<Rightarrow> unit run_op" where
  "ensureRegistryAuth w c namespace = handle (registryAddress w c) (\<lambda>r. case r of Inl _ \<Rightarrow> ret ()
     | Inr (address, _, secret) \<Rightarrow> if secret = [] then ret ()
       else bind (settingValue w c ''registry.username'') (\<lambda>user. bind (settingValue w c ''registry.password'') (\<lambda>password.
         if user = [] \<and> password = [] then ret ()
         else bind (extern c (applySecretOut w (wBuildNamespace w) (registryHost address, user, password))) (\<lambda>_.
           extern c (applySecretOut w namespace (registryHost address, user, password))))))"

section \<open>Fingerprints\<close>

definition line :: "string \<Rightarrow> string \<Rightarrow> string" where
  "line name v = name @ ''='' @ v @ [CHR 0x0A]"

definition buildFingerprint :: "world \<Rightarrow> string \<Rightarrow> string \<Rightarrow> string \<Rightarrow> string \<Rightarrow> string \<Rightarrow> (string \<times> string) list \<Rightarrow> string" where
  "buildFingerprint w repo commit builder dockerfile root args = take 32 (sha256hex w
     (line ''repo'' repo @ line ''commit'' commit @ line ''builder'' builder @ line ''dockerfile'' dockerfile @ line ''root'' root
      @ concat (map (\<lambda>k. line (''arg:'' @ k) (the (map_of args k))) (sort (map fst args)))))"

definition EnvHash :: "world \<Rightarrow> (string \<times> string) list \<Rightarrow> string" where
  "EnvHash w vs = take 16 (sha256hex w (concat (map (\<lambda>k. line k (the (map_of vs k))) (sort (map fst vs)))))"

section \<open>Applying\<close>

definition rolloutProblem :: "world \<Rightarrow> ctx \<Rightarrow> App \<Rightarrow> Environment \<Rightarrow> app_spec \<Rightarrow> run_err \<Rightarrow> 'a run_op" where
  "rolloutProblem w c a e spec err = handle (extern c (statusOut w e a)) (\<lambda>r. throw (ProbE (case r of
     Inl _ \<Rightarrow> RolloutTimedOut (aName a) 0 (spDesired spec) (errorTextOf w err)
   | Inr st \<Rightarrow> RolloutTimedOut (aName a) (stReady st) (if stDesired st > 0 then stDesired st else spDesired spec)
       (if stDetail st \<noteq> [] then stDetail st else errorTextOf w err))))"

text \<open>Everything up to the apply itself. The rendering of the objects is inside the calls of the cluster, and
  so is the removal of those no longer wanted, whose errors are only logged.\<close>

definition prepare :: "world \<Rightarrow> ctx \<Rightarrow> Deployment \<Rightarrow> App \<Rightarrow> Environment \<Rightarrow> app_spec run_op" where
  "prepare w c d a e = (let i = dID d in if \<not> wClustered w then throw (ProbE ClusterUnreachable)
     else bind (call c (onTeam (TeamIDForApp (aID a)))) (\<lambda>team.
       bind (ensureRegistryAuth w c (Namespace e)) (\<lambda>_.
       bind (handle (extern c (autoDomainOut w a e team)) (\<lambda>r. case r of Inr _ \<Rightarrow> ret ()
         | Inl err \<Rightarrow> appendLog c i (''This app has no automatic address: '' @ Cause (problemOf w err)))) (\<lambda>_.
       bind (extern c (specFor w a e (Image d))) (\<lambda>spec0.
       bind (runtimeVariables w c a e) (\<lambda>vars.
       let spec = spec0\<lparr>spDeploymentID := i, spRevision := EnvHash w vars @ '':'' @ i\<rparr> in
       case specInvalid w spec of Some why \<Rightarrow> throw (ProbE (BadRequest why))
       | None \<Rightarrow> bind (call c (onTeam (GetProject (eProjectID e)))) (\<lambda>_.
           bind (extern c (namespaceOut w e)) (\<lambda>_.
           bind (appendLog c i ''Applying the configuration to the cluster.'') (\<lambda>_.
           bind (extern c (applyOut w spec vars)) (\<lambda>_. ret spec))))))))))"

definition awaitRollout :: "world \<Rightarrow> ctx \<Rightarrow> Deployment \<Rightarrow> App \<Rightarrow> Environment \<Rightarrow> app_spec \<Rightarrow> unit run_op" where
  "awaitRollout w c d a e spec = bind (extern c (applyJobsOut w spec a)) (\<lambda>_.
     bind (appendLog c (dID d) ''Waiting for the new instances to become ready.'') (\<lambda>_.
     handle (extern c (rolloutOut w e a)) (\<lambda>r. case r of Inr _ \<Rightarrow> ret () | Inl err \<Rightarrow> rolloutProblem w c a e spec err)))"

definition applyTo :: "world \<Rightarrow> ctx \<Rightarrow> Deployment \<Rightarrow> App \<Rightarrow> Environment \<Rightarrow> unit run_op" where
  "applyTo w c d a e = bind (prepare w c d a e) (\<lambda>spec. bind (effect (Applied (dID d) (Image d))) (\<lambda>_.
     bind (awaitRollout w c d a e spec) (\<lambda>_. effect (RolledOut (dID d)))))"

definition Sync :: "world \<Rightarrow> string \<Rightarrow> unit run_op" where
  "Sync w app = bind (call ReqCtx (GetApp app)) (\<lambda>a.
     handle (call ReqCtx (onDeploy (LatestSuccessfulDeployment app))) (\<lambda>r. case r of
       Inl (StoreE ErrNotFound) \<Rightarrow> ret ()
     | Inl err \<Rightarrow> throw err
     | Inr latest \<Rightarrow> bind (call ReqCtx (onTeam (GetEnvironment (aEnvironmentID a)))) (\<lambda>e.
         if \<not> wClustered w then ret () else applyTo w ReqCtx latest a e)))"

section \<open>The run of a deployment\<close>

definition succeed :: "string \<Rightarrow> App \<Rightarrow> string \<Rightarrow> unit run_op" where
  "succeed i a team = andThen (appendLog (RunCtx i) i ''Deployed.'')
     (andThen (call (RunCtx i) (onDeploy (UpdateDeploymentStatus i DeploySucceeded [] [] [])))
     (andThen (call (RunCtx i) (SetAppStatus (aID a) ''running''))
     (andThen (publishDeployment (RunCtx i) i)
     (andThen (notify i a ''deploy.succeeded'')
     (andThen (notice ''plugin'' team ''deploy.succeeded'')
     (ignore (call (RunCtx i) (onDeploy (PruneBuildLogs (aID a) 20)))))))))"

text \<open>Under a context that is done no plugin answers, and no answer is no refusal.\<close>

definition rollOut :: "world \<Rightarrow> Deployment \<Rightarrow> App \<Rightarrow> Environment \<Rightarrow> unit run_op" where
  "rollOut w d a e = (let i = dID d in andThen (setStatus i DeployDeploying)
     (handle (call (RunCtx i) (onTeam (TeamIDForApp (aID a)))) (\<lambda>t. let team = (case t of Inl _ \<Rightarrow> [] | Inr t \<Rightarrow> t) in
       handle (extern (RunCtx i) (Inr (Ask w ''deploy.before'' team))) (\<lambda>v. let verdict = (case v of Inl _ \<Rightarrow> (\<lparr>Allow = True, Reason = []\<rparr>, []) | Inr x \<Rightarrow> x) in
       andThen (effect (Asked (Allow (fst verdict))))
       (if \<not> Allow (fst verdict) then fail w d (ProbE (refusedByPlugin (snd verdict) (Reason (fst verdict))))
        else handle (extern (RunCtx i) (releaseOut w d a e)) (\<lambda>r. case r of Inl err \<Rightarrow> fail w d err
        | Inr _ \<Rightarrow> andThen (effect (Released i)) (handle (applyTo w (RunCtx i) d a e) (\<lambda>r. case r of Inl err \<Rightarrow> fail w d err
            | Inr _ \<Rightarrow> succeed i a team))))))))"

definition runBody :: "world \<Rightarrow> Deployment \<Rightarrow> App \<Rightarrow> Environment \<Rightarrow> unit run_op" where
  "runBody w d a e = (let i = dID d in if Image d = []
     then andThen (setStatus i DeployBuilding) (handle (extern (RunCtx i) (buildOut w d a e)) (\<lambda>r. case r of Inl err \<Rightarrow> fail w d err
       | Inr img \<Rightarrow> andThen (effect (Built img)) (andThen (call (RunCtx i) (onDeploy (SetDeploymentImage i img))) (rollOut w (d\<lparr>Image := img\<rparr>) a e))))
     else andThen (appendLog (RunCtx i) i ''Nothing to build: this version was already built, so the existing image is reused.'') (rollOut w d a e))"

definition runDeployment :: "world \<Rightarrow> string \<Rightarrow> unit run_op" where
  "runDeployment w i = handle (call (RunCtx i) (onDeploy (GetDeployment i))) (\<lambda>r. case r of Inl _ \<Rightarrow> ret ()
     | Inr d \<Rightarrow> handle (call (RunCtx i) (GetApp (dAppID d))) (\<lambda>r. case r of Inl err \<Rightarrow> fail w d err
       | Inr a \<Rightarrow> handle (call (RunCtx i) (onTeam (GetEnvironment (aEnvironmentID a)))) (\<lambda>r. case r of Inl err \<Rightarrow> fail w d err
         | Inr e \<Rightarrow> runBody w d a e)))"

definition run :: "world \<Rightarrow> string \<Rightarrow> unit run_op" where
  "run w i = andThen (runDeployment w i) (finish i)"

section \<open>Starting and stopping\<close>

definition stop :: "string \<Rightarrow> unit run_op" where
  "stop i s = (Inr (), setDone i Canceled s)"

fun stopAll :: "string list \<Rightarrow> unit run_op" where
  "stopAll [] = ret ()"
| "stopAll (i # ids) = andThen (stop i) (stopAll ids)"

text \<open>\<^verbatim>\<open>start\<close>: the goroutine runs \<^verbatim>\<open>run\<close> later, under a context of its own.\<close>

definition start :: "string \<Rightarrow> unit run_op" where
  "start i s = (Inr (), if i \<in> set (running s) then s else s\<lparr>running := i # running s, doneCtx := filter (\<lambda>x. fst x \<noteq> i) (doneCtx s)\<rparr>)"

definition Cancel :: "string \<Rightarrow> unit run_op" where
  "Cancel i s = (if i \<notin> set (running s) then (Inl (ProbE (BadRequest ''That deployment is not running.'')), s)
     else bind (wrap StoreE (markCancelled i)) (\<lambda>_. publishDeployment ReqCtx i) (setDone i Canceled s))"

section \<open>Deploying\<close>

record DeployRequest =
  rqAppID :: string
  rqTrigger :: string
  rqCommitSHA :: string
  rqCreatedBy :: string
  Force :: bool

definition is_lower_hex :: "char \<Rightarrow> bool" where
  "is_lower_hex c \<longleftrightarrow> is_digit c \<or> c \<in> set ''abcdef''"

definition ValidSHA :: "string \<Rightarrow> bool" where
  "ValidSHA sha \<longleftrightarrow> length sha = 64 \<and> list_all is_lower_hex sha"

definition uploadToDeploy :: "world \<Rightarrow> App \<Rightarrow> string \<Rightarrow> run_err + string" where
  "uploadToDeploy w a requested = (if \<not> wUploads w then Inl (ProbE (NotConfigured ''Deploying uploaded code'' ''the panel's data directory''))
     else if requested = [] then (case uploadLatest w (aID a) of None \<Rightarrow> Inl (ProbE (NoUpload (aName a))) | Some sha \<Rightarrow> Inr sha)
     else if \<not> ValidSHA requested \<or> \<not> uploadHas w (aID a) requested then Inl (ProbE (UploadNotFound requested))
     else Inr requested)"

definition specOf :: "App \<Rightarrow> string list \<Rightarrow> runtime_spec" where
  "specOf a hosts = \<lparr>rsReplicas = Replicas a, rsAutoscale = Autoscale a, rsMinReplicas = MinReplicas a, rsMaxReplicas = MaxReplicas a,
     rsCPUTarget = CPUTarget a, rsCPURequestM = CPURequestM a, rsCPULimitM = CPULimitM a, rsMemRequestMB = MemRequestMB a,
     rsMemLimitMB = MemLimitMB a, rsPort = Port a, rsHealthPath = HealthPath a, rsStartCommand = StartCommand a, rsDomains = hosts\<rparr>"

definition runtimeSpec :: "world \<Rightarrow> App \<Rightarrow> string run_op" where
  "runtimeSpec w a = bind (call ReqCtx (ListDomains (aID a))) (\<lambda>ds. ret (marshalSpec w (specOf a (map Hostname ds))))"

definition noDeployment :: Deployment where
  "noDeployment = \<lparr>dID = [], dAppID = [], Number = 0, Status = DeployUnset, Trigger = [], RollbackOf = 0, CommitSHA = [], CommitMessage = [],
     CommitAuthor = [], Image = [], BuildFingerprint = [], RuntimeSpec = [], ErrorCode = [], ErrorMessage = [], ErrorHint = [], CreatedBy = [],
     dCreatedAt = zero_time, StartedAt = zero_time, FinishedAt = zero_time, CanRollback = False\<rparr>"

text \<open>The image of an equal build is reused, with the commit it was built from.\<close>

definition reuse :: "DeployRequest \<Rightarrow> App \<Rightarrow> string \<Rightarrow> Deployment \<Rightarrow> Deployment run_op" where
  "reuse rq a fingerprint d = (if Force rq \<or> SourceType a = ''image'' then ret d
     else handle (call ReqCtx (onDeploy (FindDeploymentByFingerprint (aID a) fingerprint))) (\<lambda>r. ret (case r of Inl _ \<Rightarrow> d
       | Inr previous \<Rightarrow> d\<lparr>Image := Image previous, CommitSHA := CommitSHA previous, CommitMessage := CommitMessage previous,
           CommitAuthor := CommitAuthor previous\<rparr>)))"

definition fingerprintOf :: "world \<Rightarrow> App \<Rightarrow> string \<Rightarrow> (string \<times> string) list \<Rightarrow> string" where
  "fingerprintOf w a commit args = (if SourceType a = ''image'' then ''image:'' @ aImage a
     else buildFingerprint w (RepoURL a) commit (Builder a) (DockerfilePath a) (RootDir a) args)"

definition Deploy :: "world \<Rightarrow> DeployRequest \<Rightarrow> Deployment run_op" where
  "Deploy w rq = bind (call ReqCtx (GetApp (rqAppID rq))) (\<lambda>a.
     bind (call ReqCtx (onTeam (GetEnvironment (aEnvironmentID a)))) (\<lambda>_.
     bind (lift (if SourceType a = ''upload'' then uploadToDeploy w a (rqCommitSHA rq) else Inr (rqCommitSHA rq))) (\<lambda>commit.
     bind (buildTimeVariables w ReqCtx a) (\<lambda>args.
     let fingerprint = fingerprintOf w a commit args in
     bind (runtimeSpec w a) (\<lambda>spec.
     bind (reuse rq a fingerprint (noDeployment\<lparr>dAppID := aID a, Status := DeployQueued, Trigger := rqTrigger rq, CommitSHA := commit,
         BuildFingerprint := fingerprint, RuntimeSpec := spec, CreatedBy := rqCreatedBy rq\<rparr>)) (\<lambda>d0.
     bind (call ReqCtx (onDeploy (CreateDeployment (if SourceType a = ''image'' then d0\<lparr>Image := aImage a\<rparr> else d0)))) (\<lambda>d.
     handle (call ReqCtx (onDeploy (SupersedeRunningDeployments (aID a) (dID d)))) (\<lambda>r.
     andThen (stopAll (case r of Inl _ \<Rightarrow> [] | Inr ids \<Rightarrow> ids)) (andThen (start (dID d)) (ret d))))))))))"

section \<open>Rolling back\<close>

definition KeptPerApp :: int where "KeptPerApp = 10"

definition withSpec :: "runtime_spec \<Rightarrow> App \<Rightarrow> App" where
  "withSpec r a = a\<lparr>Replicas := rsReplicas r, Autoscale := rsAutoscale r, MinReplicas := rsMinReplicas r, MaxReplicas := rsMaxReplicas r,
     CPUTarget := rsCPUTarget r, CPURequestM := rsCPURequestM r, CPULimitM := rsCPULimitM r, MemRequestMB := rsMemRequestMB r,
     MemLimitMB := rsMemLimitMB r, Port := rsPort r, HealthPath := rsHealthPath r, StartCommand := rsStartCommand r\<rparr>"

definition restoreRuntimeSpec :: "world \<Rightarrow> string \<Rightarrow> string \<Rightarrow> unit run_op" where
  "restoreRuntimeSpec w app encoded = (if encoded = [] \<or> encoded = ''{}'' then ret ()
     else case unmarshalSpec w encoded of None \<Rightarrow> throw (OtherE ''read the recorded settings'')
       | Some r \<Rightarrow> bind (call ReqCtx (GetApp app)) (\<lambda>a. bind (call ReqCtx (UpdateApp (withSpec r a))) (\<lambda>_. ret ())))"

definition Rollback :: "world \<Rightarrow> string \<Rightarrow> string \<Rightarrow> string \<Rightarrow> Deployment run_op" where
  "Rollback w app i actor = bind (call ReqCtx (onDeploy (GetDeployment i))) (\<lambda>previous.
     if dAppID previous \<noteq> app then throw (ProbE (NotFound ''deployment'' i))
     else if Image previous = [] then throw (ProbE (BadRequest ''That version has no image to roll back to.''))
     else bind (call ReqCtx (onDeploy (WithinRollbackWindow app i KeptPerApp))) (\<lambda>within.
       if \<not> within then throw (ProbE (ImageCollected (Number previous) KeptPerApp))
       else bind (call ReqCtx (onDeploy (CreateDeployment (noDeployment\<lparr>dAppID := app, Status := DeployQueued, Trigger := ''rollback'',
           RollbackOf := Number previous, CommitSHA := CommitSHA previous, CommitMessage := CommitMessage previous,
           CommitAuthor := CommitAuthor previous, Image := Image previous, BuildFingerprint := BuildFingerprint previous,
           RuntimeSpec := RuntimeSpec previous, CreatedBy := actor\<rparr>)))) (\<lambda>d.
         andThen (restoreRuntimeSpec w app (RuntimeSpec previous)) (andThen (start (dID d)) (ret d)))))"

end
