(* ===== verification/Run_Invariants.thy ===== *)
theory Run_Invariants
  imports Deployer
begin

text \<open>
  Invariants of the deployer's runs. An assertion about the state that every call of
  a run and every step of the other goroutines keeps is an invariant of the whole
  run: that contract is the locale \<^verbatim>\<open>run_stable\<close>, extended by \<^verbatim>\<open>run_invariant\<close> for assertions
  that look neither at the record of effects nor at what is running. An assertion
  about the tables gives one (\<^verbatim>\<open>table_invariant\<close>, \<^verbatim>\<open>table_total\<close>), and so does one about the
  rows of the deployments (\<^verbatim>\<open>rows_kept\<close>), since no other write than a delete reaches them.
\<close>

section \<open>Stability\<close>

abbreviation panel :: "run_db \<Rightarrow> panel_db" where
  "panel s \<equiv> panel_db.truncate s"

lemma panel_onPanel [simp]: "panel (snd (onPanel m s)) = snd (m (panel s))"
  by (cases s) (simp add: onPanel_def panel_db.defs split: prod.splits)

lemma onPanel_rest [simp]:
  "running (snd (onPanel m s)) = running s" "doneCtx (snd (onPanel m s)) = doneCtx s" "meddling (snd (onPanel m s)) = meddling s"
  "hubLog (snd (onPanel m s)) = hubLog s" "notices (snd (onPanel m s)) = notices s" "effects (snd (onPanel m s)) = effects s"
  by (cases s, simp add: onPanel_def panel_db.defs split: prod.splits)+

lemma fst_onPanel: "fst (onPanel m s) = fst (m (panel s))"
  by (simp add: onPanel_def split: prod.splits)

lemma panel_rest [simp]:
  "panel (s\<lparr>running := r\<rparr>) = panel s" "panel (s\<lparr>doneCtx := d\<rparr>) = panel s" "panel (s\<lparr>meddling := m\<rparr>) = panel s"
  "panel (s\<lparr>hubLog := h\<rparr>) = panel s" "panel (s\<lparr>notices := n\<rparr>) = panel s" "panel (s\<lparr>effects := e\<rparr>) = panel s"
  by (simp_all add: panel_db.defs)

text \<open>A read leaves the same state whatever it looks at.\<close>

lemma snd_query: "snd (query f s) = snd (stmt (ret ()) s)"
  by (simp add: query_def stmt_def ret_def Let_def split: list.splits bool.splits)

lemma snd_onPanel: "snd (onPanel m s) = panel_db.extend (snd (m (panel s))) (panel_db.more s)"
  by (simp add: onPanel_def case_prod_beta)

lemma snd_onTeam: "snd (onTeam m s) = cascade ((team_db.extend (snd (m (team_view s))) (team_db.more s))
    \<lparr>apps := filter (\<lambda>a. (aID a, aEnvironmentID a) \<in> set (app_rows (snd (m (team_view s))))) (apps s)\<rparr>)"
  by (simp add: onTeam_def case_prod_beta)

lemma snd_onDeploy: "snd (onDeploy m s) = (let d = snd (m (deploy_view s)) in
    s\<lparr>clock := clock d, pauses := pauses d, faults := faults d, entropy := entropy d, deps := deployments d, dlogs := build_logs d\<rparr>)"
  by (simp add: onDeploy_def Let_def case_prod_beta)

lemma snd_onTeam_query: "snd (onTeam (query f) s) = snd (onTeam (stmt (ret ())) s)"
  by (simp add: snd_onTeam snd_query)

lemma snd_onDeploy_query: "snd (onDeploy (query f) s) = snd (onDeploy (stmt (ret ())) s)"
  by (simp add: snd_onDeploy snd_query)

lemma snd_onDeploy_ignore: "snd (onDeploy (ignore m) s) = snd (onDeploy m s)"
  by (simp add: snd_onDeploy ignore_def)

text \<open>A write of the deployments' tables that does not declare success. An assertion may ask for no more than
  that of the writes around it (\<^verbatim>\<open>W\<close>).\<close>

definition modest :: "deploy_call \<Rightarrow> bool" where
  "modest dc \<longleftrightarrow> (case dc of UpdateDeploymentStatusC _ st _ _ _ \<Rightarrow> st \<noteq> DeploySucceeded | _ \<Rightarrow> True)"

locale run_stable =
  fixes P :: "run_db \<Rightarrow> bool" and W :: "deploy_call \<Rightarrow> bool"
  assumes modest_writes: "modest dc \<Longrightarrow> W dc"
    and meddled: "P s \<Longrightarrow> P (meddle s)"
    and emits: "keeps P (emit t m)"
    and tells: "keeps P (notice k t e)"
    and reads: "keeps P (\<lambda>s. onPanel (stmt (ret ())) s)"
    and team_reads: "keeps P (\<lambda>s. onPanel (onTeam (stmt (ret ()))) s)"
    and deploy_reads: "keeps P (\<lambda>s. onPanel (onDeploy (stmt (ret ()))) s)"
    and deploy_writes: "W dc \<Longrightarrow> keeps P (\<lambda>s. onPanel (onDeploy (deploy_call_op dc)) s)"
    and app_status: "keeps P (\<lambda>s. onPanel (SetAppStatus a st) s)"
begin

lemma keeps_call:
  assumes "keeps P (onPanel m)" shows "keeps P (call c m)"
  using assms meddled by (auto simp: keeps_def call_def wrap_def Let_def split: option.splits prod.splits sum.splits) (metis snd_conv)+

lemma keeps_extern: "keeps P (extern c out)"
  using meddled by (auto simp: keeps_def extern_def Let_def split: option.splits)

lemma keeps_query: "keeps P (onPanel (query f))"
  using reads by (simp add: keeps_def snd_onPanel snd_query)

lemma keeps_team_query: "keeps P (onPanel (onTeam (query f)))"
  using team_reads by (simp add: keeps_def snd_onPanel snd_onTeam_query)

lemma keeps_deploy_query: "keeps P (onPanel (onDeploy (query f)))"
  using deploy_reads by (simp add: keeps_def snd_onPanel snd_onDeploy_query)

lemma keeps_log: "keeps P (onPanel (onDeploy (AppendBuildLog i st l)))"
  using deploy_writes [of "AppendBuildLogC i st l"] modest_writes
  by (simp add: modest_def keeps_def snd_onPanel snd_onDeploy_ignore)

lemma keeps_deploy_update: "W (UpdateDeploymentStatusC i st c m h) \<Longrightarrow> keeps P (onPanel (onDeploy (UpdateDeploymentStatus i st c m h)))"
  using deploy_writes [of "UpdateDeploymentStatusC i st c m h"] by simp

lemma keeps_deploy_image: "keeps P (onPanel (onDeploy (SetDeploymentImage i img)))"
  using deploy_writes [of "SetDeploymentImageC i img"] modest_writes by (simp add: modest_def)

lemma keeps_deploy_prune: "keeps P (onPanel (onDeploy (PruneBuildLogs a k)))"
  using deploy_writes [of "PruneBuildLogsC a k"] modest_writes by (simp add: modest_def)

lemma keeps_app_status: "keeps P (onPanel (SetAppStatus a st))"
  using app_status by simp

lemma keeps_andThen: "keeps P a \<Longrightarrow> keeps P b \<Longrightarrow> keeps P (andThen a b)"
  by (simp add: andThen_def keeps_handle)

lemmas keeps_calls = keeps_call keeps_extern keeps_query keeps_team_query keeps_deploy_query keeps_log keeps_deploy_update keeps_deploy_image
  keeps_deploy_prune keeps_app_status keeps_andThen emits tells

lemma keeps_lift: "keeps P (lift x)"
  by (simp add: lift_def keeps_ret keeps_throw split: sum.splits)

lemmas run_reads = GetDeployment_def TeamIDForApp_def GetApp_def GetEnvironment_def GetProject_def GetSetting_def ListVariables_def
  ListSharedVariables_def

lemma keeps_publishing: "keeps P (publishDeployment c i)"
  unfolding publishDeployment_def run_reads by (intro keeps_intros keeps_calls)

lemma keeps_appendLog: "keeps P (appendLog c i l)"
  unfolding appendLog_def by (intro keeps_intros keeps_calls)

lemma keeps_appendLogLines: "keeps P (appendLogLines c i ls)"
  by (induction ls) (auto intro!: keeps_intros keeps_calls keeps_appendLog)

lemma modest_update: "st \<noteq> DeploySucceeded \<Longrightarrow> W (UpdateDeploymentStatusC i st c m h)"
  by (simp add: modest_writes modest_def)

lemma keeps_moving: "st \<noteq> DeploySucceeded \<Longrightarrow> keeps P (setStatus i st)"
  unfolding setStatus_def by (intro keeps_calls keeps_publishing modest_update)

lemma keeps_notify: "keeps P (notify i a e)"
  unfolding notify_def run_reads by (intro keeps_intros keeps_calls)

lemma keeps_fail: "keeps P (fail w d e)"
  unfolding fail_def Let_def run_reads
  by (intro keeps_intros keeps_calls keeps_publishing keeps_appendLogLines keeps_notify modest_update DeploymentStatus.simps)

lemma keeps_failPanicked: "keeps P (failPanicked i err)"
  unfolding failPanicked_def Let_def run_reads by (intro keeps_intros keeps_calls modest_update DeploymentStatus.simps)

lemma keeps_registryAuth: "keeps P (ensureRegistryAuth w c n)"
  unfolding ensureRegistryAuth_def registryAddress_def settingValue_def run_reads
  by (intro keeps_intros keeps_calls keeps_lift)

lemma keeps_runtimeVariables: "keeps P (runtimeVariables w c a e)"
  unfolding runtimeVariables_def run_reads by (intro keeps_intros keeps_calls keeps_lift)

lemma keeps_prepare: "keeps P (prepare w c d a e)"
  unfolding prepare_def Let_def run_reads
  by (intro keeps_intros keeps_calls keeps_registryAuth keeps_runtimeVariables keeps_appendLog)

lemma keeps_await: "keeps P (awaitRollout w c d a e spec)"
  unfolding awaitRollout_def rolloutProblem_def by (intro keeps_intros keeps_calls keeps_appendLog)

lemma keeps_succeed: "W (UpdateDeploymentStatusC i DeploySucceeded [] [] []) \<Longrightarrow> keeps P (succeed i a t)"
  unfolding succeed_def by (intro keeps_intros keeps_calls keeps_appendLog keeps_publishing keeps_notify)

end

text \<open>An assertion that does not look at the record of effects nor at the running deployments.\<close>

locale run_invariant = run_stable +
  assumes effects_free: "keeps P (effect e)"
    and finished: "keeps P (finish i)"
    and all_writes: "W dc"
begin

lemma keeps_applyTo: "keeps P (applyTo w c d a e)"
  unfolding applyTo_def by (intro keeps_intros keeps_prepare keeps_await effects_free)

lemma keeps_rollOut: "keeps P (rollOut w d a e)"
  unfolding rollOut_def Let_def run_reads
  by (intro keeps_intros keeps_calls keeps_moving keeps_fail keeps_applyTo keeps_succeed effects_free all_writes DeploymentStatus.simps)

lemma keeps_runBody: "keeps P (runBody w d a e)"
  unfolding runBody_def Let_def
  by (intro keeps_intros keeps_calls keeps_moving keeps_fail keeps_rollOut keeps_appendLog effects_free DeploymentStatus.simps)

lemma keeps_run: "keeps P (run w i)"
  unfolding run_def runDeployment_def run_reads
  by (intro keeps_intros keeps_calls keeps_fail keeps_runBody finished)

end

section \<open>Invariants of the tables\<close>

definition spared :: "(outside \<Rightarrow> bool) \<Rightarrow> run_db \<Rightarrow> bool" where
  "spared ok s \<longleftrightarrow> (\<forall>es \<in> set (meddling s). \<forall>e \<in> set es. ok e)"

definition tabled :: "(panel_db \<Rightarrow> bool) \<Rightarrow> ((string \<times> ctx_err) list \<Rightarrow> bool) \<Rightarrow> (outside \<Rightarrow> bool) \<Rightarrow> run_db \<Rightarrow> bool" where
  "tabled Q D ok s \<longleftrightarrow> Q (panel s) \<and> D (doneCtx s) \<and> spared ok s"

locale table_invariant =
  fixes Q :: "panel_db \<Rightarrow> bool" and D :: "(string \<times> ctx_err) list \<Rightarrow> bool" and ok :: "outside \<Rightarrow> bool" and W :: "deploy_call \<Rightarrow> bool"
  assumes modest_W: "modest dc \<Longrightarrow> W dc"
    and read: "keeps Q (stmt (ret ()))"
    and team_read: "keeps Q (onTeam (stmt (ret ())))"
    and deploy_read: "keeps Q (onDeploy (stmt (ret ())))"
    and deploy_write: "W dc \<Longrightarrow> keeps Q (onDeploy (deploy_call_op dc))"
    and status_write: "keeps Q (SetAppStatus a st)"
    and other_writes: "ok (OStore c) \<Longrightarrow> keeps Q (app_call_op c)"
    and stopped: "ok e \<Longrightarrow> e \<in> {OCancel j, OExpire j, OStop j} \<Longrightarrow> D dn \<Longrightarrow> D ((j, x) # dn)"
begin

lemma keeps_onPanel: "keeps Q m \<Longrightarrow> keeps (tabled Q D ok) (onPanel m)"
  by (simp add: keeps_def tabled_def spared_def)

lemma setDone_tabled:
  "ok e \<Longrightarrow> e \<in> {OCancel j, OExpire j, OStop j} \<Longrightarrow> tabled Q D ok s \<Longrightarrow> tabled Q D ok (setDone j x s)"
  using stopped by (auto simp: setDone_def tabled_def spared_def)

lemma outsideStep_tabled:
  assumes "ok e" "tabled Q D ok s" shows "tabled Q D ok (outsideStep e s)"
proof -
  have mark: "tabled Q D ok t \<Longrightarrow> tabled Q D ok (snd (markCancelled i t))" for i t
    using keeps_onPanel [OF deploy_write [of "UpdateDeploymentStatusC i DeployCancelled ''cancelled'' ''Cancelled by a user.'' []"]]
    by (simp add: keeps_def markCancelled_def modest_W modest_def)
  show ?thesis
  proof (cases e)
    case (OStore c)
    with assms have "keeps (tabled Q D ok) (onPanel (app_call_op c))" by (intro keeps_onPanel other_writes) simp
    with assms(2) OStore show ?thesis by (simp add: outsideStep_def keeps_def)
  qed (use assms mark setDone_tabled [of e] in \<open>auto simp: outsideStep_def\<close>)
qed

lemma fold_tabled: "\<forall>e \<in> set es. ok e \<Longrightarrow> tabled Q D ok s \<Longrightarrow> tabled Q D ok (fold outsideStep es s)"
  by (induction es arbitrary: s) (auto intro: outsideStep_tabled)

lemma meddle_tabled:
  assumes "tabled Q D ok s" shows "tabled Q D ok (meddle s)"
proof (cases "meddling s")
  case (Cons es rest)
  then have "tabled Q D ok (s\<lparr>meddling := rest\<rparr>)" "\<forall>e \<in> set es. ok e"
    using assms by (simp_all add: tabled_def spared_def)
  then show ?thesis using fold_tabled Cons by (simp add: meddle_def)
qed (use assms in \<open>simp add: meddle_def\<close>)

end

sublocale table_invariant \<subseteq> run_stable "tabled Q D ok" W
proof unfold_locales
  show "tabled Q D ok s \<Longrightarrow> tabled Q D ok (meddle s)" for s by (rule meddle_tabled)
  show "W dc \<Longrightarrow> keeps (tabled Q D ok) (\<lambda>s. onPanel (onDeploy (deploy_call_op dc)) s)" for dc
    using keeps_onPanel [OF deploy_write] by simp
  show "modest dc \<Longrightarrow> W dc" for dc by (rule modest_W)
qed (use keeps_onPanel read team_read deploy_read status_write in \<open>simp_all add: keeps_def emit_def notice_def tabled_def spared_def\<close>)

locale table_total = table_invariant +
  assumes every_write: "W dc"

sublocale table_total \<subseteq> run_invariant "tabled Q D ok" W
  by unfold_locales (simp_all add: keeps_def effect_def finish_def tabled_def spared_def every_write)

section \<open>What the writes of the store leave alone\<close>

lemma keeps_conj: "keeps P m \<Longrightarrow> keeps Q m \<Longrightarrow> keeps (\<lambda>s. P s \<and> Q s) m"
  by (simp add: keeps_def)

text \<open>No operation brings a fault of its own: a schedule that is used up stays used up.\<close>

abbreviation faultless :: "'m env_scheme \<Rightarrow> bool" where
  "faultless s \<equiv> faults s = []"

lemma faultless_tick [simp]: "faults (tick s) = faults s"
  by (simp add: tick_def split: list.splits)

lemma faultless_timeNow: "keeps faultless timeNow"
  by (simp add: keeps_def timeNow_def)

lemma faultless_stmt: "keeps faultless f \<Longrightarrow> keeps faultless (stmt f)"
  by (simp add: keeps_def stmt_def Let_def)

lemma faultless_query: "keeps faultless (query f)"
  unfolding query_def by (rule faultless_stmt) (simp add: keeps_def)

lemma faultless_random: "keeps faultless random"
  by (simp add: keeps_def random_def split: list.splits)

lemma faultless_NewID: "keeps faultless (NewID pre)"
  unfolding NewID_def by (intro keeps_intros faultless_timeNow faultless_random)

lemma faultless_Tx:
  assumes "keeps faultless f" shows "keeps faultless (Tx f)"
proof -
  have b: "faults s = [] \<Longrightarrow> faults (snd (stmt (ret ()) s)) = []" for s
    by (simp add: stmt_def ret_def Let_def)
  have "faults (snd (Tx f s)) = []" if "faults s = []" for s
  proof -
    obtain r0 s0 where s0: "stmt (ret ()) s = (r0, s0)" by force
    obtain r1 s1 where s1: "f s0 = (r1, s1)" by force
    obtain r2 s2 where s2: "stmt (ret ()) s1 = (r2, s2)" by force
    have "faults s0 = []" using b [of s] that s0 by simp
    then have "faults s1 = []" using assms s1 by (auto simp: keeps_def dest!: spec [of _ s0])
    then have "faults s2 = []" using b [of s1] s2 by simp
    with \<open>faults s0 = []\<close> \<open>faults s1 = []\<close> show ?thesis
      by (auto simp: Tx_def s0 s1 s2 rollback_def split: sum.splits)
  qed
  then show ?thesis by (simp add: keeps_def)
qed

lemmas faultless_env = faultless_timeNow faultless_stmt faultless_query faultless_random faultless_NewID faultless_Tx

lemma faultless_deploy_rows:
  "keeps faultless (insertDeployment r)" "keeps faultless (insertLog l)" "keeps faultless (update_deployments p f)"
  "keeps faultless (\<lambda>s. if c s then (Inl ErrDB, s) else update_deployments (q s) (g s) s)"
  "keeps faultless (\<lambda>s :: deploy_db. (Inr (), s\<lparr>build_logs := h s\<rparr>))"
  by (auto simp: keeps_def insertDeployment_def insertLog_def update_deployments_def)

lemma faultless_lines: "keeps faultless (appendLines dep n ls)"
  by (induction ls arbitrary: n) (auto intro!: keeps_intros faultless_env faultless_deploy_rows)

lemma faultless_deploy: "keeps faultless (deploy_call_op c)"
  by (cases c) (auto simp: deploy_write_defs intro!: keeps_intros faultless_env faultless_deploy_rows faultless_lines)

lemma faultless_onDeploy: "keeps faultless m \<Longrightarrow> keeps faultless (onDeploy m)"
  by (simp add: keeps_def snd_onDeploy Let_def deploy_view_def)

lemma faultless_extend [simp]: "faults (team_db.extend t m) = faults t"
  by (simp add: team_db.defs)

lemma faultless_cascade [simp]: "faults (cascade s) = faults s"
  by (simp add: cascade_def Let_def)

lemma faultless_onTeam: "keeps faultless m \<Longrightarrow> keeps faultless (onTeam m)"
  by (simp add: keeps_def snd_onTeam team_view_def team_db.defs)

text \<open>The writes of the apps that are not deletes.\<close>

fun deletes :: "app_call \<Rightarrow> bool" where
  "deletes (DeleteAppC _) = True"
| "deletes (DeleteEnvironmentC _) = True"
| "deletes (DeleteProjectC _) = True"
| "deletes _ = False"

definition frame :: "deployment_row list \<Rightarrow> panel_db \<Rightarrow> bool" where
  "frame X s \<longleftrightarrow> deps s = X"

interpretation frame_inv: env_free "frame X"
  by unfold_locales (simp_all add: frame_def)

lemmas app_row_defs = insertApp_def updateAppRow_def upsertVariable_def deleteVariableRow_def upsertShared_def deleteSharedRow_def
  insertDomain_def setAutoRow_def deleteDomainRow_def insertVolume_def deleteVolumeRow_def insertJob_def updateJobRow_def deleteJobRow_def

lemma frame_rows:
  "keeps (frame X) (insertApp a)" "keeps (frame X) (updateAppRow a t)" "keeps (frame X) (upsertVariable v)" "keeps (frame X) (deleteVariableRow i k)"
  "keeps (frame X) (upsertShared sv)" "keeps (frame X) (deleteSharedRow i k)" "keeps (frame X) (insertDomain d)" "keeps (frame X) (setAutoRow i h b)"
  "keeps (frame X) (deleteDomainRow i)" "keeps (frame X) (insertVolume vo)" "keeps (frame X) (deleteVolumeRow i k)" "keeps (frame X) (insertJob j)"
  "keeps (frame X) (updateJobRow j t)" "keeps (frame X) (deleteJobRow i k)"
  "keeps (frame X) (\<lambda>s. (Inr (), s\<lparr>apps := f s\<rparr>))" "keeps (frame X) (\<lambda>s. (Inr (), s\<lparr>domains := g s\<rparr>))"
  by (simp_all add: keeps_def frame_def app_row_defs Let_def split: option.split)

lemma faultless_rows:
  "keeps faultless (insertApp a)" "keeps faultless (updateAppRow a t)" "keeps faultless (upsertVariable v)" "keeps faultless (deleteVariableRow i k)"
  "keeps faultless (upsertShared sv)" "keeps faultless (deleteSharedRow i k)" "keeps faultless (insertDomain d)" "keeps faultless (setAutoRow i h b)"
  "keeps faultless (deleteDomainRow i)" "keeps faultless (insertVolume vo)" "keeps faultless (deleteVolumeRow i k)" "keeps faultless (insertJob j)"
  "keeps faultless (updateJobRow j t)" "keeps faultless (deleteJobRow i k)"
  "keeps faultless (\<lambda>s :: panel_db. (Inr (), s\<lparr>apps := f s\<rparr>))" "keeps faultless (\<lambda>s :: panel_db. (Inr (), s\<lparr>domains := g s\<rparr>))"
  by (simp_all add: keeps_def app_row_defs Let_def split: option.split)

lemma frame_call:
  assumes "\<not> deletes c" "\<And>d. c \<noteq> DeployC d" shows "keeps (frame X) (app_call_op c)"
  using assms
  by (cases c) (simp_all only: app_call_op.simps app_write_defs Let_def deletes.simps not_True_eq_False,
    (intro keeps_intros frame_inv.keeps_env frame_rows | simp | blast)+)

lemma faultless_call:
  assumes "\<not> deletes c" shows "keeps faultless (app_call_op c)"
  using assms
  by (cases c) (simp_all only: app_call_op.simps app_write_defs Let_def deletes.simps not_True_eq_False,
    (intro keeps_intros faultless_env faultless_rows faultless_onDeploy faultless_deploy | simp)+)

section \<open>Assertions about the rows of the deployments\<close>

text \<open>A read of the teams' tables takes nothing with it.\<close>

interpretation app_rows_inv: env_free "\<lambda>s :: team_db. app_rows s = A"
  by unfold_locales simp_all

lemma onTeam_read_deps:
  assumes "apps_ok s" shows "deps (snd (onTeam (stmt (ret ())) s)) = deps s"
proof -
  have "app_rows (snd (stmt (ret ()) (team_view s))) = app_rows (team_view s)"
    using app_rows_inv.keeps_stmt [OF keeps_ret, of "app_rows (team_view s)" "()"] by (simp add: keeps_def)
  then have "filter (\<lambda>a. (aID a, aEnvironmentID a) \<in> set (app_rows (snd (stmt (ret ()) (team_view s))))) (apps s) = apps s"
    by (auto simp: team_view_def intro!: filter_True)
  moreover have "filter (\<lambda>d. dAppID d \<in> aID ` set (apps s)) (deps s) = deps s"
    using assms by (auto simp: apps_ok_def deploy_ok_def deploy_view_def intro!: filter_True)
  ultimately show ?thesis by (simp add: snd_onTeam cascade_def Let_def)
qed

definition rows_hold :: "(deploy_db \<Rightarrow> bool) \<Rightarrow> panel_db \<Rightarrow> bool" where
  "rows_hold R p \<longleftrightarrow> apps_ok p \<and> R (deploy_view p)"

locale rows_kept =
  fixes R :: "deploy_db \<Rightarrow> bool" and W :: "deploy_call \<Rightarrow> bool"
  assumes modest_kept: "modest c \<Longrightarrow> W c"
    and same_rows: "deployments d = deployments d' \<Longrightarrow> R d = R d'"
    and calls: "W c \<Longrightarrow> keeps R (deploy_call_op c)"
begin

lemma hold_framed:
  assumes "keeps apps_ok m" "\<And>s. apps_ok s \<Longrightarrow> deps (snd (m s)) = deps s" shows "keeps (rows_hold R) m"
  unfolding keeps_def
proof (intro allI impI)
  fix s assume "rows_hold R s"
  then have ok: "apps_ok s" "R (deploy_view s)" by (simp_all add: rows_hold_def)
  have "R (deploy_view (snd (m s))) = R (deploy_view s)"
    by (rule same_rows) (simp add: deploy_view_def assms(2) [OF ok(1)])
  with ok assms(1) show "rows_hold R (snd (m s))" by (simp add: rows_hold_def keeps_def)
qed

lemma hold_frame: "keeps apps_ok m \<Longrightarrow> (\<And>X. keeps (frame X) m) \<Longrightarrow> keeps (rows_hold R) m"
  by (rule hold_framed) (simp_all add: keeps_def frame_def)

lemma hold_read: "keeps (rows_hold R) (stmt (ret ()))"
  by (intro hold_frame apps_inv.keeps_stmt frame_inv.keeps_stmt keeps_ret)

lemma hold_team_read: "keeps (rows_hold R) (onTeam (stmt (ret ())))"
  by (intro hold_framed keeps_onTeam refs_inv.keeps_stmt keeps_ret onTeam_read_deps)

lemma hold_onDeploy:
  assumes "keeps deploy_ok m" "\<And>A. keeps (\<lambda>s. app_ids s = A) m" "keeps R m" shows "keeps (rows_hold R) (onDeploy m)"
  unfolding keeps_def
proof (intro allI impI)
  fix s assume q: "rows_hold R s"
  have "R (deploy_view (snd (onDeploy m s))) = R (snd (m (deploy_view s)))"
    by (rule same_rows) (simp add: deploy_view_def snd_onDeploy Let_def)
  with q assms(3) keeps_onDeploy [OF assms(1,2)] show "rows_hold R (snd (onDeploy m s))" by (simp add: rows_hold_def keeps_def)
qed

lemma hold_deploy_read: "keeps (rows_hold R) (onDeploy (stmt (ret ())))"
proof -
  have "snd (onDeploy (stmt (ret ())) s) = s\<lparr>clock := clock t, pauses := pauses t, faults := faults t, entropy := entropy t\<rparr>"
    if t: "t = snd (stmt (ret ()) (deploy_view s))" for s t
    using t by (simp add: snd_onDeploy Let_def stmt_def ret_def tick_def deploy_view_def split: list.splits bool.splits)
  then have "deps (snd (onDeploy (stmt (ret ())) s)) = deps s" for s by simp
  then show ?thesis
    by (intro hold_framed keeps_onDeploy deploy_inv.keeps_stmt ids_inv.keeps_stmt keeps_ret)
qed

lemma hold_deploy: "W c \<Longrightarrow> keeps (rows_hold R) (onDeploy (deploy_call_op c))"
  by (intro hold_onDeploy keeps_deploy_call keeps_ids_call calls)

lemma hold_status: "keeps (rows_hold R) (SetAppStatus a st)"
  using hold_frame [OF keeps_app_call [of "SetAppStatusC a st"] frame_call [of "SetAppStatusC a st"]] by simp

lemma hold_call: "\<not> deletes c \<Longrightarrow> (\<And>d. c = DeployC d \<Longrightarrow> W d) \<Longrightarrow> keeps (rows_hold R) (app_call_op c)"
proof (cases "\<exists>d. c = DeployC d")
  case True
  assume "\<And>d. c = DeployC d \<Longrightarrow> W d"
  with True show ?thesis using hold_deploy by auto
next
  case False
  assume "\<not> deletes c"
  with False show ?thesis by (intro hold_frame keeps_app_call frame_call) auto
qed

lemma table_invariant_Q:
  assumes "\<And>c. ok (OStore c) \<Longrightarrow> \<not> deletes c" "\<And>d. ok (OStore (DeployC d)) \<Longrightarrow> W d"
    and "\<And>e j dn x. ok e \<Longrightarrow> e \<in> {OCancel j, OExpire j, OStop j} \<Longrightarrow> D dn \<Longrightarrow> D ((j, x) # dn)"
  shows "table_invariant (rows_hold R) D ok W"
  using assms by unfold_locales (auto intro: modest_kept hold_read hold_team_read hold_deploy_read hold_deploy hold_status hold_call)

lemma table_invariant_faultless:
  assumes "\<And>c. ok (OStore c) \<Longrightarrow> \<not> deletes c" "\<And>d. ok (OStore (DeployC d)) \<Longrightarrow> W d"
    and "\<And>e j dn x. ok e \<Longrightarrow> e \<in> {OCancel j, OExpire j, OStop j} \<Longrightarrow> D dn \<Longrightarrow> D ((j, x) # dn)"
  shows "table_invariant (\<lambda>p. rows_hold R p \<and> faultless p) D ok W"
proof -
  have "keeps (\<lambda>p. rows_hold R p \<and> faultless p) (SetAppStatus a st)" for a st
    using faultless_call [of "SetAppStatusC a st"] by (intro keeps_conj hold_status) simp
  with assms show ?thesis
    by unfold_locales (auto intro: modest_kept intro!: keeps_conj hold_read hold_team_read hold_deploy_read hold_deploy hold_call
      faultless_stmt keeps_ret faultless_onTeam faultless_onDeploy faultless_deploy faultless_call)
qed

end

end
