(* ===== verification/Deploy_Runs.thy ===== *)
theory Deploy_Runs
  imports Run_Invariants
begin

text \<open>
  What holds of the deployer, by the invariants of its runs. A run that is not stopped
  reaches a verdict (liveness); no run overwrites a verdict; nothing reaches the
  cluster before the plugins and the release command let it, and only a rollout that
  is done is called a success; a new deployment takes the place of the others and
  reuses an image exactly when an equal build succeeded. And what goes wrong: a run
  that meets its deadline leaves its row open, a cancelled rollout is announced as a
  failure, a rollback stops nothing, and the fingerprint of a build ignores the branch.
\<close>

section \<open>A verdict is final, and a run that is left alone reaches one\<close>

definition verdict :: "string \<Rightarrow> (DeploymentStatus \<times> string \<times> string \<times> string \<times> instant option) \<Rightarrow> deploy_db \<Rightarrow> bool" where
  "verdict i v d \<longleftrightarrow> Terminal (fst v) \<and> final i v d"

definition has_row :: "string \<Rightarrow> deploy_db \<Rightarrow> bool" where
  "has_row i d \<longleftrightarrow> i \<in> dID ` set (deployments d)"

interpretation row_inv: env_free "has_row i"
  by unfold_locales (simp_all add: has_row_def)

lemma has_row_update: "(\<And>r. dID (f r) = dID r) \<Longrightarrow> keeps (has_row i) (update_deployments p f)"
  by (simp add: keeps_def has_row_def update_deployments_def set_update_image)

lemma has_row_rows:
  "keeps (has_row i) (insertDeployment r)" "keeps (has_row i) (insertLog l)"
  "(\<And>s. keeps (has_row i) (update_deployments q (g s))) \<Longrightarrow> keeps (has_row i) (\<lambda>s. if c s then (Inl ErrDB, s) else update_deployments q (g s) s)"
  "keeps (has_row i) (\<lambda>s. (Inr (), s\<lparr>build_logs := h s\<rparr>))"
  by (auto simp: keeps_def has_row_def insertDeployment_def insertLog_def)

lemma has_row_lines: "keeps (has_row i) (appendLines dep n ls)"
  by (induction ls arbitrary: n) (auto intro!: keeps_intros row_inv.keeps_env has_row_rows)

lemma has_row_call: "keeps (has_row i) (deploy_call_op c)"
  by (cases c) (auto simp: deploy_write_defs intro!: keeps_intros row_inv.keeps_env has_row_rows has_row_lines has_row_update)

interpretation verdict_rows: rows_kept "verdict i v" "\<lambda>_. True"
proof
  show "keeps (verdict i v) (deploy_call_op c)" for c
    using final_call [of v i c] by (auto simp: keeps_def verdict_def)
qed (auto simp: verdict_def final_def)

interpretation present_rows: rows_kept "has_row i" "\<lambda>_. True"
  by unfold_locales (simp_all add: has_row_call, simp add: has_row_def)

definition persists :: "outside \<Rightarrow> bool" where
  "persists e \<longleftrightarrow> (case e of OStore c \<Rightarrow> \<not> deletes c | _ \<Rightarrow> True)"

definition leaves :: "string \<Rightarrow> outside \<Rightarrow> bool" where
  "leaves i e \<longleftrightarrow> (case e of OStore c \<Rightarrow> \<not> deletes c | OCancel j \<Rightarrow> j \<noteq> i | OExpire j \<Rightarrow> j \<noteq> i | OStop j \<Rightarrow> j \<noteq> i)"

interpretation verdicts: table_total "rows_hold (verdict i v)" "\<lambda>_. True" persists "\<lambda>_. True"
  by (intro table_total.intro verdict_rows.table_invariant_Q table_total_axioms.intro) (simp_all add: persists_def)

interpretation lone: table_total "\<lambda>p. rows_hold (has_row i) p \<and> faultless p" "\<lambda>dn. map_of dn i = None" "leaves i" "\<lambda>_. True"
  by (intro table_total.intro present_rows.table_invariant_faultless table_total_axioms.intro) (auto simp: leaves_def split: outside.splits)

definition decided :: "string \<Rightarrow> run_db \<Rightarrow> bool" where
  "decided i s \<longleftrightarrow> (\<exists>v. tabled (rows_hold (verdict i v)) (\<lambda>_. True) persists s)"

definition alone :: "string \<Rightarrow> run_db \<Rightarrow> bool" where
  "alone i s \<longleftrightarrow> tabled (\<lambda>p. rows_hold (has_row i) p \<and> faultless p) (\<lambda>dn. map_of dn i = None) (leaves i) s"

lemma keeps_decided: "(\<And>v. keeps (tabled (rows_hold (verdict i v)) (\<lambda>_. True) persists) m) \<Longrightarrow> keeps (decided i) m"
  unfolding keeps_def decided_def by blast

lemma keeps_alone: "keeps (tabled (\<lambda>p. rows_hold (has_row i) p \<and> faultless p) (\<lambda>dn. map_of dn i = None) (leaves i)) m \<Longrightarrow> keeps (alone i) m"
  by (simp add: keeps_def alone_def)

text \<open>The write of a verdict, when no fault stops it.\<close>

lemma status_settles:
  assumes "faults d = []" "deploy_ok d" "has_row i d" "Terminal st"
  shows "\<exists>v. verdict i v (snd (UpdateDeploymentStatus i st c m h d))"
proof -
  let ?p = "\<lambda>r. dID r = i \<and> in_flight (Status r)"
  let ?f = "\<lambda>r. r\<lparr>Status := st, ErrorCode := c, ErrorMessage := m, ErrorHint := h, started_at := coalesce (started_at r) None,
      finished_at := coalesce (Some (clock (tick d))) (finished_at r)\<rparr>"
  have st: "st \<notin> {DeployBuilding, DeployDeploying}" "st \<noteq> DeployUnset" using assms(4) by (auto simp: Terminal_def)
  have rows: "deployments (snd (UpdateDeploymentStatus i st c m h d)) = update_rows ?p ?f (deployments d)"
    using st assms(1,4) by (auto simp: UpdateDeploymentStatus_def nowIf_def bind_def ret_def timeNow_def stmt_def Let_def
        update_deployments_def tick_def split: list.splits)
  obtain r where r: "r \<in> set (deployments d)" "dID r = i" using assms(3) by (auto simp: has_row_def)
  have one: "x = r" if "x \<in> set (deployments d)" "dID x = i" for x
    using that r assms(2) by (auto simp: deploy_ok_def distinct_map inj_on_def)
  define r' where "r' = (if in_flight (Status r) then ?f r else r)"
  have "Status r \<noteq> DeployUnset" using assms(2) r by (auto simp: deploy_ok_def)
  then have t: "Terminal (Status r')"
    using assms(4) by (cases "Status r") (auto simp: r'_def Terminal_def in_flight_def)
  have "x = r'" if "x \<in> set (update_rows ?p ?f (deployments d))" "dID x = i" for x
    using that(1)
  proof (cases rule: update_rowsE)
    case (hit y)
    with one [of y] show ?thesis by (simp add: r'_def)
  next
    case miss
    with one [of x] that(2) show ?thesis by (simp add: r'_def)
  qed
  moreover have "i \<in> dID ` set (update_rows ?p ?f (deployments d))"
    using r by (simp add: set_update_image image_iff) (metis r(2))
  ultimately have "verdict i (Status r', ErrorCode r', ErrorMessage r', ErrorHint r', finished_at r') (snd (UpdateDeploymentStatus i st c m h d))"
    using t by (auto simp: verdict_def final_def rows)
  then show ?thesis ..
qed


definition settles :: "string \<Rightarrow> 'a run_op \<Rightarrow> bool" where
  "settles i m \<longleftrightarrow> (\<forall>s. alone i s \<longrightarrow> decided i (snd (m s)))"

lemma settles_after: "settles i m \<Longrightarrow> (\<And>r. keeps (decided i) (k r)) \<Longrightarrow> settles i (handle m k)"
  by (simp add: settles_def keeps_def handle_def case_prod_beta)

lemma settles_before: "keeps (alone i) m \<Longrightarrow> (\<And>r. settles i (k r)) \<Longrightarrow> settles i (handle m k)"
  by (simp add: settles_def keeps_def handle_def case_prod_beta)

lemma settles_if: "(c \<Longrightarrow> settles i a) \<Longrightarrow> (\<not> c \<Longrightarrow> settles i b) \<Longrightarrow> settles i (if c then a else b)"
  by simp

lemma settles_sum: "(\<And>e. settles i (f e)) \<Longrightarrow> (\<And>x. settles i (g x)) \<Longrightarrow> settles i (case r of Inl e \<Rightarrow> f e | Inr x \<Rightarrow> g x)"
  by (cases r) simp_all

lemma leaves_persists: "leaves i e \<Longrightarrow> persists e"
  by (simp add: leaves_def persists_def split: outside.splits)

lemma alone_meddle: "alone i s \<Longrightarrow> alone i (meddle s)"
  unfolding alone_def by (rule lone.meddle_tabled)

lemma settles_verdict:
  assumes "Terminal st"
  shows "settles i (call (RunCtx i) (onDeploy (UpdateDeploymentStatus i st c m h)))" (is "settles i (call _ (onDeploy ?u))")
  unfolding settles_def
proof (intro allI impI)
  fix s assume "alone i s"
  then have al: "alone i (meddle s)" by (rule alone_meddle)
  let ?p = "panel (meddle s)"
  have p: "apps_ok ?p" "has_row i (deploy_view ?p)" "faults ?p = []" "map_of (doneCtx (meddle s)) i = None" "spared (leaves i) (meddle s)"
    using al by (simp_all add: alone_def tabled_def rows_hold_def)
  have "deploy_ok (deploy_view ?p)" using p(1) by (simp add: apps_ok_def)
  moreover have "faults (deploy_view ?p) = []" using p(3) by (simp add: deploy_view_def)
  ultimately obtain v where v: "verdict i v (snd (?u (deploy_view ?p)))"
    using status_settles [OF _ _ p(2) assms] by blast
  have "verdict i v (deploy_view (snd (onDeploy ?u ?p))) = verdict i v (snd (?u (deploy_view ?p)))"
    by (rule verdict_rows.same_rows) (simp add: deploy_view_def snd_onDeploy Let_def)
  moreover have "apps_ok (snd (onDeploy ?u ?p))"
    using keeps_onDeploy [OF keeps_deploy_call [of "UpdateDeploymentStatusC i st c m h"] keeps_ids_call [of _ "UpdateDeploymentStatusC i st c m h"]] p(1)
    by (simp add: keeps_def)
  ultimately have "decided i (snd (onPanel (onDeploy ?u) (meddle s)))"
    using v p(5) leaves_persists by (auto simp: decided_def tabled_def rows_hold_def spared_def simp del: split_paired_Ex)
  then show "decided i (snd (call (RunCtx i) (onDeploy ?u) s))"
    using p(4) by (simp add: call_def ctxErr_def wrap_def Let_def case_prod_beta split: sum.splits)
qed


interpretation decided_inv: run_invariant "decided i" "\<lambda>_. True"
proof unfold_locales
  show "decided i s \<Longrightarrow> decided i (meddle s)" for s unfolding decided_def using verdicts.meddle_tabled by blast
qed (intro keeps_decided verdicts.emits verdicts.tells verdicts.reads verdicts.team_reads verdicts.deploy_reads verdicts.deploy_writes
    verdicts.app_status verdicts.effects_free verdicts.finished TrueI)+

interpretation alone_inv: run_invariant "alone i" "\<lambda>_. True"
proof unfold_locales
  show "alone i s \<Longrightarrow> alone i (meddle s)" for s by (rule alone_meddle)
qed (intro keeps_alone lone.emits lone.tells lone.reads lone.team_reads lone.deploy_reads lone.deploy_writes
    lone.app_status lone.effects_free lone.finished TrueI)+

lemmas decides = settles_after decided_inv.keeps_calls decided_inv.keeps_publishing decided_inv.keeps_appendLogLines decided_inv.keeps_notify
  decided_inv.keeps_appendLog

lemma settles_fail: "dID d = i \<Longrightarrow> settles i (fail w d e)"
  unfolding fail_def Let_def andThen_def
  by (hypsubst, intro settles_if settles_after settles_verdict)
    (auto simp: Terminal_def simp flip: andThen_def simp: GetApp_def TeamIDForApp_def intro!: keeps_intros decided_inv.keeps_calls decided_inv.keeps_publishing
      decided_inv.keeps_appendLogLines decided_inv.keeps_appendLog decided_inv.keeps_notify simp del: appendLogLines.simps)

lemma settles_succeed: "settles i (succeed i a team)"
  unfolding succeed_def andThen_def
  by (intro settles_before [OF alone_inv.keeps_appendLog] settles_after settles_verdict)
    (auto simp: Terminal_def simp flip: andThen_def intro!: keeps_intros decided_inv.keeps_calls decided_inv.keeps_publishing decided_inv.keeps_notify)

lemma settles_rollOut: "dID d = i \<Longrightarrow> settles i (rollOut w d a e)"
  unfolding rollOut_def Let_def andThen_def TeamIDForApp_def
  by (hypsubst, intro settles_before settles_if settles_sum settles_fail settles_succeed alone_inv.keeps_calls alone_inv.keeps_moving
    alone_inv.effects_free alone_inv.keeps_applyTo DeploymentStatus.simps refl)

lemma settles_runBody: "settles (dID d) (runBody w d a e)"
  unfolding runBody_def Let_def andThen_def
  by (intro settles_before settles_if settles_sum settles_fail settles_rollOut alone_inv.keeps_calls alone_inv.keeps_moving alone_inv.effects_free
    alone_inv.keeps_appendLog DeploymentStatus.simps) simp_all

text \<open>A deployment that is there is found.\<close>

lemma alone_GetDeployment:
  assumes "alone i s"
  obtains d t where "call (RunCtx i) (onDeploy (GetDeployment i)) s = (Inr d, t)" "dID d = i" "alone i t"
proof -
  let ?p = "panel (meddle s)"
  have al: "alone i (meddle s)" using assms by (rule alone_meddle)
  then have p: "has_row i (deploy_view ?p)" "faults ?p = []" "map_of (doneCtx (meddle s)) i = None"
    by (simp_all add: alone_def tabled_def rows_hold_def)
  have "find (\<lambda>r. dID r = i) (deployments (deploy_view ?p)) \<noteq> None" using p(1) by (auto simp: has_row_def find_None_iff)
  then obtain r where r: "find (\<lambda>r. dID r = i) (deployments (deploy_view ?p)) = Some r" "dID r = i" by (auto simp: find_Some_iff)
  let ?m = "call (RunCtx i) (onDeploy (GetDeployment i))"
  have "fst (?m s) = Inr (scanDeployment r)"
    using p r by (auto simp: call_def ctxErr_def wrap_def Let_def onPanel_def onDeploy_def GetDeployment_def query_def stmt_def found_def tick_def
      deploy_view_def case_prod_beta split: list.splits sum.splits)
  moreover have "dID (scanDeployment r) = i" using r by (simp add: scanDeployment_def Deployment.defs)
  moreover have "alone i (snd (?m s))"
  proof -
    have "keeps (alone i) ?m" unfolding GetDeployment_def by (intro alone_inv.keeps_calls)
    then show ?thesis using assms by (simp add: keeps_def)
  qed
  ultimately show ?thesis using that by (metis prod.collapse)
qed

lemma settles_runDeployment: "settles i (runDeployment w i)"
  unfolding settles_def
proof (intro allI impI)
  fix s assume "alone i s"
  then obtain d t where d: "call (RunCtx i) (onDeploy (GetDeployment i)) s = (Inr d, t)" "dID d = i" "alone i t"
    by (rule alone_GetDeployment)
  have "settles (dID d) (handle (call (RunCtx i) (GetApp (dAppID d))) (\<lambda>r. case r of Inl err \<Rightarrow> fail w d err
       | Inr a \<Rightarrow> handle (call (RunCtx i) (onTeam (GetEnvironment (aEnvironmentID a)))) (\<lambda>r. case r of Inl err \<Rightarrow> fail w d err
         | Inr e \<Rightarrow> runBody w d a e)))" (is "settles _ ?k")
    unfolding GetApp_def GetEnvironment_def
    by (intro settles_before settles_sum settles_fail settles_runBody alone_inv.keeps_calls refl)
  then have "decided i (snd (?k t))" using d by (simp add: settles_def)
  then show "decided i (snd (runDeployment w i s))" by (simp add: runDeployment_def handle_def [of "call _ (onDeploy _)"] d(1))
qed

lemma settles_run: "settles i (run w i)"
  unfolding run_def andThen_def by (intro settles_after settles_runDeployment decided_inv.finished)

lemma panel_fields [simp]: "deps (panel s) = deps s" "faults (panel s) = faults s" "apps (panel s) = apps s"
  by (simp_all add: panel_db.defs)

lemma decided_rows:
  assumes "decided i s"
  shows "i \<in> dID ` set (deps s) \<and> (\<forall>r \<in> set (deps s). dID r = i \<longrightarrow> Terminal (Status r))"
  using assms by (fastforce simp: decided_def tabled_def rows_hold_def verdict_def final_def deploy_view_def simp del: split_paired_Ex)

text \<open>C1: A deployment that is left alone comes to an end: whatever the build, the plugins, the release
  command and the cluster answer, and whatever other deployments, cancels of others and writes of the
  store happen in between, when nobody cancels or replaces this one, its deadline is not reached and the
  store does not fail, the run ends with its row holding a final status, and the deployer has forgotten it.\<close>
theorem run_reaches_verdict:
  assumes "apps_ok (panel s)" "faults s = []" "i \<in> dID ` set (deps s)" "map_of (doneCtx s) i = None"
    and "\<forall>es \<in> set (meddling s). \<forall>e \<in> set es. leaves i e"
  shows "i \<in> dID ` set (deps (snd (run w i s))) \<and> (\<forall>r \<in> set (deps (snd (run w i s))). dID r = i \<longrightarrow> Terminal (Status r))
    \<and> i \<notin> set (running (snd (run w i s)))"
proof -
  have "alone i s" using assms by (simp add: alone_def tabled_def rows_hold_def has_row_def spared_def deploy_view_def)
  then have "decided i (snd (run w i s))" using settles_run by (simp add: settles_def)
  moreover have "i \<notin> set (running (snd (run w i s)))" by (simp add: run_def andThen_def handle_def finish_def case_prod_beta)
  ultimately show ?thesis using decided_rows by blast
qed

text \<open>C5: No run changes a verdict: once the row of a deployment holds a final status, its status, error and
  end stay as they are through any run of this or another deployment, whatever happens around it, until the
  app itself is deleted. A deployment that was cancelled or replaced while it ran is not marked failed or
  succeeded by its own goroutine.\<close>
theorem run_keeps_verdict:
  assumes "apps_ok (panel s)" "r \<in> set (deps s)" "Terminal (Status r)"
    and "\<forall>es \<in> set (meddling s). \<forall>e \<in> set es. persists e"
  shows "\<exists>r' \<in> set (deps (snd (run w j s))). dID r' = dID r \<and> Status r' = Status r \<and> ErrorCode r' = ErrorCode r
    \<and> ErrorMessage r' = ErrorMessage r \<and> finished_at r' = finished_at r"
proof -
  let ?v = "(Status r, ErrorCode r, ErrorMessage r, ErrorHint r, finished_at r)"
  let ?T = "tabled (rows_hold (verdict (dID r) ?v)) (\<lambda>_. True) persists"
  have one: "x = r" if "x \<in> set (deps s)" "dID x = dID r" for x
    using that assms(1,2) by (auto simp: apps_ok_def deploy_ok_def deploy_view_def distinct_map inj_on_def)
  have "verdict (dID r) ?v (deploy_view (panel s))"
    using assms(2,3) one by (auto simp: verdict_def final_def deploy_view_def)
  then have "?T s" using assms(1,4) by (simp add: tabled_def rows_hold_def spared_def)
  then have "?T (snd (run w j s))" using verdicts.keeps_run unfolding keeps_def by blast
  then have "final (dID r) ?v (deploy_view (panel (snd (run w j s))))" by (simp add: tabled_def rows_hold_def verdict_def)
  then show ?thesis by (fastforce simp: final_def deploy_view_def)
qed

section \<open>A world to run in\<close>

definition queuedRow :: deployment_row where
  "queuedRow = \<lparr>dID = ''d1'', dAppID = ''app1'', Number = 1, Status = DeployQueued, Trigger = ''push'', RollbackOf = 0, CommitSHA = [],
     CommitMessage = [], CommitAuthor = [], Image = [], BuildFingerprint = ''f1'', RuntimeSpec = ''{}'', ErrorCode = [], ErrorMessage = [],
     ErrorHint = [], CreatedBy = [], dCreatedAt = 5, StartedAt = 0, FinishedAt = 0, CanRollback = False, started_at = None, finished_at = None\<rparr>"

definition sampleRun :: run_db where
  "sampleRun = panel_db.extend (samplePanel\<lparr>deps := [queuedRow]\<rparr>)
     (run_db.fields [''d1''] [] [[OCancel ''d2'', OStore (SetAppStatusC ''app1'' ''x'')], [], [OStop ''d2'']] [] [] [])"

definition sampleWorld :: world where
  "sampleWorld = \<lparr>wCipher = toy_cipher, wKeyring = old_ring, wClustered = True, wUploads = True, sha256hex = (\<lambda>x. x),
     marshalSpec = (\<lambda>_. ''{}''), unmarshalSpec = (\<lambda>_. None), errorTextOf = (\<lambda>_. ''error''), uploadLatest = (\<lambda>_. None),
     uploadHas = (\<lambda>_ _. False), pluginTargets = (\<lambda>_ _. Some [\<lparr>tgName = ''guard'', tgBlocking = True\<rparr>]),
     pluginAnswer = (\<lambda>_. Some \<lparr>Allow = True, Reason = []\<rparr>), buildOut = (\<lambda>_ _ _. Inr ''r/shop:1''), releaseOut = (\<lambda>_ _ _. Inr ()),
     autoDomainOut = (\<lambda>_ _ _. Inr ()), specFor = (\<lambda>a e img. Inr \<lparr>spDeploymentID = [], spImage = img, spRevision = [], spDesired = 1\<rparr>),
     specInvalid = (\<lambda>_. None), namespaceOut = (\<lambda>_. Inr ()), applyOut = (\<lambda>_ _. Inr ()), applySecretOut = (\<lambda>_ _. Inr ()),
     applyJobsOut = (\<lambda>_ _. Inr ()), rolloutOut = (\<lambda>_ _. Inr ()), statusOut = (\<lambda>_ _. Inr \<lparr>stReady = 1, stDesired = 1, stDetail = []\<rparr>),
     wBuildNamespace = ''builds'', inClusterRegistry = ''registry:5000''\<rparr>"

lemma sampleRun_fields:
  "apps_ok (panel sampleRun)" "faults sampleRun = []" "deps sampleRun = [queuedRow]" "doneCtx sampleRun = []" "effects sampleRun = []"
  "meddling sampleRun = [[OCancel ''d2'', OStore (SetAppStatusC ''app1'' ''x'')], [], [OStop ''d2'']]"
  by (simp_all add: sampleRun_def samplePanel_def sampleApp_def queuedRow_def panel_db.defs run_db.defs apps_ok_def deploy_ok_def deploy_view_def keyed_def)

lemma run_reaches_verdict_witness:
  "\<exists>r \<in> set (deps (snd (run sampleWorld ''d1'' sampleRun))). dID r = ''d1'' \<and> Terminal (Status r)"
proof -
  have "''d1'' \<in> dID ` set (deps sampleRun)" by (simp add: sampleRun_fields queuedRow_def)
  from run_reaches_verdict [OF sampleRun_fields(1,2) this, of sampleWorld]
  have "''d1'' \<in> dID ` set (deps (snd (run sampleWorld ''d1'' sampleRun)))"
    "\<forall>r \<in> set (deps (snd (run sampleWorld ''d1'' sampleRun))). dID r = ''d1'' \<longrightarrow> Terminal (Status r)"
    by (simp_all add: sampleRun_fields leaves_def)
  then show ?thesis by auto
qed

lemma run_keeps_verdict_witness:
  "\<exists>r \<in> set (deps (snd (run sampleWorld ''d1'' (sampleRun\<lparr>deps := [queuedRow\<lparr>Status := DeployCancelled\<rparr>]\<rparr>)))). Status r = DeployCancelled"
proof -
  let ?r = "queuedRow\<lparr>Status := DeployCancelled\<rparr>"
  let ?s = "sampleRun\<lparr>deps := [?r]\<rparr>"
  have "apps_ok (panel ?s)"
    by (simp add: sampleRun_def samplePanel_def sampleApp_def queuedRow_def panel_db.defs run_db.defs apps_ok_def deploy_ok_def deploy_view_def keyed_def)
  from run_keeps_verdict [OF this, of ?r sampleWorld "''d1''"] show ?thesis
    by (auto simp: sampleRun_fields persists_def Terminal_def)
qed


section \<open>The order of a rollout\<close>

text \<open>Where an operation leads: from states of one assertion, to a result and a state of another.\<close>

definition leads :: "(run_db \<Rightarrow> bool) \<Rightarrow> 'a run_op \<Rightarrow> (run_err + 'a \<Rightarrow> run_db \<Rightarrow> bool) \<Rightarrow> bool" where
  "leads P m Q \<longleftrightarrow> (\<forall>s. P s \<longrightarrow> Q (fst (m s)) (snd (m s)))"

lemma leads_handle: "leads P m R \<Longrightarrow> (\<And>r. leads (R r) (k r) Q) \<Longrightarrow> leads P (handle m k) Q"
  by (simp add: leads_def handle_def case_prod_beta)

lemma leads_bind:
  "leads P m R \<Longrightarrow> (\<And>e s. R (Inl e) s \<Longrightarrow> Q (Inl e) s) \<Longrightarrow> (\<And>x. leads (R (Inr x)) (k x) Q) \<Longrightarrow> leads P (bind m k) Q"
  unfolding handle_bind by (rule leads_handle) (auto simp: leads_def throw_def split: sum.split)

lemma leads_keeps: "keeps P m \<Longrightarrow> (\<And>r s. P s \<Longrightarrow> Q r s) \<Longrightarrow> leads P m Q"
  by (simp add: leads_def keeps_def)

lemma leads_weaken: "leads P m R \<Longrightarrow> (\<And>s. P' s \<Longrightarrow> P s) \<Longrightarrow> (\<And>r s. R r s \<Longrightarrow> Q r s) \<Longrightarrow> leads P' m Q"
  by (simp add: leads_def)

lemma leads_through:
  fixes m :: "'a run_op"
  assumes "keeps P m" "\<And>r. leads P (k r) Q"
  shows "leads P (handle m k) Q"
  using leads_handle [OF leads_keeps [OF assms(1), of "\<lambda>_. P"] assms(2)] by simp

text \<open>The rows of a deployment that has not succeeded, and the writes around that do not declare it.\<close>

definition unwon :: "string \<Rightarrow> deploy_db \<Rightarrow> bool" where
  "unwon i d \<longleftrightarrow> i \<in> dID ` set (deployments d) \<and> (\<forall>r \<in> set (deployments d). dID r = i \<longrightarrow> Status r \<noteq> DeploySucceeded)"

interpretation unwon_inv: env_free "unwon i"
  by unfold_locales (simp_all add: unwon_def)

lemma unwon_update:
  assumes "\<And>r. dID (f r) = dID r" "\<And>r. Status r \<noteq> DeploySucceeded \<Longrightarrow> Status (f r) \<noteq> DeploySucceeded"
  shows "keeps (unwon i) (update_deployments p f)"
  unfolding keeps_def
proof (intro allI impI)
  fix d assume u: "unwon i d"
  have "Status x \<noteq> DeploySucceeded" if "x \<in> set (update_rows p f (deployments d))" "dID x = i" for x
    using that(1) by (cases rule: update_rowsE) (use u that(2) assms in \<open>auto simp: unwon_def\<close>)
  with u assms(1) show "unwon i (snd (update_deployments p f d))"
    by (simp add: unwon_def update_deployments_def set_update_image)
qed

lemma unwon_rows:
  "keeps (unwon i) (insertDeployment r)" "keeps (unwon i) (insertLog l)"
  "keeps (unwon i) (\<lambda>s. (Inr (), s\<lparr>build_logs := h s\<rparr>))"
  "(\<And>s. keeps (unwon i) (update_deployments q (g s))) \<Longrightarrow> keeps (unwon i) (\<lambda>s. if c s then (Inl ErrDB, s) else update_deployments q (g s) s)"
  by (auto simp: keeps_def unwon_def insertDeployment_def insertLog_def)

lemma unwon_lines: "keeps (unwon i) (appendLines dep n ls)"
  by (induction ls arbitrary: n) (auto intro!: keeps_intros unwon_inv.keeps_env unwon_rows)

lemma unwon_call: "modest c \<Longrightarrow> keeps (unwon i) (deploy_call_op c)"
  by (cases c) (auto simp: deploy_write_defs modest_def intro!: keeps_intros unwon_inv.keeps_env unwon_rows unwon_lines unwon_update)

interpretation unwon_kept: rows_kept "unwon i" modest
  by unfold_locales (simp_all add: unwon_call, simp add: unwon_def)

definition calm :: "outside \<Rightarrow> bool" where
  "calm e \<longleftrightarrow> (case e of OStore c \<Rightarrow> \<not> deletes c \<and> (case c of DeployC d \<Rightarrow> modest d | _ \<Rightarrow> True) | _ \<Rightarrow> True)"

interpretation unwon_table: table_invariant "rows_hold (unwon i)" "\<lambda>_. True" calm modest
  by (rule unwon_kept.table_invariant_Q) (simp_all add: calm_def)

text \<open>Nothing but the run itself adds to the record of effects.\<close>

lemma effects_outside: "effects (outsideStep e s) = effects s"
  by (simp add: outsideStep_def markCancelled_def setDone_def split: outside.splits)

lemma effects_meddle: "effects (meddle s) = effects s"
proof -
  have "effects (fold outsideStep es t) = effects t" for es t
    by (induction es arbitrary: t) (simp_all add: effects_outside)
  then show ?thesis by (simp add: meddle_def split: list.splits)
qed

interpretation traced: run_stable "\<lambda>s. effects s = T" "\<lambda>_. True"
  by unfold_locales (simp_all add: keeps_def effects_meddle emit_def notice_def)

definition at :: "string \<Rightarrow> effect list \<Rightarrow> run_db \<Rightarrow> bool" where
  "at i T s \<longleftrightarrow> tabled (rows_hold (unwon i)) (\<lambda>_. True) calm s \<and> effects s = T"

lemma keeps_at: "keeps (tabled (rows_hold (unwon i)) (\<lambda>_. True) calm) m \<Longrightarrow> keeps (\<lambda>s. effects s = T) m \<Longrightarrow> keeps (at i T) m"
  by (simp add: keeps_def at_def)

interpretation at_inv: run_stable "at i T" modest
proof unfold_locales
  show "at i T s \<Longrightarrow> at i T (meddle s)" for s by (simp add: at_def effects_meddle unwon_table.meddle_tabled)
  show "modest dc \<Longrightarrow> keeps (at i T) (\<lambda>s. onPanel (onDeploy (deploy_call_op dc)) s)" for dc
    by (intro keeps_at unwon_table.deploy_writes traced.deploy_writes TrueI)
qed (intro keeps_at unwon_table.emits unwon_table.tells unwon_table.reads unwon_table.team_reads unwon_table.deploy_reads
    unwon_table.app_status traced.emits traced.tells traced.reads traced.team_reads traced.deploy_reads traced.app_status | simp)+

lemma leads_effect: "leads (at i T) (effect e) (\<lambda>r s. r = Inr () \<and> at i (T @ [e]) s)"
  by (simp add: leads_def effect_def at_def tabled_def spared_def)


definition course :: "string \<Rightarrow> string \<Rightarrow> effect list" where
  "course i img = [Asked True, Released i, Applied i img, RolledOut i]"

text \<open>The record of a run: the build if there was one, then as much of the course as was reached, or the refusal
  of a plugin; and only a run that went all the way may have declared success.\<close>

definition lawful :: "string \<Rightarrow> effect list \<Rightarrow> run_db \<Rightarrow> bool" where
  "lawful i E s \<longleftrightarrow> (\<exists>bs img. (bs = [] \<or> bs = [Built img]) \<and>
     (at i (E @ bs @ [Asked False]) s \<or> (\<exists>n. at i (E @ bs @ take n (course i img)) s) \<or> effects s = E @ bs @ course i img))"

lemma lawful_start: "at i E s \<Longrightarrow> lawful i E s"
  unfolding lawful_def by (intro exI [of _ "[]"]) (auto intro!: exI [of _ 0])

lemma lawful_along: "at i (E @ bs @ tr) s \<Longrightarrow> bs = [] \<or> bs = [Built img] \<Longrightarrow> tr = take n (course i img) \<Longrightarrow> lawful i E s"
  unfolding lawful_def by blast

lemma lawful_refused: "at i (E @ bs @ [Asked False]) s \<Longrightarrow> bs = [] \<or> bs = [Built img] \<Longrightarrow> lawful i E s"
  unfolding lawful_def by blast

lemma leads_fail: "(\<And>s. at i T s \<Longrightarrow> lawful i E s) \<Longrightarrow> leads (at i T) (fail w d e) (\<lambda>_. lawful i E)"
  by (rule leads_keeps [OF at_inv.keeps_fail])

lemma leads_applyTo:
  "leads (at i T) (applyTo w c d a e) (\<lambda>r s. case r of
      Inl _ \<Rightarrow> at i T s \<or> at i (T @ [Applied (dID d) (Image d)]) s
    | Inr _ \<Rightarrow> at i (T @ [Applied (dID d) (Image d), RolledOut (dID d)]) s)"
    (is "leads _ _ ?Q")
proof -
  let ?T = "T @ [Applied (dID d) (Image d)]"
  have rolled: "leads (at i ?T) (effect (RolledOut (dID d))) ?Q"
    by (rule leads_weaken [OF leads_effect]) auto
  have awaited: "leads (at i ?T) (bind (awaitRollout w c d a e spec) (\<lambda>_. effect (RolledOut (dID d)))) ?Q" for spec
    by (rule leads_bind [OF leads_keeps [OF at_inv.keeps_await], of _ _ "\<lambda>_. at i ?T"]) (use rolled in auto)
  have applied: "leads (at i T) (bind (effect (Applied (dID d) (Image d))) (\<lambda>_. bind (awaitRollout w c d a e spec) (\<lambda>_. effect (RolledOut (dID d))))) ?Q" for spec
    by (rule leads_bind [OF leads_effect]) (use awaited in \<open>auto simp: leads_def\<close>)
  show ?thesis unfolding applyTo_def
    by (rule leads_bind [OF leads_keeps [OF at_inv.keeps_prepare], of _ _ "\<lambda>_. at i T"]) (use applied in auto)
qed

lemma leads_rollOut:
  assumes "dID d = i" "bs = [] \<or> bs = [Built (Image d)]"
  shows "leads (at i (E @ bs)) (rollOut w d a e) (\<lambda>_. lawful i E)"
proof -
  let ?at = "\<lambda>tr. at i (E @ bs @ tr)"
  have along: "?at (take n (course i (Image d))) s \<Longrightarrow> lawful i E s" for n s
    using lawful_along assms(2) by blast
  have l1: "?at [Asked True] s \<Longrightarrow> lawful i E s" for s using along [of 1 s] by (simp add: course_def)
  have l2: "?at [Asked True, Released i] s \<Longrightarrow> lawful i E s" for s using along [of 2 s] by (simp add: course_def)
  have l3: "?at [Asked True, Released i, Applied i (Image d)] s \<Longrightarrow> lawful i E s" for s using along [of 3 s] by (simp add: course_def)
  have l4: "effects s = E @ bs @ course i (Image d) \<Longrightarrow> lawful i E s" for s
    unfolding lawful_def using assms(2) by blast
  have done': "leads (?at (course i (Image d))) (succeed i a team) (\<lambda>_. lawful i E)" for team
    using traced.keeps_succeed [of "E @ bs @ course i (Image d)" i a team] l4 by (auto simp: leads_def keeps_def at_def)
  have applied: "leads (?at [Asked True, Released i]) (handle (applyTo w (RunCtx i) d a e) (\<lambda>r. case r of Inl err \<Rightarrow> fail w d err
            | Inr _ \<Rightarrow> succeed i a team)) (\<lambda>_. lawful i E)" for team
  proof (rule leads_handle [OF leads_applyTo], goal_cases)
    case (1 r)
    have "leads (?at [Asked True, Released i]) (fail w d err) (\<lambda>_. lawful i E)"
      "leads (?at [Asked True, Released i, Applied i (Image d)]) (fail w d err) (\<lambda>_. lawful i E)" for err
      using l2 l3 by (auto intro: leads_fail)
    with done' [of team] show ?case using assms(1) by (cases r) (auto simp: leads_def course_def)
  qed
  have released: "leads (?at [Asked True]) (handle (extern (RunCtx i) (releaseOut w d a e)) (\<lambda>r. case r of Inl err \<Rightarrow> fail w d err
        | Inr _ \<Rightarrow> andThen (effect (Released i)) (handle (applyTo w (RunCtx i) d a e) (\<lambda>r. case r of Inl err \<Rightarrow> fail w d err
            | Inr _ \<Rightarrow> succeed i a team)))) (\<lambda>_. lawful i E)" for team
  proof (rule leads_through [OF at_inv.keeps_extern], goal_cases)
    case (1 r)
    have "leads (?at [Asked True]) (fail w d err) (\<lambda>_. lawful i E)" for err using l1 by (auto intro: leads_fail)
    moreover have "leads (?at [Asked True]) (andThen (effect (Released i)) (handle (applyTo w (RunCtx i) d a e) (\<lambda>r. case r of
        Inl err \<Rightarrow> fail w d err | Inr _ \<Rightarrow> succeed i a team))) (\<lambda>_. lawful i E)"
      unfolding andThen_def by (rule leads_handle [OF leads_effect]) (use applied [of team] in \<open>auto simp: leads_def\<close>)
    ultimately show ?case by (cases r) simp_all
  qed
  have refused: "leads (?at [Asked False]) (fail w d err) (\<lambda>_. lawful i E)" for err
    using lawful_refused assms(2) by (intro leads_fail) blast
  show ?thesis unfolding rollOut_def Let_def assms(1) andThen_def
    apply (rule leads_through [OF at_inv.keeps_moving], simp)
    apply (rule leads_through [OF at_inv.keeps_call], simp add: TeamIDForApp_def at_inv.keeps_team_query)
    apply (rule leads_through [OF at_inv.keeps_extern])
    apply (rule leads_handle [OF leads_effect])
    apply (use released refused in \<open>auto simp: leads_def andThen_def\<close>)
    done
qed


lemma leads_runBody:
  assumes "dID d = i" shows "leads (at i E) (runBody w d a e) (\<lambda>_. lawful i E)"
proof (cases "Image d = []")
  case False
  with assms show ?thesis unfolding runBody_def Let_def andThen_def
    using leads_through [OF at_inv.keeps_appendLog leads_rollOut [of d i "[]"]] by simp
next
  case True
  have built: "leads (at i (E @ [Built img])) (andThen (call (RunCtx i) (onDeploy (SetDeploymentImage i img))) (rollOut w (d\<lparr>Image := img\<rparr>) a e)) (\<lambda>_. lawful i E)" for img
    unfolding andThen_def
    by (rule leads_through [OF at_inv.keeps_call [OF at_inv.keeps_deploy_image] leads_rollOut]) (simp_all add: assms)
  have "leads (at i E) (case r of Inl err \<Rightarrow> fail w d err
      | Inr img \<Rightarrow> andThen (effect (Built img)) (andThen (call (RunCtx i) (onDeploy (SetDeploymentImage i img))) (rollOut w (d\<lparr>Image := img\<rparr>) a e)))
      (\<lambda>_. lawful i E)" for r
  proof (cases r)
    case (Inr img)
    have "leads (at i E) (andThen (effect (Built img)) (andThen (call (RunCtx i) (onDeploy (SetDeploymentImage i img))) (rollOut w (d\<lparr>Image := img\<rparr>) a e)))
      (\<lambda>_. lawful i E)"
      unfolding andThen_def [of "effect _"]
      by (rule leads_handle [OF leads_effect]) (use built [of img] in \<open>auto simp: leads_def\<close>)
    then show ?thesis by (simp add: Inr)
  qed (simp add: leads_fail lawful_start)
  then show ?thesis unfolding runBody_def Let_def if_P [OF True] assms andThen_def [of "setStatus _ _"]
    by (intro leads_through [OF at_inv.keeps_moving] leads_through [OF at_inv.keeps_extern]) simp_all
qed

lemma GetDeployment_id: "fst (call c (onDeploy (GetDeployment i)) s) = Inr d \<Longrightarrow> dID d = i"
  by (auto simp: call_def wrap_def onPanel_def onDeploy_def GetDeployment_def query_def stmt_def found_def Let_def scanDeployment_def
      Deployment.defs find_Some_iff split: option.splits prod.splits sum.splits list.splits bool.splits if_splits)

lemma leads_runDeployment: "leads (at i E) (runDeployment w i) (\<lambda>_. lawful i E)"
  unfolding runDeployment_def
proof (rule leads_handle [where R = "\<lambda>r s. at i E s \<and> (\<forall>d. r = Inr d \<longrightarrow> dID d = i)"], goal_cases)
  case 1
  have "keeps (at i E) (call (RunCtx i) (onDeploy (GetDeployment i)))"
    unfolding GetDeployment_def by (intro at_inv.keeps_calls)
  then show ?case by (auto simp: leads_def keeps_def dest: GetDeployment_id)
next
  case (2 r)
  have "leads (at i E) (handle (call (RunCtx i) (GetApp (dAppID d))) (\<lambda>r. case r of Inl err \<Rightarrow> fail w d err
       | Inr a \<Rightarrow> handle (call (RunCtx i) (onTeam (GetEnvironment (aEnvironmentID a)))) (\<lambda>r. case r of Inl err \<Rightarrow> fail w d err
         | Inr e \<Rightarrow> runBody w d a e))) (\<lambda>_. lawful i E)" if "dID d = i" for d
    unfolding GetApp_def GetEnvironment_def
    by (rule leads_through [OF at_inv.keeps_call [OF at_inv.keeps_query]], rename_tac r, case_tac r;
      simp add: leads_fail lawful_start; rule leads_through [OF at_inv.keeps_call [OF at_inv.keeps_team_query]], rename_tac r', case_tac r';
      simp add: leads_fail lawful_start leads_runBody that)
  moreover have "at i E s \<Longrightarrow> lawful i E s" for s by (rule lawful_start)
  ultimately show ?case by (cases r) (auto simp: leads_def ret_def)
qed

lemma lawful_finish: "lawful i E (snd (finish j s)) = lawful i E s"
  by (simp add: lawful_def at_def tabled_def spared_def finish_def)

text \<open>C2: A rollout happens in order: first the build, when there is no image to reuse; then the plugins are
  asked; only after they allow it the release command runs; only after it ended well the new version is
  applied, with the image that was built or reused; and only after the cluster reports the rollout done is
  the deployment marked succeeded. A refusal ends the run with nothing applied.\<close>
theorem success_after_rollout:
  assumes "apps_ok (panel s)" "r \<in> set (deps s)" "Status r \<noteq> DeploySucceeded" "\<forall>es \<in> set (meddling s). \<forall>e \<in> set es. calm e"
  shows "\<exists>bs img tr. effects (snd (run w (dID r) s)) = effects s @ bs @ tr \<and> (bs = [] \<or> bs = [Built img])
    \<and> (tr = [Asked False] \<or> (\<exists>n. tr = take n (course (dID r) img)))
    \<and> ((\<exists>r' \<in> set (deps (snd (run w (dID r) s))). dID r' = dID r \<and> Status r' = DeploySucceeded) \<longrightarrow> tr = course (dID r) img)"
proof -
  let ?i = "dID r" and ?s' = "snd (run w (dID r) s)"
  have one: "x = r" if "x \<in> set (deps s)" "dID x = dID r" for x
    using that assms(1,2) by (auto simp: apps_ok_def deploy_ok_def deploy_view_def distinct_map inj_on_def)
  then have "at ?i (effects s) s" using assms
    by (auto simp: at_def tabled_def rows_hold_def spared_def unwon_def deploy_view_def)
  then have "lawful ?i (effects s) ?s'" using leads_runDeployment [of ?i "effects s" w] lawful_finish
    by (simp add: leads_def run_def andThen_def handle_def case_prod_beta)
  then obtain bs img where bs: "bs = [] \<or> bs = [Built img]" and tr: "at ?i (effects s @ bs @ [Asked False]) ?s'
      \<or> (\<exists>n. at ?i (effects s @ bs @ take n (course ?i img)) ?s') \<or> effects ?s' = effects s @ bs @ course ?i img"
    unfolding lawful_def by blast
  have lost: "\<not> (\<exists>r' \<in> set (deps ?s'). dID r' = ?i \<and> Status r' = DeploySucceeded)" if "at ?i T ?s'" for T
    using that by (auto simp: at_def tabled_def rows_hold_def unwon_def deploy_view_def)
  have same: "effects ?s' = T" if "at ?i T ?s'" for T using that by (simp add: at_def)
  from tr show ?thesis
  proof (elim disjE exE)
    assume a: "at ?i (effects s @ bs @ [Asked False]) ?s'"
    show ?thesis
      by (rule exI [of _ bs], rule exI [of _ img], rule exI [of _ "[Asked False]"], intro conjI same [OF a] bs disjI1 refl)
        (rule impI, erule notE [OF lost [OF a]])
  next
    fix n assume a: "at ?i (effects s @ bs @ take n (course ?i img)) ?s'"
    show ?thesis
      by (rule exI [of _ bs], rule exI [of _ img], rule exI [of _ "take n (course ?i img)"], intro conjI same [OF a] bs disjI2 exI [of _ n] refl)
        (rule impI, erule notE [OF lost [OF a]])
  next
    assume "effects ?s' = effects s @ bs @ course ?i img"
    then show ?thesis
      by (intro exI [of _ bs] exI [of _ img] exI [of _ "course ?i img"] conjI bs disjI2 exI [of _ 4] impI refl) (simp_all add: course_def)
  qed
qed

lemma success_after_rollout_witness:
  "\<exists>bs img tr. effects (snd (run sampleWorld ''d1'' sampleRun)) = bs @ tr \<and> (bs = [] \<or> bs = [Built img])
    \<and> (tr = [Asked False] \<or> (\<exists>n. tr = take n (course ''d1'' img)))"
proof -
  have "queuedRow \<in> set (deps sampleRun)" "Status queuedRow \<noteq> DeploySucceeded" "dID queuedRow = ''d1''"
    by (simp add: sampleRun_fields) (simp_all add: queuedRow_def)
  moreover have "\<forall>es \<in> set (meddling sampleRun). \<forall>e \<in> set es. calm e" by (simp add: sampleRun_fields calm_def)
  ultimately show ?thesis using success_after_rollout [OF sampleRun_fields(1), of queuedRow sampleWorld] by (simp add: sampleRun_fields) blast
qed


section \<open>A new deployment replaces the others\<close>

text \<open>No other goroutine acts and the store does not fail; the tables of deployments and the deployer's own state are as given.\<close>

definition still :: "deployment_row list \<Rightarrow> string list \<Rightarrow> (string \<times> ctx_err) list \<Rightarrow> run_db \<Rightarrow> bool" where
  "still X R C s \<longleftrightarrow> meddling s = [] \<and> faults s = [] \<and> apps_ok (panel s) \<and> deps s = X \<and> running s = R \<and> doneCtx s = C"

lemma call_still: "meddling s = [] \<Longrightarrow> call ReqCtx m s = wrap StoreE (onPanel m) s"
  by (simp add: call_def meddle_def ctxErr_def)

lemma snd_wrap: "snd (wrap f m s) = snd (m s)"
  by (simp add: wrap_def split: prod.split sum.split)

lemma panel_fields_onPanel [simp]:
  "deps (snd (onPanel m s)) = deps (snd (m (panel s)))" "faults (snd (onPanel m s)) = faults (snd (m (panel s)))"
  by (simp_all flip: panel_fields)

lemma keeps_still:
  assumes "keeps apps_ok m" "keeps faultless m" "\<And>p. apps_ok p \<Longrightarrow> deps (snd (m p)) = deps p"
  shows "keeps (still X R C) (call ReqCtx m)"
proof -
  have "still X R C (snd (call ReqCtx m s))" if "still X R C s" for s
    using that assms by (auto simp: still_def call_still snd_wrap keeps_def)
  then show ?thesis by (simp add: keeps_def)
qed

lemma still_query: "keeps (still X R C) (call ReqCtx (query f))"
  by (intro keeps_still apps_inv.keeps_query faultless_query) (simp add: snd_query stmt_def ret_def Let_def tick_def split: list.splits bool.splits)

lemma still_team_query: "keeps (still X R C) (call ReqCtx (onTeam (query f)))"
proof -
  have "keeps apps_ok (onTeam (query f))" by (intro keeps_onTeam refs_inv.keeps_query)
  moreover have "keeps faultless (onTeam (query f))" by (intro faultless_onTeam faultless_query)
  ultimately show ?thesis by (rule keeps_still) (simp add: snd_onTeam_query onTeam_read_deps)
qed

lemma still_deploy:
  assumes "keeps deploy_ok m" "\<And>A. keeps (\<lambda>s. app_ids s = A) m" "keeps faultless m" "\<And>d. deployments (snd (m d)) = deployments d"
  shows "keeps (still X R C) (call ReqCtx (onDeploy m))"
  by (intro keeps_still keeps_onDeploy faultless_onDeploy assms) (simp add: snd_onDeploy Let_def deploy_view_def assms(4))

lemma still_deploy_query: "keeps (still X R C) (call ReqCtx (onDeploy (query f)))"
  by (intro still_deploy deploy_inv.keeps_query ids_inv.keeps_query faultless_query)
    (simp add: snd_query stmt_def ret_def Let_def tick_def split: list.splits bool.splits)


lemma CreateDeployment_row:
  assumes "CreateDeployment d0 s = (Inr d, s1)" "dID d0 = []"
  obtains row where "deployments s1 = deployments s @ [row]" "dID row = dID d" "dAppID row = dAppID d0" "Status row = Status d"
    "dAppID d = dAppID d0" "Image d = Image d0" "BuildFingerprint d = BuildFingerprint d0"
proof -
  obtain i s2 where i: "idOr (dID d0) ''dep'' s = (Inr i, s2)"
      and r: "bind timeNow (\<lambda>now. bind (Tx (numberAndInsert (withDefaults d0 i) now)) (\<lambda>n.
        ret ((withDefaults d0 i)\<lparr>Number := n, dCreatedAt := now\<rparr>))) s2 = (Inr d, s1)"
    using bind_InrD [OF assms(1) [unfolded CreateDeployment_def]] by blast
  have "keeps (\<lambda>x. dtables x = dtables s) (idOr (dID d0) ''dep'')"
    unfolding idOr_def by (intro keeps_intros dtables_same.keeps_env)
  then have t2: "dtables s2 = dtables s" using keeps_dtables i by blast
  let ?now = "clock (tick s2)" and ?d = "withDefaults d0 i"
  obtain n where tx: "Tx (numberAndInsert ?d ?now) (tick s2) = (Inr n, s1)" and d: "d = ?d\<lparr>Number := n, dCreatedAt := ?now\<rparr>"
    using r by (auto simp: bind_def timeNow_def ret_def split: prod.splits sum.splits)
  have t3: "dtables (tick s2) = dtables s" using t2 dtables_same.tick [of s2 "dtables s"] by simp
  from tx obtain s4 s5 where x: "dtables s4 = dtables s" "numberAndInsert ?d ?now s4 = (Inr n, s5)" "dtables s1 = dtables s5"
    by (elim Tx_Inr) (metis stmt_ret_dtables t3)
  let ?row = "deployment_row_of (?d\<lparr>Number := n, Trigger := defaultStr (Trigger ?d) ''manual'', dCreatedAt := ?now\<rparr>)"
  from numberAndInsert_Inr [OF x(2)] x(1,3) have rows: "deployments s1 = deployments s @ [?row]" by (simp add: dtables_def)

  then show ?thesis using that [of ?row] rows d
    by (simp add: deployment_row_of_def Deployment.defs deployment_row.defs withDefaults_def)
qed

lemma leads_create:
  assumes "dID d0 = []"
  shows "leads (still X R C) (call ReqCtx (onDeploy (CreateDeployment d0))) (\<lambda>r s. \<forall>d. r = Inr d \<longrightarrow> (\<exists>row. still (X @ [row]) R C s \<and>
    dID row = dID d \<and> dAppID row = dAppID d0 \<and> dAppID d = dAppID d0 \<and> Image d = Image d0 \<and> BuildFingerprint d = BuildFingerprint d0))"
proof -
  have "\<exists>row. still (X @ [row]) R C t \<and> dID row = dID d \<and> dAppID row = dAppID d0 \<and> dAppID d = dAppID d0 \<and> Image d = Image d0
      \<and> BuildFingerprint d = BuildFingerprint d0"
    if s: "still X R C s" and run: "call ReqCtx (onDeploy (CreateDeployment d0)) s = (Inr d, t)" for s d t
  proof -
    let ?p = "panel s"
    have t: "t = snd (onPanel (onDeploy (CreateDeployment d0)) s)" and f: "fst (onPanel (onDeploy (CreateDeployment d0)) s) = Inr d"
      using s run by (auto simp: still_def call_still wrap_def split: prod.splits sum.splits)
    from f have c: "CreateDeployment d0 (deploy_view ?p) = (Inr d, snd (CreateDeployment d0 (deploy_view ?p)))"
      by (simp add: fst_onPanel onDeploy_def case_prod_beta prod_eq_iff)
    from CreateDeployment_row [OF c assms] obtain row where row: "deployments (snd (CreateDeployment d0 (deploy_view ?p))) = deployments (deploy_view ?p) @ [row]"
        "dID row = dID d" "dAppID row = dAppID d0" "dAppID d = dAppID d0" "Image d = Image d0" "BuildFingerprint d = BuildFingerprint d0" by blast
    have "apps_ok (snd (onDeploy (CreateDeployment d0) ?p))"
      using keeps_onDeploy [OF keeps_deploy_call [of "CreateDeploymentC d0"] keeps_ids_call [of _ "CreateDeploymentC d0"]] s
      by (simp add: keeps_def snd_onDeploy ignore_def still_def)
    moreover have "faultless (snd (onDeploy (CreateDeployment d0) ?p))"
      using faultless_onDeploy [OF faultless_deploy [of "CreateDeploymentC d0"]] s
      by (simp add: keeps_def snd_onDeploy_ignore still_def)
    moreover have "deps (snd (onDeploy (CreateDeployment d0) ?p)) = X @ [row]"
      using row(1) s by (simp add: snd_onDeploy Let_def still_def deploy_view_def)
    ultimately have "still (X @ [row]) R C t" using s by (simp add: still_def t)
    with row show ?thesis by blast
  qed
  then show ?thesis by (auto simp: leads_def prod_eq_iff)
qed


lemma leads_supersede:
  "leads (still X R C) (call ReqCtx (onDeploy (SupersedeRunningDeployments app i))) (\<lambda>r s.
     r = Inr (map dID (filter (others_running app i) X)) \<and>
     (\<exists>X'. still X' R C s \<and> (\<forall>row \<in> set X'. dAppID row = app \<and> in_flight (Status row) \<longrightarrow> dID row = i)))"
proof -
  have "fst (call ReqCtx (onDeploy (SupersedeRunningDeployments app i)) s) = Inr (map dID (filter (others_running app i) X)) \<and>
     (\<exists>X'. still X' R C (snd (call ReqCtx (onDeploy (SupersedeRunningDeployments app i)) s))
        \<and> (\<forall>row \<in> set X'. dAppID row = app \<and> in_flight (Status row) \<longrightarrow> dID row = i))" if s: "still X R C s" for s
  proof -
    let ?m = "SupersedeRunningDeployments app i" and ?p = "panel s"
    let ?X' = "deployments (snd (?m (deploy_view ?p)))"
    have v: "faults (deploy_view ?p) = []" "deployments (deploy_view ?p) = X" using s by (simp_all add: still_def deploy_view_def)
    then have f: "fst (?m (deploy_view ?p)) = Inr (map dID (filter (others_running app i) X))"
      by (simp add: SupersedeRunningDeployments_def bind_def ret_def query_def stmt_def timeNow_def update_deployments_def tick_def Let_def
          split: list.splits)
    have X': "?X' = X \<and> filter (others_running app i) X = [] \<or>
        (\<exists>now. ?X' = update_rows (others_running app i) (\<lambda>r. r\<lparr>Status := DeploySuperseded, finished_at := Some now\<rparr>) X)"
      using v by (auto simp: SupersedeRunningDeployments_def bind_def ret_def query_def stmt_def timeNow_def update_deployments_def tick_def Let_def
          split: list.splits)
    have done': "\<forall>row \<in> set ?X'. dAppID row = app \<and> in_flight (Status row) \<longrightarrow> dID row = i"
      using X'
    proof (elim disjE conjE exE)
      assume "?X' = X" "filter (others_running app i) X = []"
      then show ?thesis by (auto simp: filter_empty_conv others_running_def)
    next
      fix now assume "?X' = update_rows (others_running app i) (\<lambda>r. r\<lparr>Status := DeploySuperseded, finished_at := Some now\<rparr>) X"
      then show ?thesis by (auto elim!: update_rowsE simp: others_running_def in_flight_def)
    qed
    have "apps_ok (snd (onDeploy ?m ?p))"
      using keeps_onDeploy [OF keeps_deploy_call [of "SupersedeRunningDeploymentsC app i"] keeps_ids_call [of _ "SupersedeRunningDeploymentsC app i"]] s
      by (simp add: keeps_def snd_onDeploy ignore_def still_def)
    moreover have "faultless (snd (onDeploy ?m ?p))"
      using faultless_onDeploy [OF faultless_deploy [of "SupersedeRunningDeploymentsC app i"]] s
      by (simp add: keeps_def snd_onDeploy_ignore still_def)
    moreover have "deps (snd (onDeploy ?m ?p)) = ?X'" by (simp add: snd_onDeploy Let_def)
    ultimately have "still ?X' R C (snd (onPanel (onDeploy ?m) s))" using s by (simp add: still_def)
    moreover have "fst (onPanel (onDeploy ?m) s) = Inr (map dID (filter (others_running app i) X))"
      using f by (simp add: fst_onPanel onDeploy_def case_prod_beta)
    ultimately show ?thesis using s done'
      by (auto simp: still_def call_still snd_wrap wrap_def case_prod_beta)
  qed
  then show ?thesis by (simp add: leads_def)
qed

lemma stopAll_state:
  "deps (snd (stopAll ids s)) = deps s \<and> running (snd (stopAll ids s)) = running s
    \<and> (\<forall>j. map_of (doneCtx s) j \<noteq> None \<longrightarrow> map_of (doneCtx (snd (stopAll ids s))) j \<noteq> None)
    \<and> (\<forall>j \<in> set ids. j \<in> set (running s) \<longrightarrow> map_of (doneCtx (snd (stopAll ids s))) j \<noteq> None)"
proof (induction ids arbitrary: s)
  case (Cons i ids)
  have "stopAll (i # ids) s = stopAll ids (setDone i Canceled s)" by (simp add: andThen_def handle_def stop_def)
  with Cons.IH [of "setDone i Canceled s"] show ?case by (auto simp: setDone_def)
qed (simp add: ret_def)

lemma start_state:
  "deps (snd (start i s)) = deps s" "i \<in> set (running (snd (start i s)))"
  "j \<noteq> i \<Longrightarrow> map_of (doneCtx s) j \<noteq> None \<Longrightarrow> map_of (doneCtx (snd (start i s))) j \<noteq> None"
  by (auto simp: start_def dest!: map_of_SomeD intro!: weak_map_of_SomeI)

text \<open>The image of a new deployment: of an app built from source, that of an equal build, when there is one.\<close>

definition equalBuilds :: "deployment_row list \<Rightarrow> string \<Rightarrow> string \<Rightarrow> deployment_row set" where
  "equalBuilds X app fingerprint = {r \<in> set X. dAppID r = app \<and> BuildFingerprint r = fingerprint \<and> Status r = DeploySucceeded \<and> Image r \<noteq> []}"

definition rightImage :: "deployment_row list \<Rightarrow> DeployRequest \<Rightarrow> App \<Rightarrow> Deployment \<Rightarrow> bool" where
  "rightImage X rq a d \<longleftrightarrow> (if SourceType a = ''image'' then Image d = aImage a
     else if \<not> Force rq \<and> BuildFingerprint d \<noteq> [] \<and> equalBuilds X (aID a) (BuildFingerprint d) \<noteq> {}
     then Image d \<in> Image ` equalBuilds X (aID a) (BuildFingerprint d) else Image d = [])"

lemma set_newest: "set (newest p s) = {r \<in> set (deployments s). p r}"
  by (simp add: newest_def)

lemma leads_find:
  "leads (still X R C) (call ReqCtx (onDeploy (FindDeploymentByFingerprint app fp))) (\<lambda>r s. still X R C s \<and> (case r of
     Inl _ \<Rightarrow> fp = [] \<or> equalBuilds X app fp = {} | Inr d \<Rightarrow> fp \<noteq> [] \<and> Image d \<in> Image ` equalBuilds X app fp))"
proof -
  have fst_find: "case fst (FindDeploymentByFingerprint app fp d) of Inl _ \<Rightarrow> fp = [] \<or> equalBuilds X app fp = {}
      | Inr e \<Rightarrow> fp \<noteq> [] \<and> Image e \<in> Image ` equalBuilds X app fp" if "faults d = []" "deployments d = X" for d
  proof -
    let ?rows = "newest (\<lambda>r. dAppID r = app \<and> BuildFingerprint r = fp \<and> Status r = DeploySucceeded \<and> Image r \<noteq> []) (tick d)"
    have "set ?rows = equalBuilds X app fp"
      using that by (auto simp: set_newest equalBuilds_def tick_def split: list.splits)
    then show ?thesis using that
      by (cases ?rows) (auto simp: FindDeploymentByFingerprint_def throw_def query_def stmt_def firstOf_def found_def Let_def
        scanDeployment_def Deployment.defs image_iff)
  qed
  have keep: "keeps (still X R C) (call ReqCtx (onDeploy (FindDeploymentByFingerprint app fp)))"
  proof (cases "fp = []")
    case True
    have none: "snd (onDeploy (throw ErrNotFound) p) = p" for p by (cases p) (simp add: onDeploy_def throw_def deploy_view_def)
    show ?thesis using True by (simp add: keeps_def FindDeploymentByFingerprint_def call_still snd_wrap still_def none)
  qed (simp add: FindDeploymentByFingerprint_def still_deploy_query)
  have "case fst (call ReqCtx (onDeploy (FindDeploymentByFingerprint app fp)) s) of Inl _ \<Rightarrow> fp = [] \<or> equalBuilds X app fp = {}
      | Inr e \<Rightarrow> fp \<noteq> [] \<and> Image e \<in> Image ` equalBuilds X app fp" if "still X R C s" for s
  proof -
    have "fst (call ReqCtx (onDeploy (FindDeploymentByFingerprint app fp)) s)
        = map_sum StoreE id (fst (FindDeploymentByFingerprint app fp (deploy_view (panel s))))"
      using that by (simp add: still_def call_still wrap_def onPanel_def onDeploy_def case_prod_beta split: sum.splits)
    then show ?thesis using fst_find [of "deploy_view (panel s)"] that
      by (auto simp: still_def deploy_view_def split: sum.splits)
  qed
  with keep show ?thesis by (auto simp: leads_def keeps_def)
qed


lemma leads_reuse:
  assumes "Image d0 = []" "dID d0 = []" "dAppID d0 = aID a" "BuildFingerprint d0 = fp"
  shows "leads (still X R C) (reuse rq a fp d0) (\<lambda>r s. \<exists>d. r = Inr d \<and> still X R C s \<and> dID d = [] \<and> dAppID d = aID a
    \<and> BuildFingerprint d = fp \<and> (SourceType a \<noteq> ''image'' \<longrightarrow> rightImage X rq a d))"
proof (cases "Force rq \<or> SourceType a = ''image''")
  case True
  then show ?thesis using assms by (auto simp: reuse_def leads_def ret_def rightImage_def)
next
  case False
  then show ?thesis unfolding reuse_def
    by (simp, intro leads_handle [OF leads_find])
      (use assms in \<open>auto simp: leads_def ret_def rightImage_def split: sum.splits\<close>)
qed

definition replaced :: "deployment_row list \<Rightarrow> string list \<Rightarrow> string \<Rightarrow> Deployment \<Rightarrow> run_db \<Rightarrow> bool" where
  "replaced X R app d s \<longleftrightarrow> dAppID d = app \<and> dID d \<in> set (running s)
     \<and> (\<forall>row \<in> set (deps s). dAppID row = app \<and> in_flight (Status row) \<longrightarrow> dID row = dID d)
     \<and> (\<forall>row \<in> set X. dAppID row = app \<and> in_flight (Status row) \<and> dID row \<in> set R \<longrightarrow> map_of (doneCtx s) (dID row) \<noteq> None)"

lemma still_fresh: "still (X @ [row]) R C s \<Longrightarrow> dID row \<notin> dID ` set X"
  by (auto simp: still_def apps_ok_def deploy_ok_def deploy_view_def)

lemma leads_replace:
  assumes "dID row = dID d" "dAppID d = app"
  shows "leads (still (X @ [row]) R C) (handle (call ReqCtx (onDeploy (SupersedeRunningDeployments app (dID d)))) (\<lambda>r.
     andThen (stopAll (case r of Inl _ \<Rightarrow> [] | Inr ids \<Rightarrow> ids)) (andThen (start (dID d)) (ret d))))
     (\<lambda>r s. r = Inr d \<and> replaced X R app d s)"
proof -
  let ?sup = "call ReqCtx (onDeploy (SupersedeRunningDeployments app (dID d)))"
  let ?ids = "map dID (filter (others_running app (dID d)) (X @ [row]))"
  have "replaced X R app d (snd (start (dID d) (snd (stopAll ?ids t))))"
    if s: "still (X @ [row]) R C s" and t: "still X' R C t" "\<forall>row \<in> set X'. dAppID row = app \<and> in_flight (Status row) \<longrightarrow> dID row = dID d" for s t X'
  proof -
    note st = stopAll_state [of ?ids t]
    have new: "dID d \<notin> dID ` set X" using still_fresh [OF s] assms(1) by simp
    have "map_of (doneCtx (snd (start (dID d) (snd (stopAll ?ids t))))) (dID r) \<noteq> None"
      if r: "r \<in> set X" "dAppID r = app" "in_flight (Status r)" "dID r \<in> set R" for r
    proof -
      have "dID r \<noteq> dID d" using r(1) new by (metis imageI)
      then have "dID r \<in> set ?ids" using r(1,2,3) by (auto simp: others_running_def)
      moreover have "dID r \<in> set (running t)" using t(1) r(4) by (simp add: still_def)
      ultimately show ?thesis using st \<open>dID r \<noteq> dID d\<close> by (intro start_state(3)) auto
    qed
    moreover have "deps (snd (stopAll ?ids t)) = X'" using st t(1) by (simp add: still_def)
    ultimately show ?thesis using assms(2) t(2) by (auto simp: replaced_def start_state)
  qed
  then show ?thesis using leads_supersede [of "X @ [row]" R C app "dID d"]
    by (fastforce simp: leads_def handle_def andThen_def ret_def case_prod_beta)
qed


lemma leads_absurd: "(\<And>s. \<not> P s) \<Longrightarrow> leads P m Q"
  by (simp add: leads_def)

lemma leads_if: "leads P a Q \<Longrightarrow> leads P b Q \<Longrightarrow> leads P (if c then a else b) Q"
  by simp

lemma leads_past:
  fixes m :: "'a run_op"
  assumes "keeps P m" "\<And>x. leads P (k x) (\<lambda>r s. \<forall>d. r = Inr d \<longrightarrow> Q d s)"
  shows "leads P (bind m k) (\<lambda>r s. \<forall>d. r = Inr d \<longrightarrow> Q d s)"
  by (rule leads_bind [OF leads_keeps [OF assms(1), of "\<lambda>_. P"]]) (use assms(2) in auto)

lemma leads_Deploy:
  "leads (\<lambda>s. still X R C s \<and> apps s = A) (Deploy w rq) (\<lambda>r s. \<forall>d. r = Inr d \<longrightarrow> replaced X R (rqAppID rq) d s
     \<and> (\<exists>a \<in> set A. aID a = rqAppID rq \<and> rightImage X rq a d))"
  (is "leads _ _ ?Q")
proof -
  have got: "leads (\<lambda>s. still X R C s \<and> apps s = A) (call ReqCtx (GetApp (rqAppID rq)))
      (\<lambda>r s. still X R C s \<and> (\<forall>a. r = Inr a \<longrightarrow> a \<in> set A \<and> aID a = rqAppID rq))"
  proof -
    have "a \<in> set (apps s) \<and> aID a = i" if "meddling s = []" "fst (call ReqCtx (GetApp i) s) = Inr a" for s i a
      using that by (auto simp: call_still wrap_def onPanel_def GetApp_def query_def stmt_def found_def tick_def Let_def find_Some_iff
        split: prod.splits sum.splits list.splits bool.splits option.splits if_splits)
    moreover have "keeps (still X R C) (call ReqCtx (GetApp (rqAppID rq)))" unfolding GetApp_def by (rule still_query)
    ultimately show ?thesis by (auto simp: leads_def keeps_def still_def)
  qed
  have lifted: "keeps (still X R C) (lift x)" for x :: "run_err + 'z" by (auto simp: lift_def keeps_def throw_def ret_def split: sum.split)
  have env: "keeps (still X R C) (call ReqCtx (onTeam (GetEnvironment e)))" for e unfolding GetEnvironment_def by (rule still_team_query)
  have vars: "keeps (still X R C) (buildTimeVariables w ReqCtx a)" for a
    unfolding buildTimeVariables_def ListVariables_def by (intro keeps_bind still_query lifted)
  have spec: "keeps (still X R C) (runtimeSpec w a)" for a
    unfolding runtimeSpec_def ListDomains_def by (intro keeps_bind still_query keeps_ret)
  have create: "leads (still X R C) (bind (call ReqCtx (onDeploy (CreateDeployment d0))) (\<lambda>d.
     handle (call ReqCtx (onDeploy (SupersedeRunningDeployments (aID a) (dID d)))) (\<lambda>r.
     andThen (stopAll (case r of Inl _ \<Rightarrow> [] | Inr ids \<Rightarrow> ids)) (andThen (start (dID d)) (ret d))))) ?Q"
    if a: "a \<in> set A" "aID a = rqAppID rq" and d0: "dID d0 = []" "dAppID d0 = aID a" "rightImage X rq a d0" for a d0
  proof (rule leads_bind [OF leads_create [OF d0(1)]], goal_cases)
    case (2 d)
    have "rightImage X rq a d" if "Image d = Image d0" "BuildFingerprint d = BuildFingerprint d0"
      using d0(3) that by (simp add: rightImage_def)
    then show ?case using leads_replace [of _ d "aID a" X R C] a d0(2) unfolding leads_def by (metis Inr_inject)
  qed simp
  show ?thesis unfolding Deploy_def Let_def
  proof (rule leads_bind [OF got], goal_cases)
    case (2 a)
    show ?case
    proof (cases "a \<in> set A \<and> aID a = rqAppID rq")
      case True
      let ?d0 = "\<lambda>d0. if SourceType a = ''image'' then d0\<lparr>Image := aImage a\<rparr> else d0"
      have last: "leads (still X R C) (bind (reuse rq a fp (noDeployment\<lparr>dAppID := aID a, Status := DeployQueued, Trigger := rqTrigger rq,
            CommitSHA := c, BuildFingerprint := fp, RuntimeSpec := sp, CreatedBy := rqCreatedBy rq\<rparr>)) (\<lambda>d0.
          bind (call ReqCtx (onDeploy (CreateDeployment (?d0 d0)))) (\<lambda>d.
          handle (call ReqCtx (onDeploy (SupersedeRunningDeployments (aID a) (dID d)))) (\<lambda>r.
          andThen (stopAll (case r of Inl _ \<Rightarrow> [] | Inr ids \<Rightarrow> ids)) (andThen (start (dID d)) (ret d)))))) ?Q" for fp c sp
      proof (rule leads_bind [OF leads_reuse], goal_cases)
        case (6 d0)
        have "rightImage X rq a (?d0 d0)" if "SourceType a \<noteq> ''image'' \<longrightarrow> rightImage X rq a d0"
          using that by (simp add: rightImage_def)
        then show ?case using create [of a "?d0 d0"] True by (auto simp: leads_def)
      qed (simp_all add: noDeployment_def)
      have "leads (still X R C) (bind (call ReqCtx (onTeam (GetEnvironment (aEnvironmentID a)))) (\<lambda>_.
         bind (lift (if SourceType a = ''upload'' then uploadToDeploy w a (rqCommitSHA rq) else Inr (rqCommitSHA rq))) (\<lambda>commit.
         bind (buildTimeVariables w ReqCtx a) (\<lambda>args. bind (runtimeSpec w a) (\<lambda>spec.
         bind (reuse rq a (fingerprintOf w a commit args) (noDeployment\<lparr>dAppID := aID a, Status := DeployQueued, Trigger := rqTrigger rq,
            CommitSHA := commit, BuildFingerprint := fingerprintOf w a commit args, RuntimeSpec := spec, CreatedBy := rqCreatedBy rq\<rparr>)) (\<lambda>d0.
          bind (call ReqCtx (onDeploy (CreateDeployment (?d0 d0)))) (\<lambda>d.
          handle (call ReqCtx (onDeploy (SupersedeRunningDeployments (aID a) (dID d)))) (\<lambda>r.
          andThen (stopAll (case r of Inl _ \<Rightarrow> [] | Inr ids \<Rightarrow> ids)) (andThen (start (dID d)) (ret d)))))))))) ?Q"
        by (intro leads_past env lifted vars spec last)
      then show ?thesis by (auto simp: leads_def)
    next
      case False
      then show ?thesis by (intro leads_absurd) auto
    qed
  qed simp
qed



definition sampleRequest :: DeployRequest where
  "sampleRequest = \<lparr>rqAppID = ''app1'', rqTrigger = ''push'', rqCommitSHA = ''c1'', rqCreatedBy = ''u1'', Force = False\<rparr>"

lemma sampleDeploy: "isl (fst (Deploy sampleWorld sampleRequest (sampleRun\<lparr>meddling := []\<rparr>))) = False"
  by code_simp


section \<open>What goes wrong\<close>

lemma stuck:
  assumes "meddling s = []" "map_of (doneCtx s) i = Some x"
  shows "call (RunCtx i) m s = (Inl (CtxE x), s)" "extern (RunCtx i) out s = (Inl (CtxE x), s)" "publishDeployment (RunCtx i) i s = (Inr (), s)"
    "appendLog (RunCtx i) i l s = (Inr (), s)" "appendLogLines (RunCtx i) i ls s = (Inr (), s)"
proof -
  show c: "call (RunCtx i) m s = (Inl (CtxE x), s)" for m using assms by (simp add: call_def meddle_def ctxErr_def)
  show "extern (RunCtx i) out s = (Inl (CtxE x), s)" using assms by (simp add: extern_def meddle_def ctxErr_def)
  show "publishDeployment (RunCtx i) i s = (Inr (), s)" by (simp add: publishDeployment_def handle_def c ret_def)
  show a: "appendLog (RunCtx i) i l s = (Inr (), s)" for l by (simp add: appendLog_def handle_def c ret_def)
  show "appendLogLines (RunCtx i) i ls s = (Inr (), s)" by (induction ls) (simp_all add: ret_def andThen_def handle_def a)
qed

lemma fail_stuck:
  assumes "meddling s = []" "map_of (doneCtx s) (dID d) = Some x"
  shows "snd (fail w d e s) = (if e = CtxE Canceled then s
    else s\<lparr>hubLog := hubLog s @ [(DeploymentTopic (dID d), FailedMsg (problemOf w e))]\<rparr>)"
proof -
  let ?t = "s\<lparr>hubLog := hubLog s @ [(DeploymentTopic (dID d), FailedMsg (problemOf w e))]\<rparr>"
  have t: "meddling ?t = []" "map_of (doneCtx ?t) (dID d) = Some x" using assms by simp_all
  show ?thesis
    by (simp add: fail_def Let_def andThen_def handle_def emit_def ret_def stuck [OF assms] stuck [OF t] del: appendLogLines.simps)
qed

text \<open>A run that meets its own deadline reports its failure under the context that just expired, so nothing is
  written: the row stays in flight, with no goroutine behind it, until the panel is restarted.\<close>
theorem deadline_leaves_row_open:
  assumes "meddling s = []" "map_of (doneCtx s) (dID d) = Some DeadlineExceeded"
  shows "deps (snd (fail w d e s)) = deps s \<and> apps (snd (fail w d e s)) = apps s \<and> dlogs (snd (fail w d e s)) = dlogs s"
  using fail_stuck [OF assms] by simp

text \<open>A deployment that is cancelled while its instances come up is announced as failed: the rollout's error
  is replaced by an explanation that no longer says it was a cancel.\<close>
theorem cancelled_rollout_announced_failed:
  assumes "meddling s = []" "map_of (doneCtx s) (dID d) = Some Canceled"
    and "p = RolloutTimedOut (aName a) 0 (spDesired spec) (errorTextOf w (CtxE Canceled))"
  shows "rolloutProblem w (RunCtx (dID d)) a e spec (CtxE Canceled) s = (Inl (ProbE p) :: run_err + unit, s)
    \<and> (DeploymentTopic (dID d), FailedMsg p) \<in> set (hubLog (snd (fail w d (ProbE p) s)))"
  using assms(3) by (simp add: rolloutProblem_def handle_def throw_def problemOf_def stuck(2) [OF assms(1,2)] fail_stuck [OF assms(1,2)])

text \<open>The fingerprint of a build looks at neither the branch, the build command nor the folder of the built
  site: an app switched to another branch, deployed without naming a commit, gets the image of the old one.\<close>
theorem fingerprint_ignores_branch:
  "fingerprintOf w (a\<lparr>Branch := b, BuildCommand := c, StaticDir := dir\<rparr>) commit args = fingerprintOf w a commit args"
  by (simp add: fingerprintOf_def)

text \<open>A refusal without a reason is shown with none: the reason made up for it is only logged.\<close>
theorem refusal_without_reason:
  "askTargets w (\<lparr>tgName = n, tgBlocking = True\<rparr> # ts) = (v, n)" if "pluginAnswer w \<lparr>tgName = n, tgBlocking = True\<rparr> = Some v" "\<not> Allow v"
  using that by simp

lemma still_update_app: "keeps (still X R C) (call ReqCtx (UpdateApp a))"
proof -
  have "deps (snd (UpdateApp a p)) = deps p" for p
    using frame_call [of "UpdateAppC a" "deps p"] by (simp add: keeps_def frame_def ignore_def)
  moreover have "keeps apps_ok (UpdateApp a)" "keeps faultless (UpdateApp a)"
    using keeps_app_call [of "UpdateAppC a"] faultless_call [of "UpdateAppC a"] by (simp_all add: keeps_def ignore_def)
  ultimately show ?thesis by (intro keeps_still) auto
qed

text \<open>A rollback does not replace what is running: every other deployment of the app stays in flight under a
  context that nobody stops, and rolls out its own version after the rollback.\<close>
theorem Rollback_stops_nothing:
  assumes "apps_ok (panel s)" "faults s = []" "meddling s = []" "Rollback w app i actor s = (Inr d, s')"
  shows "(\<exists>row. deps s' = deps s @ [row]) \<and> (\<forall>j. map_of (doneCtx s') j \<noteq> None \<longrightarrow> map_of (doneCtx s) j \<noteq> None)"
proof -
  let ?still = "still (deps s) (running s) (doneCtx s)"
  let ?Q = "\<lambda>(d :: Deployment) t. (\<exists>row. deps t = deps s @ [row]) \<and> (\<forall>j. map_of (doneCtx t) j \<noteq> None \<longrightarrow> map_of (doneCtx s) j \<noteq> None)"
  have restore: "keeps (still X R C) (restoreRuntimeSpec w app sp)" for X R C sp
    unfolding restoreRuntimeSpec_def GetApp_def by (intro keeps_intros still_query still_update_app)
  have started: "?Q d (snd (start j t))" if "still (deps s @ [row]) (running s) (doneCtx s) t" for row j t d
    using that by (auto simp: still_def start_def map_of_filter_in dest!: map_of_SomeD intro: weak_map_of_SomeI)
  have "leads ?still (Rollback w app i actor) (\<lambda>r t. \<forall>d. r = Inr d \<longrightarrow> ?Q d t)"
    unfolding Rollback_def
  proof (rule leads_past, goal_cases)
    case 1
    show ?case unfolding GetDeployment_def by (rule still_deploy_query)
  next
    case (2 previous)
    let ?d0 = "noDeployment\<lparr>dAppID := app, Status := DeployQueued, Trigger := ''rollback'',
           RollbackOf := Number previous, CommitSHA := CommitSHA previous, CommitMessage := CommitMessage previous,
           CommitAuthor := CommitAuthor previous, Image := Image previous, BuildFingerprint := BuildFingerprint previous,
           RuntimeSpec := RuntimeSpec previous, CreatedBy := actor\<rparr>"
    have thrown: "leads P (throw e) (\<lambda>r t. \<forall>d. r = Inr d \<longrightarrow> ?Q d t)" for P e by (simp add: leads_def throw_def)
    have created: "leads ?still (bind (call ReqCtx (onDeploy (CreateDeployment ?d0))) (\<lambda>d.
        andThen (restoreRuntimeSpec w app (RuntimeSpec previous)) (andThen (start (dID d)) (ret d)))) (\<lambda>r t. \<forall>d. r = Inr d \<longrightarrow> ?Q d t)"
    proof (rule leads_bind [OF leads_create], goal_cases)
      case (3 d)
      have "?Q d (snd (start (dID d) (snd (restoreRuntimeSpec w app (RuntimeSpec previous) t))))"
        if "still (deps s @ [row]) (running s) (doneCtx s) t" for t row
      proof (rule started)
        show "still (deps s @ [row]) (running s) (doneCtx s) (snd (restoreRuntimeSpec w app (RuntimeSpec previous) t))"
          using restore that by (simp add: keeps_def)
      qed
      then show ?case by (simp add: leads_def andThen_def handle_def ret_def case_prod_beta) blast
    qed (simp_all add: noDeployment_def)
    have within: "keeps ?still (call ReqCtx (onDeploy (WithinRollbackWindow app i KeptPerApp)))"
      unfolding WithinRollbackWindow_def Let_def by (rule still_deploy_query)
    show ?case
      by (rule leads_if [OF thrown leads_if [OF thrown leads_past [OF within leads_if [OF thrown created]]]])
  qed
  then show ?thesis using assms by (simp add: leads_def still_def) (metis fst_conv snd_conv)
qed

end
