(* ===== verification/Git_Sources.thy ===== *)
theory Git_Sources
  imports Go_Prelude
begin

text \<open>
  Git hosts, \<^verbatim>\<open>internal/gitsrc/webhook.go\<close> and \<^verbatim>\<open>repourl.go\<close>: how a webhook is verified,
  what a payload of GitHub, Gitea or GitLab boils down to, and which repository
  addresses are taken. HMAC, the URL parser and the JSON decoder of the standard
  library are parameters (\<^verbatim>\<open>git_lib\<close>); a decoder gives the fields the code reads, at
  their zero values where the payload has none. Case folding is that of ASCII.
\<close>

section \<open>The standard library\<close>

record URL =
  uScheme :: string
  uUser :: "string option"
  uHost :: string
  uPath :: string
  uRawQuery :: string
  uFragment :: string
  uRest :: string

record githubPush =
  ghRef :: string
  ghAfter :: string
  ghDeleted :: bool
  ghCloneURL :: string
  ghHTMLURL :: string
  ghHead :: "(string \<times> string) option"

record githubPullRequest =
  prAction :: string
  prNumber :: int
  prHeadRef :: string
  prHeadSHA :: string
  prHeadRepo :: string
  prBaseRepo :: string
  prTitle :: string
  prLogin :: string
  prCloneURL :: string
  prHTMLURL :: string
  prFullName :: string

record gitlabPush =
  glRef :: string
  glAfter :: string
  glUserName :: string
  glHTTPURL :: string
  glWebURL :: string
  glMessages :: "string list"

record gitlabMergeRequest =
  mrAction :: string
  mrIID :: int
  mrSourceBranch :: string
  mrSourceProject :: int
  mrTargetProject :: int
  mrCommit :: string
  mrTitle :: string
  mrHTTPURL :: string
  mrUser :: string

record git_lib =
  hmac256 :: "string \<Rightarrow> string \<Rightarrow> string"
  urlParse :: "string \<Rightarrow> URL option"
  urlString :: "URL \<Rightarrow> string"
  urlHostname :: "URL \<Rightarrow> string"
  readPush :: "string \<Rightarrow> githubPush option"
  readPullRequest :: "string \<Rightarrow> githubPullRequest option"
  readGitLabPush :: "string \<Rightarrow> gitlabPush option"
  readMergeRequest :: "string \<Rightarrow> gitlabMergeRequest option"

definition hexEncode :: "string \<Rightarrow> string" where
  "hexEncode s = concat (map (\<lambda>c. let n = of_char c :: nat in [''0123456789abcdef'' ! (n div 16), ''0123456789abcdef'' ! (n mod 16)]) s)"

definition cutPrefix :: "string \<Rightarrow> string \<Rightarrow> string option" where
  "cutPrefix p s = (if prefix p s then Some (drop (length p) s) else None)"

definition firstOfTwo :: "string \<Rightarrow> string \<Rightarrow> string" where
  "firstOfTwo a b = (if a \<noteq> [] then a else b)"

definition firstLine :: "string \<Rightarrow> string" where
  "firstLine s = trim_space (takeWhile (\<lambda>c. c \<noteq> CHR 0x0A) s)"

section \<open>Verification\<close>

datatype webhook_err = NoSecret | ErrBadSignature | ErrUnsupportedEvent | BadPayload string | NoEventHeader

definition signature :: "git_lib \<Rightarrow> string \<Rightarrow> string \<Rightarrow> string" where
  "signature lib secret body = hexEncode (hmac256 lib secret body)"

definition VerifyGitHubSignature :: "git_lib \<Rightarrow> string \<Rightarrow> string \<Rightarrow> string \<Rightarrow> webhook_err option" where
  "VerifyGitHubSignature lib secret body header = (if secret = [] then Some NoSecret
     else case cutPrefix ''sha256='' header of None \<Rightarrow> Some ErrBadSignature
     | Some expected \<Rightarrow> if signature lib secret body = expected then None else Some ErrBadSignature)"

definition VerifyGiteaSignature :: "git_lib \<Rightarrow> string \<Rightarrow> string \<Rightarrow> string \<Rightarrow> webhook_err option" where
  "VerifyGiteaSignature lib secret body header = (if secret = [] then Some NoSecret
     else if header = [] then Some ErrBadSignature
     else if signature lib secret body = trim_prefix ''sha256='' header then None else Some ErrBadSignature)"

definition VerifyGitLabToken :: "string \<Rightarrow> string \<Rightarrow> webhook_err option" where
  "VerifyGitLabToken secret header = (if secret = [] then Some NoSecret else if secret = header then None else Some ErrBadSignature)"

section \<open>Repository addresses\<close>

definition sshToHTTPS :: "string \<Rightarrow> string" where
  "sshToHTTPS raw = (case cutPrefix ''git@'' raw of None \<Rightarrow> raw
     | Some rest \<Rightarrow> if CHR '':'' \<in> set rest
         then ''https://'' @ takeWhile (\<lambda>c. c \<noteq> CHR '':'') rest @ ''/'' @ tl (dropWhile (\<lambda>c. c \<noteq> CHR '':'') rest) else raw)"

definition NormaliseRepoURL :: "git_lib \<Rightarrow> string \<Rightarrow> string" where
  "NormaliseRepoURL lib given = (if trim_space given = [] then []
     else let raw = trim_suffix ''/'' (trim_suffix ''.git'' (sshToHTTPS (trim_space given))) in
       case urlParse lib raw of None \<Rightarrow> to_lower raw
       | Some u \<Rightarrow> urlString lib (u\<lparr>uScheme := (if uScheme u = [] then ''https'' else uScheme u), uUser := None, uRawQuery := [],
           uFragment := [], uHost := to_lower (uHost u)\<rparr>))"

definition printable :: "char \<Rightarrow> bool" where
  "printable c \<longleftrightarrow> 32 < (of_char c :: nat) \<and> (of_char c :: nat) \<le> 126"

definition shellChars :: string where
  "shellChars = [CHR 0x22, CHR 0x27, CHR 0x5C, CHR 0x60] @ ''$;&|<>(){}*''"

definition ValidateRepoURL :: "git_lib \<Rightarrow> string \<Rightarrow> string + string" where
  "ValidateRepoURL lib given = (let raw = trim_space given in
     if raw = [] then Inl ''a repository address is needed''
     else if length raw > 2048 then Inl ''that repository address is too long''
     else if \<not> list_all printable raw then Inl ''a repository address cannot contain spaces or control characters''
     else if list_ex (\<lambda>c. c \<in> set shellChars) raw then Inl ''a repository address cannot contain quotes or shell characters''
     else case urlParse lib raw of None \<Rightarrow> Inl ''that is not a valid repository address''
     | Some u \<Rightarrow>
         if uScheme u \<noteq> ''https'' then Inl ''a repository address has to start with https://''
         else if uUser u \<noteq> None then Inl ''leave the username and password out of the address; connect a Git account instead''
         else if urlHostname lib u = [] then Inl ''that repository address has no host''
         else if uPath u = [] \<or> uPath u = ''/'' then Inl ''that address has no repository in it''
         else Inr (urlString lib (u\<lparr>uRawQuery := [], uFragment := []\<rparr>)))"

definition contains_sub :: "string \<Rightarrow> string \<Rightarrow> bool" where
  "contains_sub p s \<longleftrightarrow> list_ex (\<lambda>n. prefix p (drop n s)) [0..<length s + 1]"

definition defaultBaseURL :: "string \<Rightarrow> string" where
  "defaultBaseURL base = (if trim_space base = [] then ''https://github.com''
     else if \<not> contains_sub ''://'' base then ''https://'' @ base else base)"

definition SameHost :: "git_lib \<Rightarrow> string \<Rightarrow> string \<Rightarrow> bool" where
  "SameHost lib repoURL baseURL = (case (urlParse lib (trim_space repoURL), urlParse lib (trim_space (defaultBaseURL baseURL))) of
     (Some repo, Some base) \<Rightarrow> to_lower (urlHostname lib repo) \<noteq> [] \<and> to_lower (urlHostname lib repo) = to_lower (urlHostname lib base)
   | _ \<Rightarrow> False)"

definition ValidateBaseURL :: "git_lib \<Rightarrow> string \<Rightarrow> string + string" where
  "ValidateBaseURL lib given = (let raw = trim_suffix ''/'' (trim_space given) in
     if raw = [] then Inr []
     else if length raw > 2048 then Inl ''that address is too long''
     else if \<not> list_all printable raw then Inl ''an address cannot contain spaces or control characters''
     else case urlParse lib raw of None \<Rightarrow> Inl ''that is not a valid address''
     | Some u \<Rightarrow>
         if uScheme u \<noteq> ''https'' then Inl ''the address of a Git server has to start with https://''
         else if uUser u \<noteq> None then Inl ''leave the username and password out of the address; the token field is where credentials go''
         else if urlHostname lib u = [] then Inl ''that address has no host''
         else Inr (trim_suffix ''/'' (urlString lib (u\<lparr>uPath := [], uRawQuery := [], uFragment := []\<rparr>))))"

section \<open>Events\<close>

record PushEvent =
  evKind :: string
  evRepoURL :: string
  evBranch :: string
  evCommitSHA :: string
  evCommitMessage :: string
  evCommitAuthor :: string
  PullRequest :: int
  SourceBranch :: string
  Deleted :: bool
  Fork :: bool

definition noEvent :: PushEvent where
  "noEvent = \<lparr>evKind = [], evRepoURL = [], evBranch = [], evCommitSHA = [], evCommitMessage = [], evCommitAuthor = [], PullRequest = 0,
     SourceBranch = [], Deleted = False, Fork = False\<rparr>"

definition githubPushEvent :: "git_lib \<Rightarrow> githubPush \<Rightarrow> webhook_err + PushEvent" where
  "githubPushEvent lib p = (case cutPrefix ''refs/heads/'' (ghRef p) of None \<Rightarrow> Inl ErrUnsupportedEvent
     | Some branch \<Rightarrow> Inr (noEvent\<lparr>evKind := ''push'', evRepoURL := NormaliseRepoURL lib (firstOfTwo (ghCloneURL p) (ghHTMLURL p)),
         evBranch := branch, evCommitSHA := ghAfter p, Deleted := ghDeleted p,
         evCommitMessage := (case ghHead p of None \<Rightarrow> [] | Some (m, _) \<Rightarrow> firstLine m),
         evCommitAuthor := (case ghHead p of None \<Rightarrow> [] | Some (_, a) \<Rightarrow> a)\<rparr>))"

definition pullKind :: "string list \<Rightarrow> string list \<Rightarrow> string \<Rightarrow> webhook_err + string" where
  "pullKind opened closed action = (if action \<in> set opened then Inr ''pull_request_opened''
     else if action \<in> set closed then Inr ''pull_request_closed'' else Inl ErrUnsupportedEvent)"

definition githubFork :: "githubPullRequest \<Rightarrow> bool" where
  "githubFork p \<longleftrightarrow> (let head = prHeadRepo p; base = firstOfTwo (prBaseRepo p) (prFullName p) in
     head = [] \<or> base = [] \<or> to_lower head \<noteq> to_lower base)"

definition githubPullEvent :: "git_lib \<Rightarrow> githubPullRequest \<Rightarrow> webhook_err + PushEvent" where
  "githubPullEvent lib p = map_sum id (\<lambda>kind. \<lparr>evKind = kind, evRepoURL = NormaliseRepoURL lib (firstOfTwo (prCloneURL p) (prHTMLURL p)),
       evBranch = prHeadRef p, evCommitSHA = prHeadSHA p, evCommitMessage = prTitle p, evCommitAuthor = prLogin p, PullRequest = prNumber p,
       SourceBranch = prHeadRef p, Deleted = False, Fork = githubFork p\<rparr>)
     (pullKind [''opened'', ''reopened'', ''synchronize''] [''closed''] (prAction p))"

definition parseGitHub :: "git_lib \<Rightarrow> string \<Rightarrow> string \<Rightarrow> webhook_err + PushEvent" where
  "parseGitHub lib event body = (if event = ''ping'' then Inr (noEvent\<lparr>evKind := ''ping''\<rparr>)
     else if event = ''push'' then (case readPush lib body of None \<Rightarrow> Inl (BadPayload ''read push payload'') | Some p \<Rightarrow> githubPushEvent lib p)
     else if event = ''pull_request'' then (case readPullRequest lib body of None \<Rightarrow> Inl (BadPayload ''read pull request payload'')
       | Some p \<Rightarrow> githubPullEvent lib p)
     else Inl ErrUnsupportedEvent)"

definition gitlabPushEvent :: "git_lib \<Rightarrow> gitlabPush \<Rightarrow> webhook_err + PushEvent" where
  "gitlabPushEvent lib p = (case cutPrefix ''refs/heads/'' (glRef p) of None \<Rightarrow> Inl ErrUnsupportedEvent
     | Some branch \<Rightarrow> Inr (noEvent\<lparr>evKind := ''push'', evRepoURL := NormaliseRepoURL lib (firstOfTwo (glHTTPURL p) (glWebURL p)),
         evBranch := branch, evCommitSHA := glAfter p, Deleted := list_all (\<lambda>c. c = CHR ''0'') (glAfter p),
         evCommitAuthor := glUserName p, evCommitMessage := (if glMessages p = [] then [] else firstLine (last (glMessages p)))\<rparr>))"

definition gitlabFork :: "gitlabMergeRequest \<Rightarrow> bool" where
  "gitlabFork p \<longleftrightarrow> mrSourceProject p = 0 \<or> mrTargetProject p = 0 \<or> mrSourceProject p \<noteq> mrTargetProject p"

definition gitlabMergeEvent :: "git_lib \<Rightarrow> gitlabMergeRequest \<Rightarrow> webhook_err + PushEvent" where
  "gitlabMergeEvent lib p = map_sum id (\<lambda>kind. \<lparr>evKind = kind, evRepoURL = NormaliseRepoURL lib (mrHTTPURL p), evBranch = mrSourceBranch p,
       evCommitSHA = mrCommit p, evCommitMessage = mrTitle p, evCommitAuthor = mrUser p, PullRequest = mrIID p,
       SourceBranch = mrSourceBranch p, Deleted = False, Fork = gitlabFork p\<rparr>)
     (pullKind [''open'', ''reopen'', ''update''] [''close'', ''merge''] (mrAction p))"

definition parseGitLab :: "git_lib \<Rightarrow> string \<Rightarrow> string \<Rightarrow> webhook_err + PushEvent" where
  "parseGitLab lib event body = (if event = ''Push Hook''
     then (case readGitLabPush lib body of None \<Rightarrow> Inl (BadPayload ''read push payload'') | Some p \<Rightarrow> gitlabPushEvent lib p)
     else if event = ''Merge Request Hook''
     then (case readMergeRequest lib body of None \<Rightarrow> Inl (BadPayload ''read merge request payload'') | Some p \<Rightarrow> gitlabMergeEvent lib p)
     else Inl ErrUnsupportedEvent)"

text \<open>\<^verbatim>\<open>hdr\<close> is \<^verbatim>\<open>Header.Get\<close> of the request.\<close>

definition ParseWebhook :: "git_lib \<Rightarrow> (string \<Rightarrow> string) \<Rightarrow> string \<Rightarrow> webhook_err + PushEvent" where
  "ParseWebhook lib hdr body = (if hdr ''X-GitHub-Event'' \<noteq> [] then parseGitHub lib (hdr ''X-GitHub-Event'') body
     else if hdr ''X-Gitlab-Event'' \<noteq> [] then parseGitLab lib (hdr ''X-Gitlab-Event'') body
     else if hdr ''X-Gitea-Event'' \<noteq> [] then parseGitHub lib (hdr ''X-Gitea-Event'') body
     else Inl NoEventHeader)"

end
