(* ===== verification/Naming.thy ===== *)
theory Naming
  imports Go_Encoding
begin

text \<open>
  Names for Kubernetes objects, \<^verbatim>\<open>internal/kube/naming.go\<close>: slugs, namespaces,
  object names, automatic host names and variable names. SHA-256 is a
  parameter; that it returns thirty-two bytes is said where it is used.

  The regular expressions only tell apart the letters \<^verbatim>\<open>a\<close> to \<^verbatim>\<open>z\<close>, the digits
  and the dash, so working on the bytes of a text gives what working on its
  characters gives. What lower-casing does to letters outside ASCII is left
  open: the slug is defined for any lower-cased text.
\<close>

definition maxLabelLength :: nat where "maxLabelLength = 63"

definition is_alnum :: "char \<Rightarrow> bool" where
  "is_alnum c \<longleftrightarrow> (let n = of_char c :: int in 97 \<le> n \<and> n \<le> 122 \<or> 48 \<le> n \<and> n \<le> 57)"

definition dash :: char where "dash = CHR ''-''"

definition trim_dashes :: "string \<Rightarrow> string" where
  "trim_dashes s = trim_right (\<lambda>c. c = dash) (dropWhile (\<lambda>c. c = dash) s)"

text \<open>\<^verbatim>\<open>nonAlphanumeric.ReplaceAllString\<close>: every run of other characters becomes one dash.\<close>

fun squash :: "bool \<Rightarrow> string \<Rightarrow> string" where
  "squash inRun [] = []"
| "squash inRun (c # cs) = (if is_alnum c then c # squash False cs
     else if inRun then squash True cs else dash # squash True cs)"

definition replaceChar :: "char \<Rightarrow> string" where
  "replaceChar c = (if c \<in> {CHR ''_'', CHR '' '', CHR ''.'', CHR ''/''} then ''-''
     else if c = CHR ''@'' then ''-at-'' else if c = CHR ''&'' then ''-and-'' else [c])"

definition shortHash :: "(string \<Rightarrow> string) \<Rightarrow> string \<Rightarrow> nat \<Rightarrow> string" where
  "shortHash sha x n = (let encoded = to_lower (raw_std32_encode (sha x)) in take (min n (length encoded)) encoded)"

definition slugFrom :: "(string \<Rightarrow> string) \<Rightarrow> string \<Rightarrow> string \<Rightarrow> string" where
  "slugFrom sha x lowered = (let slug = trim_dashes (squash False (concat (map replaceChar lowered))) in
     if slug = [] then ''x-'' @ shortHash sha x 8
     else let slug1 = (if length slug > maxLabelLength
            then trim_right (\<lambda>c. c = dash) (take (maxLabelLength - 9) slug) @ ''-'' @ shortHash sha x 8 else slug)
          in if \<not> is_alnum (hd slug1) then ''x'' @ slug1 else slug1)"

definition Slugify :: "(string \<Rightarrow> string) \<Rightarrow> string \<Rightarrow> string" where
  "Slugify sha x = slugFrom sha x (to_lower (trim_space x))"

definition label_shape :: "string \<Rightarrow> bool" where
  "label_shape s \<longleftrightarrow> s \<noteq> [] \<and> is_alnum (hd s) \<and> is_alnum (last s) \<and> (\<forall>c \<in> set s. is_alnum c \<or> c = dash)"

definition ValidLabel :: "string \<Rightarrow> bool" where
  "ValidLabel s \<longleftrightarrow> s \<noteq> [] \<and> length s \<le> maxLabelLength \<and> label_shape s"

definition ValidHostname :: "string \<Rightarrow> bool" where
  "ValidHostname h = (let host = to_lower (trim_suffix ''.'' (trim_space h)) in
     if host = [] \<or> length host > 253 \<or> CHR ''.'' \<notin> set host then False
     else if list_ex (\<lambda>l. length l > maxLabelLength) (split_on (CHR ''.'') host) then False
     else list_all label_shape (split_on (CHR ''.'') host))"

definition NamespaceFor :: "(string \<Rightarrow> string) \<Rightarrow> string \<Rightarrow> string \<Rightarrow> string \<Rightarrow> string" where
  "NamespaceFor sha teamSlug projectSlug envSlug = (let full = teamSlug @ ''-'' @ projectSlug @ ''-'' @ envSlug in
     if length full \<le> maxLabelLength \<and> ValidLabel full then full
     else let suf = ''-'' @ envSlug @ ''-'' @ shortHash sha full 6 in
       if length suf \<ge> maxLabelLength then ''ns-'' @ shortHash sha full 16
       else trim_right (\<lambda>c. c = dash) (take (min (maxLabelLength - length suf) (length full)) full) @ suf)"

definition ResourceName :: "(string \<Rightarrow> string) \<Rightarrow> string \<Rightarrow> string \<Rightarrow> string" where
  "ResourceName sha appSlug suf = (if suf = [] then appSlug
     else let nm = appSlug @ ''-'' @ suf in
       if length nm \<le> maxLabelLength then nm
       else if int maxLabelLength - int (length suf) - 8 < 1 then shortHash sha nm 16 @ ''-'' @ suf
       else trim_right (\<lambda>c. c = dash) (take (maxLabelLength - length suf - 8) appSlug) @ ''-'' @ shortHash sha appSlug 6 @ ''-'' @ suf)"

definition autoLabel :: "(string \<Rightarrow> string) \<Rightarrow> string \<Rightarrow> string \<Rightarrow> string \<Rightarrow> string" where
  "autoLabel sha appSlug envSlug discriminator =
     (let label1 = (if envSlug \<noteq> [] \<and> envSlug \<noteq> ''production'' then appSlug @ ''-'' @ envSlug else appSlug);
          label2 = (if discriminator \<noteq> [] then label1 @ ''-'' @ discriminator else label1)
      in if length label2 > maxLabelLength
         then trim_right (\<lambda>c. c = dash) (take (maxLabelLength - 7) label2) @ ''-'' @ shortHash sha label2 6 else label2)"

definition autoHostname :: "(string \<Rightarrow> string) \<Rightarrow> string \<Rightarrow> string \<Rightarrow> string \<Rightarrow> string \<Rightarrow> string \<Rightarrow> string" where
  "autoHostname sha appSlug envSlug wildcardDomain clusterIP discriminator =
     (let label = autoLabel sha appSlug envSlug discriminator in
      if wildcardDomain \<noteq> [] then label @ ''.'' @ trim_prefix ''*.'' (trim_space wildcardDomain)
      else if clusterIP = [] then []
      else label @ ''.'' @ map (\<lambda>c. if c = CHR ''.'' then dash else c) clusterIP @ ''.sslip.io'')"

definition AutoHostname :: "(string \<Rightarrow> string) \<Rightarrow> string \<Rightarrow> string \<Rightarrow> string \<Rightarrow> string \<Rightarrow> string" where
  "AutoHostname sha appSlug envSlug wildcardDomain clusterIP = autoHostname sha appSlug envSlug wildcardDomain clusterIP []"

definition AutoHostnameFor :: "(string \<Rightarrow> string) \<Rightarrow> string \<Rightarrow> string \<Rightarrow> string \<Rightarrow> string \<Rightarrow> string \<Rightarrow> string" where
  "AutoHostnameFor sha appSlug envSlug wildcardDomain clusterIP appID =
     autoHostname sha appSlug envSlug wildcardDomain clusterIP (shortHash sha appID 5)"

datatype env_key_error = EmptyKey | LongKey | DigitFirst | BadCharacter

fun checkEnvChars :: "bool \<Rightarrow> string \<Rightarrow> env_key_error option" where
  "checkEnvChars first [] = None"
| "checkEnvChars first (c # cs) = (let n = of_char c :: int in
     if 65 \<le> n \<and> n \<le> 90 \<or> n = 95 then checkEnvChars False cs
     else if 97 \<le> n \<and> n \<le> 122 then checkEnvChars False cs
     else if 48 \<le> n \<and> n \<le> 57 then (if first then Some DigitFirst else checkEnvChars False cs)
     else Some BadCharacter)"

definition SanitiseEnvKey :: "string \<Rightarrow> env_key_error + string" where
  "SanitiseEnvKey k = (let key = trim_space k in
     if key = [] then Inl EmptyKey else if int (length key) > 256 then Inl LongKey
     else case checkEnvChars True key of Some e \<Rightarrow> Inl e | None \<Rightarrow> Inr key)"

definition RegistryHost :: string where
  "RegistryHost = ''skifity-registry'' @ ''.'' @ ''skifity-builds'' @ ''.svc.cluster.local:'' @ itoa 5000"

section \<open>Shapes\<close>

named_theorems label_intros \<open>what has the shape of a label\<close>

definition label_chars :: "string \<Rightarrow> bool" where
  "label_chars s \<longleftrightarrow> (\<forall>c \<in> set s. is_alnum c \<or> c = dash)"

definition sha_size :: "(string \<Rightarrow> string) \<Rightarrow> bool" where
  "sha_size sha \<longleftrightarrow> (\<forall>x. length (sha x) = 32)"

lemma dash_not_alnum [simp]: "\<not> is_alnum dash"
  by code_simp

lemma label_shape_chars: "label_shape s \<Longrightarrow> label_chars s"
  by (simp add: label_shape_def label_chars_def)

lemma label_shape_dash [label_intros]: "label_shape a \<Longrightarrow> label_shape b \<Longrightarrow> label_shape (a @ ''-'' @ b)"
  by (auto simp: label_shape_def dash_def)

lemma hash_chars: "c \<in> set (shortHash sha x n) \<Longrightarrow> is_alnum c"
proof -
  assume "c \<in> set (shortHash sha x n)"
  then have "c \<in> set (to_lower (raw_std32_encode (sha x)))" by (auto simp: shortHash_def Let_def dest: in_set_takeD)
  then obtain b where b: "c = to_lower_char b" "b \<in> set std32"
    using encode_bits_alphabet [OF std32_alphabet(2)] by (auto simp: to_lower_def raw_std32_encode_def)
  have "list_all (\<lambda>b. is_alnum (to_lower_char b)) std32" by code_simp
  then show ?thesis using b by (simp add: list_all_iff)
qed

lemma length_shortHash: "sha_size sha \<Longrightarrow> n \<le> 52 \<Longrightarrow> length (shortHash sha x n) = n"
  by (simp add: shortHash_def Let_def to_lower_def raw_std32_encode_def length_encode_bits sha_size_def)

lemma label_shape_hash [label_intros]: "sha_size sha \<Longrightarrow> 0 < n \<Longrightarrow> n \<le> 52 \<Longrightarrow> label_shape (shortHash sha x n)"
proof -
  assume a: "sha_size sha" "0 < n" "n \<le> 52"
  then have "shortHash sha x n \<noteq> []" using length_shortHash [of sha n x] by auto
  then show ?thesis using hash_chars [of _ sha x n] by (simp add: label_shape_def)
qed

lemma trim_right_Nil: "trim_right p [] = []"
  by (simp add: trim_right_def)

lemma trim_right_last: "trim_right p s \<noteq> [] \<Longrightarrow> \<not> p (last (trim_right p s))"
  using hd_dropWhile [of p "rev s"] by (simp add: trim_right_def last_rev)

lemma trim_right_hd: "s \<noteq> [] \<Longrightarrow> \<not> p (hd s) \<Longrightarrow> trim_right p s \<noteq> [] \<and> hd (trim_right p s) = hd s"
proof (induction s rule: rev_induct)
  case (snoc x xs)
  then show ?case by (cases xs) (auto simp: trim_right_def)
qed simp

lemma trim_right_subset: "set (trim_right p s) \<subseteq> set s"
  using set_dropWhileD [of _ p "rev s"] by (auto simp: trim_right_def)

lemma length_trim_right: "length (trim_right p s) \<le> length s"
  using length_dropWhile_le [of p "rev s"] by (simp add: trim_right_def)

lemma label_shape_cut:
  assumes "label_chars s" "s \<noteq> []" "is_alnum (hd s)" "0 < k"
  shows "label_shape (trim_right (\<lambda>c. c = dash) (take k s))"
proof -
  let ?t = "trim_right (\<lambda>c. c = dash) (take k s)"
  have "take k s \<noteq> []" "hd (take k s) = hd s" using assms by auto
  moreover have "hd s \<noteq> dash" using assms(3) dash_not_alnum by metis
  ultimately have t: "?t \<noteq> []" "hd ?t = hd s" using trim_right_hd [of "take k s" "\<lambda>c. c = dash"] by simp_all
  have chars: "is_alnum c \<or> c = dash" if "c \<in> set ?t" for c
    using that trim_right_subset [of "\<lambda>c. c = dash" "take k s"] assms(1) by (auto simp: label_chars_def dest: in_set_takeD)
  moreover have "last ?t \<noteq> dash" using trim_right_last [OF t(1)] .
  ultimately have "is_alnum (last ?t)" using t(1) last_in_set by blast
  then show ?thesis using t assms(3) chars by (simp add: label_shape_def)
qed

lemma length_cut: "length (trim_right p (take k s)) \<le> k"
  using length_trim_right [of p "take k s"] by simp

section \<open>Slugs\<close>

lemma squash_chars: "label_chars (squash b s)"
  by (induction b s rule: squash.induct) (auto simp: label_chars_def)

lemma trim_dashes_shape: "label_chars s \<Longrightarrow> trim_dashes s \<noteq> [] \<Longrightarrow> label_shape (trim_dashes s)"
proof -
  assume c: "label_chars s" and ne: "trim_dashes s \<noteq> []"
  let ?d = "dropWhile (\<lambda>c. c = dash) s"
  have d: "?d \<noteq> []" using ne trim_right_Nil unfolding trim_dashes_def by metis
  then have "hd ?d \<noteq> dash" using hd_dropWhile [of "\<lambda>c. c = dash" s] by blast
  moreover have chars: "label_chars ?d" using c set_dropWhileD [of _ "\<lambda>c. c = dash" s] by (auto simp: label_chars_def)
  ultimately have "is_alnum (hd ?d)" using d hd_in_set [of ?d] unfolding label_chars_def by blast
  from label_shape_cut [OF chars d this, of "length ?d"] show ?thesis using d by (simp add: trim_dashes_def)
qed

text \<open>Whatever text a name is made from, and whatever lower-casing does to letters outside
  ASCII, the slug is a valid Kubernetes label: non-empty, at most sixty-three characters, only lower-case letters,
  digits and dashes, with a letter or digit at both ends.\<close>
theorem slug_is_valid:
  assumes "sha_size sha"
  shows "ValidLabel (slugFrom sha x lowered)"
proof -
  define slug where "slug = trim_dashes (squash False (concat (map replaceChar lowered)))"
  show ?thesis
  proof (cases "slug = []")
    case True
    then have "slugFrom sha x lowered = ''x'' @ ''-'' @ shortHash sha x 8" by (simp add: slugFrom_def slug_def)
    moreover have "is_alnum (CHR ''x'')" by code_simp
    then have "label_shape ''x''" by (simp add: label_shape_def)
    then have "label_shape (''x'' @ ''-'' @ shortHash sha x 8)" using assms by (intro label_intros) simp_all
    ultimately show ?thesis using length_shortHash [OF assms, of 8 x] by (simp add: ValidLabel_def maxLabelLength_def)
  next
    case False
    have shape: "label_shape slug" using trim_dashes_shape [OF squash_chars] False by (simp add: slug_def)
    define slug1 where "slug1 = (if length slug > maxLabelLength
      then trim_right (\<lambda>c. c = dash) (take (maxLabelLength - 9) slug) @ ''-'' @ shortHash sha x 8 else slug)"
    have "label_shape slug1 \<and> length slug1 \<le> maxLabelLength"
    proof (cases "length slug > maxLabelLength")
      case True
      have "label_shape (trim_right (\<lambda>c. c = dash) (take (maxLabelLength - 9) slug))"
        using shape label_shape_chars [OF shape] by (intro label_shape_cut) (auto simp: label_shape_def maxLabelLength_def)
      then have "label_shape (trim_right (\<lambda>c. c = dash) (take (maxLabelLength - 9) slug) @ ''-'' @ shortHash sha x 8)"
        using assms by (intro label_shape_dash label_shape_hash) simp_all
      moreover have "length (trim_right (\<lambda>c. c = dash) (take (maxLabelLength - 9) slug)) \<le> 54"
        using length_cut [of "\<lambda>c. c = dash" "maxLabelLength - 9" slug] by (simp add: maxLabelLength_def)
      ultimately show ?thesis using True length_shortHash [OF assms, of 8 x] by (simp add: slug1_def maxLabelLength_def)
    qed (use shape in \<open>simp add: slug1_def\<close>)
    moreover from this have "is_alnum (hd slug1)" by (simp add: label_shape_def)
    moreover from this have "slugFrom sha x lowered = slug1" using False
      by (simp add: slugFrom_def slug_def [symmetric] slug1_def [symmetric] Let_def)
    ultimately show ?thesis by (auto simp: ValidLabel_def label_shape_def)
  qed
qed

section \<open>Namespaces and object names\<close>

text \<open>The namespace of an environment is a valid label for any valid team and project slug and
  an environment slug of any length, a branch name in front of which the panel has put a word included.\<close>
theorem namespace_is_valid:
  assumes "sha_size sha" "label_shape team" "label_shape project" "label_shape env"
  shows "ValidLabel (NamespaceFor sha team project env)"
proof -
  define full where "full = team @ ''-'' @ project @ ''-'' @ env"
  define suf where "suf = ''-'' @ env @ ''-'' @ shortHash sha full 6"
  have full: "label_shape full" unfolding full_def using assms by (intro label_intros)
  have n: "NamespaceFor sha team project env = (if length full \<le> maxLabelLength \<and> ValidLabel full then full
      else if length suf \<ge> maxLabelLength then ''ns-'' @ shortHash sha full 16
      else trim_right (\<lambda>c. c = dash) (take (min (maxLabelLength - length suf) (length full)) full) @ suf)"
    by (simp add: NamespaceFor_def Let_def full_def suf_def)
  show ?thesis
  proof (cases "length full \<le> maxLabelLength \<and> ValidLabel full")
    case False
    show ?thesis
    proof (cases "length suf \<ge> maxLabelLength")
      case True
      have "is_alnum (CHR ''n'')" "is_alnum (CHR ''s'')" by code_simp code_simp
      then have "label_shape ''ns''" by (simp add: label_shape_def)
      then have "label_shape (''ns'' @ ''-'' @ shortHash sha full 16)" using assms(1) by (intro label_intros) simp_all
      then show ?thesis using False True length_shortHash [OF assms(1), of 16 full]
        by (simp add: n ValidLabel_def maxLabelLength_def)
    next
      case short: False
      let ?k = "min (maxLabelLength - length suf) (length full)"
      have k: "0 < ?k" using short full by (auto simp: label_shape_def)
      have head: "label_shape (trim_right (\<lambda>c. c = dash) (take ?k full))"
        using full k label_shape_chars [OF full] by (intro label_shape_cut) (auto simp: label_shape_def)
      have "label_shape (trim_right (\<lambda>c. c = dash) (take ?k full) @ ''-'' @ env @ ''-'' @ shortHash sha full 6)"
        using head assms by (intro label_intros) simp_all
      moreover have "length (trim_right (\<lambda>c. c = dash) (take ?k full) @ suf) \<le> maxLabelLength"
        using length_cut [of "\<lambda>c. c = dash" ?k full] short by (simp only: length_append)
      ultimately have "ValidLabel (trim_right (\<lambda>c. c = dash) (take ?k full) @ suf)"
        by (auto simp: ValidLabel_def suf_def)
      then show ?thesis using False short by (simp add: n)
    qed
  qed (simp add: n)
qed

text \<open>An object name made of a valid slug and a suffix of at most fifty-four characters is a
  valid label, also when the two together are too long.\<close>
theorem resource_name_is_valid:
  assumes "sha_size sha" "ValidLabel app" "label_shape suf" "length suf \<le> 54"
  shows "ValidLabel (ResourceName sha app suf)"
proof (cases "length (app @ ''-'' @ suf) \<le> maxLabelLength")
  case True
  have "label_shape (app @ ''-'' @ suf)" using assms by (intro label_intros) (simp_all add: ValidLabel_def)
  then show ?thesis using True assms(3) by (auto simp: ResourceName_def Let_def ValidLabel_def label_shape_def)
next
  case False
  let ?k = "maxLabelLength - length suf - 8"
  have app: "label_shape app" using assms(2) by (simp add: ValidLabel_def)
  have k: "0 < ?k" "int maxLabelLength - int (length suf) - 8 \<ge> 1" using assms(4) by (auto simp: maxLabelLength_def)
  have r: "ResourceName sha app suf = trim_right (\<lambda>c. c = dash) (take ?k app) @ ''-'' @ shortHash sha app 6 @ ''-'' @ suf"
    using False k assms(3) by (auto simp: ResourceName_def Let_def label_shape_def)
  have "label_shape (trim_right (\<lambda>c. c = dash) (take ?k app))"
    using app k label_shape_chars [OF app] by (intro label_shape_cut) (auto simp: label_shape_def)
  then have "label_shape (trim_right (\<lambda>c. c = dash) (take ?k app) @ ''-'' @ shortHash sha app 6 @ ''-'' @ suf)"
    using assms by (intro label_intros) simp_all
  moreover have "length (trim_right (\<lambda>c. c = dash) (take ?k app)) \<le> ?k" by (rule length_cut)
  then have "length (ResourceName sha app suf) \<le> maxLabelLength"
    unfolding r using k(1) length_shortHash [OF assms(1), of 6 app] by simp
  ultimately show ?thesis using r by (auto simp: ValidLabel_def label_shape_def)
qed

section \<open>Automatic addresses and variable names\<close>

lemma autoLabel_valid:
  assumes "sha_size sha" "label_shape app" "env = [] \<or> label_shape env" "disc = [] \<or> label_shape disc"
  shows "ValidLabel (autoLabel sha app env disc)"
proof -
  define l1 where "l1 = (if env \<noteq> [] \<and> env \<noteq> ''production'' then app @ ''-'' @ env else app)"
  define l2 where "l2 = (if disc \<noteq> [] then l1 @ ''-'' @ disc else l1)"
  have label: "autoLabel sha app env disc = (if length l2 > maxLabelLength
      then trim_right (\<lambda>c. c = dash) (take (maxLabelLength - 7) l2) @ ''-'' @ shortHash sha l2 6 else l2)"
    unfolding autoLabel_def Let_def l1_def l2_def by (rule refl)
  have "label_shape l1" using assms by (auto simp: l1_def simp del: append.simps intro!: label_intros)
  then have l2: "label_shape l2" using assms by (auto simp: l2_def simp del: append.simps intro!: label_intros)
  show ?thesis
  proof (cases "length l2 > maxLabelLength")
    case True
    let ?t = "trim_right (\<lambda>c. c = dash) (take (maxLabelLength - 7) l2)"
    have "label_shape ?t" using l2 label_shape_chars [OF l2] by (intro label_shape_cut) (auto simp: label_shape_def maxLabelLength_def)
    then have "label_shape (?t @ ''-'' @ shortHash sha l2 6)" using assms(1) by (intro label_intros) simp_all
    moreover have "length ?t \<le> 56" using length_cut [of "\<lambda>c. c = dash" "maxLabelLength - 7" l2] by (simp add: maxLabelLength_def)
    moreover have "autoLabel sha app env disc = ?t @ ''-'' @ shortHash sha l2 6" using True by (simp only: label if_True)
    ultimately show ?thesis using length_shortHash [OF assms(1), of 6 l2] by (simp add: ValidLabel_def maxLabelLength_def)
  next
    case False
    then have "autoLabel sha app env disc = l2" by (simp only: label if_False)
    then show ?thesis using False l2 by (auto simp: ValidLabel_def label_shape_def)
  qed
qed

lemma checkEnvChars_None:
  "checkEnvChars first s = None \<longleftrightarrow> (\<forall>c \<in> set s. let n = of_char c :: int in
     65 \<le> n \<and> n \<le> 90 \<or> n = 95 \<or> 97 \<le> n \<and> n \<le> 122 \<or> 48 \<le> n \<and> n \<le> 57)
   \<and> (first \<and> s \<noteq> [] \<longrightarrow> \<not> (let n = of_char (hd s) :: int in 48 \<le> n \<and> n \<le> 57))"
  by (induction first s rule: checkEnvChars.induct) (auto simp: Let_def)

section \<open>Concrete names\<close>

definition toy_sha :: "string \<Rightarrow> string" where
  "toy_sha x = take 32 (x @ replicate 32 (CHR 0x00))"

lemma toy_sha_size: "sha_size toy_sha"
  by (auto simp: sha_size_def toy_sha_def min_def)

theorem slug_is_valid_witness: "ValidLabel (slugFrom toy_sha ''Tegar's Shop!'' ''tegar's shop!'')"
  by (rule slug_is_valid [OF toy_sha_size])

theorem namespace_is_valid_witness: "ValidLabel (NamespaceFor toy_sha ''acme'' ''shop'' (replicate 70 (CHR ''a'')))"
proof (rule namespace_is_valid [OF toy_sha_size])
  show "label_shape ''acme''" by code_simp
  show "label_shape ''shop''" by code_simp
  show "label_shape (replicate 70 (CHR ''a''))" by code_simp
qed

theorem resource_name_is_valid_witness: "ValidLabel (ResourceName toy_sha (replicate 63 (CHR ''a'')) ''hpa'')"
proof (rule resource_name_is_valid [OF toy_sha_size])
  show "ValidLabel (replicate 63 (CHR ''a''))" by code_simp
  show "label_shape ''hpa''" by code_simp
  show "length ''hpa'' \<le> 54" by simp
qed

text \<open>
  A longer suffix, as the slug of a volume or of a scheduled job can be, gives a
  name that is too long: the branch for it keeps the whole suffix.
\<close>

lemma resource_name_too_long:
  "ValidLabel (replicate 60 (CHR ''b'')) \<and> length (ResourceName toy_sha ''shop'' (replicate 60 (CHR ''b''))) = 77"
proof
  show "ValidLabel (replicate 60 (CHR ''b''))" by code_simp
  show "length (ResourceName toy_sha ''shop'' (replicate 60 (CHR ''b''))) = 77" by code_simp
qed

text \<open>
  Slugs may hold dashes, so where one ends and the next begins is not part of
  the name: two teams can want the same namespace.
\<close>

lemma namespaces_collide: "NamespaceFor sha ''acme-web'' ''shop'' ''production'' = NamespaceFor sha ''acme'' ''web-shop'' ''production''"
  by (simp add: NamespaceFor_def)

end
