(* ===== verification/Webhooks.thy ===== *)
theory Webhooks
  imports Deploy_Runs Git_Sources Naming
begin

text \<open>
  What a Git host may set in motion, \<^verbatim>\<open>internal/api/webhook_handlers.go\<close>: verifying a
  webhook under the secret of its connection, finding the apps it is about, and
  deploying them, or the preview of a pull request. The handlers run on the state of
  the deployer, which they call. The table of Git connections is only read, and is a
  parameter, as are the libraries of \<^verbatim>\<open>Git_Sources\<close>, the random bytes of each sealing
  and the outcome of deleting a namespace.
\<close>

section \<open>The request\<close>

record GitSource =
  gsID :: string
  gsTeamID :: string
  gsKind :: string
  gsName :: string
  gsBaseURL :: string
  gsAccount :: string
  ConfigEnc :: string
  gsCreatedAt :: instant
  gsUpdatedAt :: instant

record hook =
  hkWorld :: world
  hkLib :: git_lib
  hkSources :: "GitSource list"
  hkDeployer :: bool
  hkSha :: "string \<Rightarrow> string"
  hkConfig :: "string \<Rightarrow> (string \<times> string) list option"
  hkDraws :: "string \<Rightarrow> string option \<times> string option \<times> string option"
  deleteNamespaceOut :: "string \<Rightarrow> run_err + unit"

record webhookResult =
  wrStatus :: string
  Deployments :: "string list"
  Skipped :: "string list"

definition storedSource :: "hook \<Rightarrow> string \<Rightarrow> GitSource option" where
  "storedSource h i = find (\<lambda>g. gsID g = i) (hkSources h)"

definition GetGitSource :: "hook \<Rightarrow> string \<Rightarrow> GitSource panel_op" where
  "GetGitSource h i = query (\<lambda>_. found (storedSource h i))"

section \<open>Verification\<close>

definition configValue :: "(string \<times> string) list \<Rightarrow> string \<Rightarrow> string" where
  "configValue config key = (case map_of config key of None \<Rightarrow> [] | Some v \<Rightarrow> v)"

definition webhookSecretFor :: "hook \<Rightarrow> GitSource \<Rightarrow> string + string" where
  "webhookSecretFor h g = (if ConfigEnc g = [] then Inl ''this Git connection has no stored credentials''
     else case Open (wCipher (hkWorld h)) (wKeyring (hkWorld h)) (ConfigEnc g) (''git_source:'' @ gsTeamID g @ '':'' @ gsName g) of
       Inl _ \<Rightarrow> Inl ''open''
     | Inr raw \<Rightarrow> (case hkConfig h raw of None \<Rightarrow> Inl ''json''
         | Some config \<Rightarrow> Inr (if configValue config ''webhook_secret'' \<noteq> [] then configValue config ''webhook_secret'' else configValue config ''token'')))"

definition verified :: "hook \<Rightarrow> (string \<Rightarrow> string) \<Rightarrow> GitSource \<Rightarrow> string \<Rightarrow> string \<Rightarrow> bool" where
  "verified h hdr g secret body \<longleftrightarrow> (if gsKind g = ''gitlab'' then VerifyGitLabToken secret (hdr ''X-Gitlab-Token'') = None
     else if gsKind g = ''gitea'' \<and> hdr ''X-Hub-Signature-256'' = [] then VerifyGiteaSignature (hkLib h) secret body (hdr ''X-Gitea-Signature'') = None
     else VerifyGitHubSignature (hkLib h) secret body (hdr ''X-Hub-Signature-256'') = None)"

definition verifyWebhook :: "hook \<Rightarrow> (string \<Rightarrow> string) \<Rightarrow> GitSource \<Rightarrow> string \<Rightarrow> bool" where
  "verifyWebhook h hdr g body = (case webhookSecretFor h g of Inl _ \<Rightarrow> False | Inr secret \<Rightarrow> verified h hdr g secret body)"

definition unverified :: Problem where
  "unverified = WithStatus 401 (WithFix ''Check that the secret in your Git host's webhook settings matches the one in Skifity.'' []
     (WithImpact ''No deploy was started.'' []
     (WithCause ''The signature on the request does not match this connection's webhook secret.'' []
       (New ''webhook.unverified'' ''This webhook could not be verified''))))"

section \<open>Previews\<close>

definition previewRef :: "hook \<Rightarrow> PushEvent \<Rightarrow> string" where
  "previewRef h ev = (if PullRequest ev > 0 then ''pr-'' @ itoa (PullRequest ev) else ''branch-'' @ Slugify (hkSha h) (SourceBranch ev))"

definition previewName :: "PushEvent \<Rightarrow> string" where
  "previewName ev = (if PullRequest ev > 0 then ''Pull request #'' @ itoa (PullRequest ev) else ''Branch '' @ trim_space (SourceBranch ev))"

definition variableContext :: "string \<Rightarrow> string \<Rightarrow> string" where
  "variableContext app key = ''variable:'' @ app @ '':'' @ key"

definition reseal :: "hook \<Rightarrow> string \<Rightarrow> string \<Rightarrow> variableRow \<Rightarrow> run_err + string" where
  "reseal h from to r = (case Open (wCipher (hkWorld h)) (wKeyring (hkWorld h)) (vSealed r) (variableContext from (vKey r)) of
       Inl _ \<Rightarrow> Inl (OtherE ''open'')
     | Inr plain \<Rightarrow> (case hkDraws h (variableContext to (vKey r)) of (dek, n1, n2) \<Rightarrow>
         (case Seal (wCipher (hkWorld h)) dek n1 n2 (wKeyring (hkWorld h)) plain (variableContext to (vKey r)) of
            Inl _ \<Rightarrow> Inl (OtherE ''seal'') | Inr sealed \<Rightarrow> Inr sealed)))"

definition copyOf :: "string \<Rightarrow> variableRow \<Rightarrow> Variable" where
  "copyOf to r = \<lparr>vID = [], vAppID = to, vKey = vKey r, IsSecret = IsSecret r, BuildTime = BuildTime r,
     vCreatedAt = zero_time, vUpdatedAt = zero_time\<rparr>"

fun copyRows :: "hook \<Rightarrow> string \<Rightarrow> string \<Rightarrow> bool \<Rightarrow> variableRow list \<Rightarrow> unit run_op" where
  "copyRows h from to fork [] = ret ()"
| "copyRows h from to fork (r # rs) = (if fork \<and> IsSecret r then copyRows h from to fork rs
     else bind (lift (reseal h from to r)) (\<lambda>sealed. bind (call ReqCtx (SetVariable (copyOf to r) sealed)) (\<lambda>_. copyRows h from to fork rs)))"

definition copyPreviewVariables :: "hook \<Rightarrow> string \<Rightarrow> string \<Rightarrow> bool \<Rightarrow> unit run_op" where
  "copyPreviewVariables h from to fork = bind (call ReqCtx (ListVariables from)) (copyRows h from to fork)"

definition previewEnvironment :: "hook \<Rightarrow> Team \<Rightarrow> Project \<Rightarrow> PushEvent \<Rightarrow> Environment" where
  "previewEnvironment h team project ev = \<lparr>eID = [], eProjectID = pID project, eName = previewName ev, eSlug = previewRef h ev, eKind = ''preview'',
     Namespace = NamespaceFor (hkSha h) (teamSlug team) (pSlug project) (previewRef h ev), SourceRef = previewRef h ev, PodSecurity = [],
     eCreatedAt = zero_time\<rparr>"

definition ensurePreview :: "hook \<Rightarrow> Team \<Rightarrow> Project \<Rightarrow> PushEvent \<Rightarrow> Environment run_op" where
  "ensurePreview h team project ev = handle (call ReqCtx (onTeam (FindEnvironmentBySourceRef (pID project) (previewRef h ev)))) (\<lambda>r. case r of
     Inr e \<Rightarrow> ret e
   | Inl _ \<Rightarrow> bind (call ReqCtx (onTeam (CreateEnvironment (previewEnvironment h team project ev)))) (\<lambda>e.
       if wClustered (hkWorld h) then bind (extern ReqCtx (namespaceOut (hkWorld h) e)) (\<lambda>_. ret e) else ret e))"

definition previewCopy :: "App \<Rightarrow> Environment \<Rightarrow> PushEvent \<Rightarrow> App" where
  "previewCopy a e ev = a\<lparr>aID := [], aEnvironmentID := eID e, Branch := SourceBranch ev, PreviewDeploys := False, Autoscale := False, Replicas := 1\<rparr>"

definition ensurePreviewApp :: "hook \<Rightarrow> App \<Rightarrow> Environment \<Rightarrow> PushEvent \<Rightarrow> string run_op" where
  "ensurePreviewApp h a e ev = bind (call ReqCtx (ListApps (eID e))) (\<lambda>candidates. case find (\<lambda>c. aSlug c = aSlug a) candidates of
       Some c \<Rightarrow> ret (aID c)
     | None \<Rightarrow> bind (call ReqCtx (CreateApp (previewCopy a e ev))) (\<lambda>copy.
         bind (copyPreviewVariables h (aID a) (aID copy) (Fork ev)) (\<lambda>_. ret (aID copy))))"

definition deployRequest :: "string \<Rightarrow> string \<Rightarrow> PushEvent \<Rightarrow> DeployRequest" where
  "deployRequest app trigger ev = \<lparr>rqAppID = app, rqTrigger = trigger, rqCommitSHA = evCommitSHA ev, rqCreatedBy = ''webhook'', Force = False\<rparr>"

definition deployPreview :: "hook \<Rightarrow> App \<Rightarrow> PushEvent \<Rightarrow> string run_op" where
  "deployPreview h a ev = (if \<not> hkDeployer h then throw (OtherE ''deployments are not configured'')
     else bind (call ReqCtx (onTeam (GetEnvironment (aEnvironmentID a)))) (\<lambda>sourceEnv.
     bind (call ReqCtx (onTeam (GetProject (eProjectID sourceEnv)))) (\<lambda>project.
     bind (call ReqCtx (onTeam (GetTeam (pTeamID project)))) (\<lambda>team.
     bind (ensurePreview h team project ev) (\<lambda>e.
     bind (ensurePreviewApp h a e ev) (\<lambda>preview.
     bind (Deploy (hkWorld h) (deployRequest preview ''preview'' ev)) (\<lambda>d. ret (dID d))))))))"

definition cleanupPreviewFor :: "hook \<Rightarrow> App \<Rightarrow> PushEvent \<Rightarrow> unit run_op" where
  "cleanupPreviewFor h a ev = handle (call ReqCtx (onTeam (GetEnvironment (aEnvironmentID a)))) (\<lambda>r. case r of Inl _ \<Rightarrow> ret ()
     | Inr sourceEnv \<Rightarrow> handle (call ReqCtx (onTeam (FindEnvironmentBySourceRef (eProjectID sourceEnv) (previewRef h ev)))) (\<lambda>r. case r of Inl _ \<Rightarrow> ret ()
       | Inr e \<Rightarrow> andThen (if wClustered (hkWorld h) then extern ReqCtx (deleteNamespaceOut h (Namespace e)) else ret ())
           (ignore (call ReqCtx (onTeam (DeleteEnvironment (eID e)))))))"

section \<open>Dispatch\<close>

definition deployedBy :: "webhookResult \<Rightarrow> string \<Rightarrow> webhookResult" where
  "deployedBy res i = res\<lparr>Deployments := Deployments res @ [i]\<rparr>"

definition skippedFor :: "webhookResult \<Rightarrow> App \<Rightarrow> string \<Rightarrow> webhookResult" where
  "skippedFor res a why = res\<lparr>Skipped := Skipped res @ [aName a @ '' ('' @ why @ '')'']\<rparr>"

definition watchedBranch :: "App \<Rightarrow> string" where
  "watchedBranch a = (if Branch a = [] then ''main'' else Branch a)"

definition pushTo :: "hook \<Rightarrow> App \<Rightarrow> PushEvent \<Rightarrow> webhookResult \<Rightarrow> webhookResult run_op" where
  "pushTo h a ev res = (if Deleted ev then bind (cleanupPreviewFor h a ev) (\<lambda>_. ret res)
     else if evBranch ev \<noteq> watchedBranch a then ret (skippedFor res a (''watches '' @ watchedBranch a))
     else if \<not> hkDeployer h then ret res
     else handle (Deploy (hkWorld h) (deployRequest (aID a) ''push'' ev)) (\<lambda>r. case r of Inl _ \<Rightarrow> ret res | Inr d \<Rightarrow> ret (deployedBy res (dID d))))"

definition dispatchOne :: "hook \<Rightarrow> GitSource \<Rightarrow> PushEvent \<Rightarrow> App \<Rightarrow> webhookResult \<Rightarrow> webhookResult run_op" where
  "dispatchOne h g ev a res = handle (call ReqCtx (onTeam (TeamIDForApp (aID a)))) (\<lambda>t.
     if t \<noteq> Inr (gsTeamID g) then ret res
     else if \<not> AutoDeploy a then ret (skippedFor res a ''deploy on push is off'')
     else if evKind ev = ''push'' then pushTo h a ev res
     else if evKind ev = ''pull_request_opened''
       then (if \<not> PreviewDeploys a then ret (skippedFor res a ''preview environments are off'')
         else handle (deployPreview h a ev) (\<lambda>r. case r of Inl _ \<Rightarrow> ret res | Inr i \<Rightarrow> ret (deployedBy res i)))
     else if evKind ev = ''pull_request_closed'' then bind (cleanupPreviewFor h a ev) (\<lambda>_. ret res)
     else ret res)"

fun dispatchAll :: "hook \<Rightarrow> GitSource \<Rightarrow> PushEvent \<Rightarrow> App list \<Rightarrow> webhookResult \<Rightarrow> webhookResult run_op" where
  "dispatchAll h g ev [] res = ret res"
| "dispatchAll h g ev (a # as) res = bind (dispatchOne h g ev a res) (dispatchAll h g ev as)"

definition dispatchGitEvent :: "hook \<Rightarrow> GitSource \<Rightarrow> PushEvent \<Rightarrow> webhookResult run_op" where
  "dispatchGitEvent h g ev = (let answer = (\<lambda>status. \<lparr>wrStatus = status, Deployments = [], Skipped = []\<rparr>) in
     handle (call ReqCtx (ListAppsByRepo (evRepoURL ev))) (\<lambda>r. case r of Inl _ \<Rightarrow> ret (answer ''error'')
     | Inr as \<Rightarrow> if as = [] then ret (answer ''no matching apps'') else dispatchAll h g ev as (answer ''accepted'')))"

datatype webhook_answer = Ignored | Pong | Accepted webhookResult

definition parseProblem :: "webhook_err \<Rightarrow> string" where
  "parseProblem e = (case e of NoEventHeader \<Rightarrow> ''this request has no event header, so Skifity cannot tell which Git host sent it''
     | BadPayload what \<Rightarrow> what | _ \<Rightarrow> [])"

text \<open>\<^verbatim>\<open>body\<close> is what could be read of the request, nothing when reading failed or it was over 5 MiB.\<close>

definition answerWebhook :: "hook \<Rightarrow> GitSource \<Rightarrow> (string \<Rightarrow> string) \<Rightarrow> string option \<Rightarrow> webhook_answer run_op" where
  "answerWebhook h g hdr body = (case body of None \<Rightarrow> throw (ProbE (BadRequest ''The webhook payload could not be read.''))
     | Some text \<Rightarrow> if \<not> verifyWebhook h hdr g text then throw (ProbE unverified)
         else (case ParseWebhook (hkLib h) hdr text of Inl ErrUnsupportedEvent \<Rightarrow> ret Ignored
           | Inl e \<Rightarrow> throw (ProbE (BadRequest (parseProblem e)))
           | Inr ev \<Rightarrow> if evKind ev = ''ping'' then ret Pong else bind (dispatchGitEvent h g ev) (\<lambda>res. ret (Accepted res))))"

definition handleGitWebhook :: "hook \<Rightarrow> string \<Rightarrow> (string \<Rightarrow> string) \<Rightarrow> string option \<Rightarrow> webhook_answer run_op" where
  "handleGitWebhook h sourceID hdr body = handle (call ReqCtx (GetGitSource h sourceID)) (\<lambda>r. case r of
       Inl _ \<Rightarrow> throw (ProbE (NotFound ''git source'' sourceID))
     | Inr g \<Rightarrow> answerWebhook h g hdr body)"


section \<open>A request nobody interferes with\<close>

text \<open>Nothing but the request itself runs, and an assertion holds of the tables; the store may still fail.\<close>

definition quiet :: "(panel_db \<Rightarrow> bool) \<Rightarrow> run_db \<Rightarrow> bool" where
  "quiet Q s \<longleftrightarrow> meddling s = [] \<and> Q (panel s)"

lemma quiet_call: "keeps Q m \<Longrightarrow> keeps (quiet Q) (call ReqCtx m)"
  by (simp add: keeps_def quiet_def call_still snd_wrap)

lemma quiet_extern: "keeps (quiet Q) (extern ReqCtx out)"
  by (simp add: keeps_def quiet_def extern_def meddle_def ctxErr_def)

lemma quiet_lift: "keeps P (lift x)"
  by (simp add: lift_def keeps_ret keeps_throw split: sum.splits)

lemma quiet_start: "keeps (quiet Q) (start i)"
  by (simp add: keeps_def quiet_def start_def)

lemma quiet_stopAll: "keeps (quiet Q) (stopAll is')"
proof (induction is')
  case (Cons i is')
  have "keeps (quiet Q) (stop i)" by (simp add: keeps_def quiet_def stop_def setDone_def)
  with Cons show ?case by (simp add: andThen_def keeps_handle)
qed (simp add: keeps_ret)

lemma keeps_as_leads: "keeps P m = leads P m (\<lambda>_. P)"
  by (simp add: keeps_def leads_def)

lemma GetApp_id: "fst (call c (GetApp i) s) = Inr a \<Longrightarrow> aID a = i"
  by (auto simp: call_def wrap_def onPanel_def GetApp_def query_def stmt_def found_def Let_def find_Some_iff
      split: option.splits prod.splits sum.splits list.splits bool.splits if_splits)

text \<open>An assertion about the tables that every read keeps.\<close>

locale quiet_reads =
  fixes Q :: "panel_db \<Rightarrow> bool"
  assumes read: "keeps Q (stmt (ret ()))"
    and team_read: "keeps Q (onTeam (stmt (ret ())))"
    and deploy_read: "keeps Q (onDeploy (stmt (ret ())))"
begin

lemma reading: "keeps Q (query f)"
  using read by (simp add: keeps_def snd_query)

lemma team_reading: "keeps Q (onTeam (query f))"
  using team_read by (simp add: keeps_def snd_onTeam_query)

lemma deploy_reading: "keeps Q (onDeploy (query f))"
  using deploy_read by (simp add: keeps_def snd_onDeploy_query)

lemma deploy_refusing: "keeps Q (onDeploy (throw e))"
  unfolding keeps_def
proof (intro allI impI)
  fix p assume "Q p"
  then show "Q (snd (onDeploy (throw e) p))" by (cases p) (simp add: onDeploy_def throw_def deploy_view_def)
qed

lemmas quiet_ops = quiet_call [OF reading] quiet_call [OF team_reading] quiet_call [OF deploy_reading] quiet_call [OF deploy_refusing]
  quiet_extern quiet_lift quiet_start quiet_stopAll

lemmas read_defs = GetApp_def GetEnvironment_def GetProject_def GetTeam_def ListVariables_def ListDomains_def TeamIDForApp_def
  FindEnvironmentBySourceRef_def ListApps_def ListAppsByRepo_def queryApps_def

lemma quiet_prepared: "keeps (quiet Q) (buildTimeVariables w ReqCtx a)" "keeps (quiet Q) (runtimeSpec w a)"
  unfolding buildTimeVariables_def runtimeSpec_def read_defs by (intro keeps_intros quiet_ops)+

lemma leads_quiet_reuse: "leads (quiet Q) (reuse rq a fp d0) (\<lambda>r s. quiet Q s \<and> (\<forall>d. r = Inr d \<longrightarrow> dAppID d = dAppID d0))"
proof -
  have "keeps (quiet Q) (reuse rq a fp d0)"
    unfolding reuse_def FindDeploymentByFingerprint_def
    by (cases "fp = []") (auto intro!: keeps_intros quiet_ops)
  moreover have "fst (reuse rq a fp d0 s) = Inr d \<Longrightarrow> dAppID d = dAppID d0" for s d
    by (auto simp: reuse_def ret_def handle_def split: prod.splits sum.splits if_splits)
  ultimately show ?thesis by (auto simp: leads_def keeps_def)
qed

lemma quiet_Deploy:
  assumes "\<And>d. dAppID d = rqAppID rq \<Longrightarrow> keeps Q (onDeploy (CreateDeployment d))"
    and "\<And>j. keeps Q (onDeploy (SupersedeRunningDeployments (rqAppID rq) j))"
  shows "keeps (quiet Q) (Deploy w rq)"
proof -
  have created: "keeps (quiet Q) (bind (call ReqCtx (onDeploy (CreateDeployment d0))) (\<lambda>d.
     handle (call ReqCtx (onDeploy (SupersedeRunningDeployments (rqAppID rq) (dID d)))) (\<lambda>r.
     andThen (stopAll (case r of Inl _ \<Rightarrow> [] | Inr ids \<Rightarrow> ids)) (andThen (start (dID d)) (ret d)))))" if "dAppID d0 = rqAppID rq" for d0
    unfolding andThen_def by (intro keeps_intros quiet_ops quiet_call [OF assms(1) [OF that]] quiet_call [OF assms(2)])
  have found: "leads (quiet Q) (call ReqCtx (GetApp (rqAppID rq))) (\<lambda>r s. quiet Q s \<and> (\<forall>a. r = Inr a \<longrightarrow> aID a = rqAppID rq))"
    using quiet_call [OF reading] GetApp_id [of ReqCtx "rqAppID rq"] by (auto simp: leads_def keeps_def GetApp_def)
  have rest: "keeps (quiet Q) (bind (reuse rq a fp d0) (\<lambda>d0. bind (call ReqCtx (onDeploy (CreateDeployment (if SourceType a = ''image'' then d0\<lparr>Image := aImage a\<rparr> else d0)))) (\<lambda>d.
     handle (call ReqCtx (onDeploy (SupersedeRunningDeployments (rqAppID rq) (dID d)))) (\<lambda>r.
     andThen (stopAll (case r of Inl _ \<Rightarrow> [] | Inr ids \<Rightarrow> ids)) (andThen (start (dID d)) (ret d))))))" if "dAppID d0 = rqAppID rq" for a fp d0
    unfolding keeps_as_leads
  proof (rule leads_bind [OF leads_quiet_reuse], goal_cases)
    case (2 d)
    then show ?case using created [of "if SourceType a = ''image'' then d\<lparr>Image := aImage a\<rparr> else d"] that
      by (auto simp: keeps_def leads_def)
  qed simp
  have body: "keeps (quiet Q) (bind (call ReqCtx (onTeam (GetEnvironment (aEnvironmentID a)))) (\<lambda>_.
     bind (lift (if SourceType a = ''upload'' then uploadToDeploy w a (rqCommitSHA rq) else Inr (rqCommitSHA rq))) (\<lambda>commit.
     bind (buildTimeVariables w ReqCtx a) (\<lambda>args. bind (runtimeSpec w a) (\<lambda>spec.
     bind (reuse rq a (fingerprintOf w a commit args) (noDeployment\<lparr>dAppID := aID a, Status := DeployQueued, Trigger := rqTrigger rq,
         CommitSHA := commit, BuildFingerprint := fingerprintOf w a commit args, RuntimeSpec := spec, CreatedBy := rqCreatedBy rq\<rparr>)) (\<lambda>d0.
     bind (call ReqCtx (onDeploy (CreateDeployment (if SourceType a = ''image'' then d0\<lparr>Image := aImage a\<rparr> else d0)))) (\<lambda>d.
     handle (call ReqCtx (onDeploy (SupersedeRunningDeployments (aID a) (dID d)))) (\<lambda>r.
     andThen (stopAll (case r of Inl _ \<Rightarrow> [] | Inr ids \<Rightarrow> ids)) (andThen (start (dID d)) (ret d))))))))))" if "aID a = rqAppID rq" for a
    unfolding that GetEnvironment_def by (intro keeps_bind quiet_ops quiet_prepared rest) (simp add: noDeployment_def)
  show ?thesis unfolding Deploy_def Let_def keeps_as_leads
    by (rule leads_bind [OF found]) (use body in \<open>auto simp: leads_def keeps_def\<close>)
qed

end


section \<open>A fork is given no secret\<close>

definition unsecret :: "variableRow set \<Rightarrow> panel_db \<Rightarrow> bool" where
  "unsecret V p \<longleftrightarrow> (\<forall>v \<in> set (app_variables p). IsSecret v \<longrightarrow> v \<in> V)"

interpretation unsecret_inv: env_free "unsecret V"
  by unfold_locales (simp_all add: unsecret_def)

lemma unsecret_onDeploy: "keeps (unsecret V) (onDeploy m)"
  by (simp add: keeps_def unsecret_def snd_onDeploy Let_def)

lemma unsecret_onTeam: "keeps (unsecret V) (onTeam m)"
  by (auto simp: keeps_def unsecret_def snd_onTeam cascade_def Let_def)

interpretation unsecret_reads: quiet_reads "unsecret V"
  by unfold_locales (intro unsecret_inv.keeps_stmt keeps_ret unsecret_onDeploy unsecret_onTeam)+

lemma unsecret_upsert: "\<not> IsSecret v \<Longrightarrow> keeps (unsecret V) (upsertVariable v)"
  by (auto simp: keeps_def unsecret_def upsertVariable_def elim!: update_rowsE)

lemma unsecret_SetVariable: "\<not> IsSecret v \<Longrightarrow> keeps (unsecret V) (SetVariable v sealed)"
  unfolding SetVariable_def idOr_def
  by (intro keeps_intros unsecret_inv.keeps_env unsecret_upsert) (simp_all add: Variable.defs variableRow.defs)

lemma unsecret_CreateApp: "keeps (unsecret V) (CreateApp a)"
  unfolding CreateApp_def idOr_def
  by (intro keeps_intros unsecret_inv.keeps_env) (simp_all add: keeps_def unsecret_def insertApp_def)

lemma unsecret_copyRows: "keeps (quiet (unsecret V)) (copyRows h from to True rs)"
proof (induction rs)
  case (Cons r rs)
  have "keeps (quiet (unsecret V)) (call ReqCtx (SetVariable (copyOf to r) sealed))" if "\<not> IsSecret r" for sealed
    using that by (intro quiet_call unsecret_SetVariable) (simp add: copyOf_def)
  with Cons show ?case by (auto intro!: keeps_intros quiet_lift)
qed (simp add: keeps_ret)

lemma unsecret_copy: "keeps (quiet (unsecret V)) (copyPreviewVariables h from to True)"
  unfolding copyPreviewVariables_def ListVariables_def
  by (intro keeps_intros unsecret_reads.quiet_ops unsecret_copyRows)

lemma unsecret_preview: "Fork ev \<Longrightarrow> keeps (quiet (unsecret V)) (deployPreview h a ev)"
  unfolding deployPreview_def ensurePreview_def ensurePreviewApp_def unsecret_reads.read_defs
  by (auto intro!: keeps_intros unsecret_reads.quiet_ops unsecret_reads.quiet_Deploy unsecret_copy quiet_call unsecret_onTeam unsecret_onDeploy
      unsecret_CreateApp)



section \<open>A push deploys the apps that watch it\<close>

definition teamOfApp :: "string \<Rightarrow> panel_db \<Rightarrow> string option" where
  "teamOfApp i p = Option.bind (map_of (app_rows (team_view p)) i) (\<lambda>e. teamOfEnvironment e (team_view p))"

definition watchers :: "GitSource \<Rightarrow> PushEvent \<Rightarrow> panel_db \<Rightarrow> string set" where
  "watchers g ev p = aID ` {a \<in> set (apps p). RepoURL a = evRepoURL ev \<and> AutoDeploy a \<and> watchedBranch a = evBranch ev
     \<and> teamOfApp (aID a) p = Some (gsTeamID g)}"

definition others :: "string set \<Rightarrow> deploy_db \<Rightarrow> deployment_row list" where
  "others S d = filter (\<lambda>r. dAppID r \<notin> S) (deployments d)"

text \<open>The tables a push only reads, and the deployments of the other apps.\<close>

definition spares :: "string set \<Rightarrow> panel_db \<Rightarrow> panel_db \<Rightarrow> bool" where
  "spares S p0 p \<longleftrightarrow> apps_ok p \<and> apps p = apps p0 \<and> environments p = environments p0 \<and> projects p = projects p0
     \<and> others S (deploy_view p) = others S (deploy_view p0)"

interpretation spares_inv: env_free "spares S p0"
  by unfold_locales (simp_all add: spares_def others_def deploy_view_def
    apps_inv.P_clock apps_inv.P_pauses apps_inv.P_faults apps_inv.P_entropy)

interpretation team_same: env_free "\<lambda>s :: team_db. app_rows s = A \<and> environments s = E \<and> projects s = P"
  by unfold_locales simp_all

lemma team_view_same: "environments (team_view p) = environments p" "projects (team_view p) = projects p"
  "app_rows (team_view p) = map (\<lambda>a. (aID a, aEnvironmentID a)) (apps p)"
  by (simp_all add: team_view_def team_db.defs)

lemma onTeam_read_same:
  assumes "apps_ok p"
  shows "apps (snd (onTeam (stmt (ret ())) p)) = apps p" "environments (snd (onTeam (stmt (ret ())) p)) = environments p"
    "projects (snd (onTeam (stmt (ret ())) p)) = projects p"
proof -
  let ?t = "snd (stmt (ret ()) (team_view p))"
  have t: "app_rows ?t = app_rows (team_view p) \<and> environments ?t = environments p \<and> projects ?t = projects p"
    using team_same.keeps_stmt [OF keeps_ret, of "app_rows (team_view p)" "environments p" "projects p" "()"]
    by (simp add: keeps_def team_view_same)
  then have "filter (\<lambda>a. (aID a, aEnvironmentID a) \<in> set (app_rows ?t)) (apps p) = apps p"
    by (auto simp: team_view_same intro!: filter_True)
  with t show "apps (snd (onTeam (stmt (ret ())) p)) = apps p" "environments (snd (onTeam (stmt (ret ())) p)) = environments p"
    "projects (snd (onTeam (stmt (ret ())) p)) = projects p"
    by (simp_all add: snd_onTeam cascade_def Let_def)
qed

lemma spares_onDeploy:
  assumes "keeps deploy_ok m" "\<And>A. keeps (\<lambda>s. app_ids s = A) m" "\<And>X. keeps (\<lambda>d. others S d = X) m"
  shows "keeps (spares S p0) (onDeploy m)"
  unfolding keeps_def
proof (intro allI impI)
  fix p assume p: "spares S p0 p"
  then have "apps_ok (snd (onDeploy m p))" using keeps_onDeploy [OF assms(1,2)] by (simp add: keeps_def spares_def)
  moreover have "others S (deploy_view (snd (onDeploy m p))) = others S (snd (m (deploy_view p)))"
    by (simp add: others_def deploy_view_def snd_onDeploy Let_def)
  moreover have "others S (snd (m (deploy_view p))) = others S (deploy_view p)" using assms(3) by (simp add: keeps_def)
  ultimately show "spares S p0 (snd (onDeploy m p))" using p by (simp add: spares_def snd_onDeploy Let_def)
qed

interpretation others_inv: env_free "\<lambda>d. others S d = X"
  by unfold_locales (simp_all add: others_def)

interpretation spares_reads: quiet_reads "spares S p0"
proof unfold_locales
  show "keeps (spares S p0) (stmt (ret ()))" by (intro spares_inv.keeps_stmt keeps_ret)
  show "keeps (spares S p0) (onDeploy (stmt (ret ())))"
    by (intro spares_onDeploy deploy_inv.keeps_stmt ids_inv.keeps_stmt others_inv.keeps_stmt keeps_ret)
  show "keeps (spares S p0) (onTeam (stmt (ret ())))"
    unfolding keeps_def
  proof (intro allI impI)
    fix p assume p: "spares S p0 p"
    then have ok: "apps_ok p" by (simp add: spares_def)
    have "keeps apps_ok (onTeam (stmt (ret ())))" by (intro keeps_onTeam refs_inv.keeps_stmt keeps_ret)
    then show "spares S p0 (snd (onTeam (stmt (ret ())) p))"
      using p ok by (simp add: spares_def keeps_def onTeam_read_same onTeam_read_deps others_def deploy_view_def)
  qed
qed

lemma others_create: "dAppID d \<in> S \<Longrightarrow> keeps (\<lambda>d. others S d = X) (CreateDeployment d)"
  unfolding CreateDeployment_def numberAndInsert_def idOr_def
  by (intro keeps_intros others_inv.keeps_env)
    (simp_all add: keeps_def others_def insertDeployment_def withDefaults_def deployment_row_of_def Deployment.defs deployment_row.defs)

lemma others_supersede: "app \<in> S \<Longrightarrow> keeps (\<lambda>d. others S d = X) (SupersedeRunningDeployments app j)"
  unfolding SupersedeRunningDeployments_def
  by (intro keeps_intros others_inv.keeps_env)
    (auto simp: keeps_def others_def update_deployments_def others_running_def intro!: filter_spared_rows)

lemma spares_Deploy:
  assumes "rqAppID rq \<in> S" shows "keeps (quiet (spares S p0)) (Deploy w rq)"
proof (rule spares_reads.quiet_Deploy)
  have ign: "keeps P (ignore m) = keeps P m" for P :: "deploy_db \<Rightarrow> bool" and m :: "'z deploy_op"
    by (simp add: keeps_def ignore_def)
  show "keeps (spares S p0) (onDeploy (CreateDeployment d))" if "dAppID d = rqAppID rq" for d
    using that assms keeps_deploy_call [of "CreateDeploymentC d"] keeps_ids_call [of _ "CreateDeploymentC d"]
    by (intro spares_onDeploy others_create) (simp_all add: keeps_def ignore_def)
  show "keeps (spares S p0) (onDeploy (SupersedeRunningDeployments (rqAppID rq) j))" for j
    using assms keeps_deploy_call [of "SupersedeRunningDeploymentsC (rqAppID rq) j"] keeps_ids_call [of _ "SupersedeRunningDeploymentsC (rqAppID rq) j"]
    by (intro spares_onDeploy others_supersede) (simp_all add: keeps_def ignore_def)
qed

lemma teamOfApp_same:
  "apps p = apps p0 \<Longrightarrow> environments p = environments p0 \<Longrightarrow> projects p = projects p0 \<Longrightarrow> teamOfApp i p = teamOfApp i p0"
  by (simp add: teamOfApp_def team_view_same teamOfEnvironment_def cong: option.case_cong)

lemma teamOfEnvironment_env: "teamOfEnvironment e (s\<lparr>clock := c\<rparr>) = teamOfEnvironment e s"
  "teamOfEnvironment e (s\<lparr>pauses := p\<rparr>) = teamOfEnvironment e s" "teamOfEnvironment e (s\<lparr>faults := f\<rparr>) = teamOfEnvironment e s"
  by (simp_all add: teamOfEnvironment_def cong: option.case_cong)

lemma TeamIDForApp_reads:
  assumes "meddling s = []" "fst (call ReqCtx (onTeam (TeamIDForApp i)) s) = Inr t"
  shows "teamOfApp i (panel s) = Some t"
proof -
  have "fst (TeamIDForApp i (team_view (panel s))) = Inr t"
    using assms by (simp add: call_still wrap_def onPanel_def onTeam_def case_prod_beta split: sum.splits)
  then show ?thesis
    by (auto simp: TeamIDForApp_def query_def stmt_def found_def tick_def Let_def teamOfApp_def teamOfEnvironment_env
        split: list.splits bool.splits option.splits if_splits)
qed


lemma ListAppsByRepo_reads:
  assumes "meddling s = []" "fst (call ReqCtx (ListAppsByRepo repo) s) = Inr as"
  shows "set as \<subseteq> {a \<in> set (apps s). RepoURL a = repo}"
  using assms by (auto simp: call_still wrap_def onPanel_def ListAppsByRepo_def queryApps_def query_def stmt_def tick_def Let_def
      split: prod.splits sum.splits list.splits bool.splits if_splits)

lemma spares_dispatchOne:
  assumes "evKind ev = ''push''" "\<not> Deleted ev" "a \<in> set (apps p0)" "RepoURL a = evRepoURL ev" "S = watchers g ev p0"
  shows "keeps (quiet (spares S p0)) (dispatchOne h g ev a res)"
  unfolding dispatchOne_def keeps_as_leads
proof (rule leads_handle [where R = "\<lambda>r s. quiet (spares S p0) s \<and> (\<forall>t. r = Inr t \<longrightarrow> teamOfApp (aID a) p0 = Some t)"], goal_cases)
  case 1
  have "teamOfApp (aID a) p0 = Some t"
    if s: "quiet (spares S p0) s" and t: "fst (call ReqCtx (onTeam (TeamIDForApp (aID a))) s) = Inr t" for s t
  proof -
    have "teamOfApp (aID a) (panel s) = teamOfApp (aID a) p0" using s by (intro teamOfApp_same) (simp_all add: quiet_def spares_def)
    then show ?thesis using TeamIDForApp_reads [OF _ t] s by (simp add: quiet_def)
  qed
  moreover have "keeps (quiet (spares S p0)) (call ReqCtx (onTeam (TeamIDForApp (aID a))))"
    unfolding TeamIDForApp_def by (intro spares_reads.quiet_ops)
  ultimately show ?case by (simp add: leads_def keeps_def)
next
  case (2 r)
  show ?case
  proof (cases "r = Inr (gsTeamID g) \<and> AutoDeploy a \<and> evBranch ev = watchedBranch a \<and> teamOfApp (aID a) p0 = Some (gsTeamID g)")
    case True
    then have "aID a \<in> S" using assms(3-5) by (auto simp: watchers_def)
    then have "keeps (quiet (spares S p0)) (pushTo h a ev res)"
      unfolding pushTo_def using assms(2) by (auto intro!: keeps_intros spares_Deploy simp: deployRequest_def)
    then show ?thesis using True assms(1) by (auto simp: leads_def keeps_def)
  next
    case False
    have "keeps (quiet (spares S p0)) (pushTo h a ev res)" if "evBranch ev \<noteq> watchedBranch a"
      using that assms(2) by (auto simp: pushTo_def intro!: keeps_intros)
    then show ?thesis using False assms(1) by (auto simp: leads_def keeps_def ret_def)
  qed
qed

lemma spares_dispatchAll:
  assumes "evKind ev = ''push''" "\<not> Deleted ev" "set as \<subseteq> {a \<in> set (apps p0). RepoURL a = evRepoURL ev}" "S = watchers g ev p0"
  shows "keeps (quiet (spares S p0)) (dispatchAll h g ev as res)"
  using assms(3)
proof (induction as arbitrary: res)
  case (Cons a as)
  then show ?case using spares_dispatchOne [OF assms(1,2) _ _ assms(4)] by (auto intro!: keeps_bind)
qed (simp add: keeps_ret)

lemma spares_dispatch:
  assumes "evKind ev = ''push''" "\<not> Deleted ev" "S = watchers g ev p0"
  shows "keeps (quiet (spares S p0)) (dispatchGitEvent h g ev)"
  unfolding dispatchGitEvent_def Let_def keeps_as_leads
proof (rule leads_handle [where R = "\<lambda>r s. quiet (spares S p0) s \<and> (\<forall>as. r = Inr as \<longrightarrow> set as \<subseteq> {a \<in> set (apps p0). RepoURL a = evRepoURL ev})"], goal_cases)
  case 1
  have "keeps (quiet (spares S p0)) (call ReqCtx (ListAppsByRepo (evRepoURL ev)))"
    unfolding ListAppsByRepo_def queryApps_def by (intro spares_reads.quiet_ops)
  moreover have "set as \<subseteq> {a \<in> set (apps p0). RepoURL a = evRepoURL ev}"
    if "quiet (spares S p0) s" "fst (call ReqCtx (ListAppsByRepo (evRepoURL ev)) s) = Inr as" for s as
    using ListAppsByRepo_reads [OF _ that(2)] that(1) by (simp add: quiet_def spares_def)
  ultimately show ?case by (simp add: leads_def keeps_def)
next
  case (2 r)
  then show ?case using spares_dispatchAll [OF assms(1,2) _ assms(3)]
    by (cases r) (auto simp: leads_def keeps_def ret_def)
qed

lemma GetGitSource_found:
  "storedSource h i = Some g \<Longrightarrow> fst (call c (GetGitSource h i) s) = Inr g' \<Longrightarrow> g' = g"
  by (auto simp: call_def wrap_def onPanel_def GetGitSource_def query_def stmt_def found_def Let_def
      split: option.splits prod.splits sum.splits list.splits bool.splits if_splits)

lemma spares_webhook:
  assumes "storedSource h i = Some g" "keeps (quiet (spares S p0)) (answerWebhook h g hdr body)" "quiet (spares S p0) s"
  shows "quiet (spares S p0) (snd (handleGitWebhook h i hdr body s))"
proof -
  have "keeps (quiet (spares S p0)) (call ReqCtx (GetGitSource h i))"
    unfolding GetGitSource_def by (intro spares_reads.quiet_ops)
  then have "quiet (spares S p0) (snd (call ReqCtx (GetGitSource h i) s))" using assms(3) by (simp add: keeps_def)
  then show ?thesis using assms(2) GetGitSource_found [OF assms(1)]
    by (auto simp: handleGitWebhook_def handle_def throw_def keeps_def case_prod_beta split: sum.split)
qed



section \<open>Sample requests\<close>

definition sampleLib :: git_lib where
  "sampleLib = \<lparr>hmac256 = (\<lambda>k m. k @ m), urlParse = (\<lambda>_. None), urlString = (\<lambda>_. []), urlHostname = (\<lambda>_. []),
     readPush = (\<lambda>_. Some \<lparr>ghRef = ''refs/heads/main'', ghAfter = ''c1'', ghDeleted = False, ghCloneURL = ''https://git.example/shop'',
       ghHTMLURL = [], ghHead = None\<rparr>),
     readPullRequest = (\<lambda>_. None), readGitLabPush = (\<lambda>_. None), readMergeRequest = (\<lambda>_. None)\<rparr>"

definition sampleHook :: hook where
  "sampleHook = \<lparr>hkWorld = sampleWorld, hkLib = sampleLib,
     hkSources = [\<lparr>gsID = ''g1'', gsTeamID = ''team1'', gsKind = ''github_pat'', gsName = ''n'', gsBaseURL = [], gsAccount = [], ConfigEnc = [], gsCreatedAt = 0, gsUpdatedAt = 0\<rparr>], hkDeployer = True,
     hkSha = (\<lambda>x. x), hkConfig = (\<lambda>_. None), hkDraws = (\<lambda>_. (None, None, None)), deleteNamespaceOut = (\<lambda>_. Inr ())\<rparr>"

definition pushHeader :: "string \<Rightarrow> string" where
  "pushHeader k = (if k = ''X-GitHub-Event'' then ''push'' else [])"

definition samplePush :: PushEvent where
  "samplePush = noEvent\<lparr>evKind := ''push'', evRepoURL := ''https://git.example/shop'', evBranch := ''main'', evCommitSHA := ''c1''\<rparr>"


definition secretRow :: variableRow where
  "secretRow = \<lparr>vID = ''var1'', vAppID = ''app1'', vKey = ''KEY'', IsSecret = True, BuildTime = False, vCreatedAt = 0, vUpdatedAt = 0, vSealed = ''x''\<rparr>"

definition sampleFork :: PushEvent where
  "sampleFork = samplePush\<lparr>evKind := ''pull_request_opened'', PullRequest := 5, SourceBranch := ''fix'', Fork := True\<rparr>"


section \<open>What goes wrong\<close>

lemma fillVariables_keys:
  "fillVariables key plain out rs = Inr vs \<Longrightarrow> fst ` set out \<union> key ` set rs \<subseteq> fst ` set vs"
proof (induction rs arbitrary: out)
  case (Cons r rs)
  then obtain v where "fillVariables key plain (AList.update (key r) v out) rs = Inr vs" by (auto split: sum.splits)
  from Cons.IH [OF this] show ?case by (auto simp: dom_update [unfolded dom_map_of_conv_image_fst])
qed simp

text \<open>The variables an app runs with start from all those shared in its project, secret ones included: the
  preview of a fork, which is given no secret of the app it previews, is given those.\<close>
theorem preview_reads_shared_secrets:
  assumes "meddling s = []" "runtimeVariables w c a e s = (Inr vs, s')" "v \<in> set (shared_variables s)" "svProjectID v = eProjectID e"
  shows "svKey v \<in> fst ` set vs"
proof -
  obtain shared s1 where sh: "call c (ListSharedVariables (eProjectID e)) s = (Inr shared, s1)"
      and rest: "bind (lift (fillVariables svKey (sharedPlain w (eProjectID e)) [] shared)) (\<lambda>out. bind (call c (ListVariables (aID a))) (\<lambda>own.
        lift (fillVariables vKey (ownPlain w ''read the variable '' (aID a)) out own))) s1 = (Inr vs, s')"
    using bind_InrD [OF assms(2) [unfolded runtimeVariables_def]] by blast
  have "v \<in> set shared"
    using sh assms(1,3,4) by (auto simp: call_def meddle_def wrap_def onPanel_def ListSharedVariables_def query_def stmt_def tick_def Let_def
        panel_db.defs split: option.splits prod.splits sum.splits list.splits bool.splits if_splits)
  moreover obtain out s2 where out: "lift (fillVariables svKey (sharedPlain w (eProjectID e)) [] shared) s1 = (Inr out, s2)"
      and own: "bind (call c (ListVariables (aID a))) (\<lambda>own. lift (fillVariables vKey (ownPlain w ''read the variable '' (aID a)) out own)) s2 = (Inr vs, s')"
    using bind_InrD [OF rest] by blast
  moreover have "fillVariables svKey (sharedPlain w (eProjectID e)) [] shared = Inr out"
    using out by (auto simp: lift_def throw_def ret_def split: sum.splits)
  moreover obtain rows s3 where "lift (fillVariables vKey (ownPlain w ''read the variable '' (aID a)) out rows) s3 = (Inr vs, s')"
    using bind_InrD [OF own] by blast
  then have "fillVariables vKey (ownPlain w ''read the variable '' (aID a)) out rows = Inr vs"
    by (simp add: lift_def throw_def ret_def split: sum.splits)
  ultimately show ?thesis using fillVariables_keys [of svKey _ "[]" shared out] fillVariables_keys [of vKey _ out rows vs] by fastforce
qed

text \<open>An address as Git hosts offer it, ending in \<^verbatim>\<open>.git\<close>, is stored as it was typed, while that of a webhook is
  cut: the app is never found by the pushes to its repository.\<close>
theorem clone_address_never_matches:
  fixes lib :: git_lib and u x :: URL
  defines "typed \<equiv> ''https://git.example/o/shop.git''" and "shortened \<equiv> ''https://git.example/o/shop''"
  assumes "urlParse lib typed = Some u" "uScheme u = ''https''" "uUser u = None" "uPath u = ''/o/shop.git''" "urlHostname lib u = ''git.example''"
    and "urlString lib (u\<lparr>uRawQuery := [], uFragment := []\<rparr>) = typed"
    and "urlParse lib shortened = Some x" "uScheme x = ''https''"
    and "urlString lib (x\<lparr>uScheme := ''https'', uUser := None, uRawQuery := [], uFragment := [], uHost := to_lower (uHost x)\<rparr>) = shortened"
  shows "ValidateRepoURL lib typed = Inr typed \<and> NormaliseRepoURL lib typed = shortened \<and> typed \<noteq> shortened"
proof -
  have t: "trim_space typed = typed" "length typed = 30" "list_all printable typed" "\<not> list_ex (\<lambda>c. c \<in> set shellChars) typed"
    unfolding typed_def by code_simp+
  have n: "trim_suffix ''/'' (trim_suffix ''.git'' (sshToHTTPS typed)) = shortened"
    unfolding typed_def shortened_def by code_simp
  have "typed \<noteq> []" "typed \<noteq> shortened" by (simp_all add: typed_def shortened_def)
  then show ?thesis using assms(3-) t n by (simp add: ValidateRepoURL_def NormaliseRepoURL_def Let_def)
qed

text \<open>The environment of a preview is named after the number of the pull request alone: two repositories
  deployed in one project share it, and closing the pull request of one removes the preview of the other.\<close>
theorem previews_of_two_repositories_collide:
  assumes "aEnvironmentID a = aEnvironmentID b" "PullRequest ev = PullRequest ev'" "PullRequest ev > 0"
  shows "cleanupPreviewFor h a ev = cleanupPreviewFor h b ev'"
proof -
  have "previewRef h ev = previewRef h ev'" using assms(2,3) by (simp add: previewRef_def)
  then show ?thesis unfolding cleanupPreviewFor_def assms(1) by (simp only:)
qed

text \<open>A push that deletes a branch looks for the preview of a branch without a name, and no preview of a pull
  request is named like that: deleting a branch removes nothing.\<close>
theorem deleted_branch_names_no_preview:
  assumes "githubPushEvent lib p = Inr ev \<or> gitlabPushEvent lib q = Inr ev"
  shows "previewRef h ev = ''branch-'' @ Slugify (hkSha h) [] \<and> (\<forall>n. previewRef h ev \<noteq> ''pr-'' @ itoa n)"
  using assms by (auto simp: githubPushEvent_def gitlabPushEvent_def noEvent_def previewRef_def split: option.splits)

text \<open>An unknown connection and a bad signature are told apart by their answers.\<close>
theorem source_ids_are_told_apart:
  assumes "fst (call ReqCtx (GetGitSource h known) s) = Inr g" "\<not> verifyWebhook h hdr g text"
    and "fst (call ReqCtx (GetGitSource h unknown) s) = Inl e"
  shows "fst (handleGitWebhook h known hdr (Some text) s) = Inl (ProbE unverified)
    \<and> fst (handleGitWebhook h unknown hdr (Some text) s) = Inl (ProbE (NotFound ''git source'' unknown))
    \<and> problemStatus unverified = 401 \<and> problemStatus (NotFound ''git source'' unknown) = 404"
  using assms by (simp add: handleGitWebhook_def answerWebhook_def handle_def case_prod_beta throw_def unverified_def NotFound_def WithStatus_def WithContext_def)

end
