(* ===== verification/Password.thy ===== *)
theory Password
  imports Go_Encoding
begin

text \<open>
  Passwords, \<^verbatim>\<open>internal/auth/password.go\<close>: the stored form of a password hash,
  checking a password against it, upgrading old hashes, and the password policy.

  Argon2 and SHA-256 are parameters. \<^verbatim>\<open>argon password salt time memory threads
  length\<close> is \<^verbatim>\<open>argon2.IDKey\<close>; the salt that \<^verbatim>\<open>crypto/rand\<close> returned and the
  number of processors are arguments. Of \<^verbatim>\<open>fmt.Sscanf\<close> the model has literal
  text and the \<^verbatim>\<open>%d\<close> verb into signed and unsigned integers. Case mapping is that
  of ASCII.
\<close>

section \<open>Scanning\<close>

definition scan_lit :: "string \<Rightarrow> string \<Rightarrow> string option" where
  "scan_lit lit s = (if take (length lit) s = lit then Some (drop (length lit) s) else None)"

definition skip_blanks :: "string \<Rightarrow> string option" where
  "skip_blanks s = (let t = dropWhile (\<lambda>c. is_space c \<and> c \<noteq> CHR 0x0A) s in
     if t = [] \<or> hd t = CHR 0x0A then None else Some t)"

definition scan_digits :: "int \<Rightarrow> int \<Rightarrow> string \<Rightarrow> (int \<times> string) option" where
  "scan_digits sign bound s = (case digits_val 0 (takeWhile is_digit s) of
     None \<Rightarrow> None
   | Some v \<Rightarrow> if takeWhile is_digit s = [] \<or> v \<ge> bound then None else Some (sign * v, dropWhile is_digit s))"

definition scan_uint :: "nat \<Rightarrow> string \<Rightarrow> (int \<times> string) option" where
  "scan_uint bits s = (case skip_blanks s of None \<Rightarrow> None | Some t \<Rightarrow> scan_digits 1 (2 ^ bits) t)"

definition scan_int :: "string \<Rightarrow> (int \<times> string) option" where
  "scan_int s = (case skip_blanks s of None \<Rightarrow> None
     | Some t \<Rightarrow> if hd t = CHR ''-'' then scan_digits (-1) (2 ^ 63 + 1) (tl t)
        else if hd t = CHR ''+'' then scan_digits 1 (2 ^ 63) (tl t)
        else scan_digits 1 (2 ^ 63) t)"

definition scan_version :: "string \<Rightarrow> int option" where
  "scan_version s = (case scan_lit ''v='' s of None \<Rightarrow> None
     | Some t \<Rightarrow> map_option fst (scan_int t))"

definition scan_params :: "string \<Rightarrow> (int \<times> int \<times> int) option" where
  "scan_params s = (case scan_lit ''m='' s of None \<Rightarrow> None | Some s1 \<Rightarrow>
     (case scan_uint 32 s1 of None \<Rightarrow> None | Some (memory, s2) \<Rightarrow>
     (case scan_lit '',t='' s2 of None \<Rightarrow> None | Some s3 \<Rightarrow>
     (case scan_uint 32 s3 of None \<Rightarrow> None | Some (time, s4) \<Rightarrow>
     (case scan_lit '',p='' s4 of None \<Rightarrow> None | Some s5 \<Rightarrow>
     (case scan_uint 8 s5 of None \<Rightarrow> None | Some (parallelism, s6) \<Rightarrow>
       Some (memory, time, parallelism)))))))"

section \<open>Hashing\<close>

definition argonTime :: int where "argonTime = 2"
definition argonMemory :: int where "argonMemory = 19 * 1024"
definition argonKeyLen :: nat where "argonKeyLen = 32"
definition argonVersion :: int where "argonVersion = 0x13"

type_synonym argon2 = "string \<Rightarrow> string \<Rightarrow> int \<Rightarrow> int \<Rightarrow> int \<Rightarrow> nat \<Rightarrow> string"

definition argonParallelism :: "int \<Rightarrow> int" where
  "argonParallelism n = (if n \<le> 1 then 1 else if n \<ge> 4 then 4 else n)"

definition dollar :: char where
  "dollar = CHR ''$''"

definition HashPassword :: "argon2 \<Rightarrow> int \<Rightarrow> string \<Rightarrow> string \<Rightarrow> string" where
  "HashPassword argon cpus salt password =
     (let parallelism = argonParallelism cpus;
          sum = argon password salt argonTime argonMemory parallelism argonKeyLen
      in dollar # ''argon2id'' @ dollar # ''v='' @ itoa argonVersion @ dollar #
         ''m='' @ itoa argonMemory @ '',t='' @ itoa argonTime @ '',p='' @ itoa parallelism @ dollar #
         raw_std64_encode salt @ dollar # raw_std64_encode sum)"

datatype verify_error =
  NotArgon2id | UnreadableVersion | UnsupportedVersion int | UnreadableParams | UnreadableSalt
| UnreadableHash | ErrPasswordMismatch

definition VerifyPassword :: "argon2 \<Rightarrow> string \<Rightarrow> string \<Rightarrow> verify_error option" where
  "VerifyPassword argon password encoded =
     (let parts = split_on dollar encoded in
      if length parts \<noteq> 6 \<or> parts ! 1 \<noteq> ''argon2id'' then Some NotArgon2id
      else case scan_version (parts ! 2) of None \<Rightarrow> Some UnreadableVersion
      | Some version \<Rightarrow> if version \<noteq> argonVersion then Some (UnsupportedVersion version)
      else case scan_params (parts ! 3) of None \<Rightarrow> Some UnreadableParams
      | Some (memory, time, parallelism) \<Rightarrow>
        (case raw_std64_decode (parts ! 4) of None \<Rightarrow> Some UnreadableSalt
      | Some salt \<Rightarrow>
        (case raw_std64_decode (parts ! 5) of None \<Rightarrow> Some UnreadableHash
      | Some want \<Rightarrow>
        if argon password salt time memory parallelism (length want) = want then None else Some ErrPasswordMismatch)))"

definition NeedsRehash :: "string \<Rightarrow> bool" where
  "NeedsRehash encoded =
     (let parts = split_on dollar encoded in
      if length parts \<noteq> 6 \<or> parts ! 1 \<noteq> ''argon2id'' then True
      else case scan_params (parts ! 3) of None \<Rightarrow> True
      | Some (memory, time, parallelism) \<Rightarrow> memory < argonMemory \<or> time < argonTime)"

definition HashToken :: "(string \<Rightarrow> string) \<Rightarrow> string \<Rightarrow> string" where
  "HashToken sha256 token = raw_url64_encode (sha256 token)"

section \<open>Policy\<close>

text \<open>The runes of a string: \<^verbatim>\<open>[]rune(s)\<close>, with one replacement rune for every byte that starts no valid sequence.\<close>

definition continuation :: "char \<Rightarrow> bool" where
  "continuation c \<longleftrightarrow> of_char c div 64 = (2 :: int)"

definition low6 :: "char \<Rightarrow> int" where
  "low6 c = of_char c mod 64"

fun runes :: "string \<Rightarrow> int list" where
  "runes [] = []"
| "runes (a # s) =
     (let n = (of_char a :: int) in
      if n < 0x80 then n # runes s
      else case s of
        [] \<Rightarrow> [0xFFFD]
      | b # s1 \<Rightarrow>
          if 0xC2 \<le> n \<and> n \<le> 0xDF \<and> continuation b then ((n mod 32) * 64 + low6 b) # runes s1
          else (case s1 of
            [] \<Rightarrow> 0xFFFD # runes s
          | c # s2 \<Rightarrow>
              if 0xE0 \<le> n \<and> n \<le> 0xEF \<and> continuation b \<and> continuation c
                \<and> (n = 0xE0 \<longrightarrow> 0xA0 \<le> (of_char b :: int)) \<and> (n = 0xED \<longrightarrow> (of_char b :: int) \<le> 0x9F)
              then ((n mod 16) * 4096 + low6 b * 64 + low6 c) # runes s2
              else (case s2 of
                [] \<Rightarrow> 0xFFFD # runes s
              | d # s3 \<Rightarrow>
                  if 0xF0 \<le> n \<and> n \<le> 0xF4 \<and> continuation b \<and> continuation c \<and> continuation d
                    \<and> (n = 0xF0 \<longrightarrow> 0x90 \<le> (of_char b :: int)) \<and> (n = 0xF4 \<longrightarrow> (of_char b :: int) \<le> 0x8F)
                  then ((n mod 8) * 262144 + low6 b * 4096 + low6 c * 64 + low6 d) # runes s3
                  else 0xFFFD # runes s)))"

record PasswordPolicy =
  MinLength :: nat

definition DefaultPasswordPolicy :: PasswordPolicy where
  "DefaultPasswordPolicy = \<lparr>MinLength = 12\<rparr>"

definition commonPasswords :: "string list" where
  "commonPasswords = [''password'', ''password1'', ''password123'', ''passw0rd'', ''123456'', ''123456789'',
     ''1234567890'', ''12345678'', ''qwerty'', ''qwertyuiop'', ''iloveyou'', ''admin'', ''administrator'',
     ''letmein'', ''welcome'', ''monkey'', ''dragon'', ''football'', ''baseball'', ''sunshine'', ''princess'',
     ''changeme'', ''secret'', ''abc123'', ''111111'', ''000000'', ''qwerty123'', ''1q2w3e4r'', ''zaq12wsx'',
     ''trustno1'', ''superman'', ''starwars'', ''whatever'', ''password1234'', ''kubernetes'', ''docker'', ''skifity'']"

definition isCommonPassword :: "string \<Rightarrow> bool" where
  "isCommonPassword password \<longleftrightarrow> to_lower (trim_space password) \<in> set commonPasswords"

definition is_control :: "int \<Rightarrow> bool" where
  "is_control r \<longleftrightarrow> 0 \<le> r \<and> r < 0x20 \<or> 0x7F \<le> r \<and> r < 0xA0"

definition isSingleRepeatedRune :: "string \<Rightarrow> bool" where
  "isSingleRepeatedRune password = (case runes password of [] \<Rightarrow> True
     | first # rest \<Rightarrow> list_all (\<lambda>r. r = first) rest \<and> \<not> is_control first)"

datatype policy_error = TooShort nat | TooLong | TooCommon | OneRepeated

definition Check :: "PasswordPolicy \<Rightarrow> string \<Rightarrow> policy_error option" where
  "Check p password =
     (if length (runes password) < MinLength p then Some (TooShort (MinLength p))
      else if length password > 1024 then Some TooLong
      else if isCommonPassword password then Some TooCommon
      else if isSingleRepeatedRune password then Some OneRepeated
      else None)"

section \<open>What a fresh hash scans back to\<close>

lemma digit_class: "is_digit c \<Longrightarrow> \<not> is_space c \<and> c \<noteq> CHR ''-'' \<and> c \<noteq> CHR ''+'' \<and> c \<noteq> dollar"
  by (auto simp: is_digit_def digit_of_def is_space_def dollar_def split: if_splits)

lemma takeWhile_digits:
  assumes "0 \<le> v" "rest = [] \<or> \<not> is_digit (hd rest)"
  shows "takeWhile is_digit (itoa v @ rest) = itoa v" "dropWhile is_digit (itoa v @ rest) = rest"
  using assms itoa_digits [of v]
  by (cases rest; simp add: takeWhile_append2 dropWhile_append2)+

lemma scan_itoa:
  assumes "0 \<le> v" "v < bound" "bound \<le> 2 ^ 63" "rest = [] \<or> \<not> is_digit (hd rest)"
  shows "scan_digits 1 bound (itoa v @ rest) = Some (v, rest)"
proof -
  have "v \<le> max_int64" using assms(2,3) by (simp add: max_int64_def)
  then have "digits_val 0 (itoa v) = Some v"
    using assms(1) digits_val_show_dec by (simp add: itoa_def)
  then show ?thesis using takeWhile_digits [OF assms(1,4)] assms(2) by (simp add: scan_digits_def)
qed

lemma skip_blanks_itoa: "0 \<le> v \<Longrightarrow> skip_blanks (itoa v @ rest) = Some (itoa v @ rest)"
proof -
  assume v: "0 \<le> v"
  obtain c cs where c: "itoa v = c # cs" using itoa_neq_Nil by (cases "itoa v") auto
  then have "is_digit c" using itoa_digits [OF v, of c] by simp
  then show ?thesis using digit_class [of c] by (auto simp: skip_blanks_def c is_space_def)
qed

lemma scan_uint_itoa:
  "0 \<le> v \<Longrightarrow> v < 2 ^ b \<Longrightarrow> b \<le> 63 \<Longrightarrow> rest = [] \<or> \<not> is_digit (hd rest) \<Longrightarrow> scan_uint b (itoa v @ rest) = Some (v, rest)"
  using power_increasing [of b 63 "2 :: int"] by (simp add: scan_uint_def skip_blanks_itoa scan_itoa)

lemma scan_int_itoa:
  assumes "0 \<le> v" "v < 2 ^ 63" "rest = [] \<or> \<not> is_digit (hd rest)"
  shows "scan_int (itoa v @ rest) = Some (v, rest)"
proof -
  obtain c cs where c: "itoa v = c # cs" using itoa_neq_Nil by (cases "itoa v") auto
  then have "is_digit c" using itoa_digits [OF assms(1), of c] by simp
  then have "hd (itoa v @ rest) \<noteq> CHR ''-''" "hd (itoa v @ rest) \<noteq> CHR ''+''" using digit_class [of c] by (auto simp: c)
  then show ?thesis using scan_itoa [OF assms(1,2) _ assms(3)] by (simp add: scan_int_def skip_blanks_itoa assms(1))
qed

lemma scan_lit_append [simp]: "scan_lit lit (lit @ s) = Some s"
  by (simp add: scan_lit_def)

lemma scan_params_fresh:
  assumes "0 \<le> m" "m < 2 ^ 32" "0 \<le> t" "t < 2 ^ 32" "0 \<le> p" "p < 2 ^ 8"
  shows "scan_params (''m='' @ itoa m @ '',t='' @ itoa t @ '',p='' @ itoa p) = Some (m, t, p)"
proof -
  have nd: "\<not> is_digit (CHR '','')" by (simp add: is_digit_def digit_of_def)
  have "scan_uint 32 (itoa m @ '',t='' @ itoa t @ '',p='' @ itoa p) = Some (m, '',t='' @ itoa t @ '',p='' @ itoa p)"
    using assms nd by (intro scan_uint_itoa) auto
  moreover have "scan_uint 32 (itoa t @ '',p='' @ itoa p) = Some (t, '',p='' @ itoa p)"
    using assms nd by (intro scan_uint_itoa) auto
  moreover have "scan_uint 8 (itoa p) = Some (p, [])"
    using assms scan_uint_itoa [of p 8 "[]"] by simp
  ultimately show ?thesis by (simp only: scan_params_def scan_lit_append option.case prod.case)
qed

lemma argonParallelism_range: "1 \<le> argonParallelism n \<and> argonParallelism n \<le> 4"
  by (simp add: argonParallelism_def)

lemma no_dollar:
  "dollar \<notin> set (raw_std64_encode bytes)" "0 \<le> v \<Longrightarrow> dollar \<notin> set (itoa v)"
  using raw_std64_chars [of dollar bytes] itoa_digits [of v dollar] digit_class [of dollar]
  by (auto simp: dollar_def std64_def)

lemma split_fresh:
  "split_on dollar (HashPassword argon cpus salt password) =
    [[], ''argon2id'', ''v='' @ itoa argonVersion,
     ''m='' @ itoa argonMemory @ '',t='' @ itoa argonTime @ '',p='' @ itoa (argonParallelism cpus),
     raw_std64_encode salt,
     raw_std64_encode (argon password salt argonTime argonMemory (argonParallelism cpus) argonKeyLen)]"
proof -
  define a where "a = ''v='' @ itoa argonVersion"
  define b where "b = ''m='' @ itoa argonMemory @ '',t='' @ itoa argonTime @ '',p='' @ itoa (argonParallelism cpus)"
  define c where "c = raw_std64_encode salt"
  define d where "d = raw_std64_encode (argon password salt argonTime argonMemory (argonParallelism cpus) argonKeyLen)"
  have nd: "dollar \<notin> set ''argon2id''" "dollar \<notin> set a" "dollar \<notin> set b" "dollar \<notin> set c" "dollar \<notin> set d"
    using no_dollar(2) [of argonVersion] no_dollar(2) [of argonMemory] no_dollar(2) [of argonTime]
      no_dollar(2) [of "argonParallelism cpus"] no_dollar(1) argonParallelism_range [of cpus]
    by (auto simp: a_def b_def c_def d_def dollar_def argonVersion_def argonMemory_def argonTime_def)
  have "HashPassword argon cpus salt password = [] @ dollar # (''argon2id'' @ dollar # (a @ dollar # (b @ dollar # (c @ dollar # d))))"
    by (simp add: HashPassword_def Let_def a_def b_def c_def d_def)
  then have "split_on dollar (HashPassword argon cpus salt password) = [[], ''argon2id'', a, b, c, d]"
    by (simp only: split_on_append_sep_general split_on_no_sep [OF nd(1)] split_on_no_sep [OF nd(2)]
        split_on_no_sep [OF nd(3)] split_on_no_sep [OF nd(4)] split_on_no_sep [OF nd(5)]) simp
  then show ?thesis by (simp add: a_def b_def c_def d_def)
qed

lemma scan_version_fresh: "scan_version (''v='' @ itoa argonVersion) = Some argonVersion"
proof -
  have "scan_lit ''v='' (''v='' @ itoa argonVersion) = Some (itoa argonVersion)" by (rule scan_lit_append)
  then show ?thesis
    using scan_int_itoa [of argonVersion "[]"] by (simp only: scan_version_def option.case) (simp add: argonVersion_def)
qed

lemma scan_fresh_params:
  "scan_params (''m='' @ itoa argonMemory @ '',t='' @ itoa argonTime @ '',p='' @ itoa (argonParallelism cpus))
    = Some (argonMemory, argonTime, argonParallelism cpus)"
  using argonParallelism_range [of cpus] by (intro scan_params_fresh) (auto simp: argonMemory_def argonTime_def)

lemma HashPassword_accepts:
  assumes "\<And>pw s t m p k. length (argon pw s t m p k) = k"
  shows "VerifyPassword argon password (HashPassword argon cpus salt password) = None"
  by (simp add: VerifyPassword_def Let_def split_fresh scan_version_fresh scan_fresh_params raw_std64_roundtrip assms
      del: append.simps append_Cons)

section \<open>Properties of passwords\<close>

text \<open>C39: What \<^verbatim>\<open>HashPassword\<close> stores, \<^verbatim>\<open>VerifyPassword\<close> reads back: on any
  machine and with any salt, a password is accepted exactly when Argon2 gives it
  the same key as the password that was hashed, the only other outcome is a
  mismatch, and the hash does not ask to be upgraded.\<close>
theorem HashPassword_VerifyPassword:
  assumes argon_length: "\<And>pw s t m p k. length (argon pw s t m p k) = k"
  shows "VerifyPassword argon guess (HashPassword argon cpus salt password) =
      (if argon guess salt argonTime argonMemory (argonParallelism cpus) argonKeyLen
        = argon password salt argonTime argonMemory (argonParallelism cpus) argonKeyLen
       then None else Some ErrPasswordMismatch)
    \<and> \<not> NeedsRehash (HashPassword argon cpus salt password)"
  by (simp add: VerifyPassword_def NeedsRehash_def Let_def split_fresh scan_version_fresh scan_fresh_params
      raw_std64_roundtrip argon_length del: append.simps append_Cons)

definition toy_argon :: argon2 where
  "toy_argon pw s t m p k = take k (pw @ replicate k (CHR ''.''))"

theorem HashPassword_VerifyPassword_witness:
  "VerifyPassword toy_argon ''hunter2'' (HashPassword toy_argon 2 ''salt'' ''hunter2'') = None
    \<and> VerifyPassword toy_argon ''hunter3'' (HashPassword toy_argon 2 ''salt'' ''hunter2'') = Some ErrPasswordMismatch"
  using HashPassword_VerifyPassword [of toy_argon "''hunter2''" 2 "''salt''" "''hunter2''"]
    HashPassword_VerifyPassword [of toy_argon "''hunter3''" 2 "''salt''" "''hunter2''"]
  by (simp add: toy_argon_def argonKeyLen_def)

end
