(* ===== verification/Totp.thy ===== *)
theory Totp
  imports Password
begin

text \<open>
  Two-factor codes, \<^verbatim>\<open>internal/auth/totp.go\<close>: time based one-time passwords
  (RFC 6238) and recovery codes. HMAC-SHA1 is the parameter \<^verbatim>\<open>hmac\<close>, of which
  only the length of the result is used; random bytes are arguments.
\<close>

section \<open>Codes\<close>

definition totpDigits :: nat where "totpDigits = 6"
definition totpPeriod :: int where "totpPeriod = 30"

type_synonym hmac = "string \<Rightarrow> string \<Rightarrow> string"

definition be_bytes :: "nat \<Rightarrow> int \<Rightarrow> string" where
  "be_bytes n v = map bits_byte (groups 8 (to_bits (8 * n) v))"

definition be_value :: "string \<Rightarrow> int" where
  "be_value bs = from_bits (concat (map byte_bits bs))"

definition zero_padded :: "nat \<Rightarrow> int \<Rightarrow> string" where
  "zero_padded n v = replicate (n - length (itoa v)) (CHR ''0'') @ itoa v"

definition totpAt :: "hmac \<Rightarrow> string \<Rightarrow> int \<Rightarrow> string" where
  "totpAt hmac key counter =
     (let sum = hmac key (be_bytes 8 counter);
          offset = nat (of_char (sum ! (length sum - 1)) mod 16 :: int);
          value = be_value (take 4 (drop offset sum)) mod 2 ^ 31
      in zero_padded totpDigits (value mod 10 ^ totpDigits))"

datatype totp_error = ErrInvalidTOTP | SecretNotBase32 | SecretEmpty

definition decodeTOTPSecret :: "string \<Rightarrow> totp_error + string" where
  "decodeTOTPSecret secret =
     (let normalised = to_upper (filter (\<lambda>c. c \<noteq> CHR '' '') (trim_space secret)) in
      case raw_std32_decode (trim_right (\<lambda>c. c = CHR ''='') normalised) of
        None \<Rightarrow> Inl SecretNotBase32
      | Some key \<Rightarrow> if key = [] then Inl SecretEmpty else Inr key)"

definition GenerateTOTPSecret :: "string \<Rightarrow> string" where
  "GenerateTOTPSecret random = raw_std32_encode random"

definition unix_u64 :: "instant \<Rightarrow> int" where
  "unix_u64 at = (at div second) mod 2 ^ 64"

definition totpCounter :: "instant \<Rightarrow> int" where
  "totpCounter at = unix_u64 at div totpPeriod"

definition TOTPCode :: "hmac \<Rightarrow> string \<Rightarrow> instant \<Rightarrow> totp_error + string" where
  "TOTPCode hmac secret at = (case decodeTOTPSecret secret of Inl e \<Rightarrow> Inl e
     | Inr key \<Rightarrow> Inr (totpAt hmac key (totpCounter at)))"

fun totpSearch :: "hmac \<Rightarrow> string \<Rightarrow> string \<Rightarrow> int \<Rightarrow> int list \<Rightarrow> int option" where
  "totpSearch hmac key code counter [] = None"
| "totpSearch hmac key code counter (delta # deltas) =
     (let candidate = (counter + delta) mod 2 ^ 64 in
      if totpAt hmac key candidate = code then Some candidate else totpSearch hmac key code counter deltas)"

definition VerifyTOTP :: "hmac \<Rightarrow> string \<Rightarrow> string \<Rightarrow> instant \<Rightarrow> totp_error + int" where
  "VerifyTOTP hmac secret code at =
     (let code' = trim_space (filter (\<lambda>c. c \<noteq> CHR '' '') code) in
      if length code' \<noteq> totpDigits then Inl ErrInvalidTOTP
      else case decodeTOTPSecret secret of Inl e \<Rightarrow> Inl e
      | Inr key \<Rightarrow> (case totpSearch hmac key code' (totpCounter at) [-1, 0, 1] of
          Some c \<Rightarrow> Inr c | None \<Rightarrow> Inl ErrInvalidTOTP))"

section \<open>Recovery codes\<close>

definition formatRecoveryCode :: "string \<Rightarrow> string" where
  "formatRecoveryCode random = (let s = raw_std32_encode random in
     take 4 s @ ''-'' @ take 4 (drop 4 s) @ ''-'' @ take 4 (drop 8 s))"

definition GenerateRecoveryCodes :: "string list \<Rightarrow> string list" where
  "GenerateRecoveryCodes randoms = map formatRecoveryCode randoms"

definition NormaliseRecoveryCode :: "string \<Rightarrow> string" where
  "NormaliseRecoveryCode code = filter (\<lambda>c. c \<in> set std32) (to_upper (trim_space code))"

definition HashRecoveryCode :: "(string \<Rightarrow> string) \<Rightarrow> string \<Rightarrow> string" where
  "HashRecoveryCode sha256 code = HashToken sha256 (''recovery:'' @ NormaliseRecoveryCode code)"

section \<open>The otpauth address\<close>

definition unreserved :: "char \<Rightarrow> bool" where
  "unreserved c \<longleftrightarrow> c \<in> set ''ABCDEFGHIJKLMNOPQRSTUVWXYZabcdefghijklmnopqrstuvwxyz0123456789-_.~''"

definition hex_digit :: "int \<Rightarrow> char" where
  "hex_digit d = ''0123456789ABCDEF'' ! nat d"

definition percent :: "char \<Rightarrow> string" where
  "percent c = [CHR ''%'', hex_digit (of_char c div 16), hex_digit (of_char c mod 16)]"

definition QueryEscape :: "string \<Rightarrow> string" where
  "QueryEscape s = concat (map (\<lambda>c. if unreserved c then [c] else if c = CHR '' '' then ''+'' else percent c) s)"

definition PathEscape :: "string \<Rightarrow> string" where
  "PathEscape s = concat (map (\<lambda>c. if unreserved c \<or> c \<in> set ''$&+=:@'' then [c] else percent c) s)"

definition TOTPURI :: "string \<Rightarrow> string \<Rightarrow> string \<Rightarrow> string" where
  "TOTPURI issuer account secret = ''otpauth://totp/'' @ PathEscape (issuer @ '':'' @ account) @
     ''?algorithm=SHA1&digits='' @ itoa (int totpDigits) @ ''&issuer='' @ QueryEscape issuer @
     ''&period='' @ itoa totpPeriod @ ''&secret='' @ QueryEscape secret"

section \<open>Lemmas\<close>

lemma totpAt_digits: "length (totpAt hmac key c) = totpDigits \<and> (\<forall>d \<in> set (totpAt hmac key c). is_digit d)"
proof -
  have "\<exists>v. totpAt hmac key c = zero_padded totpDigits v \<and> 0 \<le> v \<and> v < 10 ^ totpDigits"
    unfolding totpAt_def Let_def by (intro exI conjI, rule refl) simp_all
  then obtain v where v: "totpAt hmac key c = zero_padded totpDigits v" "0 \<le> v" "v < 10 ^ totpDigits" by blast
  have "length (itoa v) \<le> totpDigits"
    using length_show_dec [OF v(2,3)] v(2) by (simp add: itoa_def totpDigits_def)
  moreover have "is_digit d" if "d \<in> set (zero_padded totpDigits v)" for d
    using that itoa_digits [OF v(2), of d] by (auto simp: zero_padded_def is_digit_def digit_of_def split: if_splits)
  ultimately show ?thesis by (simp add: v(1) zero_padded_def)
qed

lemma digits_normal: "\<forall>d \<in> set code. is_digit d \<Longrightarrow> trim_space (filter (\<lambda>c. c \<noteq> CHR '' '') code) = code"
proof -
  assume d: "\<forall>d \<in> set code. is_digit d"
  have "\<forall>c \<in> set code. \<not> is_space c" using d digit_class by blast
  then have "trim_space code = code" by (rule trim_space_no_space)
  moreover have "filter (\<lambda>c. c \<noteq> CHR '' '') code = code"
    using d digit_class by (auto simp: filter_id_conv is_space_def)
  ultimately show ?thesis by simp
qed

lemma totpSearch_Some:
  "totpSearch hmac key code n ds = Some c \<Longrightarrow> totpAt hmac key c = code \<and> (\<exists>d \<in> set ds. c = (n + d) mod 2 ^ 64)"
  by (induction ds) (auto simp: Let_def split: if_splits)

lemma totpSearch_None:
  "totpSearch hmac key code n ds = None \<Longrightarrow> d \<in> set ds \<Longrightarrow> totpAt hmac key ((n + d) mod 2 ^ 64) \<noteq> code"
  by (induction ds) (auto simp: Let_def split: if_splits)

lemma std32_text:
  assumes "\<forall>c \<in> set s. c \<in> set std32"
  shows "to_upper s = s" "filter (\<lambda>c. c \<noteq> CHR '' '') s = s" "trim_space s = s"
    "trim_right (\<lambda>c. c = CHR ''='') s = s"
proof -
  have *: "\<forall>c \<in> set s. to_upper_char c = c \<and> \<not> is_space c \<and> c \<noteq> CHR ''='' \<and> c \<noteq> CHR '' ''"
    using assms std32_class by blast
  show "to_upper s = s" using * by (simp add: to_upper_def map_idI)
  show "filter (\<lambda>c. c \<noteq> CHR '' '') s = s" using * by (simp add: filter_id_conv)
  show "trim_space s = s" using * by (simp add: trim_space_no_space)
  show "trim_right (\<lambda>c. c = CHR ''='') s = s" using * by (simp add: trim_right_none)
qed

lemma raw_std32_chars: "\<forall>c \<in> set (raw_std32_encode bytes). c \<in> set std32"
  using encode_bits_alphabet [OF std32_alphabet(2)] by (simp add: raw_std32_encode_def)

lemma decodeTOTPSecret_Generate: "random \<noteq> [] \<Longrightarrow> decodeTOTPSecret (GenerateTOTPSecret random) = Inr random"
  using std32_text [OF raw_std32_chars [of random]]
  by (simp add: decodeTOTPSecret_def GenerateTOTPSecret_def raw_std32_roundtrip)

definition typed_code :: "string \<Rightarrow> string" where
  "typed_code code = trim_space (filter (\<lambda>c. c \<noteq> CHR '' '') code)"

lemma VerifyTOTP_search:
  assumes "decodeTOTPSecret secret = Inr key" "length (typed_code code) = totpDigits"
  shows "VerifyTOTP hmac secret code at = (case totpSearch hmac key (typed_code code) (totpCounter at) [-1, 0, 1] of
    Some c \<Rightarrow> Inr c | None \<Rightarrow> Inl ErrInvalidTOTP)"
  using assms by (simp add: VerifyTOTP_def typed_code_def Let_def)

lemma VerifyTOTP_accepts:
  assumes "decodeTOTPSecret secret = Inr key" "typed_code code = totpAt hmac key ((totpCounter at + d) mod 2 ^ 64)"
    "d \<in> set [-1, 0, 1]"
  shows "\<exists>c. VerifyTOTP hmac secret code at = Inr c"
proof -
  have "totpSearch hmac key (typed_code code) (totpCounter at) [-1, 0, 1] \<noteq> None"
    using totpSearch_None [OF _ assms(3)] assms(2) by metis
  then obtain c where "totpSearch hmac key (typed_code code) (totpCounter at) [-1, 0, 1] = Some c" by blast
  moreover have "length (typed_code code) = totpDigits" unfolding assms(2) using totpAt_digits by blast
  ultimately show ?thesis using VerifyTOTP_search [OF assms(1)] by (simp del: totpSearch.simps)
qed

lemma VerifyTOTP_sound:
  assumes "decodeTOTPSecret secret = Inr key" "VerifyTOTP hmac secret code at = Inr c"
  shows "totpAt hmac key c = typed_code code \<and> (\<exists>d \<in> {-1, 0, 1}. c = (totpCounter at + d) mod 2 ^ 64)"
proof -
  have len: "length (typed_code code) = totpDigits"
    using assms(2) by (auto simp: VerifyTOTP_def typed_code_def Let_def split: if_splits)
  then have "totpSearch hmac key (typed_code code) (totpCounter at) [-1, 0, 1] = Some c"
    using assms(2) VerifyTOTP_search [OF assms(1) len] by (simp del: totpSearch.simps split: option.splits)
  from totpSearch_Some [OF this] show ?thesis by simp
qed

lemma int_div_less: "0 < q \<Longrightarrow> m < n * q \<Longrightarrow> m div q < (n :: int)"
proof (rule ccontr)
  assume q: "0 < q" and m: "m < n * q" and "\<not> m div q < n"
  then have "n * q \<le> (m div q) * q" by (intro mult_right_mono) auto
  also have "\<dots> \<le> m" using div_mult_mod_eq [of m q] pos_mod_sign [OF q, of m] by linarith
  finally show False using m by simp
qed

lemma totpCounter_near:
  assumes "0 \<le> t" "0 \<le> t'" "t < 2 ^ 64 * second" "t' < 2 ^ 64 * second" "\<bar>t' - t\<bar> \<le> 30 * second"
  shows "\<exists>d \<in> set [-1, 0, 1]. totpCounter t = (totpCounter t' + d) mod 2 ^ 64"
proof -
  have s: "0 < second" by (simp add: second_def)
  define a b where "a = t div second" and "b = t' div second"
  have ab: "0 \<le> a" "0 \<le> b" "a < 2 ^ 64" "b < 2 ^ 64"
    using assms(1-4) s int_div_less [OF s, of t "2 ^ 64"] int_div_less [OF s, of t' "2 ^ 64"]
    by (simp_all add: a_def b_def pos_imp_zdiv_nonneg_iff)
  have "t \<le> t' + 30 * second" "t' \<le> t + 30 * second" using assms(5) by auto
  then have "a \<le> b + 30" "b \<le> a + 30"
    using zdiv_mono1 [of t "t' + 30 * second" second] zdiv_mono1 [of t' "t + 30 * second" second] s
    by (simp_all add: a_def b_def)
  then have "a div 30 \<le> b div 30 + 1" "b div 30 \<le> a div 30 + 1"
    using zdiv_mono1 [of a "b + 30" 30] zdiv_mono1 [of b "a + 30" 30] by simp_all
  then have "a div 30 - b div 30 \<in> set [-1, 0, 1]" by auto
  moreover have "a div 30 < 2 ^ 64" "0 \<le> a div 30" using ab by auto
  ultimately show ?thesis using ab
    by (intro bexI [of _ "a div 30 - b div 30"]) (simp_all add: totpCounter_def unix_u64_def totpPeriod_def a_def b_def)
qed

lemma typed_code_totpAt: "typed_code (totpAt hmac key c) = totpAt hmac key c"
  using totpAt_digits digits_normal by (simp add: typed_code_def)

section \<open>Properties of two-factor codes\<close>

text \<open>C40: A code is accepted exactly when it is, up to spaces, the code of the
  current thirty second step, the one before or the one after; and the step
  that is returned, and recorded as spent, is one whose code it is.\<close>
theorem VerifyTOTP_window:
  assumes "decodeTOTPSecret secret = Inr key"
  shows "((\<exists>c. VerifyTOTP hmac secret code at = Inr c) \<longleftrightarrow>
      (\<exists>d \<in> {-1, 0, 1}. totpAt hmac key ((totpCounter at + d) mod 2 ^ 64) = typed_code code))
    \<and> (\<forall>c. VerifyTOTP hmac secret code at = Inr c \<longrightarrow>
      totpAt hmac key c = typed_code code \<and> (\<exists>d \<in> {-1, 0, 1}. c = (totpCounter at + d) mod 2 ^ 64))"
proof -
  have "\<exists>c. VerifyTOTP hmac secret code at = Inr c"
    if "d \<in> {-1, 0, 1}" "totpAt hmac key ((totpCounter at + d) mod 2 ^ 64) = typed_code code" for d
    using that by (intro VerifyTOTP_accepts [OF assms, of code hmac at d]) auto
  then show ?thesis using VerifyTOTP_sound [OF assms] by (metis (no_types, lifting))
qed

definition toy_hmac :: hmac where
  "toy_hmac key msg = take 20 (msg @ key @ replicate 20 (CHR ''x''))"

theorem VerifyTOTP_window_witness:
  "(\<exists>c. VerifyTOTP toy_hmac (GenerateTOTPSecret ''12345678901234567890'') ''755 199'' 0 = Inr c) \<longleftrightarrow>
    (\<exists>d \<in> {-1, 0, 1}. totpAt toy_hmac ''12345678901234567890'' ((totpCounter 0 + d) mod 2 ^ 64) = typed_code ''755 199'')"
proof -
  have "decodeTOTPSecret (GenerateTOTPSecret ''12345678901234567890'') = Inr ''12345678901234567890''"
    by (rule decodeTOTPSecret_Generate) simp
  from VerifyTOTP_window [OF this] show ?thesis by blast
qed

text \<open>Setting up two-factor works: for a secret that was just generated, the code
  an authenticator shows is accepted by a panel whose clock is up to thirty
  seconds away from it in either direction.\<close>
theorem TOTP_roundtrip:
  assumes "random \<noteq> []" "0 \<le> t" "0 \<le> t'" "t < 2 ^ 64 * second" "t' < 2 ^ 64 * second" "\<bar>t' - t\<bar> \<le> 30 * second"
  shows "\<exists>code c. TOTPCode hmac (GenerateTOTPSecret random) t = Inr code
    \<and> VerifyTOTP hmac (GenerateTOTPSecret random) code t' = Inr c"
proof -
  have key: "decodeTOTPSecret (GenerateTOTPSecret random) = Inr random" by (rule decodeTOTPSecret_Generate [OF assms(1)])
  obtain d where d: "d \<in> set [-1, 0, 1]" "totpCounter t = (totpCounter t' + d) mod 2 ^ 64"
    using totpCounter_near [OF assms(2-6)] by blast
  have "\<exists>c. VerifyTOTP hmac (GenerateTOTPSecret random) (totpAt hmac random (totpCounter t)) t' = Inr c"
    using d by (intro VerifyTOTP_accepts [OF key _ d(1)]) (simp add: typed_code_totpAt)
  then show ?thesis by (simp add: TOTPCode_def key)
qed

theorem TOTP_roundtrip_witness:
  "\<exists>code c. TOTPCode toy_hmac (GenerateTOTPSecret ''12345678901234567890'') (59 * second) = Inr code
    \<and> VerifyTOTP toy_hmac (GenerateTOTPSecret ''12345678901234567890'') code (65 * second) = Inr c"
  by (rule TOTP_roundtrip) (simp_all add: second_def)

lemma code_text:
  assumes "length random = 8"
  shows "formatRecoveryCode random = take 4 (raw_std32_encode random) @ ''-'' @ take 4 (drop 4 (raw_std32_encode random))
      @ ''-'' @ take 4 (drop 8 (raw_std32_encode random))"
    and "take 4 (raw_std32_encode random) @ take 4 (drop 4 (raw_std32_encode random)) @ take 4 (drop 8 (raw_std32_encode random))
      = take 12 (raw_std32_encode random)"
proof -
  show "formatRecoveryCode random = take 4 (raw_std32_encode random) @ ''-'' @ take 4 (drop 4 (raw_std32_encode random))
      @ ''-'' @ take 4 (drop 8 (raw_std32_encode random))" by (simp add: formatRecoveryCode_def Let_def)
  have "take (4 + (4 + 4)) xs = take 4 xs @ take 4 (drop 4 xs) @ take 4 (drop 8 xs)" for xs :: string
    by (simp only: take_add drop_drop) simp
  then show "take 4 (raw_std32_encode random) @ take 4 (drop 4 (raw_std32_encode random)) @ take 4 (drop 8 (raw_std32_encode random))
      = take 12 (raw_std32_encode random)" by simp
qed

text \<open>A recovery code can be typed back the way people do: with its dashes or
  without, in upper or lower case, what is hashed is the same twelve
  characters the code was made of.\<close>
theorem recovery_code_typed_back:
  assumes "length random = 8"
  shows "NormaliseRecoveryCode (formatRecoveryCode random) = take 12 (raw_std32_encode random)
    \<and> NormaliseRecoveryCode (to_lower (filter (\<lambda>c. c \<noteq> CHR ''-'') (formatRecoveryCode random)))
        = take 12 (raw_std32_encode random)
    \<and> length (take 12 (raw_std32_encode random)) = 12"
proof -
  define a b c where "a = take 4 (raw_std32_encode random)" and "b = take 4 (drop 4 (raw_std32_encode random))"
    and "c = take 4 (drop 8 (raw_std32_encode random))"
  have code: "formatRecoveryCode random = a @ ''-'' @ b @ ''-'' @ c" "a @ b @ c = take 12 (raw_std32_encode random)"
    using code_text [OF assms] by (simp_all add: a_def b_def c_def)
  have in32: "\<forall>x \<in> set (a @ b @ c). x \<in> set std32"
    unfolding code(2) using raw_std32_chars [of random] by (auto dest: in_set_takeD)
  then have up: "\<forall>x \<in> set (a @ b @ c). to_upper_char x = x \<and> \<not> is_space x \<and> x \<noteq> CHR ''-''"
    using std32_class by blast
  have low: "\<not> is_space (to_lower_char x)" if "x \<in> set std32" for x
    using std32_class [OF that] by simp
  have "\<forall>x \<in> set (a @ ''-'' @ b @ ''-'' @ c). \<not> is_space x" using up by (auto simp: is_space_def)
  then have "trim_space (a @ ''-'' @ b @ ''-'' @ c) = a @ ''-'' @ b @ ''-'' @ c" by (rule trim_space_no_space)
  moreover have "map to_upper_char a = a" "map to_upper_char b = b" "map to_upper_char c = c"
    by (rule map_idI, use up in simp)+
  moreover have "filter (\<lambda>x. x \<in> set std32) a = a" "filter (\<lambda>x. x \<in> set std32) b = b" "filter (\<lambda>x. x \<in> set std32) c = c"
    using in32 by (auto simp: filter_id_conv)
  moreover have "filter (\<lambda>x. x \<in> set std32) (map to_upper_char ''-'') = []" by (simp add: std32_def to_upper_char_def)
  ultimately have one: "NormaliseRecoveryCode (formatRecoveryCode random) = a @ b @ c"
    unfolding code(1) NormaliseRecoveryCode_def by (simp only: to_upper_def map_append filter_append append_Nil)
  have "filter (\<lambda>c. c \<noteq> CHR ''-'') (formatRecoveryCode random) = a @ b @ c"
  proof -
    have keep: "\<forall>x \<in> set xs. x \<in> set (a @ b @ c) \<Longrightarrow> filter (\<lambda>c. c \<noteq> CHR ''-'') xs = xs" for xs
      using up by (intro filter_True) blast
    have "filter (\<lambda>c. c \<noteq> CHR ''-'') a = a" "filter (\<lambda>c. c \<noteq> CHR ''-'') b = b" "filter (\<lambda>c. c \<noteq> CHR ''-'') c = c"
      by (rule keep, simp)+
    then show ?thesis unfolding code(1) filter_append by simp
  qed
  moreover have "trim_space (to_lower (a @ b @ c)) = to_lower (a @ b @ c)"
    using in32 low by (intro trim_space_no_space) (auto simp: to_lower_def)
  moreover have "to_upper (to_lower (a @ b @ c)) = a @ b @ c"
    unfolding to_upper_def to_lower_def map_map using in32 std32_class by (intro map_idI) simp
  ultimately have "NormaliseRecoveryCode (to_lower (filter (\<lambda>c. c \<noteq> CHR ''-'') (formatRecoveryCode random))) = a @ b @ c"
    using in32 by (simp add: NormaliseRecoveryCode_def filter_id_conv del: map_append filter_append set_append)
  moreover have "length (take 12 (raw_std32_encode random)) = 12"
    by (simp add: raw_std32_encode_def length_encode_bits assms)
  ultimately show ?thesis using one code(2) by simp
qed

theorem recovery_code_typed_back_witness:
  "NormaliseRecoveryCode (formatRecoveryCode ''abcdefgh'') = take 12 (raw_std32_encode ''abcdefgh'')"
  using recovery_code_typed_back [of "''abcdefgh''"] by simp

end
