(* ===== verification/Auth.thy ===== *)
theory Auth
  imports Store_Users Totp
begin

text \<open>
  The authentication service, \<^verbatim>\<open>internal/auth/service.go\<close>: signing in, sessions,
  stepping up, API tokens, two-factor setup and password changes, over the store
  of users.

  What the service is built from is a record: Argon2, SHA-256 and HMAC-SHA1, the
  number of processors, the keyring's sealing and opening of secrets, the rate
  limit and the life of a session. The gate in front of the password hashes is a
  step that fails when the caller's context ends while it waits; it takes its
  outcome from the same schedule of faults as the statements. Logging is left
  out. Cookies are values: their name and attributes.
\<close>

section \<open>The service\<close>

record Lockout =
  Window :: duration
  MaxPerAccount :: nat
  MaxPerIPAddress :: nat

definition DefaultLockout :: Lockout where
  "DefaultLockout = \<lparr>Window = 15 * minute, MaxPerAccount = 5, MaxPerIPAddress = 20\<rparr>"

record Service =
  argon :: argon2
  sha256 :: "string \<Rightarrow> string"
  hmac_sha1 :: hmac
  cpus :: int
  keyringSeal :: "string \<Rightarrow> string \<Rightarrow> string option"
  keyringOpen :: "string \<Rightarrow> string \<Rightarrow> string option"
  lockout :: Lockout
  sessionTTL :: duration
  secureCookies :: bool

datatype auth_err =
  Store store_err | ErrCtx | ErrLockedOut | ErrInvalidCredentials | ErrTOTPRequired | BadTOTP totp_error
| ErrNoSecondProof | BadHash verify_error | BadPassword policy_error | ErrKeyring | ErrTOTPNotStarted

type_synonym 'a auth_op = "(auth_db, auth_err, 'a) op"

definition MaxSessionLife :: duration where "MaxSessionLife = 30 * 24 * hour"
definition ReauthWindow :: duration where "ReauthWindow = 5 * minute"
definition TokenPrefix :: string where "TokenPrefix = ''skf_''"

definition enterHash :: "unit auth_op" where
  "enterHash s = (case faults s of
     True # fs \<Rightarrow> (Inl ErrCtx, s\<lparr>faults := fs\<rparr>) | False # fs \<Rightarrow> (Inr (), s\<lparr>faults := fs\<rparr>) | [] \<Rightarrow> (Inr (), s))"

definition hashPassword :: "Service \<Rightarrow> string \<Rightarrow> string auth_op" where
  "hashPassword sv password = bind enterHash (\<lambda>_. bind random (\<lambda>salt. ret (HashPassword (argon sv) (cpus sv) salt password)))"

definition verifyPassword :: "Service \<Rightarrow> string \<Rightarrow> string \<Rightarrow> unit auth_op" where
  "verifyPassword sv password encoded = bind enterHash (\<lambda>_.
     case VerifyPassword (argon sv) password encoded of None \<Rightarrow> ret () | Some e \<Rightarrow> throw (BadHash e))"

definition checkLockout :: "Service \<Rightarrow> string \<Rightarrow> string \<Rightarrow> unit auth_op" where
  "checkLockout sv email ip = bind timeNow (\<lambda>now.
     bind (wrap Store (CountFailedLogins email ip (now - Window (lockout sv)))) (\<lambda>(byAccount, byIP).
     if byAccount \<ge> MaxPerAccount (lockout sv) \<or> byIP \<ge> MaxPerIPAddress (lockout sv) then throw ErrLockedOut else ret ()))"

definition recordFailure :: "string \<Rightarrow> string \<Rightarrow> unit auth_op" where
  "recordFailure email ip = ignore (RecordLoginAttempt email ip False)"

definition failWith :: "string \<Rightarrow> string \<Rightarrow> auth_err \<Rightarrow> 'a auth_op" where
  "failWith email ip e = bind (recordFailure email ip) (\<lambda>_. throw e)"

definition totpContext :: "string \<Rightarrow> string" where
  "totpContext userID = ''totp:'' @ userID"

definition truncateTo :: "string \<Rightarrow> nat \<Rightarrow> string" where
  "truncateTo s n = (if length s \<le> n then s else take n s)"

definition freshToken :: "string auth_op" where
  "freshToken = bind random (\<lambda>bytes. ret (raw_url64_encode bytes))"

section \<open>Second factors\<close>

definition spendSecondFactor :: "Service \<Rightarrow> User \<Rightarrow> string \<Rightarrow> bool auth_op" where
  "spendSecondFactor sv user code = (case keyringOpen sv (TOTPSecretEnc user) (totpContext (uID user)) of
     None \<Rightarrow> throw ErrKeyring
   | Some secret \<Rightarrow> bind timeNow (\<lambda>now. case VerifyTOTP (hmac_sha1 sv) secret code now of
       Inr counter \<Rightarrow> bind (wrap Store (SpendTOTPCounter (uID user) counter)) (\<lambda>spent.
         if \<not> spent then throw (BadTOTP ErrInvalidTOTP) else ret False)
     | Inl verifyErr \<Rightarrow> bind (wrap Store (UseRecoveryCode (uID user) (HashRecoveryCode (sha256 sv) code))) (\<lambda>used.
         if \<not> used then throw (BadTOTP verifyErr) else ret True)))"

definition checkSecondFactor :: "Service \<Rightarrow> User \<Rightarrow> string \<Rightarrow> unit auth_op" where
  "checkSecondFactor sv user code = (if code = [] then throw ErrTOTPRequired
     else bind (spendSecondFactor sv user code) (\<lambda>_. ret ()))"

section \<open>Signing in\<close>

record LoginResult =
  lUser :: User
  Token :: string
  CSRFToken :: string
  lExpiresAt :: instant
  UsedRecoveryCode :: bool
  RecoveryCodesLeft :: nat

definition issueSession :: "Service \<Rightarrow> User \<Rightarrow> string \<Rightarrow> string \<Rightarrow> LoginResult auth_op" where
  "issueSession sv user ip userAgent = bind freshToken (\<lambda>token. bind freshToken (\<lambda>csrf. bind timeNow (\<lambda>now.
     let expires = now + sessionTTL sv;
         session = \<lparr>sID = [], sUserID = uID user, sTokenHash = HashToken (sha256 sv) token,
           CSRFHash = HashToken (sha256 sv) csrf, sIP = ip, UserAgent = truncateTo userAgent 255,
           sCreatedAt = zero_time, LastSeenAt = zero_time, sExpiresAt = expires, ReauthAt = now\<rparr>
     in bind (wrap Store (CreateSession session)) (\<lambda>_.
        ret \<lparr>lUser = user, Token = token, CSRFToken = csrf, lExpiresAt = expires, UsedRecoveryCode = False,
          RecoveryCodesLeft = 0\<rparr>))))"

definition IssueSession :: "Service \<Rightarrow> User \<Rightarrow> string \<Rightarrow> string \<Rightarrow> LoginResult auth_op" where
  "IssueSession = issueSession"

definition upgradeHash :: "Service \<Rightarrow> User \<Rightarrow> string \<Rightarrow> unit auth_op" where
  "upgradeHash sv user password = (if NeedsRehash (PasswordHash user)
     then handle (hashPassword sv password) (\<lambda>r. case r of Inl _ \<Rightarrow> ret ()
       | Inr rehashed \<Rightarrow> ignore (UpdatePasswordHash (uID user) rehashed))
     else ret ())"

definition secondFactor :: "Service \<Rightarrow> User \<Rightarrow> string \<Rightarrow> string \<Rightarrow> string \<Rightarrow> bool auth_op" where
  "secondFactor sv user email totpCode ip = (if \<not> TOTPEnabled user then ret False
     else if totpCode = [] then throw ErrTOTPRequired
     else handle (spendSecondFactor sv user totpCode) (\<lambda>r. case r of Inl e \<Rightarrow> failWith email ip e | Inr used \<Rightarrow> ret used))"

definition countLeft :: "User \<Rightarrow> bool \<Rightarrow> LoginResult \<Rightarrow> LoginResult auth_op" where
  "countLeft user used result = (if \<not> used then ret result
     else handle (CountRecoveryCodes (uID user)) (\<lambda>r.
       ret (result\<lparr>UsedRecoveryCode := True, RecoveryCodesLeft := (case r of Inl _ \<Rightarrow> 0 | Inr n \<Rightarrow> n)\<rparr>)))"

definition finishLogin :: "Service \<Rightarrow> User \<Rightarrow> string \<Rightarrow> string \<Rightarrow> string \<Rightarrow> string \<Rightarrow> string \<Rightarrow> LoginResult auth_op" where
  "finishLogin sv user email password totpCode ip userAgent =
     bind (secondFactor sv user email totpCode ip) (\<lambda>used.
     bind (upgradeHash sv user password) (\<lambda>_.
     bind (issueSession sv user ip userAgent) (\<lambda>result.
     bind (ignore (RecordLoginAttempt email ip True)) (\<lambda>_.
     bind (ignore (ClearLoginAttempts email)) (\<lambda>_.
     bind (ignore (TouchUserLogin (uID user))) (\<lambda>_.
     countLeft user used result))))))"

definition loginAs :: "Service \<Rightarrow> User \<Rightarrow> string \<Rightarrow> string \<Rightarrow> string \<Rightarrow> string \<Rightarrow> string \<Rightarrow> LoginResult auth_op" where
  "loginAs sv user email password totpCode ip userAgent =
     (if PasswordHash user = [] then bind (ignore (hashPassword sv password)) (\<lambda>_. failWith email ip ErrInvalidCredentials)
      else handle (verifyPassword sv password (PasswordHash user)) (\<lambda>r. case r of
        Inl e \<Rightarrow> failWith email ip (if e = BadHash ErrPasswordMismatch then ErrInvalidCredentials else e)
      | Inr _ \<Rightarrow> if Disabled user then failWith email ip ErrInvalidCredentials
                 else finishLogin sv user email password totpCode ip userAgent))"

definition Login :: "Service \<Rightarrow> string \<Rightarrow> string \<Rightarrow> string \<Rightarrow> string \<Rightarrow> string \<Rightarrow> LoginResult auth_op" where
  "Login sv email password totpCode ip userAgent = bind (checkLockout sv email ip) (\<lambda>_.
     handle (GetUserByEmail email) (\<lambda>r. case r of
       Inl e \<Rightarrow> if e = ErrNotFound
         then bind (ignore (hashPassword sv password)) (\<lambda>_. failWith email ip ErrInvalidCredentials)
         else throw (Store e)
     | Inr user \<Rightarrow> loginAs sv user email password totpCode ip userAgent))"

section \<open>Using a session\<close>

definition slide :: "Service \<Rightarrow> Session \<Rightarrow> unit auth_op" where
  "slide sv x = bind timeNow (\<lambda>now. if now - LastSeenAt x > minute
     then bind timeNow (\<lambda>later.
       let deadline = sCreatedAt x + MaxSessionLife;
           nxt = later + sessionTTL sv
       in ignore (TouchSession (sID x) (if \<not> is_zero_time (sCreatedAt x) \<and> nxt > deadline then deadline else nxt)))
     else ret ())"

definition Authenticate :: "Service \<Rightarrow> string \<Rightarrow> (User \<times> Session) auth_op" where
  "Authenticate sv token = bind (wrap Store (GetSessionByHash (HashToken (sha256 sv) token))) (\<lambda>x.
     bind (wrap Store (GetUser (sUserID x))) (\<lambda>user.
     if Disabled user then bind (ignore (DeleteSession (sID x))) (\<lambda>_. throw (Store ErrNotFound))
     else bind timeNow (\<lambda>now.
       if \<not> is_zero_time (sCreatedAt x) \<and> now > sCreatedAt x + MaxSessionLife
       then bind (ignore (DeleteSession (sID x))) (\<lambda>_. throw (Store ErrNotFound))
       else bind (slide sv x) (\<lambda>_. ret (user, x)))))"

definition CheckCSRF :: "Service \<Rightarrow> Session \<Rightarrow> string \<Rightarrow> bool" where
  "CheckCSRF sv x presented = (if CSRFHash x = [] \<or> presented = [] then False
     else HashToken (sha256 sv) presented = CSRFHash x)"

definition RecentlyAuthenticated :: "Session \<Rightarrow> bool auth_op" where
  "RecentlyAuthenticated x = (if is_zero_time (ReauthAt x) then ret False
     else bind timeNow (\<lambda>now. ret (now - ReauthAt x < ReauthWindow)))"

definition proveAgain :: "Service \<Rightarrow> User \<Rightarrow> string \<Rightarrow> string \<Rightarrow> unit auth_op" where
  "proveAgain sv user ip password =
     (if PasswordHash user = [] then (if \<not> TOTPEnabled user then throw ErrNoSecondProof else ret ())
      else handle (verifyPassword sv password (PasswordHash user)) (\<lambda>r. case r of
        Inl _ \<Rightarrow> failWith (Email user) ip ErrInvalidCredentials | Inr _ \<Rightarrow> ret ()))"

definition proveSecond :: "Service \<Rightarrow> User \<Rightarrow> string \<Rightarrow> string \<Rightarrow> unit auth_op" where
  "proveSecond sv user ip totpCode = (if \<not> TOTPEnabled user then ret ()
     else handle (checkSecondFactor sv user totpCode) (\<lambda>r. case r of
        Inl e \<Rightarrow> if e \<noteq> ErrTOTPRequired then failWith (Email user) ip e else throw e
      | Inr _ \<Rightarrow> ret ()))"

definition Reauthenticate :: "Service \<Rightarrow> User \<Rightarrow> string \<Rightarrow> string \<Rightarrow> string \<Rightarrow> string \<Rightarrow> unit auth_op" where
  "Reauthenticate sv user sessionID ip password totpCode =
     bind (checkLockout sv (Email user) ip) (\<lambda>_.
     bind (proveAgain sv user ip password) (\<lambda>_.
     bind (proveSecond sv user ip totpCode) (\<lambda>_.
     bind (ignore (ClearLoginAttempts (Email user))) (\<lambda>_.
     bind timeNow (\<lambda>now. wrap Store (MarkSessionReauthenticated sessionID now))))))"

definition Logout :: "string \<Rightarrow> unit auth_op" where
  "Logout sessionID = wrap Store (DeleteSession sessionID)"

section \<open>API tokens\<close>

definition AuthenticateToken :: "Service \<Rightarrow> string \<Rightarrow> (User \<times> APIToken) auth_op" where
  "AuthenticateToken sv token = (if \<not> prefix TokenPrefix token then throw (Store ErrNotFound)
     else bind (wrap Store (GetAPITokenByHash (HashToken (sha256 sv) token))) (\<lambda>t.
       bind (wrap Store (GetUser (tUserID t))) (\<lambda>user.
       if Disabled user then throw (Store ErrNotFound)
       else bind timeNow (\<lambda>now.
         bind (if now - LastUsedAt t > minute then ignore (TouchAPIToken (tID t)) else ret ()) (\<lambda>_. ret (user, t))))))"

definition CreateAPIToken :: "Service \<Rightarrow> string \<Rightarrow> string \<Rightarrow> string \<Rightarrow> string \<Rightarrow> duration \<Rightarrow> (APIToken \<times> string) auth_op" where
  "CreateAPIToken sv userID teamID nm scopes ttl = bind freshToken (\<lambda>raw.
     let token = TokenPrefix @ raw in
     bind (if ttl > 0 then bind timeNow (\<lambda>now. ret (now + ttl)) else ret zero_time) (\<lambda>expires.
     bind (wrap Store (StoreAPIToken \<lparr>tID = [], tUserID = userID, TeamID = teamID, tName = nm,
         tTokenHash = HashToken (sha256 sv) token, Prefix = take (min (length token) 12) token, Scopes = scopes,
         tCreatedAt = zero_time, LastUsedAt = zero_time, tExpiresAt = expires\<rparr>))
       (\<lambda>record. ret (record, token))))"

section \<open>Two-factor setup\<close>

definition SetupTOTP :: "Service \<Rightarrow> User \<Rightarrow> string \<Rightarrow> (User \<times> string \<times> string) auth_op" where
  "SetupTOTP sv user issuer = bind random (\<lambda>bytes.
     let secret = GenerateTOTPSecret bytes in
     case keyringSeal sv secret (totpContext (uID user)) of None \<Rightarrow> throw ErrKeyring
     | Some sealed \<Rightarrow> bind (wrap Store (UpdateUser (user\<lparr>TOTPSecretEnc := sealed, TOTPEnabled := False\<rparr>))) (\<lambda>user'.
         ret (user', secret, TOTPURI issuer (Email user') secret)))"

definition StoreRecoveryCodes :: "Service \<Rightarrow> string \<Rightarrow> string list \<Rightarrow> unit auth_op" where
  "StoreRecoveryCodes sv userID codes = wrap Store (ReplaceRecoveryCodes userID (map (HashRecoveryCode (sha256 sv)) codes))"

definition RecoveryCodesLeftOp :: "string \<Rightarrow> nat auth_op" where
  "RecoveryCodesLeftOp userID = wrap Store (CountRecoveryCodes userID)"

definition ConfirmTOTP :: "Service \<Rightarrow> User \<Rightarrow> string \<Rightarrow> User auth_op" where
  "ConfirmTOTP sv user code = (if TOTPSecretEnc user = [] then throw ErrTOTPNotStarted
     else case keyringOpen sv (TOTPSecretEnc user) (totpContext (uID user)) of None \<Rightarrow> throw ErrKeyring
     | Some secret \<Rightarrow> bind timeNow (\<lambda>now. case VerifyTOTP (hmac_sha1 sv) secret code now of
         Inl e \<Rightarrow> throw (BadTOTP e)
       | Inr counter \<Rightarrow> bind (wrap Store (SpendTOTPCounter (uID user) counter)) (\<lambda>_.
           wrap Store (UpdateUser (user\<lparr>TOTPEnabled := True\<rparr>)))))"

definition DisableTOTP :: "User \<Rightarrow> User auth_op" where
  "DisableTOTP user = bind (wrap Store (UpdateUser (user\<lparr>TOTPEnabled := False, TOTPSecretEnc := []\<rparr>))) (\<lambda>user'.
     bind (wrap Store (DeleteRecoveryCodes (uID user))) (\<lambda>_. ret user'))"

section \<open>Changing a password\<close>

fun deleteOthers :: "string \<Rightarrow> Session list \<Rightarrow> unit auth_op" where
  "deleteOthers keep [] = ret ()"
| "deleteOthers keep (x # xs) = (if sID x = keep then deleteOthers keep xs
     else bind (ignore (DeleteSession (sID x))) (\<lambda>_. deleteOthers keep xs))"

definition ChangePassword :: "Service \<Rightarrow> User \<Rightarrow> string \<Rightarrow> string \<Rightarrow> string \<Rightarrow> User auth_op" where
  "ChangePassword sv user current new keepSessionID =
     handle (verifyPassword sv current (PasswordHash user)) (\<lambda>r. case r of
       Inl _ \<Rightarrow> throw ErrInvalidCredentials
     | Inr _ \<Rightarrow> (case Check DefaultPasswordPolicy new of Some e \<Rightarrow> throw (BadPassword e)
       | None \<Rightarrow> bind (hashPassword sv new) (\<lambda>hash.
           bind (wrap Store (UpdateUser (user\<lparr>PasswordHash := hash\<rparr>))) (\<lambda>user'.
           bind (wrap Store (ListSessions (uID user))) (\<lambda>xs.
           bind (deleteOthers keepSessionID xs) (\<lambda>_. ret user'))))))"

section \<open>Cookies\<close>

definition SessionCookieName :: string where "SessionCookieName = ''skifity_session''"
definition CSRFCookieName :: string where "CSRFCookieName = ''skifity_csrf''"
definition HostPrefix :: string where "HostPrefix = ''__Host-''"

record Cookie =
  cName :: string
  Value :: string
  Path :: string
  HttpOnly :: bool
  Secure :: bool
  SameSiteLax :: bool
  Expires :: "instant option"
  MaxAge :: int

definition CookieName :: "Service \<Rightarrow> string \<Rightarrow> string" where
  "CookieName sv base = (if secureCookies sv then HostPrefix @ base else base)"

definition ReadCookie :: "Service \<Rightarrow> (string \<times> string) list \<Rightarrow> string \<Rightarrow> string" where
  "ReadCookie sv jar base = (case map_of jar (CookieName sv base) of None \<Rightarrow> [] | Some v \<Rightarrow> v)"

definition SessionCookie :: "Service \<Rightarrow> string \<Rightarrow> instant \<Rightarrow> Cookie" where
  "SessionCookie sv token expires = \<lparr>cName = CookieName sv SessionCookieName, Value = token, Path = ''/'', HttpOnly = True,
     Secure = secureCookies sv, SameSiteLax = True, Expires = Some expires, MaxAge = 0\<rparr>"

definition CSRFCookie :: "Service \<Rightarrow> string \<Rightarrow> instant \<Rightarrow> Cookie" where
  "CSRFCookie sv token expires = \<lparr>cName = CookieName sv CSRFCookieName, Value = token, Path = ''/'', HttpOnly = False,
     Secure = secureCookies sv, SameSiteLax = True, Expires = Some expires, MaxAge = 0\<rparr>"

definition ClearCookie :: "Service \<Rightarrow> string \<Rightarrow> Cookie" where
  "ClearCookie sv base = \<lparr>cName = CookieName sv base, Value = [], Path = ''/'', HttpOnly = (base = SessionCookieName),
     Secure = secureCookies sv, SameSiteLax = True, Expires = None, MaxAge = -1\<rparr>"

section \<open>What an operation leaves alone\<close>

definition tables :: "auth_db \<Rightarrow> user_row list \<times> Session list \<times> APIToken list \<times> login_attempt list \<times> recovery_code list" where
  "tables s = (users s, sessions s, api_tokens s, login_attempts s, recovery_codes s)"

interpretation tab_inv: env_free "\<lambda>s. tables s = t"
  by unfold_locales (simp_all add: tables_def)

lemma tables_same: "tables s1 = tables s \<longleftrightarrow> users s1 = users s \<and> sessions s1 = sessions s \<and> api_tokens s1 = api_tokens s
    \<and> login_attempts s1 = login_attempts s \<and> recovery_codes s1 = recovery_codes s"
  by (simp add: tables_def)

definition reads :: "(auth_db, 'e, 'a) op \<Rightarrow> bool" where
  "reads m \<longleftrightarrow> (\<forall>t. keeps (\<lambda>s. tables s = t) m)"

lemma readsD: "reads m \<Longrightarrow> m s = (r, s1) \<Longrightarrow> tables s1 = tables s"
  unfolding reads_def using keepsD [of "\<lambda>x. tables x = tables s" m s r s1] by blast

lemma keeps_enterHash: "env_free P \<Longrightarrow> keeps P enterHash"
  using env_free.P_faults [of P] by (auto simp: keeps_def enterHash_def split: list.splits bool.splits)

lemma keeps_hashPassword: "env_free P \<Longrightarrow> keeps P (hashPassword sv pw)"
  unfolding hashPassword_def
  by (intro keeps_intros keeps_enterHash env_free.keeps_random)

lemma keeps_verifyPassword: "env_free P \<Longrightarrow> keeps P (verifyPassword sv pw enc)"
  unfolding verifyPassword_def by (intro keeps_intros keeps_enterHash)

lemma keeps_checkLockout: "env_free P \<Longrightarrow> keeps P (checkLockout sv email ip)"
  unfolding checkLockout_def CountFailedLogins_def
  by (intro keeps_intros env_free.keeps_timeNow env_free.keeps_query)

lemma keeps_GetUserByEmail: "env_free P \<Longrightarrow> keeps P (GetUserByEmail email)"
  unfolding GetUserByEmail_def by (intro env_free.keeps_query)

lemma keeps_freshToken: "env_free P \<Longrightarrow> keeps P freshToken"
  unfolding freshToken_def by (intro keeps_intros env_free.keeps_random)

lemma keeps_countLeft: "env_free P \<Longrightarrow> keeps P (countLeft user used res)"
  unfolding countLeft_def CountRecoveryCodes_def by (intro keeps_intros env_free.keeps_query)

lemma reads_env: "(\<And>t. keeps (\<lambda>s. tables s = t) m) \<Longrightarrow> reads m"
  by (simp add: reads_def)

lemma reads_ops:
  "reads timeNow" "reads random" "reads (query f)" "reads (verifyPassword sv pw enc)" "reads (hashPassword sv pw)"
  "reads (checkLockout sv email ip)" "reads (GetUserByEmail email)" "reads freshToken" "reads (countLeft user used res)"
  by (rule reads_env, intro tab_inv.keeps_env keeps_verifyPassword keeps_hashPassword keeps_checkLockout
      keeps_GetUserByEmail keeps_freshToken keeps_countLeft tab_inv.env_free_axioms)+

section \<open>Reading successful runs backwards\<close>

lemma query_Inr:
  assumes "query f s = (Inr x, s1)"
  obtains s0 where "tables s0 = tables s" "f s0 = Inr x" "tables s1 = tables s"
  using assms refl [of "tables s"] readsD [OF reads_ops(3) assms] unfolding query_def
  by (elim tab_inv.stmt_result) auto

lemma failWith_not_Inr: "failWith email ip e s \<noteq> (Inr x, s1)"
  by (auto simp: failWith_def recordFailure_def ignore_def throw_def bind_def)

lemma verifyPassword_Inr: "verifyPassword sv pw enc s = (Inr u, s1) \<Longrightarrow> VerifyPassword (argon sv) pw enc = None"
  by (auto simp: verifyPassword_def ret_def throw_def elim!: bind_Inr split: option.splits)

definition account_failures :: "auth_db \<Rightarrow> string \<Rightarrow> instant \<Rightarrow> nat" where
  "account_failures s email since = failures (\<lambda>r. aIdentifier r = to_lower email) since s"

definition address_failures :: "auth_db \<Rightarrow> string \<Rightarrow> instant \<Rightarrow> nat" where
  "address_failures s ip since = failures (\<lambda>r. aIP r = ip) since s"

definition notLocked :: "Service \<Rightarrow> string \<Rightarrow> string \<Rightarrow> instant \<Rightarrow> auth_db \<Rightarrow> bool" where
  "notLocked sv email ip now s \<longleftrightarrow>
     (email \<noteq> [] \<longrightarrow> account_failures s email (now - Window (lockout sv)) < MaxPerAccount (lockout sv))
     \<and> (ip \<noteq> [] \<longrightarrow> address_failures s ip (now - Window (lockout sv)) < MaxPerIPAddress (lockout sv))"

lemma count_query:
  assumes "query (\<lambda>s. Inr (failures p since s)) s = (Inr a, s1)"
  shows "a = failures p since s \<and> tables s1 = tables s"
  using assms by (rule query_Inr) (auto simp: failures_def tables_same)

lemma CountFailedLogins_Inr:
  assumes "CountFailedLogins email ip since s = (Inr (a, b), s1)"
  shows "(email \<noteq> [] \<longrightarrow> a = account_failures s email since) \<and> (ip \<noteq> [] \<longrightarrow> b = address_failures s ip since)"
proof -
  define m where "m = (if email \<noteq> [] then query (\<lambda>s. Inr (failures (\<lambda>r. aIdentifier r = to_lower email) since s)) else ret 0)"
  define n where "n = (if ip \<noteq> [] then query (\<lambda>s. Inr (failures (\<lambda>r. aIP r = ip) since s)) else ret 0)"
  have mb: "bind m (\<lambda>x. bind n (\<lambda>y. ret (x, y))) s = (Inr (a, b), s1)"
    using assms by (simp add: CountFailedLogins_def m_def n_def)
  obtain x s2 where ms: "m s = (Inr x, s2)" and nb: "bind n (\<lambda>y. ret (x, y)) s2 = (Inr (a, b), s1)"
    using bind_InrD [OF mb] by blast
  obtain y s3 where ns: "n s2 = (Inr y, s3)" and xy: "x = a" "y = b"
    using bind_InrD [OF nb] by (auto simp: ret_def)
  have t2: "tables s2 = tables s"
    using ms count_query by (cases "email = []") (auto simp: m_def ret_def)
  have "email \<noteq> [] \<Longrightarrow> a = account_failures s email since"
    using ms count_query [of "\<lambda>r. aIdentifier r = to_lower email" since s a s2] by (simp add: m_def account_failures_def xy)
  moreover have "ip \<noteq> [] \<Longrightarrow> b = address_failures s2 ip since"
    using ns count_query [of "\<lambda>r. aIP r = ip" since s2 b s3] by (simp add: n_def address_failures_def xy)
  moreover have "address_failures s2 ip since = address_failures s ip since"
    using t2 by (simp add: address_failures_def failures_def tables_same)
  ultimately show ?thesis by simp
qed

lemma tick_tables: "tables (tick s) = tables s"
  using tab_inv.tick [of s "tables s"] by blast

lemma checkLockout_Inr:
  assumes "checkLockout sv email ip s = (Inr u, s1)"
  shows "notLocked sv email ip (clock (tick s)) s"
proof -
  let ?since = "clock (tick s) - Window (lockout sv)"
  have r: "bind (wrap Store (CountFailedLogins email ip ?since)) (\<lambda>(a, b).
      if a \<ge> MaxPerAccount (lockout sv) \<or> b \<ge> MaxPerIPAddress (lockout sv) then throw ErrLockedOut else ret ()) (tick s)
      = (Inr u, s1)"
    using assms by (simp add: checkLockout_def op_simps)
  obtain a b s2 where c: "CountFailedLogins email ip ?since (tick s) = (Inr (a, b), s2)"
    and lim: "a < MaxPerAccount (lockout sv)" "b < MaxPerIPAddress (lockout sv)"
    using bind_InrD [OF r] by (auto simp: wrap_Inr throw_def split: if_splits)
  show ?thesis
    using CountFailedLogins_Inr [OF c] lim tick_tables [of s]
    by (auto simp: notLocked_def account_failures_def address_failures_def failures_def tables_same)
qed

lemma find_Some: "find p xs = Some x \<Longrightarrow> x \<in> set xs \<and> p x"
  by (auto simp: find_Some_iff)

lemma GetUserByEmail_Inr:
  assumes "GetUserByEmail email s = (Inr user, s1)"
  obtains r where "r \<in> set (users s)" "to_lower (Email r) = to_lower (trim_space email)" "user = scanUser r"
  using assms unfolding GetUserByEmail_def
  by (elim query_Inr) (auto simp: found_def tables_same split: option.splits dest!: find_Some)

lemma GetUser_Inr:
  assumes "GetUser i s = (Inr user, s1)"
  obtains r where "r \<in> set (users s)" "uID r = i" "user = scanUser r"
  using assms unfolding GetUser_def
  by (elim query_Inr) (auto simp: found_def tables_same split: option.splits dest!: find_Some)

lemma SpendTOTPCounter_True:
  assumes "SpendTOTPCounter u c s = (Inr True, s1)"
  obtains r where "r \<in> set (users s)" "uID r = u" "totp_last_counter r < c"
  using assms refl [of "tables s"] unfolding SpendTOTPCounter_def
proof (cases rule: tab_inv.stmt_result)
  case (run s0)
  then have "length (filter (\<lambda>r. uID r = u \<and> totp_last_counter r < c) (users s0)) = 1" by (simp add: affected_def)
  then have "filter (\<lambda>r. uID r = u \<and> totp_last_counter r < c) (users s0) \<noteq> []" by auto
  then show ?thesis using that run(1) by (auto simp: filter_empty_conv tables_same)
qed auto

lemma UseRecoveryCode_True:
  assumes "UseRecoveryCode u h s = (Inr True, s1)"
  obtains r where "r \<in> set (recovery_codes s)" "unused_code u h r"
proof -
  have "stmt (\<lambda>s. (Inr (affected (unused_code u h) (recovery_codes s) > 0),
      s\<lparr>recovery_codes := update_rows (unused_code u h) (\<lambda>r. r\<lparr>used_at := Some (clock (tick s'))\<rparr>) (recovery_codes s)\<rparr>))
      (tick s) = (Inr True, s1)" if "s' = s" for s'
    using assms that by (simp add: UseRecoveryCode_def op_simps)
  from this [OF refl] tick_tables [of s] show thesis
  proof (cases rule: tab_inv.stmt_result)
    case (run s0)
    then have "filter (unused_code u h) (recovery_codes s0) \<noteq> []" by (auto simp: affected_def)
    then show thesis using that run(1) by (auto simp: filter_empty_conv tables_same)
  qed simp
qed

text \<open>The second factor that a sign-in presented was good: a fresh step, or an unused recovery code.\<close>

definition secondFactorGood :: "Service \<Rightarrow> User \<Rightarrow> string \<Rightarrow> bool \<Rightarrow> auth_db \<Rightarrow> bool" where
  "secondFactorGood sv user code used s \<longleftrightarrow>
     (\<exists>secret t. keyringOpen sv (TOTPSecretEnc user) (totpContext (uID user)) = Some secret \<and>
       (if used then \<exists>r \<in> set (recovery_codes s). unused_code (uID user) (HashRecoveryCode (sha256 sv) code) r
        else \<exists>c. VerifyTOTP (hmac_sha1 sv) secret code t = Inr c
          \<and> (\<exists>r \<in> set (users s). uID r = uID user \<and> totp_last_counter r < c)))"

lemma spendSecondFactor_Inr:
  assumes "spendSecondFactor sv user code s = (Inr used, s1)"
  shows "secondFactorGood sv user code used s"
proof -
  obtain secret where k: "keyringOpen sv (TOTPSecretEnc user) (totpContext (uID user)) = Some secret"
    using assms by (auto simp: spendSecondFactor_def throw_def split: option.splits)
  show ?thesis
  proof (cases "VerifyTOTP (hmac_sha1 sv) secret code (clock (tick s))")
    case (Inr c)
    have "bind (wrap Store (SpendTOTPCounter (uID user) c)) (\<lambda>spent.
         if \<not> spent then throw (BadTOTP ErrInvalidTOTP) else ret False) (tick s) = (Inr used, s1)"
      using assms by (simp add: spendSecondFactor_def k op_simps Inr)
    from bind_InrD [OF this] obtain s2 where sp: "SpendTOTPCounter (uID user) c (tick s) = (Inr True, s2)" and "\<not> used"
      by (auto simp: wrap_Inr throw_def ret_def split: if_splits)
    obtain r where "r \<in> set (users (tick s))" "uID r = uID user" "totp_last_counter r < c"
      using SpendTOTPCounter_True [OF sp] .
    then show ?thesis using k Inr \<open>\<not> used\<close> tick_tables [of s] by (auto simp: secondFactorGood_def tables_same)
  next
    case (Inl e)
    have "bind (wrap Store (UseRecoveryCode (uID user) (HashRecoveryCode (sha256 sv) code))) (\<lambda>used.
         if \<not> used then throw (BadTOTP e) else ret True) (tick s) = (Inr used, s1)"
      using assms by (simp add: spendSecondFactor_def k op_simps Inl)
    from bind_InrD [OF this] obtain s2
      where sp: "UseRecoveryCode (uID user) (HashRecoveryCode (sha256 sv) code) (tick s) = (Inr True, s2)" and "used"
      by (auto simp: wrap_Inr throw_def ret_def split: if_splits)
    obtain r where "r \<in> set (recovery_codes (tick s))" "unused_code (uID user) (HashRecoveryCode (sha256 sv) code) r"
      using UseRecoveryCode_True [OF sp] .
    then show ?thesis using k \<open>used\<close> tick_tables [of s] by (auto simp: secondFactorGood_def tables_same)
  qed
qed

lemma secondFactor_Inr:
  assumes "secondFactor sv user email code ip s = (Inr used, s1)" "TOTPEnabled user"
  shows "code \<noteq> [] \<and> secondFactorGood sv user code used s"
proof -
  have ne: "code \<noteq> []" using assms by (auto simp: secondFactor_def throw_def)
  then have "handle (spendSecondFactor sv user code) (\<lambda>r. case r of Inl e \<Rightarrow> failWith email ip e | Inr used \<Rightarrow> ret used) s
      = (Inr used, s1)" using assms by (simp add: secondFactor_def)
  from handleD [OF this] obtain q s2 where q: "spendSecondFactor sv user code s = (q, s2)"
    "(case q of Inl e \<Rightarrow> failWith email ip e | Inr used \<Rightarrow> ret used) s2 = (Inr used, s1)" by blast
  then have "q = Inr used" by (cases q) (auto simp: ret_def failWith_not_Inr)
  then show ?thesis using ne q spendSecondFactor_Inr by blast
qed

text \<open>The session that was issued.\<close>

definition sessionFor :: "Service \<Rightarrow> User \<Rightarrow> string \<Rightarrow> Session \<Rightarrow> bool" where
  "sessionFor sv user token x \<longleftrightarrow> sUserID x = uID user \<and> sTokenHash x = HashToken (sha256 sv) token"

lemma stmt_insertSession:
  assumes "stmt (insertSession row) s = (Inr u, s1)"
  shows "row \<in> set (sessions s1)"
  using assms TrueI by (cases rule: true_inv.stmt_result) (auto simp: insertSession_def split: if_splits)

lemma CreateSession_Inr:
  assumes "CreateSession x s = (Inr y, s1)"
  shows "\<exists>row \<in> set (sessions s1). sUserID row = sUserID x \<and> sTokenHash row = sTokenHash x \<and> sExpiresAt row = sExpiresAt x"
proof -
  obtain i s2 where "bind timeNow (\<lambda>now. let row = x\<lparr>sID := i, sCreatedAt := now, LastSeenAt := now\<rparr> in
     bind (stmt (insertSession row)) (\<lambda>_. ret row)) s2 = (Inr y, s1)"
    using bind_InrD [OF assms [unfolded CreateSession_def]] by blast
  then have "bind (stmt (insertSession (x\<lparr>sID := i, sCreatedAt := clock (tick s2), LastSeenAt := clock (tick s2)\<rparr>)))
      (\<lambda>_. ret (x\<lparr>sID := i, sCreatedAt := clock (tick s2), LastSeenAt := clock (tick s2)\<rparr>)) (tick s2) = (Inr y, s1)"
    by (simp add: op_simps Let_def)
  from bind_InrD [OF this] have "x\<lparr>sID := i, sCreatedAt := clock (tick s2), LastSeenAt := clock (tick s2)\<rparr> \<in> set (sessions s1)"
    using stmt_insertSession by (auto simp: ret_def)
  then show ?thesis by (rule bexI [rotated]) simp
qed

lemma issueSession_Inr:
  assumes "issueSession sv user ip ua s = (Inr res, s1)"
  shows "lUser res = user \<and> (\<exists>x \<in> set (sessions s1). sessionFor sv user (Token res) x)"
proof -
  obtain token s2 where "bind freshToken (\<lambda>csrf. bind timeNow (\<lambda>now.
     let expires = now + sessionTTL sv;
         session = \<lparr>sID = [], sUserID = uID user, sTokenHash = HashToken (sha256 sv) token,
           CSRFHash = HashToken (sha256 sv) csrf, sIP = ip, UserAgent = truncateTo ua 255,
           sCreatedAt = zero_time, LastSeenAt = zero_time, sExpiresAt = expires, ReauthAt = now\<rparr>
     in bind (wrap Store (CreateSession session)) (\<lambda>_.
        ret \<lparr>lUser = user, Token = token, CSRFToken = csrf, lExpiresAt = expires, UsedRecoveryCode = False,
          RecoveryCodesLeft = 0\<rparr>))) s2 = (Inr res, s1)"
    using bind_InrD [OF assms [unfolded issueSession_def]] by blast
  from bind_InrD [OF this] obtain csrf s3 where r: "bind (wrap Store (CreateSession \<lparr>sID = [], sUserID = uID user,
      sTokenHash = HashToken (sha256 sv) token, CSRFHash = HashToken (sha256 sv) csrf, sIP = ip,
      UserAgent = truncateTo ua 255, sCreatedAt = zero_time, LastSeenAt = zero_time,
      sExpiresAt = clock (tick s3) + sessionTTL sv, ReauthAt = clock (tick s3)\<rparr>)) (\<lambda>_.
        ret \<lparr>lUser = user, Token = token, CSRFToken = csrf, lExpiresAt = clock (tick s3) + sessionTTL sv,
          UsedRecoveryCode = False, RecoveryCodesLeft = 0\<rparr>) (tick s3) = (Inr res, s1)"
    by (auto simp: op_simps Let_def)
  from bind_InrD [OF r] show ?thesis
    by (auto simp: wrap_Inr ret_def sessionFor_def dest!: CreateSession_Inr)
qed

lemma reads_secondFactorGood:
  "tables s1 = tables s \<Longrightarrow> secondFactorGood sv user code used s1 = secondFactorGood sv user code used s"
  by (simp add: secondFactorGood_def tables_same)

text \<open>After the session is issued, nothing a sign-in still does removes it.\<close>

lemma has_session_env: "env_free (\<lambda>s :: auth_db. x \<in> set (sessions s))"
  by unfold_locales simp_all

lemma has_session_tail:
  "keeps (\<lambda>s. x \<in> set (sessions s)) (ignore (RecordLoginAttempt email ip ok))"
  "keeps (\<lambda>s. x \<in> set (sessions s)) (ignore (ClearLoginAttempts email))"
  "keeps (\<lambda>s. x \<in> set (sessions s)) (ignore (TouchUserLogin i))"
  unfolding RecordLoginAttempt_def ClearLoginAttempts_def delete_attempts_def TouchUserLogin_def
  by (intro keeps_intros env_free.keeps_timeNow [OF has_session_env] env_free.keeps_stmt [OF has_session_env];
      simp add: keeps_def)+

lemma countLeft_Inr: "countLeft user used res s = (Inr res', s1) \<Longrightarrow> lUser res' = lUser res \<and> Token res' = Token res \<and>
    (UsedRecoveryCode res' \<longleftrightarrow> used \<or> UsedRecoveryCode res)"
  by (auto simp: countLeft_def ret_def handle_def split: if_splits prod.splits)

lemma issueSession_no_code: "issueSession sv user ip ua s = (Inr res, s1) \<Longrightarrow> \<not> UsedRecoveryCode res"
  unfolding issueSession_def Let_def by (elim bind_Inr) (auto simp: ret_def)

lemma finishLogin_Inr:
  assumes "finishLogin sv user email pw code ip ua s = (Inr res, s1)"
  shows "lUser res = user \<and> (TOTPEnabled user \<longrightarrow> code \<noteq> [] \<and> secondFactorGood sv user code (UsedRecoveryCode res) s)
    \<and> (\<exists>x \<in> set (sessions s1). sessionFor sv user (Token res) x)"
proof -
  obtain used s2 where f2: "secondFactor sv user email code ip s = (Inr used, s2)"
    and "bind (upgradeHash sv user pw) (\<lambda>_. bind (issueSession sv user ip ua) (\<lambda>result.
     bind (ignore (RecordLoginAttempt email ip True)) (\<lambda>_. bind (ignore (ClearLoginAttempts email)) (\<lambda>_.
     bind (ignore (TouchUserLogin (uID user))) (\<lambda>_. countLeft user used result))))) s2 = (Inr res, s1)"
    using bind_InrD [OF assms [unfolded finishLogin_def]] by blast
  from bind_InrD [OF this(2)] obtain s3 where "bind (issueSession sv user ip ua) (\<lambda>result.
     bind (ignore (RecordLoginAttempt email ip True)) (\<lambda>_. bind (ignore (ClearLoginAttempts email)) (\<lambda>_.
     bind (ignore (TouchUserLogin (uID user))) (\<lambda>_. countLeft user used result)))) s3 = (Inr res, s1)" by blast
  from bind_InrD [OF this] obtain result s4 where iss: "issueSession sv user ip ua s3 = (Inr result, s4)"
    and tl: "bind (ignore (RecordLoginAttempt email ip True)) (\<lambda>_. bind (ignore (ClearLoginAttempts email)) (\<lambda>_.
     bind (ignore (TouchUserLogin (uID user))) (\<lambda>_. countLeft user used result))) s4 = (Inr res, s1)" by blast
  obtain x where x: "x \<in> set (sessions s4)" "sessionFor sv user (Token result) x" "lUser result = user"
    using issueSession_Inr [OF iss] by blast
  have kp: "keeps (\<lambda>s. x \<in> set (sessions s)) (bind (ignore (RecordLoginAttempt email ip True)) (\<lambda>_.
     bind (ignore (ClearLoginAttempts email)) (\<lambda>_. bind (ignore (TouchUserLogin (uID user))) (\<lambda>_. countLeft user used result))))"
    by (intro keeps_intros has_session_tail keeps_countLeft has_session_env)
  have kept: "x \<in> set (sessions s1)" by (rule keepsD [of "\<lambda>s. x \<in> set (sessions s)", OF kp x(1) tl])
  from tl obtain s5 where "countLeft user used result s5 = (Inr res, s1)" by (auto simp: op_simps)
  note left = countLeft_Inr [OF this]
  then have "UsedRecoveryCode res = used" using issueSession_no_code [OF iss] by blast
  then show ?thesis
    using left x kept secondFactor_Inr [OF f2] by (auto simp: sessionFor_def)
qed

lemma loginAs_Inr:
  assumes "loginAs sv user email pw code ip ua s = (Inr res, s1)"
  shows "PasswordHash user \<noteq> [] \<and> VerifyPassword (argon sv) pw (PasswordHash user) = None \<and> \<not> Disabled user
    \<and> (\<exists>s0. tables s0 = tables s \<and> finishLogin sv user email pw code ip ua s0 = (Inr res, s1))"
proof -
  have ne: "PasswordHash user \<noteq> []"
    using assms by (auto simp: loginAs_def op_simps failWith_not_Inr)
  then have "handle (verifyPassword sv pw (PasswordHash user)) (\<lambda>r. case r of
        Inl e \<Rightarrow> failWith email ip (if e = BadHash ErrPasswordMismatch then ErrInvalidCredentials else e)
      | Inr _ \<Rightarrow> if Disabled user then failWith email ip ErrInvalidCredentials
                 else finishLogin sv user email pw code ip ua) s = (Inr res, s1)"
    using assms by (simp add: loginAs_def)
  from handleD [OF this] obtain q s0 where q: "verifyPassword sv pw (PasswordHash user) s = (q, s0)"
    "(case q of Inl e \<Rightarrow> failWith email ip (if e = BadHash ErrPasswordMismatch then ErrInvalidCredentials else e)
      | Inr _ \<Rightarrow> if Disabled user then failWith email ip ErrInvalidCredentials
                 else finishLogin sv user email pw code ip ua) s0 = (Inr res, s1)" by blast
  then obtain u where "q = Inr u" by (cases q) (auto simp: failWith_not_Inr)
  then show ?thesis
    using q ne verifyPassword_Inr readsD [OF reads_ops(4) q(1)] by (auto simp: failWith_not_Inr split: if_splits)
qed

section \<open>Properties of signing in\<close>


section \<open>Runs without faults\<close>

lemma tick_faults: "faults (tick s) = faults s"
  by (simp add: tick_def split: list.splits)

lemma stmt_quiet: "faults s = [] \<Longrightarrow> stmt f s = f (tick s)"
  by (simp add: stmt_def tick_faults)

lemma query_quiet: "faults s = [] \<Longrightarrow> query f s = (f (tick s), tick s)"
  by (simp add: query_def stmt_quiet)

lemma failures_tick: "failures p since (tick s) = failures p since s"
  using tick_tables [of s] by (simp add: failures_def tables_same)

lemma bind_wrap_Inr: "m s = (Inr x, s1) \<Longrightarrow> bind (wrap f m) k s = k x s1"
  by (simp add: bind_def wrap_def)

lemma affected_mono: "(\<And>r. p r \<Longrightarrow> q r) \<Longrightarrow> affected p rows \<le> affected q rows"
  unfolding affected_def by (induction rows) (auto simp: le_SucI)

lemma CountFailedLogins_quiet:
  assumes "faults s = []"
  shows "\<exists>s1. CountFailedLogins email ip since s =
      (Inr (if email \<noteq> [] then account_failures s email since else 0, if ip \<noteq> [] then address_failures s ip since else 0), s1)
    \<and> tables s1 = tables s \<and> faults s1 = []"
  using assms
  by (cases "email = []"; cases "ip = []")
    (simp_all add: CountFailedLogins_def op_simps query_quiet bind_def tick_faults failures_tick tick_tables
      account_failures_def address_failures_def)

definition limits_positive :: "Service \<Rightarrow> bool" where
  "limits_positive sv \<longleftrightarrow> 0 < MaxPerAccount (lockout sv) \<and> 0 < MaxPerIPAddress (lockout sv)"

lemma checkLockout_quiet:
  assumes "faults s = []" "limits_positive sv"
  shows "\<exists>s1. checkLockout sv email ip s = (if notLocked sv email ip (clock (tick s)) s then Inr () else Inl ErrLockedOut, s1)
    \<and> tables s1 = tables s \<and> faults s1 = []"
proof -
  let ?since = "clock (tick s) - Window (lockout sv)"
  define a where "a = (if email \<noteq> [] then account_failures s email ?since else 0)"
  define b where "b = (if ip \<noteq> [] then address_failures s ip ?since else 0)"
  obtain s1 where c: "CountFailedLogins email ip ?since (tick s) = (Inr (a, b), s1)"
      and s1: "tables s1 = tables s" "faults s1 = []"
    using CountFailedLogins_quiet [of "tick s" email ip ?since] assms(1)
    by (auto simp: tick_faults tick_tables a_def b_def account_failures_def address_failures_def failures_tick)
  have "checkLockout sv email ip s = (if a \<ge> MaxPerAccount (lockout sv) \<or> b \<ge> MaxPerIPAddress (lockout sv)
      then throw ErrLockedOut else ret ()) s1"
    using c by (simp add: checkLockout_def bind_timeNow bind_wrap_Inr)
  moreover have "notLocked sv email ip (clock (tick s)) s \<longleftrightarrow>
      \<not> (a \<ge> MaxPerAccount (lockout sv) \<or> b \<ge> MaxPerIPAddress (lockout sv))"
    using assms(2) by (auto simp: notLocked_def a_def b_def limits_positive_def)
  ultimately show ?thesis using s1 by (auto simp: op_simps)
qed

lemma hashPassword_quiet:
  assumes "faults s = []"
  shows "\<exists>salt s1. hashPassword sv pw s = (Inr (HashPassword (argon sv) (cpus sv) salt pw), s1)
    \<and> tables s1 = tables s \<and> faults s1 = [] \<and> clock s1 = clock s"
  using assms by (cases "entropy s") (auto simp: hashPassword_def enterHash_def bind_def random_def ret_def tables_def)

lemma verifyPassword_quiet: "faults s = [] \<Longrightarrow>
    verifyPassword sv pw enc s = (case VerifyPassword (argon sv) pw enc of None \<Rightarrow> Inr () | Some e \<Rightarrow> Inl (BadHash e), s)"
  by (simp add: verifyPassword_def enterHash_def bind_def ret_def throw_def split: option.splits)

definition with_failure :: "string \<Rightarrow> string \<Rightarrow> auth_db \<Rightarrow> auth_db \<Rightarrow> bool" where
  "with_failure email ip s s1 \<longleftrightarrow> (\<exists>t. users s1 = users s \<and> sessions s1 = sessions s \<and> api_tokens s1 = api_tokens s
     \<and> recovery_codes s1 = recovery_codes s
     \<and> login_attempts s1 = login_attempts s @ [\<lparr>aIdentifier = to_lower email, aIP = ip, success = False, aAt = t\<rparr>])"

lemma failWith_quiet:
  assumes "faults s = []" "tables s = tables s0"
  shows "\<exists>s1. failWith email ip e s = (Inl e, s1) \<and> with_failure email ip s0 s1"
proof -
  have "tables (tick (tick s)) = tables s0" using assms(2) by (simp add: tick_tables)
  then show ?thesis using assms(1)
    by (auto simp: failWith_def recordFailure_def RecordLoginAttempt_def op_simps stmt_quiet tick_faults with_failure_def
        tables_same)
qed

lemma GetUserByEmail_quiet: "faults s = [] \<Longrightarrow> GetUserByEmail email s =
    (found (map_option scanUser (find (\<lambda>r. to_lower (Email r) = to_lower (trim_space email)) (users s))), tick s)"
  using tick_tables [of s] by (simp add: GetUserByEmail_def query_quiet tables_same)

text \<open>C19: An unknown address, an account without a password, a wrong password and a
  disabled account cannot be told apart: each is refused with the same error,
  and the only trace is one recorded failure.\<close>
theorem Login_refused_alike:
  assumes "faults s = []" "limits_positive sv" "notLocked sv email ip (clock (tick s)) s"
    "\<forall>r \<in> set (users s). to_lower (Email r) = to_lower (trim_space email) \<longrightarrow>
      PasswordHash r = [] \<or> VerifyPassword (argon sv) pw (PasswordHash r) = Some ErrPasswordMismatch
      \<or> VerifyPassword (argon sv) pw (PasswordHash r) = None \<and> Disabled r"
  shows "\<exists>s1. Login sv email pw code ip ua s = (Inl ErrInvalidCredentials, s1) \<and> with_failure email ip s s1"
proof -
  obtain s2 where lk: "checkLockout sv email ip s = (Inr (), s2)" and t2: "tables s2 = tables s" "faults s2 = []"
    using checkLockout_quiet [OF assms(1,2), of email ip] assms(3) by auto
  have t3: "tables (tick s2) = tables s" "faults (tick s2) = []" using t2 by (simp_all add: tick_tables tick_faults)
  obtain h s4 where hp: "hashPassword sv pw (tick s2) = (Inr h, s4)" and t4: "tables s4 = tables s" "faults s4 = []"
    using hashPassword_quiet [OF t3(2), of sv pw] t3 by auto
  have fw: "\<exists>s1. failWith email ip ErrInvalidCredentials s' = (Inl ErrInvalidCredentials, s1) \<and> with_failure email ip s s1"
    if "tables s' = tables s" "faults s' = []" for s' using failWith_quiet that by blast
  show ?thesis
  proof (cases "find (\<lambda>r. to_lower (Email r) = to_lower (trim_space email)) (users s2)")
    case None
    then show ?thesis using fw [OF t4]
      by (simp add: Login_def bind_def [of "checkLockout sv email ip"] lk handle_def GetUserByEmail_quiet [OF t2(2)] found_def op_simps hp)
  next
    case (Some r)
    define user where "user = scanUser r"
    have cols: "PasswordHash user = PasswordHash r" "Disabled user = Disabled r"
      by (simp_all add: user_def scanUser_def User.defs)
    have "r \<in> set (users s)" "to_lower (Email r) = to_lower (trim_space email)"
      using find_Some [OF Some] t2 by (simp_all add: tables_same)
    then have "PasswordHash r = [] \<or> VerifyPassword (argon sv) pw (PasswordHash r) = Some ErrPasswordMismatch
      \<or> VerifyPassword (argon sv) pw (PasswordHash r) = None \<and> Disabled r" using assms(4) by blast
    then have "\<exists>s1. loginAs sv user email pw code ip ua (tick s2) = (Inl ErrInvalidCredentials, s1) \<and> with_failure email ip s s1"
      using fw [OF t4] fw [OF t3]
      by (cases "PasswordHash r = []")
        (auto simp: loginAs_def cols op_simps hp handle_def verifyPassword_quiet [OF t3(2)])
    then show ?thesis
      by (simp add: Login_def bind_def [of "checkLockout sv email ip"] lk handle_def GetUserByEmail_quiet [OF t2(2)]
          found_def Some user_def)
  qed
qed

text \<open>C9: Once an account has reached its limit of failures inside the window, by more
  than the second that timestamps are compared with, every further sign-in under
  that spelling of the address is refused before the password is looked at, and
  leaves no trace.\<close>
theorem lockout_holds:
  assumes "faults s = []" "limits_positive sv" "email \<noteq> []"
    "MaxPerAccount (lockout sv) \<le> affected (\<lambda>r. aIdentifier r = to_lower email \<and> \<not> success r
       \<and> clock (tick s) - Window (lockout sv) + second \<le> aAt r) (login_attempts s)"
  shows "\<exists>s1. Login sv email pw code ip ua s = (Inl ErrLockedOut, s1) \<and> tables s1 = tables s"
proof -
  have "affected (\<lambda>r. aIdentifier r = to_lower email \<and> \<not> success r
       \<and> clock (tick s) - Window (lockout sv) + second \<le> aAt r) (login_attempts s)
      \<le> account_failures s email (clock (tick s) - Window (lockout sv))"
    unfolding account_failures_def failures_def by (rule affected_mono) (auto simp: text_less_far)
  then have "\<not> notLocked sv email ip (clock (tick s)) s" using assms(3,4) by (simp add: notLocked_def)
  then obtain s1 where "checkLockout sv email ip s = (Inl ErrLockedOut, s1)" "tables s1 = tables s"
    using checkLockout_quiet [OF assms(1,2), of email ip] by auto
  then show ?thesis by (simp add: Login_def bind_def)
qed

section \<open>Properties of sessions and tokens\<close>

lemma GetSessionByHash_Inr:
  assumes "GetSessionByHash hash s = (Inr x, s1)"
  shows "x \<in> set (sessions s) \<and> sTokenHash x = hash \<and> clock s \<le> sExpiresAt x"
proof -
  obtain y s2 where q: "query (\<lambda>s. found (find (\<lambda>r. sTokenHash r = hash) (sessions s))) s = (Inr y, s2)"
    and r: "bind timeNow (\<lambda>now. if now > sExpiresAt y then throw ErrNotFound else ret y) s2 = (Inr x, s1)"
    using bind_InrD [OF assms [unfolded GetSessionByHash_def]] by blast
  have y: "y \<in> set (sessions s) \<and> sTokenHash y = hash"
    using q by (rule query_Inr) (auto simp: found_def tables_same split: option.splits dest!: find_Some)
  have "clock s \<le> clock s2"
    using q tick_clock [of s] by (auto simp: query_def stmt_def Let_def split: list.splits bool.splits)
  then show ?thesis using r y tick_clock [of s2] by (auto simp: op_simps split: if_splits)
qed

lemma timeNow_after: "query f s = (r, s1) \<Longrightarrow> clock s \<le> clock s1"
  using tick_clock [of s] by (auto simp: query_def stmt_def Let_def split: list.splits bool.splits)

lemma GetSessionByHash_clock: "GetSessionByHash hash s = (Inr x, s1) \<Longrightarrow> clock s \<le> clock s1"
proof -
  assume "GetSessionByHash hash s = (Inr x, s1)"
  from bind_InrD [OF this [unfolded GetSessionByHash_def]] obtain y s2
    where q: "query (\<lambda>s. found (find (\<lambda>r. sTokenHash r = hash) (sessions s))) s = (Inr y, s2)"
    and r: "bind timeNow (\<lambda>now. if now > sExpiresAt y then throw ErrNotFound else ret y) s2 = (Inr x, s1)" by blast
  have "s1 = tick s2" using r by (auto simp: op_simps split: if_splits)
  then show ?thesis using timeNow_after [OF q] tick_clock [of s2] by simp
qed

lemma reads_GetSessionByHash: "reads (GetSessionByHash hash)"
  unfolding GetSessionByHash_def
  by (rule reads_env, intro keeps_intros tab_inv.keeps_timeNow tab_inv.keeps_query)

lemma reads_GetAPITokenByHash: "reads (GetAPITokenByHash hash)"
  unfolding GetAPITokenByHash_def
  by (rule reads_env, intro keeps_intros tab_inv.keeps_timeNow tab_inv.keeps_query)

lemma Authenticate_Inr:
  assumes "Authenticate sv token s = (Inr (user, x), s1)"
  shows "x \<in> set (sessions s) \<and> sTokenHash x = HashToken (sha256 sv) token \<and> clock s \<le> sExpiresAt x
    \<and> (\<exists>r \<in> set (users s). uID r = sUserID x \<and> user = scanUser r \<and> \<not> Disabled r)
    \<and> (is_zero_time (sCreatedAt x) \<or> clock s \<le> sCreatedAt x + MaxSessionLife)"
proof -
  obtain y s2 where g: "GetSessionByHash (HashToken (sha256 sv) token) s = (Inr y, s2)"
    and r2: "bind (wrap Store (GetUser (sUserID y))) (\<lambda>user.
     if Disabled user then bind (ignore (DeleteSession (sID y))) (\<lambda>_. throw (Store ErrNotFound))
     else bind timeNow (\<lambda>now.
       if \<not> is_zero_time (sCreatedAt y) \<and> now > sCreatedAt y + MaxSessionLife
       then bind (ignore (DeleteSession (sID y))) (\<lambda>_. throw (Store ErrNotFound))
       else bind (slide sv y) (\<lambda>_. ret (user, y)))) s2 = (Inr (user, x), s1)"
    using bind_InrD [OF assms [unfolded Authenticate_def]] by (auto simp: wrap_Inr)
  obtain u s3 where gu: "GetUser (sUserID y) s2 = (Inr u, s3)"
    and r3: "(if Disabled u then bind (ignore (DeleteSession (sID y))) (\<lambda>_. throw (Store ErrNotFound))
     else bind timeNow (\<lambda>now.
       if \<not> is_zero_time (sCreatedAt y) \<and> now > sCreatedAt y + MaxSessionLife
       then bind (ignore (DeleteSession (sID y))) (\<lambda>_. throw (Store ErrNotFound))
       else bind (slide sv y) (\<lambda>_. ret (u, y)))) s3 = (Inr (user, x), s1)"
    using bind_InrD [OF r2] by (auto simp: wrap_Inr)
  have d: "\<not> Disabled u" using r3 by (auto simp: op_simps)
  then have r4: "(if \<not> is_zero_time (sCreatedAt y) \<and> clock (tick s3) > sCreatedAt y + MaxSessionLife
       then bind (ignore (DeleteSession (sID y))) (\<lambda>_. throw (Store ErrNotFound))
       else bind (slide sv y) (\<lambda>_. ret (u, y))) (tick s3) = (Inr (user, x), s1)" using r3 by (simp add: op_simps)
  have live: "is_zero_time (sCreatedAt y) \<or> clock (tick s3) \<le> sCreatedAt y + MaxSessionLife"
    using r4 by (auto simp: op_simps split: if_splits)
  then have "bind (slide sv y) (\<lambda>_. ret (u, y)) (tick s3) = (Inr (user, x), s1)" using r4 by auto
  from bind_InrD [OF this] have eq: "user = u" "x = y" by (auto simp: ret_def)
  have "clock s2 \<le> clock s3" using gu unfolding GetUser_def by (rule timeNow_after)
  then have "clock s \<le> clock (tick s3)" using GetSessionByHash_clock [OF g] tick_clock [of s3] by simp
  moreover have "\<exists>r \<in> set (users s). uID r = sUserID x \<and> user = scanUser r \<and> \<not> Disabled r"
  proof -
    obtain r where "r \<in> set (users s2)" "uID r = sUserID y" "u = scanUser r" using GetUser_Inr [OF gu] by blast
    moreover have "users s2 = users s" using readsD [OF reads_GetSessionByHash g] by (simp add: tables_same)
    ultimately show ?thesis using d eq by (intro bexI [of _ r]) (auto simp: scanUser_def User.defs)
  qed
  ultimately show ?thesis using GetSessionByHash_Inr [OF g] live eq by auto
qed

text \<open>C18: A request is let in by a session token only if the store holds a session for
  that token which has not expired and belongs to the returned user, the user
  exists and is not disabled, and the session is at most thirty days old, however
  often it was renewed.\<close>
theorem Authenticate_sound:
  assumes "Authenticate sv token s = (Inr (user, x), s1)" "\<not> is_zero_time (sCreatedAt x)"
  shows "x \<in> set (sessions s) \<and> sTokenHash x = HashToken (sha256 sv) token \<and> clock s \<le> sExpiresAt x
    \<and> (\<exists>r \<in> set (users s). uID r = sUserID x \<and> user = scanUser r \<and> \<not> Disabled r)
    \<and> clock s \<le> sCreatedAt x + MaxSessionLife"
  using Authenticate_Inr [OF assms(1)] assms(2) by blast

lemma AuthenticateToken_Inr:
  assumes "AuthenticateToken sv token s = (Inr (user, t), s1)"
  shows "prefix TokenPrefix token \<and> t \<in> set (api_tokens s) \<and> tTokenHash t = HashToken (sha256 sv) token
    \<and> (is_zero_time (tExpiresAt t) \<or> clock s \<le> tExpiresAt t)
    \<and> (\<exists>r \<in> set (users s). uID r = tUserID t \<and> user = scanUser r \<and> \<not> Disabled r)"
proof -
  have pre: "prefix TokenPrefix token" using assms by (auto simp: AuthenticateToken_def throw_def split: if_splits)
  then have "bind (wrap Store (GetAPITokenByHash (HashToken (sha256 sv) token))) (\<lambda>t.
       bind (wrap Store (GetUser (tUserID t))) (\<lambda>user.
       if Disabled user then throw (Store ErrNotFound)
       else bind timeNow (\<lambda>now.
         bind (if now - LastUsedAt t > minute then ignore (TouchAPIToken (tID t)) else ret ()) (\<lambda>_. ret (user, t))))) s
      = (Inr (user, t), s1)" using assms by (simp add: AuthenticateToken_def)
  from bind_InrD [OF this] obtain y s2 where g: "GetAPITokenByHash (HashToken (sha256 sv) token) s = (Inr y, s2)"
    and r2: "bind (wrap Store (GetUser (tUserID y))) (\<lambda>user.
       if Disabled user then throw (Store ErrNotFound)
       else bind timeNow (\<lambda>now.
         bind (if now - LastUsedAt y > minute then ignore (TouchAPIToken (tID y)) else ret ()) (\<lambda>_. ret (user, y)))) s2
      = (Inr (user, t), s1)" by (auto simp: wrap_Inr)
  from bind_InrD [OF r2] obtain u s3 where gu: "GetUser (tUserID y) s2 = (Inr u, s3)"
    and r3: "(if Disabled u then throw (Store ErrNotFound)
       else bind timeNow (\<lambda>now.
         bind (if now - LastUsedAt y > minute then ignore (TouchAPIToken (tID y)) else ret ()) (\<lambda>_. ret (u, y)))) s3
      = (Inr (user, t), s1)" by (auto simp: wrap_Inr)
  have d: "\<not> Disabled u" and eq: "user = u" "t = y"
    using r3 by (auto simp: op_simps split: if_splits)
  obtain z s4 where q: "query (\<lambda>s. found (find (\<lambda>r. tTokenHash r = HashToken (sha256 sv) token) (api_tokens s))) s = (Inr z, s4)"
    and r: "(if is_zero_time (tExpiresAt z) then ret z
          else bind timeNow (\<lambda>now. if now > tExpiresAt z then throw ErrNotFound else ret z)) s4 = (Inr y, s2)"
    using bind_InrD [OF g [unfolded GetAPITokenByHash_def]] by blast
  have z: "z \<in> set (api_tokens s) \<and> tTokenHash z = HashToken (sha256 sv) token"
    using q by (rule query_Inr) (auto simp: found_def tables_same split: option.splits dest!: find_Some)
  have live: "z = y \<and> (is_zero_time (tExpiresAt z) \<or> clock s \<le> tExpiresAt z)"
    using r timeNow_after [OF q] tick_clock [of s4] by (auto simp: op_simps split: if_splits)
  obtain r where "r \<in> set (users s2)" "uID r = tUserID y" "u = scanUser r" using GetUser_Inr [OF gu] by blast
  moreover have "users s2 = users s" using readsD [OF reads_GetAPITokenByHash g] by (simp add: tables_same)
  ultimately have "\<exists>r \<in> set (users s). uID r = tUserID t \<and> user = scanUser r \<and> \<not> Disabled r"
    using d eq by (intro bexI [of _ r]) (auto simp: scanUser_def User.defs)
  then show ?thesis using pre z live eq by auto
qed

text \<open>A request is let in by an API token only if the token has the panel's prefix,
  the store holds a token with its hash that has not expired, and its user
  exists and is not disabled.\<close>
theorem AuthenticateToken_sound:
  assumes "AuthenticateToken sv token s = (Inr (user, t), s1)"
  shows "prefix TokenPrefix token \<and> t \<in> set (api_tokens s) \<and> tTokenHash t = HashToken (sha256 sv) token
    \<and> (is_zero_time (tExpiresAt t) \<or> clock s \<le> tExpiresAt t)
    \<and> (\<exists>r \<in> set (users s). uID r = tUserID t \<and> user = scanUser r \<and> \<not> Disabled r)"
  using AuthenticateToken_Inr [OF assms] .

section \<open>Changing a password\<close>

lemma tick_frame: "users (tick s) = users s" "sessions (tick s) = sessions s" for s :: auth_db
  using tick_tables [of s] by (simp_all add: tables_same)

lemma DeleteSession_quiet:
  "faults s = [] \<Longrightarrow> DeleteSession i s = (Inr (), (tick s)\<lparr>sessions := filter (\<lambda>r. sID r \<noteq> i) (sessions s)\<rparr>)"
  by (simp add: DeleteSession_def delete_sessions_def bind_def stmt_quiet ret_def tick_frame)

lemma deleteOthers_quiet:
  "faults s = [] \<Longrightarrow> \<exists>s1. deleteOthers keep xs s = (Inr (), s1) \<and> faults s1 = [] \<and> users s1 = users s
    \<and> sessions s1 = filter (\<lambda>r. sID r = keep \<or> sID r \<notin> sID ` set xs) (sessions s) \<and> clock s \<le> clock s1"
proof (induction xs arbitrary: s)
  case Nil
  then show ?case by (simp add: ret_def)
next
  case (Cons x xs)
  show ?case
  proof (cases "sID x = keep")
    case True
    have "sID r = keep \<or> sID r \<notin> sID ` set xs \<longleftrightarrow> sID r = keep \<or> sID r \<notin> sID ` set (x # xs)" for r :: Session
      using True by auto
    then show ?thesis using Cons.IH [OF Cons.prems] True by simp
  next
    case False
    let ?s = "(tick s)\<lparr>sessions := filter (\<lambda>r. sID r \<noteq> sID x) (sessions s)\<rparr>"
    obtain s1 where s1: "deleteOthers keep xs ?s = (Inr (), s1)" "faults s1 = []" "users s1 = users s"
        "sessions s1 = filter (\<lambda>r. sID r = keep \<or> sID r \<notin> sID ` set xs) (sessions ?s)" "clock ?s \<le> clock s1"
      using Cons.IH [of ?s] Cons.prems by (auto simp: tick_faults tick_frame)
    have "sessions s1 = filter (\<lambda>r. sID r = keep \<or> sID r \<notin> sID ` set (x # xs)) (sessions s)"
      using s1(4) False by (auto intro!: filter_cong)
    moreover have "deleteOthers keep (x # xs) s = (Inr (), s1)"
      using False s1(1) Cons.prems by (simp add: op_simps DeleteSession_quiet)
    ultimately show ?thesis using s1 tick_clock [of s] by auto
  qed
qed

lemma UpdateUser_Inr_quiet:
  assumes "faults s = []" "UpdateUser u s = (Inr u', s1)"
  shows "faults s1 = [] \<and> clock s \<le> clock s1 \<and> sessions s1 = sessions s
    \<and> (\<exists>now. users s1 = update_rows (\<lambda>r. uID r = uID u) (mutable_columns u now) (users s)) \<and> user_exists (uID u) s"
proof -
  let ?now = "clock (tick s)"
  have "bind (stmt (updateUserRow u ?now)) (\<lambda>_. ret (u\<lparr>UpdatedAt := ?now\<rparr>)) (tick s) = (Inr u', s1)"
    using assms(2) by (simp add: UpdateUser_def op_simps)
  from bind_InrD [OF this] have "updateUserRow u ?now (tick (tick s)) = (Inr (), s1)"
    using assms(1) by (auto simp: stmt_quiet tick_faults ret_def)
  then have s1: "s1 = (tick (tick s))\<lparr>users := update_rows (\<lambda>r. uID r = uID u) (mutable_columns u ?now) (users s)\<rparr>"
      and "user_exists (uID u) (tick (tick s))"
    by (auto simp: updateUserRow_def tick_frame split: if_splits)
  then have "user_exists (uID u) s" by (simp add: user_exists_def tick_frame)
  moreover have "clock s \<le> clock s1" using tick_clock [of s] tick_clock [of "tick s"] by (simp add: s1)
  moreover have "users s1 = update_rows (\<lambda>r. uID r = uID u) (mutable_columns u ?now) (users s)" by (simp add: s1)
  moreover have "faults s1 = []" "sessions s1 = sessions s" using assms(1) by (simp_all add: s1 tick_frame tick_faults)
  ultimately show ?thesis by blast
qed

lemma text_expired: "\<not> text_less now e \<Longrightarrow> now \<le> later \<Longrightarrow> e < later + second"
  using text_less_far [of now e] by fastforce

text \<open>When a password change succeeds and no statement failed, the account's row holds
  a hash the new password opens, and the only sessions of the account that are
  left are the one to keep and ones that have expired.\<close>
theorem ChangePassword_signs_out:
  assumes "faults s = []" "ChangePassword sv user current new keep s = (Inr user', s1)"
    and argon_length: "\<And>pw a t m p k. length (argon sv pw a t m p k) = k"
  shows "(\<exists>r \<in> set (users s1). uID r = uID user \<and> VerifyPassword (argon sv) new (PasswordHash r) = None)
    \<and> (\<forall>x \<in> set (sessions s1). sUserID x = uID user \<longrightarrow> sID x = keep \<or> sExpiresAt x < clock s1 + second)"
proof -
  have "VerifyPassword (argon sv) current (PasswordHash user) = None"
    and "Check DefaultPasswordPolicy new = None"
    and r1: "bind (hashPassword sv new) (\<lambda>hash.
           bind (wrap Store (UpdateUser (user\<lparr>PasswordHash := hash\<rparr>))) (\<lambda>user'.
           bind (wrap Store (ListSessions (uID user))) (\<lambda>xs.
           bind (deleteOthers keep xs) (\<lambda>_. ret user')))) s = (Inr user', s1)"
    using assms(1,2)
    by (auto simp: ChangePassword_def handle_def verifyPassword_quiet throw_def split: option.splits)
  obtain salt s2 where hp: "hashPassword sv new s = (Inr (HashPassword (argon sv) (cpus sv) salt new), s2)"
      and t2: "tables s2 = tables s" "faults s2 = []" "clock s2 = clock s"
    using hashPassword_quiet [OF assms(1), of sv new] by blast
  define hash where "hash = HashPassword (argon sv) (cpus sv) salt new"
  have "bind (wrap Store (UpdateUser (user\<lparr>PasswordHash := hash\<rparr>))) (\<lambda>user'.
           bind (wrap Store (ListSessions (uID user))) (\<lambda>xs.
           bind (deleteOthers keep xs) (\<lambda>_. ret user'))) s2 = (Inr user', s1)"
    using r1 by (simp add: bind_def [of "hashPassword sv new"] hp hash_def)
  from bind_InrD [OF this] obtain u3 s3 where up: "UpdateUser (user\<lparr>PasswordHash := hash\<rparr>) s2 = (Inr u3, s3)"
    and r3: "bind (wrap Store (ListSessions (uID user))) (\<lambda>xs. bind (deleteOthers keep xs) (\<lambda>_. ret u3)) s3 = (Inr user', s1)"
    by (auto simp: wrap_Inr)
  note u3 = UpdateUser_Inr_quiet [OF t2(2) up]
  let ?now = "clock (tick s3)"
  define xs where "xs = rev (sort_key (\<lambda>r. text_key (LastSeenAt r))
     (filter (\<lambda>r. sUserID r = uID user \<and> text_less ?now (sExpiresAt r)) (sessions s3)))"
  have "ListSessions (uID user) s3 = (Inr xs, tick (tick s3))"
    using u3 by (simp add: ListSessions_def op_simps query_quiet tick_faults tick_frame xs_def)
  then have "bind (deleteOthers keep xs) (\<lambda>_. ret u3) (tick (tick s3)) = (Inr user', s1)"
    using r3 by (simp add: bind_wrap_Inr)
  moreover obtain s4 where d: "deleteOthers keep xs (tick (tick s3)) = (Inr (), s4)" "users s4 = users s3"
      "sessions s4 = filter (\<lambda>r. sID r = keep \<or> sID r \<notin> sID ` set xs) (sessions s3)" "clock (tick (tick s3)) \<le> clock s4"
    using deleteOthers_quiet [of "tick (tick s3)" keep xs] u3 by (auto simp: tick_faults tick_frame)
  ultimately have s14: "s1 = s4" by (simp add: bind_def ret_def)
  have later: "?now \<le> clock s1" using d(4) tick_clock [of "tick s3"] s14 by simp
  have "sID x = keep \<or> sExpiresAt x < clock s1 + second" if x: "x \<in> set (sessions s1)" "sUserID x = uID user" for x
  proof (cases "sID x = keep")
    case False
    then have "x \<in> set (sessions s3)" "x \<notin> set xs" using x d(3) s14 by auto
    then have "\<not> text_less ?now (sExpiresAt x)" using x(2) by (simp add: xs_def)
    then show ?thesis using text_expired later by blast
  qed simp
  moreover have "\<exists>r \<in> set (users s1). uID r = uID user \<and> VerifyPassword (argon sv) new (PasswordHash r) = None"
  proof -
    obtain now where us: "users s3 = update_rows (\<lambda>r. uID r = uID user) (mutable_columns (user\<lparr>PasswordHash := hash\<rparr>) now) (users s2)"
        "user_exists (uID user) s2" using u3 by auto
    then obtain r where r: "r \<in> set (users s2)" "uID r = uID user" by (auto simp: user_exists_def)
    then have "mutable_columns (user\<lparr>PasswordHash := hash\<rparr>) now r \<in> set (users s3)" by (force simp: us(1) update_rows_def)
    moreover have "VerifyPassword (argon sv) new hash = None"
      using HashPassword_accepts [of "argon sv", OF argon_length] by (simp add: hash_def)
    ultimately show ?thesis using d(2) s14 r(2)
      by (intro bexI [of _ "mutable_columns (user\<lparr>PasswordHash := hash\<rparr>) now r"]) (auto simp: mutable_columns_def)
  qed
  ultimately show ?thesis by blast
qed

section \<open>Concrete runs\<close>

text \<open>
  Operations are evaluated only once they are applied to a state: the bodies
  under the binders of \<^verbatim>\<open>bind\<close> are left alone until then.
\<close>


declare idOr_def [code del] CreateUser_def [code del]  GetUser_def [code del]
  GetUserByEmail_def [code del] ListUsers_def [code del] CountUsers_def [code del] UpdateUser_def [code del]
  UpdatePasswordHash_def [code del] TouchUserLogin_def [code del] DeleteUser_def [code del] CreateSession_def
  [code del] GetSessionByHash_def [code del] update_sessions_def [code del] MarkSessionReauthenticated_def
  [code del] TouchSession_def [code del] ListSessions_def [code del] delete_sessions_def [code del]
  DeleteSession_def [code del] DeleteUserSessions_def [code del] PurgeExpiredSessions_def [code del]
  StoreAPIToken_def [code del] GetAPITokenByHash_def [code del] ListAPITokens_def [code del] TouchAPIToken_def
  [code del] DeleteAPIToken_def [code del] RecordLoginAttempt_def [code del] CountFailedLogins_def [code del]
  delete_attempts_def [code del] ClearLoginAttempts_def [code del] PurgeOldLoginAttempts_def [code del]
  delete_codes_def [code del] ReplaceRecoveryCodes_def [code del] UseRecoveryCode_def [code del]
  CountRecoveryCodes_def [code del] DeleteRecoveryCodes_def [code del] SpendTOTPCounter_def [code del]
lemmas user_ops_code [code] = fun_cong [OF idOr_def] fun_cong [OF CreateUser_def] 
  fun_cong [OF GetUser_def] fun_cong [OF GetUserByEmail_def] fun_cong [OF ListUsers_def] fun_cong [OF
  CountUsers_def] fun_cong [OF UpdateUser_def] fun_cong [OF UpdatePasswordHash_def] fun_cong [OF
  TouchUserLogin_def] fun_cong [OF DeleteUser_def] fun_cong [OF CreateSession_def] fun_cong [OF
  GetSessionByHash_def] fun_cong [OF update_sessions_def] fun_cong [OF MarkSessionReauthenticated_def]
  fun_cong [OF TouchSession_def] fun_cong [OF ListSessions_def] fun_cong [OF delete_sessions_def] fun_cong [OF
  DeleteSession_def] fun_cong [OF DeleteUserSessions_def] fun_cong [OF PurgeExpiredSessions_def] fun_cong [OF
  StoreAPIToken_def] fun_cong [OF GetAPITokenByHash_def] fun_cong [OF ListAPITokens_def] fun_cong [OF
  TouchAPIToken_def] fun_cong [OF DeleteAPIToken_def] fun_cong [OF RecordLoginAttempt_def] fun_cong [OF
  CountFailedLogins_def] fun_cong [OF delete_attempts_def] fun_cong [OF ClearLoginAttempts_def] fun_cong [OF
  PurgeOldLoginAttempts_def] fun_cong [OF delete_codes_def] fun_cong [OF ReplaceRecoveryCodes_def] fun_cong
  [OF UseRecoveryCode_def] fun_cong [OF CountRecoveryCodes_def] fun_cong [OF DeleteRecoveryCodes_def] fun_cong
  [OF SpendTOTPCounter_def]

declare  hashPassword_def [code del] verifyPassword_def [code del] checkLockout_def
  [code del] recordFailure_def [code del] failWith_def [code del] freshToken_def [code del]
  spendSecondFactor_def [code del] checkSecondFactor_def [code del] issueSession_def [code del]
  IssueSession_def [code del] upgradeHash_def [code del] secondFactor_def [code del] countLeft_def [code del]
  finishLogin_def [code del] loginAs_def [code del] Login_def [code del] slide_def [code del] Authenticate_def
  [code del] RecentlyAuthenticated_def [code del] proveAgain_def [code del] proveSecond_def [code del]
  Reauthenticate_def [code del] Logout_def [code del] AuthenticateToken_def [code del] CreateAPIToken_def
  [code del] SetupTOTP_def [code del] StoreRecoveryCodes_def [code del] RecoveryCodesLeftOp_def [code del]
  ConfirmTOTP_def [code del] DisableTOTP_def [code del] ChangePassword_def [code del]
lemmas auth_ops_code [code] =  fun_cong [OF hashPassword_def] fun_cong [OF
  verifyPassword_def] fun_cong [OF checkLockout_def] fun_cong [OF recordFailure_def] fun_cong [OF
  failWith_def] fun_cong [OF freshToken_def] fun_cong [OF spendSecondFactor_def] fun_cong [OF
  checkSecondFactor_def] fun_cong [OF issueSession_def] fun_cong [OF IssueSession_def] fun_cong [OF
  upgradeHash_def] fun_cong [OF secondFactor_def] fun_cong [OF countLeft_def] fun_cong [OF finishLogin_def]
  fun_cong [OF loginAs_def] fun_cong [OF Login_def] fun_cong [OF slide_def] fun_cong [OF Authenticate_def]
  fun_cong [OF RecentlyAuthenticated_def] fun_cong [OF proveAgain_def] fun_cong [OF proveSecond_def] fun_cong
  [OF Reauthenticate_def] fun_cong [OF Logout_def] fun_cong [OF AuthenticateToken_def] fun_cong [OF
  CreateAPIToken_def] fun_cong [OF SetupTOTP_def] fun_cong [OF StoreRecoveryCodes_def] fun_cong [OF
  RecoveryCodesLeftOp_def] fun_cong [OF ConfirmTOTP_def] fun_cong [OF DisableTOTP_def] fun_cong [OF
  ChangePassword_def]

definition demo_service :: Service where
  "demo_service = \<lparr>argon = toy_argon, sha256 = (\<lambda>x. x), hmac_sha1 = toy_hmac, cpus = 1,
     keyringSeal = (\<lambda>x c. Some x), keyringOpen = (\<lambda>x c. Some x), lockout = DefaultLockout, sessionTTL = 24 * hour,
     secureCookies = True\<rparr>"

definition demo_user :: User where
  "demo_user = \<lparr>uID = ''usr_1'', Email = ''a@b.c'', uName = ''A'', PasswordHash = HashPassword toy_argon 1 ''salt'' ''hunter2hunter2'',
     TOTPSecretEnc = [], TOTPEnabled = False, IsAdmin = False, Disabled = False, Locale = [], Theme = ''system'',
     RecoverySaved = True, uCreatedAt = 0, UpdatedAt = 0, LastLoginAt = zero_time\<rparr>"

definition demo_session :: "string \<Rightarrow> string \<Rightarrow> Session" where
  "demo_session i token = \<lparr>sID = i, sUserID = ''usr_1'', sTokenHash = HashToken (\<lambda>x. x) token, CSRFHash = [], sIP = [],
     UserAgent = [], sCreatedAt = 0, LastSeenAt = 0, sExpiresAt = 24 * hour, ReauthAt = zero_time\<rparr>"

definition demo_db :: auth_db where
  "demo_db = \<lparr>clock = hour, pauses = [], faults = [], entropy = [''r1'', ''r2'', ''r3'', ''r4''],
     users = [user_row_of demo_user 0], sessions = [demo_session ''ses_1'' ''mine'', demo_session ''ses_2'' ''stolen''],
     api_tokens = [\<lparr>tID = ''tok_1'', tUserID = ''usr_1'', TeamID = ''team_1'', tName = ''ci'',
       tTokenHash = HashToken (\<lambda>x. x) ''skf_x'', Prefix = ''skf_x'', Scopes = [], tCreatedAt = 0, LastUsedAt = zero_time,
       tExpiresAt = zero_time\<rparr>],
     login_attempts = [], recovery_codes = []\<rparr>"

definition first_db :: auth_db where
  "first_db = demo_db\<lparr>entropy := [], sessions := [], api_tokens := []\<rparr>"

definition five_failures :: auth_db where
  "five_failures = first_db\<lparr>login_attempts := replicate 5 \<lparr>aIdentifier = ''a@b.c'', aIP = ''1.2.3.4'', success = False,
     aAt = hour - minute\<rparr>\<rparr>"

lemma run_pair: "fst (m s) = Inr x \<Longrightarrow> m s = (Inr x, snd (m s))"
  by (metis prod.collapse)


theorem Login_refused_alike_witness:
  "\<exists>s1. Login demo_service ''x@y.z'' ''hunter2hunter2'' [] ''1.2.3.4'' ''ua'' demo_db = (Inl ErrInvalidCredentials, s1)
    \<and> with_failure ''x@y.z'' ''1.2.3.4'' demo_db s1"
proof (rule Login_refused_alike)
  show "faults demo_db = []" by (simp add: demo_db_def)
  show "limits_positive demo_service" by (simp add: limits_positive_def demo_service_def DefaultLockout_def)
  show "notLocked demo_service ''x@y.z'' ''1.2.3.4'' (clock (tick demo_db)) demo_db" by code_simp
  show "\<forall>r \<in> set (users demo_db). to_lower (Email r) = to_lower (trim_space ''x@y.z'') \<longrightarrow>
      PasswordHash r = [] \<or> VerifyPassword (argon demo_service) ''hunter2hunter2'' (PasswordHash r) = Some ErrPasswordMismatch
      \<or> VerifyPassword (argon demo_service) ''hunter2hunter2'' (PasswordHash r) = None \<and> Disabled r"
  proof -
    have "map (\<lambda>r. to_lower (Email r)) (users demo_db) = [''a@b.c'']" by code_simp
    moreover have "to_lower (trim_space ''x@y.z'') = ''x@y.z''" by code_simp
    ultimately have "to_lower (Email r) \<noteq> to_lower (trim_space ''x@y.z'')" if "r \<in> set (users demo_db)" for r
      using that by auto
    then show ?thesis by blast
  qed
qed

theorem lockout_holds_witness:
  "\<exists>s1. Login demo_service ''A@b.c'' ''hunter2hunter2'' [] ''1.2.3.4'' ''ua'' five_failures = (Inl ErrLockedOut, s1)
    \<and> tables s1 = tables five_failures"
proof (rule lockout_holds)
  show "faults five_failures = []" by (simp add: five_failures_def first_db_def demo_db_def)
  show "limits_positive demo_service" by (simp add: limits_positive_def demo_service_def DefaultLockout_def)
  show "''A@b.c'' \<noteq> []" by simp
  show "MaxPerAccount (lockout demo_service) \<le> affected (\<lambda>r. aIdentifier r = to_lower ''A@b.c'' \<and> \<not> success r
       \<and> clock (tick five_failures) - Window (lockout demo_service) + second \<le> aAt r) (login_attempts five_failures)"
    by code_simp
qed

text \<open>
  The limit counts the address as it was typed, in lower case; the account is
  looked up by the address with its surrounding space cut off. With a space in
  front, the same account passes the check and can be tried again.
\<close>

lemma padded_address_evades_lockout:
  "fst (checkLockout demo_service ''a@b.c'' [] five_failures) = Inl ErrLockedOut
    \<and> fst (checkLockout demo_service '' a@b.c'' [] five_failures) = Inr ()
    \<and> map_sum id uID (fst (GetUserByEmail '' a@b.c'' five_failures)) = Inr ''usr_1''"
proof (intro conjI)
  show "fst (checkLockout demo_service ''a@b.c'' [] five_failures) = Inl ErrLockedOut" by code_simp
  show "fst (checkLockout demo_service '' a@b.c'' [] five_failures) = Inr ()" by code_simp
  show "map_sum id uID (fst (GetUserByEmail '' a@b.c'' five_failures)) = Inr ''usr_1''" by code_simp
qed

theorem Authenticate_sound_witness:
  "\<exists>x. x \<in> set (sessions demo_db) \<and> sID x = ''ses_1'' \<and> sTokenHash x = HashToken (sha256 demo_service) ''mine''"
proof -
  let ?m = "Authenticate demo_service ''mine''"
  have "isl (fst (?m demo_db)) = False" by code_simp
  then have ok: "?m demo_db = (Inr (projr (fst (?m demo_db))), snd (?m demo_db))" by (intro run_pair) (simp add: sum.collapse(2))
  have old: "\<not> is_zero_time (sCreatedAt (snd (projr (fst (?m demo_db)))))" by code_simp
  have "sID (snd (projr (fst (?m demo_db)))) = ''ses_1''" by code_simp
  moreover have "snd (projr (fst (?m demo_db))) \<in> set (sessions demo_db)
      \<and> sTokenHash (snd (projr (fst (?m demo_db)))) = HashToken (sha256 demo_service) ''mine''"
    using Authenticate_sound [of demo_service "''mine''" demo_db "fst (projr (fst (?m demo_db)))"
        "snd (projr (fst (?m demo_db)))" "snd (?m demo_db)"] ok old by (simp only: prod.collapse) blast
  ultimately show ?thesis by blast
qed

theorem AuthenticateToken_sound_witness:
  "prefix TokenPrefix ''skf_x'' \<and> tTokenHash (hd (api_tokens demo_db)) = HashToken (sha256 demo_service) ''skf_x''"
proof -
  let ?m = "AuthenticateToken demo_service ''skf_x''"
  have "fst (?m demo_db) = Inr (demo_user, hd (api_tokens demo_db))" by code_simp
  then have "?m demo_db = (Inr (demo_user, hd (api_tokens demo_db)), snd (?m demo_db))" by (rule run_pair)
  from AuthenticateToken_sound [OF this] show ?thesis by blast
qed

theorem ChangePassword_signs_out_witness:
  "\<exists>r. r \<in> set (users (snd (ChangePassword demo_service demo_user ''hunter2hunter2'' ''correct horse battery'' ''ses_1'' demo_db)))
     \<and> VerifyPassword (argon demo_service) ''correct horse battery'' (PasswordHash r) = None"
proof -
  let ?m = "ChangePassword demo_service demo_user ''hunter2hunter2'' ''correct horse battery'' ''ses_1''"
  have "isl (fst (?m demo_db)) = False" by code_simp
  then have ok: "?m demo_db = (Inr (projr (fst (?m demo_db))), snd (?m demo_db))" by (intro run_pair) (simp add: sum.collapse(2))
  have quiet: "faults demo_db = []" by (simp add: demo_db_def)
  have "length (argon demo_service pw a t m p k) = k" for pw a t m p k by (simp add: demo_service_def toy_argon_def)
  from ChangePassword_signs_out [OF quiet ok this] show ?thesis by blast
qed

text \<open>
  The error of each deletion is dropped: when one of them fails, the password
  change reports success while the other session is still there.
\<close>

lemma failed_deletion_unreported:
  "\<not> isl (fst (ChangePassword demo_service demo_user ''hunter2hunter2'' ''correct horse battery'' ''ses_1''
      (demo_db\<lparr>faults := [False, False, False, False, True]\<rparr>)))
    \<and> demo_session ''ses_2'' ''stolen'' \<in> set (sessions (snd (ChangePassword demo_service demo_user ''hunter2hunter2''
      ''correct horse battery'' ''ses_1'' (demo_db\<lparr>faults := [False, False, False, False, True]\<rparr>))))"
proof
  show "\<not> isl (fst (ChangePassword demo_service demo_user ''hunter2hunter2'' ''correct horse battery'' ''ses_1''
      (demo_db\<lparr>faults := [False, False, False, False, True]\<rparr>)))" by code_simp
  show "demo_session ''ses_2'' ''stolen'' \<in> set (sessions (snd (ChangePassword demo_service demo_user ''hunter2hunter2''
      ''correct horse battery'' ''ses_1'' (demo_db\<lparr>faults := [False, False, False, False, True]\<rparr>))))" by code_simp
qed

text \<open>
  A password change writes the whole row as it was read when the request began:
  an account that was disabled in between is enabled again.
\<close>

lemma password_change_undoes_disabling:
  "map Disabled (users (snd (ChangePassword demo_service demo_user ''hunter2hunter2'' ''correct horse battery'' ''ses_1''
      (demo_db\<lparr>users := [user_row_of (demo_user\<lparr>Disabled := True\<rparr>) 0]\<rparr>)))) = [False]"
  by code_simp

end
