(* ===== verification/Middleware.thy ===== *)
theory Middleware
  imports Auth Scopes Errdoc Netip Store_Teams
begin

text \<open>
  What every request goes through before its handler, from
  \<^verbatim>\<open>internal/api/middleware.go\<close> and \<^verbatim>\<open>respond.go\<close>: the request's identity and client
  address, authentication by a bearer token or a session cookie, the CSRF check,
  the guards of the authenticated, administrator and recently-authenticated
  routes, and how an error becomes a problem.

  A handler is an operation on the panel's state that takes the request with its
  context; a middleware takes the next handler. Headers are a function of their
  canonical name. JSON decoding is the standard library's: its outcome is an
  argument, and what \<^verbatim>\<open>decodeJSON\<close> makes of it is modelled. Logging, metrics,
  response headers and the recovery from panics are left out.
\<close>

section \<open>Requests and errors\<close>

datatype api_err = Prob Problem | Fail auth_err

record Server =
  srvAuth :: Service
  TrustedProxyCount :: int
  PublicURL :: string
  Quote :: "string \<Rightarrow> string"
  errorText :: "auth_err \<Rightarrow> string"

record Request =
  Method :: string
  UrlPath :: string
  RemoteAddr :: string
  Header :: "string \<Rightarrow> string"
  Cookies :: "(string \<times> string) list"
  ctxUser :: "User option"
  ctxSession :: "Session option"
  ctxAPIToken :: "APIToken option"
  ctxRequestID :: string
  ctxClientIP :: string

type_synonym 'a api_op = "(team_db, api_err, 'a) op"
type_synonym 'a handler = "Request \<Rightarrow> 'a api_op"

definition toProblem :: "Server \<Rightarrow> api_err \<Rightarrow> Problem" where
  "toProblem srv e = (case e of Prob p \<Rightarrow> p
     | Fail (Store ErrNotFound) \<Rightarrow> NotFound ''resource'' []
     | Fail (Store ErrConflict) \<Rightarrow> Conflict (errorText srv (Store ErrConflict)) ''Pick a different name and try again.''
     | Fail f \<Rightarrow> From (errorText srv f))"

text \<open>A call to the store or to the authentication service, with its error as it is.\<close>

definition db :: "'a team_op \<Rightarrow> 'a api_op" where
  "db m = wrap (\<lambda>e. Fail (Store e)) m"

definition auth :: "'a auth_op \<Rightarrow> 'a api_op" where
  "auth m = wrap Fail (onAuth m)"

definition problem :: "Problem \<Rightarrow> 'a api_op" where
  "problem p = throw (Prob p)"

section \<open>Bodies\<close>

datatype 'b decoded = Decoded 'b bool | SyntaxErr int | TypeErr string string | TooLarge | EmptyBody | UnknownField string | Unreadable

definition decodeJSON :: "Server \<Rightarrow> string \<Rightarrow> 'b decoded \<Rightarrow> 'b api_op" where
  "decodeJSON srv contentType outcome =
     (if contentType \<noteq> [] \<and> \<not> prefix ''application/json'' contentType
      then problem (BadRequest (''This endpoint expects application/json, not '' @ Quote srv contentType @ ''.''))
      else case outcome of
        SyntaxErr at \<Rightarrow> problem (BadRequest (''The request body is not valid JSON (at position '' @ itoa at @ '').''))
      | TypeErr field ty \<Rightarrow> problem (BadRequest (''The field '' @ Quote srv field @ '' expects a '' @ ty @ ''.''))
      | TooLarge \<Rightarrow> problem (BadRequest ''The request body is too large.'')
      | EmptyBody \<Rightarrow> problem (BadRequest ''The request body is empty.'')
      | UnknownField f \<Rightarrow> problem (BadRequest (''The field '' @ f @ '' is not something this endpoint accepts. Check the spelling.''))
      | Unreadable \<Rightarrow> problem (BadRequest ''The request body could not be read.'')
      | Decoded v alone \<Rightarrow> if \<not> alone then problem (BadRequest ''The request body must contain exactly one JSON object.'') else ret v)"

section \<open>The client's address\<close>

text \<open>\<^verbatim>\<open>net.ParseIP\<close>: an address with no zone.\<close>

definition isIP :: "string \<Rightarrow> bool" where
  "isIP t = (case ParseAddr t of None \<Rightarrow> False | Some a \<Rightarrow> \<not> has_zone a)"

definition clientIP :: "Server \<Rightarrow> Request \<Rightarrow> string" where
  "clientIP srv r = (let direct = (case splitHost (RemoteAddr r) of None \<Rightarrow> RemoteAddr r | Some host \<Rightarrow> host);
       forwarded = Header r ''X-Forwarded-For'' in
     if TrustedProxyCount srv \<le> 0 then direct
     else if forwarded = [] then direct
     else let parts = split_on (CHR '','') forwarded;
              idx = int (length parts) - TrustedProxyCount srv;
              candidate = trim_space (parts ! nat (if idx < 0 then 0 else idx)) in
          if \<not> isIP candidate then direct else candidate)"

definition requestContext :: "Server \<Rightarrow> 'a handler \<Rightarrow> 'a handler" where
  "requestContext srv next' r = (let given = Header r ''X-Request-Id'' in
     bind (if given = [] \<or> length given > 64 then auth freshToken else ret given) (\<lambda>i.
       next' (r\<lparr>ctxRequestID := i, ctxClientIP := clientIP srv r\<rparr>)))"

section \<open>Who is asking\<close>

definition tokenScope :: "APIToken \<Rightarrow> Problem" where
  "tokenScope t = WithStatus 403 (WithFix ''Use a token without a scope, or create one that can write, under Account.'' []
     (WithImpact ''The request was refused. Nothing was changed.'' []
       (WithCause ''The token %s is limited to %s.'' [Str (tName t), Str (Scopes t)]
         (New ''auth.token_scope'' ''This token cannot make that request''))))"

definition cookieStep :: "Server \<Rightarrow> 'a handler \<Rightarrow> 'a handler" where
  "cookieStep srv next' r = (let v = ReadCookie (srvAuth srv) (Cookies r) SessionCookieName in
     if v = [] then next' r
     else handle (auth (Authenticate (srvAuth srv) v)) (\<lambda>res. case res of
       Inr (user, x) \<Rightarrow> next' (r\<lparr>ctxUser := Some user, ctxSession := Some x\<rparr>)
     | Inl e \<Rightarrow> if e \<noteq> Fail (Store ErrNotFound) then throw e else next' r))"

definition authenticate :: "Server \<Rightarrow> 'a handler \<Rightarrow> 'a handler" where
  "authenticate srv next' r = (let header = Header r ''Authorization'' in
     if prefix ''Bearer '' header
     then handle (auth (AuthenticateToken (srvAuth srv) (trim_space (trim_prefix ''Bearer '' header)))) (\<lambda>res. case res of
       Inr (user, t) \<Rightarrow> if \<not> TokenAllows (Scopes t) (Method r) (UrlPath r) then problem (tokenScope t)
         else next' (r\<lparr>ctxUser := Some user, ctxAPIToken := Some t\<rparr>)
     | Inl e \<Rightarrow> if e \<noteq> Fail (Store ErrNotFound) then throw e else cookieStep srv next' r)
     else cookieStep srv next' r)"

definition requireAuth :: "'a handler \<Rightarrow> 'a handler" where
  "requireAuth next' r = (case ctxUser r of None \<Rightarrow> problem Unauthorized | Some _ \<Rightarrow> next' r)"

definition requireAdmin :: "'a handler \<Rightarrow> 'a handler" where
  "requireAdmin next' r = (case ctxUser r of None \<Rightarrow> problem Unauthorized
     | Some user \<Rightarrow> if \<not> IsAdmin user then problem (Forbidden ''changing panel-wide settings'') else next' r)"

definition CSRFHeaderName :: string where "CSRFHeaderName = ''X-Skifity-CSRF''"

definition csrfProblem :: Problem where
  "csrfProblem = WithStatus 403 (WithFix ''Reload the page and try again. If you are calling the API directly, use an API token with an Authorization header instead of a cookie.'' []
     (WithImpact ''Nothing was changed.'' [] (WithCause ''The request did not carry a matching CSRF token.'' []
       (New ''auth.csrf'' ''This request was blocked for safety''))))"

definition csrf :: "Server \<Rightarrow> 'a handler \<Rightarrow> 'a handler" where
  "csrf srv next' r = (if Method r \<in> {''GET'', ''HEAD'', ''OPTIONS''} then next' r
     else if ctxAPIToken r \<noteq> None then next' r
     else case ctxSession r of None \<Rightarrow> next' r
       | Some x \<Rightarrow> if \<not> CheckCSRF (srvAuth srv) x (Header r CSRFHeaderName) then problem csrfProblem else next' r)"

definition needsPerson :: Problem where
  "needsPerson = WithStatus 403 (WithFix ''Sign in to the panel and do it there.'' []
     (WithImpact ''Nothing was changed.'' [] (WithCause ''Changing two-factor authentication or creating a token has to be done by somebody who can prove who they are, and an API token cannot.'' []
       (New ''auth.needs_person'' ''This has to be done from the panel''))))"

definition reauthRequired :: Problem where
  "reauthRequired = WithStatus 403 (WithFix ''Enter your password to continue.'' []
     (WithImpact ''Nothing was changed.'' [] (WithCause ''This action needs your password again, because holding a signed-in session is not the same as being at the keyboard.'' []
       (New ''auth.reauth_required'' ''Confirm it is you''))))"

definition requireRecentAuth :: "'a handler \<Rightarrow> 'a handler" where
  "requireRecentAuth next' r = (if ctxAPIToken r \<noteq> None then problem needsPerson
     else case ctxSession r of None \<Rightarrow> problem Unauthorized
       | Some x \<Rightarrow> bind (auth (RecentlyAuthenticated x)) (\<lambda>recent. if \<not> recent then problem reauthRequired else next' r))"

text \<open>The chains the routes are mounted under.\<close>

definition authedRoute :: "Server \<Rightarrow> 'a handler \<Rightarrow> 'a handler" where
  "authedRoute srv next' = requestContext srv (authenticate srv (csrf srv (requireAuth next')))"

definition sensitiveRoute :: "Server \<Rightarrow> 'a handler \<Rightarrow> 'a handler" where
  "sensitiveRoute srv next' = authedRoute srv (requireRecentAuth next')"

definition adminRoute :: "Server \<Rightarrow> 'a handler \<Rightarrow> 'a handler" where
  "adminRoute srv next' = authedRoute srv (requireAdmin next')"


section \<open>A middleware and its next handler\<close>

text \<open>Each middleware either answers itself or hands a request on; what it hands on is what it
  returns when the next handler returns its request.\<close>

lemma cookieStep_next: "cookieStep srv next' r = bind (cookieStep srv ret r) next'"
  by (auto simp: cookieStep_def Let_def bind_def handle_def ret_def throw_def fun_eq_iff split: prod.splits sum.splits)

lemma authenticate_next: "authenticate srv next' r = bind (authenticate srv ret r) next'"
  unfolding authenticate_def Let_def cookieStep_next [of srv next']
  by (auto simp: bind_def handle_def ret_def throw_def problem_def fun_eq_iff split: prod.splits sum.splits)

lemma csrf_next: "csrf srv next' r = bind (csrf srv ret r) next'"
  by (auto simp: csrf_def problem_def bind_def ret_def throw_def fun_eq_iff split: option.splits)

lemma requireAuth_next: "requireAuth next' r = bind (requireAuth ret r) next'"
  by (auto simp: requireAuth_def problem_def bind_def ret_def throw_def fun_eq_iff split: option.splits)

lemma requireRecentAuth_next: "requireRecentAuth next' r = bind (requireRecentAuth ret r) next'"
  by (auto simp: requireRecentAuth_def problem_def bind_def ret_def throw_def fun_eq_iff split: option.splits prod.splits sum.splits)

lemma requireAdmin_next: "requireAdmin next' r = bind (requireAdmin ret r) next'"
  by (auto simp: requireAdmin_def problem_def bind_def ret_def throw_def fun_eq_iff split: option.splits)

lemma requestContext_next: "requestContext srv next' r = bind (requestContext srv ret r) next'"
  by (auto simp: requestContext_def Let_def bind_def ret_def fun_eq_iff split: prod.splits sum.splits)

section \<open>Trying a token first\<close>

lemma later_timeNow: "keeps (\<lambda>s. c \<le> clock s) timeNow"
  using tick_clock by (fastforce simp: keeps_def timeNow_def intro: order_trans)

lemma later_stmt: "keeps (\<lambda>s. c \<le> clock s) f \<Longrightarrow> keeps (\<lambda>s. c \<le> clock s) (stmt f)"
proof -
  assume f: "keeps (\<lambda>s. c \<le> clock s) f"
  have "c \<le> clock (snd (stmt f s))" if "c \<le> clock s" for s
  proof -
    have t: "c \<le> clock (tick s)" using that tick_clock order_trans by blast
    then have "c \<le> clock (tick s\<lparr>faults := fs\<rparr>)" for fs by simp
    then have "c \<le> clock (snd (f (tick s)))" "c \<le> clock (snd (f (tick s\<lparr>faults := fs\<rparr>)))" for fs
      using f t unfolding keeps_def by blast+
    then show ?thesis using t by (simp add: stmt_def Let_def split: list.splits bool.splits)
  qed
  then show ?thesis by (simp add: keeps_def)
qed

lemma later_query: "keeps (\<lambda>s. c \<le> clock s) (query f)"
  unfolding query_def by (intro later_stmt) (simp add: keeps_def)

interpretation people_inv: env_free "\<lambda>s :: auth_db. (users s, sessions s) = p"
  by unfold_locales simp_all

lemma AuthenticateToken_frame:
  assumes "AuthenticateToken sv token s = (r, s1)"
  shows "users s1 = users s \<and> sessions s1 = sessions s \<and> clock s \<le> clock s1"
proof -
  have touch: "keeps (\<lambda>s :: auth_db. (users s, sessions s) = p) (TouchAPIToken i)" for p i
    unfolding TouchAPIToken_def by (intro keeps_intros people_inv.keeps_env) (simp add: keeps_def)
  have "keeps (\<lambda>s. (users s, sessions s) = (users s0, sessions s0)) (AuthenticateToken sv token)" for s0 :: auth_db
    unfolding AuthenticateToken_def GetAPITokenByHash_def GetUser_def
    by (intro keeps_intros people_inv.keeps_env touch)
  from keepsD [OF this refl assms] have "(users s1, sessions s1) = (users s, sessions s)" .
  moreover have touch: "keeps (\<lambda>s :: auth_db. c \<le> clock s) (TouchAPIToken i)" for c i
    unfolding TouchAPIToken_def by (intro keeps_intros later_timeNow later_stmt) (simp add: keeps_def)
  have "keeps (\<lambda>x. clock s \<le> clock x) (AuthenticateToken sv token)"
    unfolding AuthenticateToken_def GetAPITokenByHash_def GetUser_def
    by (intro keeps_intros later_timeNow later_query touch)
  from keepsD [OF this order_refl assms] have "clock s \<le> clock s1" .
  ultimately show ?thesis by simp
qed


section \<open>What an authenticated request has shown\<close>

lemma truncate_fields [simp]:
  "users (auth_db.truncate s) = users s" "sessions (auth_db.truncate s) = sessions s"
  "api_tokens (auth_db.truncate s) = api_tokens s" "clock (auth_db.truncate s) = clock s"
  by (simp_all add: auth_db.defs)

lemma auth_run:
  assumes "auth m s = (r, s1)"
  obtains q where "m (auth_db.truncate s) = (q, auth_db.truncate s1)"
    "r = (case q of Inl e \<Rightarrow> Inl (Fail e) | Inr x \<Rightarrow> Inr x)"
  using assms by (auto simp: auth_def onAuth_def wrap_def auth_db.defs split: prod.splits sum.splits)

definition safe_method :: "string \<Rightarrow> bool" where
  "safe_method m \<longleftrightarrow> m \<in> {''GET'', ''HEAD'', ''OPTIONS''}"

definition enabled_user :: "string \<Rightarrow> User \<Rightarrow> team_db \<Rightarrow> bool" where
  "enabled_user i u s \<longleftrightarrow> (\<exists>row \<in> set (users s). uID row = i \<and> u = scanUser row \<and> \<not> Disabled row)"

definition by_token :: "Server \<Rightarrow> Request \<Rightarrow> User \<Rightarrow> APIToken \<Rightarrow> team_db \<Rightarrow> bool" where
  "by_token srv r u t s \<longleftrightarrow> prefix ''Bearer '' (Header r ''Authorization'') \<and> t \<in> set (api_tokens s)
     \<and> tTokenHash t = HashToken (sha256 (srvAuth srv)) (trim_space (trim_prefix ''Bearer '' (Header r ''Authorization'')))
     \<and> (is_zero_time (tExpiresAt t) \<or> clock s \<le> tExpiresAt t) \<and> TokenAllows (Scopes t) (Method r) (UrlPath r)
     \<and> enabled_user (tUserID t) u s"

definition by_session :: "Server \<Rightarrow> Request \<Rightarrow> User \<Rightarrow> Session \<Rightarrow> team_db \<Rightarrow> bool" where
  "by_session srv r u x s \<longleftrightarrow> x \<in> set (sessions s) \<and> clock s \<le> sExpiresAt x
     \<and> sTokenHash x = HashToken (sha256 (srvAuth srv)) (ReadCookie (srvAuth srv) (Cookies r) SessionCookieName)
     \<and> enabled_user (sUserID x) u s"

definition anonymous :: "Request \<Rightarrow> bool" where
  "anonymous r \<longleftrightarrow> ctxUser r = None \<and> ctxSession r = None \<and> ctxAPIToken r = None"

definition identified :: "Server \<Rightarrow> Request \<Rightarrow> Request \<Rightarrow> team_db \<Rightarrow> bool" where
  "identified srv r r' s \<longleftrightarrow> (\<exists>u.
     (\<exists>t. by_token srv r u t s \<and> r' = r\<lparr>ctxUser := Some u, ctxAPIToken := Some t\<rparr>)
   \<or> (\<exists>x. by_session srv r u x s \<and> r' = r\<lparr>ctxUser := Some u, ctxSession := Some x\<rparr>))"

lemma cookieStep_Inr:
  assumes "cookieStep srv ret r s = (Inr r', s1)"
  shows "r' = r \<or> (\<exists>u x. by_session srv r u x s \<and> r' = r\<lparr>ctxUser := Some u, ctxSession := Some x\<rparr>)"
proof (cases "ReadCookie (srvAuth srv) (Cookies r) SessionCookieName = []")
  case True
  then show ?thesis using assms by (simp add: cookieStep_def ret_def)
next
  case False
  then obtain q s2 where a: "auth (Authenticate (srvAuth srv) (ReadCookie (srvAuth srv) (Cookies r) SessionCookieName)) s = (q, s2)"
    and k: "(case q of Inr (user, x) \<Rightarrow> ret (r\<lparr>ctxUser := Some user, ctxSession := Some x\<rparr>)
     | Inl e \<Rightarrow> if e \<noteq> Fail (Store ErrNotFound) then throw e else ret r) s2 = (Inr r', s1)"
    using assms by (auto simp: cookieStep_def Let_def elim: handle_run)
  show ?thesis
  proof (cases q)
    case (Inl e)
    then show ?thesis using k by (auto simp: throw_def ret_def split: if_splits)
  next
    case (Inr p)
    obtain u x where p: "p = (u, x)" by force
    have "Authenticate (srvAuth srv) (ReadCookie (srvAuth srv) (Cookies r) SessionCookieName) (auth_db.truncate s)
        = (Inr (u, x), auth_db.truncate s2)" using a Inr p by (elim auth_run) (auto split: sum.splits)
    from Authenticate_Inr [OF this] have "by_session srv r u x s" by (auto simp: by_session_def enabled_user_def)
    then show ?thesis using k Inr p by (auto simp: ret_def)
  qed
qed

text \<open>What was found later of accounts and sessions that had not changed since was there before.\<close>

lemma by_session_before:
  "\<lbrakk>by_session srv r u x s2; users s2 = users s; sessions s2 = sessions s; clock s \<le> clock s2\<rbrakk> \<Longrightarrow> by_session srv r u x s"
  by (auto simp: by_session_def enabled_user_def)

lemma authenticate_Inr:
  assumes "authenticate srv ret r s = (Inr r', s1)"
  shows "r' = r \<or> identified srv r r' s"
proof (cases "prefix ''Bearer '' (Header r ''Authorization'')")
  case False
  then show ?thesis using assms cookieStep_Inr [of srv r s r' s1] by (auto simp: authenticate_def identified_def)
next
  case True
  let ?tok = "trim_space (trim_prefix ''Bearer '' (Header r ''Authorization''))"
  obtain q s2 where a: "auth (AuthenticateToken (srvAuth srv) ?tok) s = (q, s2)"
    and k: "(case q of Inr (user, t) \<Rightarrow> if \<not> TokenAllows (Scopes t) (Method r) (UrlPath r) then problem (tokenScope t)
         else ret (r\<lparr>ctxUser := Some user, ctxAPIToken := Some t\<rparr>)
     | Inl e \<Rightarrow> if e \<noteq> Fail (Store ErrNotFound) then throw e else cookieStep srv ret r) s2 = (Inr r', s1)"
    using assms True by (auto simp: authenticate_def Let_def elim: handle_run)
  obtain p where run: "AuthenticateToken (srvAuth srv) ?tok (auth_db.truncate s) = (p, auth_db.truncate s2)"
    and q: "q = (case p of Inl e \<Rightarrow> Inl (Fail e) | Inr x \<Rightarrow> Inr x)" using a by (rule auth_run)
  show ?thesis
  proof (cases p)
    case (Inl e)
    then have "cookieStep srv ret r s2 = (Inr r', s1)" using k q by (auto simp: throw_def split: if_splits)
    then show ?thesis using AuthenticateToken_frame [OF run] cookieStep_Inr [of srv r s2 r' s1] by_session_before
      unfolding identified_def truncate_fields by blast
  next
    case (Inr v)
    obtain u t where v: "v = (u, t)" by force
    have "TokenAllows (Scopes t) (Method r) (UrlPath r)" "r' = r\<lparr>ctxUser := Some u, ctxAPIToken := Some t\<rparr>"
      using k q Inr v by (auto simp: problem_def throw_def ret_def split: if_splits)
    moreover have "by_token srv r u t s \<longleftrightarrow> TokenAllows (Scopes t) (Method r) (UrlPath r)"
      using AuthenticateToken_Inr [of "srvAuth srv" ?tok "auth_db.truncate s" u t] run Inr v True
      by (auto simp: by_token_def enabled_user_def)
    ultimately show ?thesis by (auto simp: identified_def)
  qed
qed

lemma freshToken_frame:
  "freshToken a = (q, a1) \<Longrightarrow> users a1 = users a \<and> sessions a1 = sessions a \<and> api_tokens a1 = api_tokens a \<and> clock a1 = clock a"
  by (auto simp: freshToken_def bind_def random_def ret_def split: list.splits)

lemma requestContext_Inr:
  assumes "requestContext srv ret r s = (Inr r', s1)"
  obtains i where "r' = r\<lparr>ctxRequestID := i, ctxClientIP := clientIP srv r\<rparr>" "users s1 = users s" "sessions s1 = sessions s"
    "api_tokens s1 = api_tokens s" "clock s1 = clock s"
proof -
  let ?given = "Header r ''X-Request-Id''"
  obtain i where i: "(if ?given = [] \<or> length ?given > 64 then auth freshToken else ret ?given) s = (Inr i, s1)"
    "r' = r\<lparr>ctxRequestID := i, ctxClientIP := clientIP srv r\<rparr>"
    using assms by (auto simp: requestContext_def Let_def ret_def elim!: bind_Inr)
  have "users s1 = users s \<and> sessions s1 = sessions s \<and> api_tokens s1 = api_tokens s \<and> clock s1 = clock s"
  proof (cases "?given = [] \<or> length ?given > 64")
    case True
    then obtain q where "freshToken (auth_db.truncate s) = (q, auth_db.truncate s1)" using i(1) by (auto elim: auth_run)
    from freshToken_frame [OF this] show ?thesis by simp
  next
    case False
    then show ?thesis using i(1) by (simp add: ret_def)
  qed
  then show thesis using i(2) that by blast
qed

lemma identified_same:
  assumes "users s0 = users s" "sessions s0 = sessions s" "api_tokens s0 = api_tokens s" "clock s0 = clock s"
  shows "by_token srv (r\<lparr>ctxRequestID := i, ctxClientIP := ip\<rparr>) u t s0 = by_token srv r u t s"
    "by_session srv (r\<lparr>ctxRequestID := i, ctxClientIP := ip\<rparr>) u x s0 = by_session srv r u x s"
  by (simp_all add: by_token_def by_session_def enabled_user_def assms)

lemma authedRoute_Inr:
  assumes "authedRoute srv ret r s = (Inr r', s1)"
  obtains i s0 where "identified srv (r\<lparr>ctxRequestID := i, ctxClientIP := clientIP srv r\<rparr>) r' s0 \<or> r' = r\<lparr>ctxRequestID := i, ctxClientIP := clientIP srv r\<rparr>"
    "users s0 = users s" "sessions s0 = sessions s" "api_tokens s0 = api_tokens s" "clock s0 = clock s"
    "csrf srv ret r' s1 = (Inr r', s1)" "ctxUser r' \<noteq> None"
proof -
  obtain ra s0 where a: "requestContext srv ret r s = (Inr ra, s0)" and b: "authenticate srv (csrf srv (requireAuth ret)) ra s0 = (Inr r', s1)"
    using assms unfolding authedRoute_def requestContext_next [of srv "authenticate srv (csrf srv (requireAuth ret))"] by (elim bind_Inr)
  obtain rb s2 where c: "authenticate srv ret ra s0 = (Inr rb, s2)" and d: "csrf srv (requireAuth ret) rb s2 = (Inr r', s1)"
    using b unfolding authenticate_next [of srv "csrf srv (requireAuth ret)"] by (elim bind_Inr)
  obtain rc s3 where e: "csrf srv ret rb s2 = (Inr rc, s3)" and f: "requireAuth ret rc s3 = (Inr r', s1)"
    using d unfolding csrf_next [of srv "requireAuth ret"] by (elim bind_Inr)
  have "rc = r'" "s3 = s1" "ctxUser r' \<noteq> None" using f by (auto simp: requireAuth_def problem_def throw_def ret_def split: option.splits)
  moreover have "rb = rc" "s2 = s3" using e by (auto simp: csrf_def problem_def throw_def ret_def split: if_splits option.splits)
  ultimately show thesis using a c e authenticate_Inr [OF c] by (elim requestContext_Inr) (metis that)
qed

lemma authed_facts:
  assumes "anonymous r" "authedRoute srv ret r s = (Inr r', s1)"
  shows "\<exists>u. ctxUser r' = Some u \<and>
     ((\<exists>t. ctxAPIToken r' = Some t \<and> by_token srv r u t s)
    \<or> (\<exists>x. ctxSession r' = Some x \<and> by_session srv r u x s \<and>
         (safe_method (Method r) \<or> CSRFHash x \<noteq> [] \<and> HashToken (sha256 (srvAuth srv)) (Header r CSRFHeaderName) = CSRFHash x)))"
proof -
  obtain i s0 where i: "identified srv (r\<lparr>ctxRequestID := i, ctxClientIP := clientIP srv r\<rparr>) r' s0 \<or> r' = r\<lparr>ctxRequestID := i, ctxClientIP := clientIP srv r\<rparr>"
    and same: "users s0 = users s" "sessions s0 = sessions s" "api_tokens s0 = api_tokens s" "clock s0 = clock s"
    and c: "csrf srv ret r' s1 = (Inr r', s1)" and u: "ctxUser r' \<noteq> None"
    using assms(2) by (elim authedRoute_Inr) blast
  have "identified srv (r\<lparr>ctxRequestID := i, ctxClientIP := clientIP srv r\<rparr>) r' s0" using i u assms(1) by (auto simp: anonymous_def)
  then obtain v where "(\<exists>t. by_token srv r v t s \<and> r' = r\<lparr>ctxRequestID := i, ctxClientIP := clientIP srv r, ctxUser := Some v, ctxAPIToken := Some t\<rparr>)
      \<or> (\<exists>x. by_session srv r v x s \<and> r' = r\<lparr>ctxRequestID := i, ctxClientIP := clientIP srv r, ctxUser := Some v, ctxSession := Some x\<rparr>)"
    unfolding identified_def identified_same [OF same] by auto
  then show ?thesis
  proof (elim disjE exE conjE)
    fix x
    assume x: "by_session srv r v x s" and r': "r' = r\<lparr>ctxRequestID := i, ctxClientIP := clientIP srv r, ctxUser := Some v, ctxSession := Some x\<rparr>"
    have "safe_method (Method r) \<or> CheckCSRF (srvAuth srv) x (Header r CSRFHeaderName)"
      using c assms(1) by (auto simp: r' csrf_def anonymous_def safe_method_def problem_def throw_def split: if_splits)
    then show ?thesis using x by (auto simp: r' CheckCSRF_def split: if_splits)
  qed auto
qed

text \<open>C13: What stands behind a request that reaches a handler of an authenticated route: it
  carries a user who exists and is not disabled, and either a bearer token the
  store holds, unexpired, whose scopes allow this method and path, or the cookie of
  a live session of that user together with, unless the method only reads, that
  session's own CSRF token.\<close>
theorem authed_request_sound:
  assumes "anonymous r" "authedRoute srv ret r s = (Inr r', s1)"
  shows "\<exists>u. ctxUser r' = Some u \<and>
     ((\<exists>t. ctxAPIToken r' = Some t \<and> by_token srv r u t s)
    \<or> (\<exists>x. ctxSession r' = Some x \<and> by_session srv r u x s \<and>
         (safe_method (Method r) \<or> CSRFHash x \<noteq> [] \<and> HashToken (sha256 (srvAuth srv)) (Header r CSRFHeaderName) = CSRFHash x)))"
  using authed_facts [OF assms] .

text \<open>Middlewares that split this way still do when mounted under each other.\<close>

lemma bind_assoc: "bind (bind m f) g = bind m (\<lambda>x. bind (f x) g)"
  by (auto simp: bind_def fun_eq_iff split: prod.splits sum.splits)

lemma mounted_next:
  assumes "\<And>next'. outer next' = (\<lambda>r. bind (outer' r) next')" "\<And>next'. inner next' = (\<lambda>r. bind (inner' r) next')"
  shows "outer (inner next') = (\<lambda>r. bind (bind (outer' r) inner') next')"
  by (simp only: assms bind_assoc)

lemma authedRoute_next: "authedRoute srv next' r = bind (authedRoute srv ret r) next'"
proof -
  have c: "csrf srv (requireAuth n) = (\<lambda>r. bind (bind (csrf srv ret r) (requireAuth ret)) n)" for n :: "Request \<Rightarrow> 'x api_op"
    by (rule mounted_next) (auto intro!: ext csrf_next requireAuth_next)
  have a: "authenticate srv (csrf srv (requireAuth n)) = (\<lambda>r. bind (bind (authenticate srv ret r)
      (\<lambda>r. bind (csrf srv ret r) (requireAuth ret))) n)" for n :: "Request \<Rightarrow> 'x api_op"
    by (rule mounted_next [where inner = "\<lambda>n. csrf srv (requireAuth n)"]) (auto intro!: ext authenticate_next simp: c)
  have rc: "requestContext srv (authenticate srv (csrf srv (requireAuth n))) = (\<lambda>r. bind (bind (requestContext srv ret r)
      (\<lambda>r. bind (authenticate srv ret r) (\<lambda>r. bind (csrf srv ret r) (requireAuth ret)))) n)" for n :: "Request \<Rightarrow> 'x api_op"
    by (rule mounted_next [where inner = "\<lambda>n. authenticate srv (csrf srv (requireAuth n))"])
      (auto intro!: ext requestContext_next simp: a)
  have q: "authedRoute srv n r = bind (bind (requestContext srv ret r) (\<lambda>r. bind (authenticate srv ret r)
      (\<lambda>r. bind (csrf srv ret r) (requireAuth ret)))) n" for n :: "Request \<Rightarrow> 'x api_op"
    unfolding authedRoute_def rc ..
  have ret: "bind m ret = m" for m :: "'y api_op" by (auto simp: bind_def ret_def fun_eq_iff split: prod.splits sum.splits)
  show ?thesis unfolding q [of next'] q [of ret] ret ..
qed

text \<open>The three actions that turn a borrowed session into lasting access are reached
  only by a person: never with an API token, and only from a live session of an
  enabled user whose password was proved less than five minutes ago.\<close>
theorem sensitive_needs_recent_proof:
  assumes "anonymous r" "sensitiveRoute srv ret r s = (Inr r', s1)"
  shows "ctxAPIToken r' = None \<and> (\<exists>u x. ctxUser r' = Some u \<and> ctxSession r' = Some x \<and> by_session srv r u x s
     \<and> \<not> is_zero_time (ReauthAt x) \<and> clock s1 - ReauthAt x < ReauthWindow)"
proof -
  obtain ra s2 where a: "authedRoute srv ret r s = (Inr ra, s2)" and b: "requireRecentAuth ret ra s2 = (Inr r', s1)"
    using assms(2) unfolding sensitiveRoute_def authedRoute_next [of srv "requireRecentAuth ret"] by (elim bind_Inr)
  obtain x where t: "ctxAPIToken ra = None" and x: "ctxSession ra = Some x"
    and c: "bind (auth (RecentlyAuthenticated x)) (\<lambda>recent. if \<not> recent then problem reauthRequired else ret ra) s2 = (Inr r', s1)"
    using b by (auto simp: requireRecentAuth_def problem_def throw_def split: if_splits option.splits)
  obtain ok s3 where d: "auth (RecentlyAuthenticated x) s2 = (Inr ok, s3)"
    and e: "(if \<not> ok then problem reauthRequired else ret ra) s3 = (Inr r', s1)" using c by (elim bind_Inr)
  have ok: "ok" "r' = ra" "s3 = s1" using e by (auto simp: problem_def throw_def ret_def split: if_splits)
  have "RecentlyAuthenticated x (auth_db.truncate s2) = (Inr True, auth_db.truncate s1)"
    using d ok by (elim auth_run) (auto split: sum.splits)
  then have "\<not> is_zero_time (ReauthAt x) \<and> clock (auth_db.truncate s1) - ReauthAt x < ReauthWindow"
    by (auto simp: RecentlyAuthenticated_def op_simps split: if_splits)
  moreover obtain u where "ctxUser ra = Some u" "by_session srv r u x s" using authed_facts [OF assms(1) a] t x by auto
  ultimately show ?thesis using t x ok by auto
qed

section \<open>The client's address\<close>

text \<open>Behind as many proxies as the operator says, each of which appends the address it
  saw, the address the panel records is the one the outermost of them saw: what a
  caller wrote into the header himself has no influence.\<close>
theorem clientIP_not_spoofed:
  assumes "seen \<noteq> []" "TrustedProxyCount srv = int (length seen)" "\<forall>a \<in> set (own @ seen). CHR '','' \<notin> set a"
    "Header r ''X-Forwarded-For'' = join_with '','' (own @ seen)" "isIP (trim_space (hd seen))"
  shows "clientIP srv r = trim_space (hd seen)"
proof -
  have split: "split_on (CHR '','') (Header r ''X-Forwarded-For'') = own @ seen"
    unfolding assms(4) using assms(1,3) by (intro split_on_join) auto
  have "Header r ''X-Forwarded-For'' \<noteq> []"
  proof
    assume "Header r ''X-Forwarded-For'' = []"
    then have "own @ seen = [[]]" using split by simp
    then have "seen = [[]]" using assms(1) by (cases own) auto
    then show False using assms(5) by (simp add: isIP_def trim_space_def trim_right_def ParseAddr_def)
  qed
  moreover have "(own @ seen) ! nat (int (length (own @ seen)) - int (length seen)) = hd seen"
    using assms(1) by (simp add: nth_append hd_conv_nth)
  ultimately show ?thesis using assms(1,2,5) unfolding clientIP_def Let_def split by simp
qed

section \<open>A panel to try it on\<close>

definition demo_server :: Server where
  "demo_server = \<lparr>srvAuth = demo_service, TrustedProxyCount = 1, PublicURL = ''https://panel.test'', Quote = (\<lambda>t. t),
     errorText = (\<lambda>_. ''failed'')\<rparr>"

definition demo_request :: Request where
  "demo_request = \<lparr>Method = ''POST'', UrlPath = ''/api/teams'', RemoteAddr = ''10.42.0.7:5123'',
     Header = (\<lambda>h. if h = ''Authorization'' then ''Bearer skf_x'' else if h = ''X-Forwarded-For'' then ''6.6.6.6,203.0.113.9''
       else if h = ''X-Request-Id'' then ''req-1'' else []),
     Cookies = [], ctxUser = None, ctxSession = None, ctxAPIToken = None, ctxRequestID = [], ctxClientIP = []\<rparr>"

definition demo_panel :: team_db where
  "demo_panel = auth_db.extend demo_db \<lparr>teams = [\<lparr>teamID = ''team_1'', teamName = ''One'', teamSlug = ''one'', teamCreatedAt = 0, teamRole = None\<rparr>],
     memberships = [\<lparr>mTeamID = ''team_1'', mUserID = ''usr_1'', mRole = RoleOwner, mCreatedAt = 0\<rparr>], projects = [], environments = [],
     app_rows = [], database_rows = [], deployed_at = [], team_invitations = [], audit_events = [], settings = [], sentEvents = []\<rparr>"


theorem authed_request_sound_witness:
  "\<exists>u. (\<exists>t. by_token demo_server demo_request u t demo_panel) \<or> (\<exists>x. by_session demo_server demo_request u x demo_panel)"
proof -
  let ?m = "authedRoute demo_server ret demo_request"
  have "isl (fst (?m demo_panel)) = False" by code_simp
  then have "?m demo_panel = (Inr (projr (fst (?m demo_panel))), snd (?m demo_panel))" by (intro run_pair) (simp add: sum.collapse(2))
  moreover have "anonymous demo_request" by (simp add: anonymous_def demo_request_def)
  ultimately show ?thesis using authed_request_sound [of demo_request demo_server demo_panel] by blast
qed

theorem clientIP_not_spoofed_witness: "clientIP demo_server demo_request = ''203.0.113.9''"
proof -
  have "isIP (trim_space (hd [''203.0.113.9'']))" by code_simp
  moreover have "trim_space (hd [''203.0.113.9'']) = ''203.0.113.9''" by code_simp
  ultimately show ?thesis
    using clientIP_not_spoofed [of "[''203.0.113.9'']" demo_server "[''6.6.6.6'']" demo_request]
    by (simp add: demo_server_def demo_request_def)
qed

definition demo_person :: Request where
  "demo_person = demo_request\<lparr>Method := ''GET'', Header := (\<lambda>h. if h = ''X-Request-Id'' then ''req-2'' else []),
     Cookies := [(''__Host-skifity_session'', ''mine'')]\<rparr>"

definition fresh_panel :: team_db where
  "fresh_panel = demo_panel\<lparr>sessions := [(demo_session ''ses_1'' ''mine'')\<lparr>ReauthAt := hour - minute\<rparr>]\<rparr>"

theorem sensitive_needs_recent_proof_witness:
  "\<exists>u x. by_session demo_server demo_person u x fresh_panel
     \<and> clock (snd (sensitiveRoute demo_server ret demo_person fresh_panel)) - ReauthAt x < ReauthWindow"
proof -
  let ?m = "sensitiveRoute demo_server ret demo_person"
  have "isl (fst (?m fresh_panel)) = False" by code_simp
  then have "?m fresh_panel = (Inr (projr (fst (?m fresh_panel))), snd (?m fresh_panel))" by (intro run_pair) (simp add: sum.collapse(2))
  moreover have "anonymous demo_person" by (simp add: anonymous_def demo_person_def demo_request_def)
  ultimately show ?thesis using sensitive_needs_recent_proof [of demo_person demo_server fresh_panel] by blast
qed

end
