(* ===== verification/Hub.thy ===== *)
theory Hub
  imports Go_Map "HOL-Library.Sublist"
begin

text \<open>
  The event hub, \<^verbatim>\<open>internal/events/hub.go\<close>: the fan-out of install
  progress, build logs and cluster status to browsers.

  The sequential part models every operation of the hub over its state record.
  The concurrent part is a step relation whose steps are the critical sections
  of the code: a publisher draws its sequence number before it takes the lock,
  a subscriber sends its replay after it has released it, a client reads from
  its channel at any moment. What is proved is proved for every interleaving.

  Subscribers are pointers in the code: an address into \<^verbatim>\<open>subs\<close>, and the
  map of registered ones is the list of their addresses. The payload of an event
  is a type parameter. The two counters are 64 bit in the code and unbounded
  here: they would need 2^63 events to differ.
\<close>

section \<open>Data\<close>

record 'd Event =
  Topic :: string
  Type :: string
  Seq :: int
  Data :: 'd
  At :: instant

record 'd subscriber =
  ch :: "'d Event list"
  capacity :: int
  closed :: bool
  topics :: "string list"
  dropped :: int

record 'd topicHistory =
  events :: "'d Event list"
  lastAt :: instant

record 'd Hub =
  subscribers :: "nat list"
  subs :: "nat \<Rightarrow> 'd subscriber"
  fresh :: nat
  seq :: int
  buffer :: int
  history :: "(string \<times> 'd topicHistory) list"
  historyLimit :: nat
  historyTTL :: duration
  maxTopics :: nat

definition newSubscriber :: "int \<Rightarrow> string list \<Rightarrow> 'd subscriber" where
  "newSubscriber buf ts = \<lparr>ch = [], capacity = buf, closed = False, topics = remdups ts, dropped = 0\<rparr>"

definition NewHub :: "int \<Rightarrow> 'd Hub" where
  "NewHub buf = \<lparr>subscribers = [], subs = (\<lambda>_. newSubscriber 0 []), fresh = 0, seq = 0,
     buffer = (if buf \<le> 0 then 64 else buf), history = [], historyLimit = 200,
     historyTTL = 30 * minute, maxTopics = 5000\<rparr>"

section \<open>The wire format\<close>

text \<open>\<^verbatim>\<open>json.Marshal\<close> is the parameter \<^verbatim>\<open>marshal\<close>; None is its error.\<close>

definition newline :: char where
  "newline = CHR 0x0A"

definition Encode :: "('d \<Rightarrow> string option) \<Rightarrow> 'd Event \<Rightarrow> string option" where
  "Encode marshal e = (case marshal (Data e) of
     None \<Rightarrow> None
   | Some payload \<Rightarrow> Some (''id: '' @ itoa (Seq e) @ newline # ''event: '' @ Type e @ newline #
       ''data: '' @ payload @ [newline, newline]))"

section \<open>Channels\<close>

text \<open>
  A send in a \<^verbatim>\<open>select\<close> with a \<^verbatim>\<open>default\<close> arm: the event is queued when the
  buffer has room and counted as dropped when it has not. Sending on a closed
  channel panics, which is None.
\<close>

definition offer :: "'d Event \<Rightarrow> 'd subscriber \<Rightarrow> 'd subscriber" where
  "offer ev s = (if int (length (ch s)) < capacity s then s\<lparr>ch := ch s @ [ev]\<rparr>
     else s\<lparr>dropped := dropped s + 1\<rparr>)"

definition trySend :: "'d Event \<Rightarrow> 'd subscriber \<Rightarrow> 'd subscriber option" where
  "trySend ev s = (if closed s then None else Some (offer ev s))"

interpretation channel: lossy_queue offer ch dropped "\<lambda>s. capacity s - int (length (ch s))"
  by unfold_locales (auto simp: offer_def)

section \<open>Publishing\<close>

fun oldestTopic :: "(string \<times> 'd topicHistory) list \<Rightarrow> string \<Rightarrow> instant \<Rightarrow> string" where
  "oldestTopic [] oldest oldestAt = oldest"
| "oldestTopic ((t, e) # m) oldest oldestAt =
     (if oldest = [] \<or> lastAt e < oldestAt then oldestTopic m t (lastAt e)
      else oldestTopic m oldest oldestAt)"

definition evictOldestLocked :: "'d Hub \<Rightarrow> 'd Hub" where
  "evictOldestLocked h = (let oldest = oldestTopic (history h) [] zero_time in
     if oldest \<noteq> [] then h\<lparr>history := AList.delete oldest (history h)\<rparr> else h)"

definition lastN :: "nat \<Rightarrow> 'a list \<Rightarrow> 'a list" where
  "lastN n xs = (if length xs > n then drop (length xs - n) xs else xs)"

definition recordEvent :: "'d Event \<Rightarrow> 'd Hub \<Rightarrow> 'd Hub" where
  "recordEvent ev h =
     (let h1 = (if map_of (history h) (Topic ev) = None \<and> maxTopics h \<le> length (history h)
                then evictOldestLocked h else h);
          old = (case map_of (history h) (Topic ev) of None \<Rightarrow> [] | Some e \<Rightarrow> events e)
      in h1\<lparr>history := AList.update (Topic ev)
             \<lparr>events = lastN (historyLimit h) (old @ [ev]), lastAt = At ev\<rparr> (history h1)\<rparr>)"

fun fanOut :: "nat list \<Rightarrow> 'd Event \<Rightarrow> (nat \<Rightarrow> 'd subscriber) \<Rightarrow> (nat \<Rightarrow> 'd subscriber) option" where
  "fanOut [] ev m = Some m"
| "fanOut (p # ps) ev m =
     (if Topic ev \<notin> set (topics (m p)) then fanOut ps ev m
      else case trySend ev (m p) of None \<Rightarrow> None | Some s \<Rightarrow> fanOut ps ev (m(p := s)))"

definition drawEvent :: "string \<Rightarrow> string \<Rightarrow> 'd \<Rightarrow> instant \<Rightarrow> 'd Hub \<Rightarrow> 'd Event \<times> 'd Hub" where
  "drawEvent topic ty data now h =
     (\<lparr>Topic = topic, Type = ty, Seq = seq h + 1, Data = data, At = now\<rparr>, h\<lparr>seq := seq h + 1\<rparr>)"

definition publishLocked :: "'d Event \<Rightarrow> 'd Hub \<Rightarrow> 'd Hub option" where
  "publishLocked ev h = (let h1 = recordEvent ev h in
     case fanOut (subscribers h1) ev (subs h1) of None \<Rightarrow> None | Some m \<Rightarrow> Some (h1\<lparr>subs := m\<rparr>))"

definition Publish :: "string \<Rightarrow> string \<Rightarrow> 'd \<Rightarrow> instant \<Rightarrow> 'd Hub \<Rightarrow> ('d Event \<times> 'd Hub) option" where
  "Publish topic ty data now h = (let (ev, h1) = drawEvent topic ty data now h in
     case publishLocked ev h1 of None \<Rightarrow> None | Some h2 \<Rightarrow> Some (ev, h2))"

section \<open>Subscribing\<close>

definition replayOf :: "int \<Rightarrow> string list \<Rightarrow> 'd Hub \<Rightarrow> 'd Event list" where
  "replayOf lastSeq ts h = (if lastSeq > 0 then
     concat (map (\<lambda>t. case map_of (history h) t of None \<Rightarrow> []
       | Some e \<Rightarrow> filter (\<lambda>ev. Seq ev > lastSeq) (events e)) ts) else [])"

definition subscribeLocked :: "int \<Rightarrow> string list \<Rightarrow> 'd Hub \<Rightarrow> nat \<times> 'd Event list \<times> 'd Hub" where
  "subscribeLocked lastSeq ts h = (fresh h, replayOf lastSeq ts h,
     h\<lparr>subs := (subs h)(fresh h := newSubscriber (buffer h) ts),
       subscribers := fresh h # subscribers h, fresh := Suc (fresh h)\<rparr>)"

fun replayInto :: "'d Event list \<Rightarrow> nat \<Rightarrow> 'd Hub \<Rightarrow> 'd Hub option" where
  "replayInto [] p h = Some h"
| "replayInto (ev # evs) p h = (case trySend ev (subs h p) of None \<Rightarrow> None
     | Some s \<Rightarrow> replayInto evs p (h\<lparr>subs := (subs h)(p := s)\<rparr>))"

definition Subscribe :: "int \<Rightarrow> string list \<Rightarrow> 'd Hub \<Rightarrow> (nat \<times> 'd Hub) option" where
  "Subscribe lastSeq ts h = (let (p, replay, h1) = subscribeLocked lastSeq ts h in
     case replayInto replay p h1 of None \<Rightarrow> None | Some h2 \<Rightarrow> Some (p, h2))"

text \<open>
  \<^verbatim>\<open>Close\<close>, and the goroutine that waits for the request context: both take
  the lock, and both close the channel only while the subscriber is registered.
\<close>

definition Close :: "nat \<Rightarrow> 'd Hub \<Rightarrow> 'd Hub" where
  "Close p h = (if p \<in> set (subscribers h)
     then h\<lparr>subscribers := removeAll p (subscribers h), subs := (subs h)(p := (subs h p)\<lparr>closed := True\<rparr>)\<rparr>
     else h)"

definition receive :: "nat \<Rightarrow> 'd Hub \<Rightarrow> ('d Event \<times> 'd Hub) option" where
  "receive p h = (case ch (subs h p) of [] \<Rightarrow> None
     | ev # rest \<Rightarrow> Some (ev, h\<lparr>subs := (subs h)(p := (subs h p)\<lparr>ch := rest\<rparr>)\<rparr>))"

definition Dropped :: "nat \<Rightarrow> 'd Hub \<Rightarrow> int" where
  "Dropped p h = dropped (subs h p)"

section \<open>Housekeeping\<close>

definition SubscriberCount :: "'d Hub \<Rightarrow> nat" where
  "SubscriberCount h = length (subscribers h)"

definition Subscribers :: "'d Hub \<Rightarrow> nat" where
  "Subscribers h = length (subscribers h)"

definition TopicCount :: "'d Hub \<Rightarrow> nat" where
  "TopicCount h = length (history h)"

definition ForgetTopic :: "string \<Rightarrow> 'd Hub \<Rightarrow> 'd Hub" where
  "ForgetTopic t h = h\<lparr>history := AList.delete t (history h)\<rparr>"

definition expired :: "duration \<Rightarrow> instant \<Rightarrow> 'd topicHistory \<Rightarrow> bool" where
  "expired ttl now e \<longleftrightarrow> now - lastAt e > ttl"

definition Sweep :: "instant \<Rightarrow> 'd Hub \<Rightarrow> nat \<times> 'd Hub" where
  "Sweep now h =
     (length (filter (\<lambda>(t, e). expired (historyTTL h) now e) (history h)),
      h\<lparr>history := filter (\<lambda>(t, e). \<not> expired (historyTTL h) now e) (history h)\<rparr>)"

definition OperationTopic :: "string \<Rightarrow> string" where
  "OperationTopic i = ''operation:'' @ i"

definition DeploymentTopic :: "string \<Rightarrow> string" where
  "DeploymentTopic i = ''deployment:'' @ i"

definition AppLogTopic :: "string \<Rightarrow> string" where
  "AppLogTopic i = ''app-logs:'' @ i"

definition TeamTopic :: "string \<Rightarrow> string" where
  "TeamTopic i = ''team:'' @ i"

section \<open>Interleavings\<close>

text \<open>
  The hub with everything that uses it. \<^verbatim>\<open>drawn\<close> holds the events of publishers
  that have a sequence number and wait for the lock, \<^verbatim>\<open>replaying\<close> what each
  \<^verbatim>\<open>Subscribe\<close> has still to send; a subscription is handed out, and its context
  watched, only once that is empty, so only then can it be closed. The other
  fields record the history of the run: the events in the order they took the
  lock, the whole replay of each subscriber, what it asked for, how many events
  had been published when it registered, and what its client has read.
\<close>

record 'd world =
  hub :: "'d Hub"
  drawn :: "'d Event list"
  replaying :: "nat \<Rightarrow> 'd Event list"
  panicked :: bool
  published :: "'d Event list"
  replayed :: "nat \<Rightarrow> 'd Event list"
  asked :: "nat \<Rightarrow> int \<times> string list"
  since :: "nat \<Rightarrow> nat"
  received :: "nat \<Rightarrow> 'd Event list"

definition initial :: "int \<Rightarrow> 'd world" where
  "initial buf = \<lparr>hub = NewHub buf, drawn = [], replaying = (\<lambda>_. []), panicked = False, published = [],
     replayed = (\<lambda>_. []), asked = (\<lambda>_. (0, [])), since = (\<lambda>_. 0), received = (\<lambda>_. [])\<rparr>"

inductive step :: "'d world \<Rightarrow> 'd world \<Rightarrow> bool" where
  draw: "topic \<noteq> [] \<Longrightarrow> drawEvent topic ty data now (hub w) = (ev, h) \<Longrightarrow>
    step w (w\<lparr>hub := h, drawn := ev # drawn w\<rparr>)"
| publish: "ev \<in> set (drawn w) \<Longrightarrow> publishLocked ev (hub w) = Some h \<Longrightarrow>
    step w (w\<lparr>hub := h, drawn := remove1 ev (drawn w), published := published w @ [ev]\<rparr>)"
| publish_panics: "ev \<in> set (drawn w) \<Longrightarrow> publishLocked ev (hub w) = None \<Longrightarrow>
    step w (w\<lparr>panicked := True\<rparr>)"
| register: "subscribeLocked lastSeq ts (hub w) = (p, replay, h) \<Longrightarrow>
    step w (w\<lparr>hub := h, replaying := (replaying w)(p := replay), replayed := (replayed w)(p := replay),
      asked := (asked w)(p := (lastSeq, ts)), since := (since w)(p := length (published w)),
      received := (received w)(p := [])\<rparr>)"
| replay: "replaying w p = ev # evs \<Longrightarrow> replayInto [ev] p (hub w) = Some h \<Longrightarrow>
    step w (w\<lparr>hub := h, replaying := (replaying w)(p := evs)\<rparr>)"
| replay_panics: "replaying w p = ev # evs \<Longrightarrow> replayInto [ev] p (hub w) = None \<Longrightarrow>
    step w (w\<lparr>panicked := True\<rparr>)"
| close: "p < fresh (hub w) \<Longrightarrow> replaying w p = [] \<Longrightarrow> step w (w\<lparr>hub := Close p (hub w)\<rparr>)"
| read: "receive p (hub w) = Some (ev, h) \<Longrightarrow>
    step w (w\<lparr>hub := h, received := (received w)(p := received w p @ [ev])\<rparr>)"
| forget: "step w (w\<lparr>hub := ForgetTopic t (hub w)\<rparr>)"
| sweep: "step w (w\<lparr>hub := snd (Sweep now (hub w))\<rparr>)"

inductive reachable :: "int \<Rightarrow> 'd world \<Rightarrow> bool" for buf where
  start: "reachable buf (initial buf)"
| further: "reachable buf w \<Longrightarrow> step w w' \<Longrightarrow> reachable buf w'"

definition live :: "'d world \<Rightarrow> nat \<Rightarrow> 'd Event list" where
  "live w p = filter (\<lambda>ev. Topic ev \<in> set (topics (subs (hub w) p))) (drop (since w p) (published w))"

section \<open>Eviction and the history\<close>

definition stamps :: "(string \<times> 'd topicHistory) list \<Rightarrow> (string \<times> instant) set" where
  "stamps m = (\<lambda>(t, e). (t, lastAt e)) ` set m"

lemma stamps_simps [simp]: "stamps [] = {}" "stamps ((t, e) # m) = insert (t, lastAt e) (stamps m)"
  by (simp_all add: stamps_def)

lemma oldestTopic_spec:
  assumes "[] \<notin> fst ` set m" and "oldest \<noteq> []"
  shows "\<exists>l. (oldestTopic m oldest at, l) \<in> insert (oldest, at) (stamps m)
    \<and> (\<forall>x \<in> insert (oldest, at) (stamps m). l \<le> snd x)"
  using assms
proof (induction m arbitrary: oldest at)
  case (Cons x m)
  obtain t e where x: "x = (t, e)" by (cases x)
  have t: "t \<noteq> []" "[] \<notin> fst ` set m" using Cons.prems by (auto simp: x)
  show ?case
  proof (cases "lastAt e < at")
    case True
    obtain l where l: "(oldestTopic m t (lastAt e), l) \<in> insert (t, lastAt e) (stamps m)"
        "\<forall>x \<in> insert (t, lastAt e) (stamps m). l \<le> snd x"
      using Cons.IH [OF t(2) t(1), of "lastAt e"] by (elim exE conjE)
    have "l \<le> at" using bspec [OF l(2), of "(t, lastAt e)"] True by simp
    then show ?thesis using l True x by (intro exI [of _ l]) auto
  next
    case False
    obtain l where l: "(oldestTopic m oldest at, l) \<in> insert (oldest, at) (stamps m)"
        "\<forall>x \<in> insert (oldest, at) (stamps m). l \<le> snd x"
      using Cons.IH [OF t(2) Cons.prems(2), of at] by (elim exE conjE)
    have "l \<le> lastAt e" using bspec [OF l(2), of "(oldest, at)"] False by simp
    then show ?thesis using l False x Cons.prems(2) by (intro exI [of _ l]) auto
  qed
qed simp

lemma oldestTopic_min:
  assumes "[] \<notin> fst ` set m" and "m \<noteq> []"
  shows "\<exists>e. (oldestTopic m [] at, e) \<in> set m \<and> (\<forall>(t, e') \<in> set m. lastAt e \<le> lastAt e')"
proof -
  obtain t e m' where m: "m = (t, e) # m'" using assms(2) by (cases m) auto
  obtain l where l: "(oldestTopic m' t (lastAt e), l) \<in> insert (t, lastAt e) (stamps m')"
        "\<forall>x \<in> insert (t, lastAt e) (stamps m'). l \<le> snd x"
    using oldestTopic_spec [of m' t "lastAt e"] assms(1) by (auto simp: m)
  have "(oldestTopic m [] at, l) \<in> stamps m" "\<forall>x \<in> stamps m. l \<le> snd x" using l by (simp_all add: m)
  then show ?thesis by (force simp: stamps_def)
qed

lemma length_lastN: "length (lastN n xs) = min n (length xs)"
  by (simp add: lastN_def)

lemma set_lastN: "set (lastN n xs) \<subseteq> set xs"
  by (simp add: lastN_def set_drop_subset)

lemma distinct_lastN: "distinct xs \<Longrightarrow> distinct (lastN n xs)"
  by (simp add: lastN_def)

text \<open>What every operation keeps of the history: distinct non-empty topics, within both limits.\<close>

definition history_ok :: "'d Hub \<Rightarrow> bool" where
  "history_ok h \<longleftrightarrow> map_well (history h) \<and> [] \<notin> fst ` set (history h) \<and> 0 < maxTopics h
     \<and> length (history h) \<le> maxTopics h
     \<and> (\<forall>(t, e) \<in> set (history h). length (events e) \<le> historyLimit h)"

lemma evictOldestLocked_makes_room:
  assumes "history_ok h" and "history h \<noteq> []"
  shows "length (history (evictOldestLocked h)) < length (history h)"
proof -
  have ok: "map_well (history h)" "[] \<notin> fst ` set (history h)" using assms(1) by (auto simp: history_ok_def)
  obtain e where e: "(oldestTopic (history h) [] zero_time, e) \<in> set (history h)"
    using oldestTopic_min [OF ok(2) assms(2)] by blast
  moreover have "oldestTopic (history h) [] zero_time \<noteq> []" using e ok(2) by force
  moreover have "map_of (history h) (oldestTopic (history h) [] zero_time) = Some e"
    using ok(1) e by (simp add: map_well_def)
  ultimately show ?thesis
    using go_map.size_delete_old [OF ok(1), of "oldestTopic (history h) [] zero_time"]
    by (simp add: evictOldestLocked_def)
qed

lemma evictOldestLocked_simps [simp]:
  "subscribers (evictOldestLocked h) = subscribers h" "subs (evictOldestLocked h) = subs h"
  "fresh (evictOldestLocked h) = fresh h" "seq (evictOldestLocked h) = seq h" "buffer (evictOldestLocked h) = buffer h"
  "historyLimit (evictOldestLocked h) = historyLimit h" "historyTTL (evictOldestLocked h) = historyTTL h"
  "maxTopics (evictOldestLocked h) = maxTopics h"
  by (simp_all add: evictOldestLocked_def Let_def)

lemma evictOldestLocked_subset: "set (history (evictOldestLocked h)) \<subseteq> set (history h)"
  by (auto simp: evictOldestLocked_def Let_def AList.delete_eq)

lemma evictOldestLocked_well: "map_well (history h) \<Longrightarrow> map_well (history (evictOldestLocked h))"
  by (simp add: evictOldestLocked_def Let_def go_map.well_delete)

lemma recordEvent_simps [simp]:
  "subscribers (recordEvent ev h) = subscribers h" "subs (recordEvent ev h) = subs h"
  "fresh (recordEvent ev h) = fresh h" "seq (recordEvent ev h) = seq h" "buffer (recordEvent ev h) = buffer h"
  "historyLimit (recordEvent ev h) = historyLimit h" "historyTTL (recordEvent ev h) = historyTTL h"
  "maxTopics (recordEvent ev h) = maxTopics h"
  by (simp_all add: recordEvent_def Let_def)

lemma recordEvent_history:
  assumes "(t, e) \<in> set (history (recordEvent ev h))" and "map_well (history h)"
  shows "(t, e) \<in> set (history h) \<or> t = Topic ev \<and>
    events e = lastN (historyLimit h) ((case map_of (history h) t of None \<Rightarrow> [] | Some e' \<Rightarrow> events e') @ [ev])"
proof -
  define h1 where "h1 = (if map_of (history h) (Topic ev) = None \<and> maxTopics h \<le> length (history h)
                then evictOldestLocked h else h)"
  have w: "map_well (history h1)" using assms(2) evictOldestLocked_well by (auto simp: h1_def)
  have "map_of (history (recordEvent ev h)) t = Some e"
    using assms(1) go_map.well_insert [OF w] by (auto simp: recordEvent_def Let_def h1_def map_well_def)
  then show ?thesis
    using evictOldestLocked_subset [of h]
    by (auto simp: recordEvent_def Let_def h1_def update_conv' dest!: map_of_SomeD split: if_splits)
qed

lemma recordEvent_ok:
  assumes "history_ok h" and "Topic ev \<noteq> []"
  shows "history_ok (recordEvent ev h)"
proof -
  define h1 where "h1 = (if map_of (history h) (Topic ev) = None \<and> maxTopics h \<le> length (history h)
                then evictOldestLocked h else h)"
  have w: "map_well (history h)" "map_well (history h1)"
    using assms(1) evictOldestLocked_well by (auto simp: h1_def history_ok_def)
  have len: "map_of (history h) (Topic ev) = None \<Longrightarrow> length (history h1) < maxTopics h"
    using evictOldestLocked_makes_room [OF assms(1)] assms(1)
    by (cases "history h = []") (auto simp: h1_def history_ok_def)
  have new: "map_of (history h) (Topic ev) = None \<Longrightarrow> map_of (history h1) (Topic ev) = None"
    using evictOldestLocked_subset [of h] by (auto simp: h1_def map_of_eq_None_iff)
  have rec: "\<exists>v. history (recordEvent ev h) = AList.update (Topic ev) v (history h1)"
    by (auto simp: recordEvent_def Let_def h1_def)
  have len': "length (history (recordEvent ev h)) \<le> maxTopics h"
  proof (cases "map_of (history h) (Topic ev)")
    case None
    then show ?thesis
      using go_map.size_insert_new [OF w(2) new] len rec by (auto simp: Suc_le_eq)
  next
    case (Some e)
    then have "h1 = h" by (simp add: h1_def)
    then show ?thesis
      using go_map.size_insert_old [OF w(1), of "Topic ev"] Some assms(1) rec by (auto simp: history_ok_def)
  qed
  have "map_well (history (recordEvent ev h))"
    using go_map.well_insert [OF w(2)] rec by auto
  moreover have "t \<noteq> [] \<and> length (events e) \<le> historyLimit h" if "(t, e) \<in> set (history (recordEvent ev h))" for t e
    using recordEvent_history [OF that w(1)] assms by (force simp: length_lastN history_ok_def)
  ultimately show ?thesis using len' assms(1) by (fastforce simp: history_ok_def)
qed

section \<open>Delivery accounts\<close>

lemma shuffles_single: "ys @ [x] \<in> shuffles [x] ys"
  by (induction ys) (auto simp: Cons_in_shuffles_iff)

lemma shuffles_snoc_left: "z \<in> shuffles xs ys \<Longrightarrow> z @ [x] \<in> shuffles (xs @ [x]) ys"
  by (induction xs ys arbitrary: z rule: shuffles.induct) (auto simp: Cons_in_shuffles_iff shuffles_single)

lemma shuffles_snoc_right: "z \<in> shuffles xs ys \<Longrightarrow> z @ [y] \<in> shuffles xs (ys @ [y])"
  using shuffles_snoc_left [of z ys xs y] by (simp add: shuffles_commutes)

text \<open>
  The account of one subscriber: what it was offered is an interleaving of the
  part of the replay already sent with the live events; what its client has read
  and will read is a part of it in the same order, and the rest is counted.
\<close>

definition account :: "'d subscriber \<Rightarrow> 'd Event list \<Rightarrow> 'd Event list \<Rightarrow> 'd Event list \<Rightarrow> 'd Event list \<Rightarrow> bool" where
  "account s whole rest lv rcv \<longleftrightarrow> (\<exists>sent z. whole = sent @ rest \<and> z \<in> shuffles sent lv
     \<and> subseq (rcv @ ch s) z \<and> int (length (rcv @ ch s)) + dropped s = int (length z))"

lemma account_start: "account (newSubscriber b ts) whole whole [] []"
  by (simp add: account_def newSubscriber_def)

lemma offer_account:
  assumes "subseq (rcv @ ch s) z" and "int (length (rcv @ ch s)) + dropped s = int (length z)"
  shows "subseq (rcv @ ch (offer ev s)) (z @ [ev])"
    and "int (length (rcv @ ch (offer ev s))) + dropped (offer ev s) = int (length (z @ [ev]))"
  using assms list_emb_append_mono [OF assms(1), of "[ev]" "[ev]"]
  by (auto simp: offer_def subseq_append_le_same_iff intro: subseq_rev_drop_many)

lemma account_live: "account s whole rest lv rcv \<Longrightarrow> account (offer ev s) whole rest (lv @ [ev]) rcv"
  using offer_account shuffles_snoc_right unfolding account_def by metis

lemma account_replay: "account s whole (ev # rest) lv rcv \<Longrightarrow> account (offer ev s) whole rest lv rcv"
  unfolding account_def
proof (elim exE conjE)
  fix sent z
  assume a: "whole = sent @ ev # rest" "z \<in> shuffles sent lv" "subseq (rcv @ ch s) z"
    "int (length (rcv @ ch s)) + dropped s = int (length z)"
  show "\<exists>sent z. whole = sent @ rest \<and> z \<in> shuffles sent lv \<and> subseq (rcv @ ch (offer ev s)) z
      \<and> int (length (rcv @ ch (offer ev s))) + dropped (offer ev s) = int (length z)"
    using a(1) shuffles_snoc_left [OF a(2), of ev] offer_account [OF a(3,4), of ev]
    by (intro exI [of _ "sent @ [ev]"] exI [of _ "z @ [ev]"]) auto
qed

lemma account_read: "ch s = ev # r \<Longrightarrow> account s whole rest lv rcv \<Longrightarrow> account (s\<lparr>ch := r\<rparr>) whole rest lv (rcv @ [ev])"
  by (simp add: account_def)

lemma account_no_drops:
  assumes "account s whole [] lv rcv" and "dropped s = 0"
  shows "rcv @ ch s \<in> shuffles whole lv"
  using assms subseq_same_length unfolding account_def by fastforce

section \<open>Invariants of every run\<close>

lemma offer_simps [simp]: "topics (offer ev s) = topics s" "closed (offer ev s) = closed s" "capacity (offer ev s) = capacity s"
  by (simp_all add: offer_def)

lemma fanOut_effect:
  "distinct ps \<Longrightarrow> \<forall>p \<in> set ps. \<not> closed (m p) \<Longrightarrow> fanOut ps ev m =
    Some (\<lambda>p. if p \<in> set ps \<and> Topic ev \<in> set (topics (m p)) then offer ev (m p) else m p)"
  by (induction ps arbitrary: m) (auto simp: trySend_def fun_eq_iff)

definition registrations_ok :: "'d world \<Rightarrow> bool" where
  "registrations_ok w \<longleftrightarrow> distinct (subscribers (hub w)) \<and> \<not> panicked w
     \<and> (\<forall>p \<in> set (subscribers (hub w)). p < fresh (hub w) \<and> \<not> closed (subs (hub w) p))
     \<and> (\<forall>p. replaying w p \<noteq> [] \<longrightarrow> p \<in> set (subscribers (hub w)))"

definition sequence_ok :: "'d world \<Rightarrow> bool" where
  "sequence_ok w \<longleftrightarrow> distinct (map Seq (published w @ drawn w))
     \<and> (\<forall>ev \<in> set (published w) \<union> set (drawn w). Seq ev \<le> seq (hub w) \<and> Topic ev \<noteq> [])"

definition entry_ok :: "'d world \<Rightarrow> string \<Rightarrow> 'd topicHistory \<Rightarrow> bool" where
  "entry_ok w t e \<longleftrightarrow> distinct (events e) \<and> (\<forall>ev \<in> set (events e). ev \<in> set (published w) \<and> Topic ev = t)"

definition histories_ok :: "'d world \<Rightarrow> bool" where
  "histories_ok w \<longleftrightarrow> history_ok (hub w) \<and> (\<forall>(t, e) \<in> set (history (hub w)). entry_ok w t e)"

definition subscriber_ok :: "'d world \<Rightarrow> nat \<Rightarrow> bool" where
  "subscriber_ok w p \<longleftrightarrow> account (subs (hub w) p) (replayed w p) (replaying w p) (live w p) (received w p)
     \<and> since w p \<le> length (published w)
     \<and> set (topics (subs (hub w) p)) = set (snd (asked w p))
     \<and> (\<forall>ev \<in> set (replayed w p). ev \<in> set (take (since w p) (published w)) \<and> Seq ev > fst (asked w p)
          \<and> Topic ev \<in> set (snd (asked w p)))
     \<and> (distinct (snd (asked w p)) \<longrightarrow> distinct (replayed w p))"

definition invariant :: "'d world \<Rightarrow> bool" where
  "invariant w \<longleftrightarrow> registrations_ok w \<and> sequence_ok w \<and> histories_ok w
     \<and> (\<forall>p \<in> set (subscribers (hub w)). subscriber_ok w p)"

lemmas invariant_defs = invariant_def registrations_ok_def sequence_ok_def histories_ok_def entry_ok_def

lemma invariant_initial: "invariant (initial buf)"
  by (simp add: invariant_defs initial_def NewHub_def history_ok_def)

text \<open>A publisher draws a number: nothing else changes.\<close>

lemma subscriber_ok_cong:
  assumes "subs (hub w') p = subs (hub w) p" "published w' = published w" "replaying w' p = replaying w p"
    "replayed w' p = replayed w p" "asked w' p = asked w p" "since w' p = since w p" "received w' p = received w p"
  shows "subscriber_ok w' p = subscriber_ok w p"
  using assms by (simp add: subscriber_ok_def live_def)

lemma invariant_draw:
  assumes "invariant w" "topic \<noteq> []" "drawEvent topic ty data now (hub w) = (ev, h)"
  shows "invariant (w\<lparr>hub := h, drawn := ev # drawn w\<rparr>)"
proof -
  have h: "h = (hub w)\<lparr>seq := seq (hub w) + 1\<rparr>" and ev: "Seq ev = seq (hub w) + 1" "Topic ev = topic"
    using assms(3) by (auto simp: drawEvent_def)
  have i: "registrations_ok w" "sequence_ok w" "histories_ok w" "\<forall>p \<in> set (subscribers (hub w)). subscriber_ok w p"
    using assms(1) by (simp_all add: invariant_def)
  have "seq (hub w) + 1 \<notin> Seq ` (set (published w) \<union> set (drawn w))"
    using i(2) by (force simp: sequence_ok_def)
  moreover have "\<forall>e \<in> set (published w) \<union> set (drawn w). Seq e \<le> seq (hub w) + 1 \<and> Topic e \<noteq> []"
    using i(2) by (force simp: sequence_ok_def)
  ultimately have "sequence_ok (w\<lparr>hub := h, drawn := ev # drawn w\<rparr>)"
    using i(2) assms(2) by (simp add: sequence_ok_def h ev image_Un)
  moreover have "registrations_ok (w\<lparr>hub := h, drawn := ev # drawn w\<rparr>)"
    using i(1) by (simp add: registrations_ok_def h)
  moreover have "histories_ok (w\<lparr>hub := h, drawn := ev # drawn w\<rparr>)"
    using i(3) by (simp add: histories_ok_def history_ok_def entry_ok_def h)
  moreover have "subscriber_ok (w\<lparr>hub := h, drawn := ev # drawn w\<rparr>) p = subscriber_ok w p" for p
    by (rule subscriber_ok_cong) (simp_all add: h)
  ultimately show ?thesis using i(4) by (simp add: invariant_def h)
qed

text \<open>The critical section of \<^verbatim>\<open>Publish\<close>, with nothing closed among the registered.\<close>

lemma publishLocked_effect:
  assumes "registrations_ok w"
  shows "publishLocked ev (hub w) = Some ((recordEvent ev (hub w))\<lparr>subs := (\<lambda>p.
    if p \<in> set (subscribers (hub w)) \<and> Topic ev \<in> set (topics (subs (hub w) p))
    then offer ev (subs (hub w) p) else subs (hub w) p)\<rparr>)"
  using assms fanOut_effect [of "subscribers (hub w)" "subs (hub w)" ev]
  by (simp add: publishLocked_def Let_def registrations_ok_def)

lemma history_ok_cong [simp]:
  "history_ok (h\<lparr>subs := m\<rparr>) = history_ok h" "history_ok (h\<lparr>subscribers := ps\<rparr>) = history_ok h"
  "history_ok (h\<lparr>fresh := n\<rparr>) = history_ok h" "history_ok (h\<lparr>seq := k\<rparr>) = history_ok h"
  by (simp_all add: history_ok_def)

lemma entry_published:
  assumes "histories_ok w" "ev \<in> set (drawn w)" "sequence_ok w"
    "(t, e) \<in> set (history (recordEvent ev (hub w)))"
  shows "distinct (events e) \<and> (\<forall>ev' \<in> set (events e). ev' \<in> set (published w @ [ev]) \<and> Topic ev' = t)"
proof -
  have well: "map_well (history (hub w))" using assms(1) by (simp add: histories_ok_def history_ok_def)
  define old where "old = (case map_of (history (hub w)) t of None \<Rightarrow> [] | Some e' \<Rightarrow> events e')"
  have old: "distinct old \<and> (\<forall>ev' \<in> set old. ev' \<in> set (published w) \<and> Topic ev' = t)"
    using assms(1) by (auto simp: old_def histories_ok_def entry_ok_def split: option.splits dest!: map_of_SomeD)
  have new: "ev \<notin> set (published w)"
    using assms(2,3) by (force simp: sequence_ok_def)
  have "(t, e) \<in> set (history (hub w)) \<or> t = Topic ev \<and> events e = lastN (historyLimit (hub w)) (old @ [ev])"
    using recordEvent_history [OF assms(4) well] by (simp add: old_def)
  then show ?thesis
  proof
    assume "(t, e) \<in> set (history (hub w))"
    then show ?thesis using assms(1) by (auto simp: histories_ok_def entry_ok_def)
  next
    assume "t = Topic ev \<and> events e = lastN (historyLimit (hub w)) (old @ [ev])"
    then show ?thesis
      using old new set_lastN [of "historyLimit (hub w)" "old @ [ev]"] distinct_lastN [of "old @ [ev]"] by auto
  qed
qed

lemma live_publish:
  assumes "since w p \<le> length (published w)" "topics (subs h p) = topics (subs (hub w) p)"
  shows "live (w\<lparr>hub := h, drawn := d, published := published w @ [ev]\<rparr>) p =
    live w p @ (if Topic ev \<in> set (topics (subs (hub w) p)) then [ev] else [])"
  using assms by (simp add: live_def)

lemma invariant_publish:
  assumes "invariant w" "ev \<in> set (drawn w)" "publishLocked ev (hub w) = Some h"
  shows "invariant (w\<lparr>hub := h, drawn := remove1 ev (drawn w), published := published w @ [ev]\<rparr>)"
    (is "invariant ?w")
proof -
  have i: "registrations_ok w" "sequence_ok w" "histories_ok w" "\<forall>p \<in> set (subscribers (hub w)). subscriber_ok w p"
    using assms(1) by (simp_all add: invariant_def)
  define m where "m = (\<lambda>p. if p \<in> set (subscribers (hub w)) \<and> Topic ev \<in> set (topics (subs (hub w) p))
    then offer ev (subs (hub w) p) else subs (hub w) p)"
  have h: "h = (recordEvent ev (hub w))\<lparr>subs := m\<rparr>"
    using publishLocked_effect [OF i(1), of ev] assms(3) by (simp add: m_def)
  have m: "topics (m p) = topics (subs (hub w) p)" "closed (m p) = closed (subs (hub w) p)" for p
    by (simp_all add: m_def)
  have topic: "Topic ev \<noteq> []" using i(2) assms(2) by (auto simp: sequence_ok_def)
  have "registrations_ok ?w" using i(1) m by (auto simp: registrations_ok_def h)
  moreover have "sequence_ok ?w"
  proof -
    obtain d1 d2 where d: "drawn w = d1 @ ev # d2" "ev \<notin> set d1" using split_list_first [OF assms(2)] by blast
    then show ?thesis using i(2) by (auto simp: sequence_ok_def h remove1_append)
  qed
  moreover have "histories_ok ?w"
    using entry_published [OF i(3) assms(2) i(2)] recordEvent_ok [OF _ topic, of "hub w"] i(3)
    by (auto simp: histories_ok_def entry_ok_def h)
  moreover have "subscriber_ok ?w p" if p: "p \<in> set (subscribers (hub w))" for p
  proof -
    have s: "subscriber_ok w p" using i(4) p by blast
    then have "account (m p) (replayed w p) (replaying w p) (live ?w p) (received w p)"
      using live_publish [of w p h] account_live m p
      by (auto simp: subscriber_ok_def h m_def)
    moreover have "take (since w p) (published w @ [ev]) = take (since w p) (published w)"
      using s by (simp add: subscriber_ok_def)
    ultimately show ?thesis using s m(1) [of p] by (simp add: subscriber_ok_def h)
  qed
  ultimately show ?thesis by (simp add: invariant_def h)
qed

lemma replayOf_from_history:
  assumes "ev \<in> set (replayOf lastSeq ts h)"
  shows "Seq ev > lastSeq \<and> (\<exists>t e. t \<in> set ts \<and> (t, e) \<in> set (history h) \<and> ev \<in> set (events e))"
  using assms by (auto simp: replayOf_def split: if_splits option.splits dest: map_of_SomeD [OF sym])

lemma distinct_concat_map:
  assumes "distinct ts" "\<And>t. t \<in> set ts \<Longrightarrow> distinct (f t)"
    "\<And>t u. t \<in> set ts \<Longrightarrow> u \<in> set ts \<Longrightarrow> t \<noteq> u \<Longrightarrow> set (f t) \<inter> set (f u) = {}"
  shows "distinct (concat (map f ts))"
  using assms
proof (induction ts)
  case (Cons a ts)
  have "set (f a) \<inter> set (f u) = {}" if "u \<in> set ts" for u
    using Cons.prems(1) Cons.prems(3) [of a u] that by auto
  then show ?case using Cons by auto
qed simp

lemma distinct_replayOf:
  assumes "distinct ts" "\<forall>(t, e) \<in> set (history h). distinct (events e) \<and> (\<forall>ev \<in> set (events e). Topic ev = t)"
  shows "distinct (replayOf lastSeq ts h)"
proof -
  define f where "f = (\<lambda>t. case map_of (history h) t of None \<Rightarrow> []
    | Some e \<Rightarrow> filter (\<lambda>ev. Seq ev > lastSeq) (events e))"
  have f: "distinct (f t)" "\<forall>ev \<in> set (f t). Topic ev = t" for t
    using assms(2) by (auto simp: f_def split: option.splits dest!: map_of_SomeD [OF sym] map_of_SomeD)
  have "set (f t) \<inter> set (f u) = {}" if "t \<noteq> u" for t u using f(2) [of t] f(2) [of u] that by auto
  then have "distinct (concat (map f ts))" by (intro distinct_concat_map assms(1) f(1))
  then show ?thesis by (simp add: replayOf_def f_def)
qed

lemma invariant_register:
  assumes "invariant w" "subscribeLocked lastSeq ts (hub w) = (p, rep, h)"
  shows "invariant (w\<lparr>hub := h, replaying := (replaying w)(p := rep), replayed := (replayed w)(p := rep),
      asked := (asked w)(p := (lastSeq, ts)), since := (since w)(p := length (published w)),
      received := (received w)(p := [])\<rparr>)" (is "invariant ?w")
proof -
  have i: "registrations_ok w" "sequence_ok w" "histories_ok w" "\<forall>p \<in> set (subscribers (hub w)). subscriber_ok w p"
    using assms(1) by (simp_all add: invariant_def)
  have p: "p = fresh (hub w)" and rep: "rep = replayOf lastSeq ts (hub w)"
    and h: "h = (hub w)\<lparr>subs := (subs (hub w))(p := newSubscriber (buffer (hub w)) ts),
       subscribers := p # subscribers (hub w), fresh := Suc p\<rparr>"
    using assms(2) by (auto simp: subscribeLocked_def)
  have new: "p \<notin> set (subscribers (hub w))" using i(1) by (auto simp: registrations_ok_def p)
  have "registrations_ok ?w"
    using i(1) new by (auto simp: registrations_ok_def h p newSubscriber_def less_Suc_eq)
  moreover have "sequence_ok ?w" using i(2) by (simp add: sequence_ok_def h)
  moreover have "histories_ok ?w" using i(3) by (simp add: histories_ok_def history_ok_def entry_ok_def h)
  moreover have "subscriber_ok ?w q" if q: "q \<in> set (subscribers (hub w))" for q
  proof -
    have "q \<noteq> p" using q new by blast
    then have "subscriber_ok ?w q = subscriber_ok w q" by (intro subscriber_ok_cong) (simp_all add: h)
    then show ?thesis using i(4) q by blast
  qed
  moreover have "subscriber_ok ?w p"
  proof -
    have "live ?w p = []" by (simp add: live_def)
    moreover have "\<forall>ev \<in> set rep. ev \<in> set (published w) \<and> Seq ev > lastSeq \<and> Topic ev \<in> set ts"
      using replayOf_from_history [of _ lastSeq ts "hub w"] i(3) by (fastforce simp: rep histories_ok_def entry_ok_def)
    moreover have "distinct ts \<longrightarrow> distinct rep"
    proof
      assume "distinct ts"
      then show "distinct rep" using i(3) unfolding rep histories_ok_def entry_ok_def
        by (intro distinct_replayOf) auto
    qed
    ultimately show ?thesis
      by (simp add: subscriber_ok_def h account_start) (simp add: newSubscriber_def)
  qed
  ultimately show ?thesis by (simp add: invariant_def h)
qed

text \<open>One send of a replay.\<close>

lemma replayInto_effect:
  "\<not> closed (subs h p) \<Longrightarrow> replayInto evs p h = Some (h\<lparr>subs := (subs h)(p := fold offer evs (subs h p))\<rparr>)"
proof (induction evs arbitrary: h)
  case (Cons ev evs)
  let ?h = "h\<lparr>subs := (subs h)(p := offer ev (subs h p))\<rparr>"
  have "replayInto evs p ?h = Some (?h\<lparr>subs := (subs ?h)(p := fold offer evs (subs ?h p))\<rparr>)"
    using Cons.prems by (intro Cons.IH) simp
  also have "\<dots> = Some (h\<lparr>subs := (subs h)(p := fold offer evs (offer ev (subs h p)))\<rparr>)" by simp
  finally show ?case using Cons.prems by (simp add: trySend_def fun_upd_def)
qed simp

lemma invariant_replay:
  assumes "invariant w" "replaying w p = ev # evs" "replayInto [ev] p (hub w) = Some h"
  shows "invariant (w\<lparr>hub := h, replaying := (replaying w)(p := evs)\<rparr>)" (is "invariant ?w")
proof -
  have i: "registrations_ok w" "sequence_ok w" "histories_ok w" "\<forall>p \<in> set (subscribers (hub w)). subscriber_ok w p"
    using assms(1) by (simp_all add: invariant_def)
  have p: "p \<in> set (subscribers (hub w))" "\<not> closed (subs (hub w) p)"
    using i(1) assms(2) by (auto simp: registrations_ok_def)
  have h: "h = (hub w)\<lparr>subs := (subs (hub w))(p := offer ev (subs (hub w) p))\<rparr>"
    using replayInto_effect [OF p(2), of "[ev]"] assms(3) by simp
  have "registrations_ok ?w" using i(1) p by (auto simp: registrations_ok_def h)
  moreover have "sequence_ok ?w" using i(2) by (simp add: sequence_ok_def h)
  moreover have "histories_ok ?w" using i(3) by (simp add: histories_ok_def entry_ok_def h)
  moreover have "subscriber_ok ?w q" if q: "q \<in> set (subscribers (hub w))" "q \<noteq> p" for q
  proof -
    have "subscriber_ok ?w q = subscriber_ok w q" using q by (intro subscriber_ok_cong) (simp_all add: h)
    then show ?thesis using i(4) q by blast
  qed
  moreover have "subscriber_ok ?w p"
  proof -
    have s: "subscriber_ok w p" using i(4) p(1) by blast
    moreover have "live ?w p = live w p" by (simp add: live_def h)
    ultimately show ?thesis using account_replay assms(2) by (fastforce simp: subscriber_ok_def h)
  qed
  ultimately show ?thesis by (auto simp: invariant_def h)
qed

text \<open>The steps that only touch one subscriber, or only the history.\<close>

lemma invariant_close:
  assumes "invariant w" "replaying w p = []"
  shows "invariant (w\<lparr>hub := Close p (hub w)\<rparr>)" (is "invariant ?w")
proof (cases "p \<in> set (subscribers (hub w))")
  case True
  have i: "registrations_ok w" "sequence_ok w" "histories_ok w" "\<forall>p \<in> set (subscribers (hub w)). subscriber_ok w p"
    using assms(1) by (simp_all add: invariant_def)
  have h: "Close p (hub w) = (hub w)\<lparr>subscribers := removeAll p (subscribers (hub w)),
      subs := (subs (hub w))(p := (subs (hub w) p)\<lparr>closed := True\<rparr>)\<rparr>"
    using True by (simp add: Close_def)
  have "registrations_ok ?w" using i(1) assms(2) by (auto simp: registrations_ok_def h distinct_removeAll)
  moreover have "sequence_ok ?w" using i(2) by (simp add: sequence_ok_def h)
  moreover have "histories_ok ?w" using i(3) by (simp add: histories_ok_def entry_ok_def h)
  moreover have "subscriber_ok ?w q" if q: "q \<in> set (subscribers (hub w))" "q \<noteq> p" for q
  proof -
    have "subscriber_ok ?w q = subscriber_ok w q" using q by (intro subscriber_ok_cong) (simp_all add: h)
    then show ?thesis using i(4) q by blast
  qed
  ultimately show ?thesis by (auto simp: invariant_def h)
qed (use assms(1) in \<open>simp add: Close_def\<close>)

lemma invariant_read:
  assumes "invariant w" "receive p (hub w) = Some (ev, h)"
  shows "invariant (w\<lparr>hub := h, received := (received w)(p := received w p @ [ev])\<rparr>)" (is "invariant ?w")
proof -
  have i: "registrations_ok w" "sequence_ok w" "histories_ok w" "\<forall>p \<in> set (subscribers (hub w)). subscriber_ok w p"
    using assms(1) by (simp_all add: invariant_def)
  obtain r where r: "ch (subs (hub w) p) = ev # r"
    and h: "h = (hub w)\<lparr>subs := (subs (hub w))(p := (subs (hub w) p)\<lparr>ch := r\<rparr>)\<rparr>"
    using assms(2) by (auto simp: receive_def split: list.splits)
  have "registrations_ok ?w" using i(1) by (auto simp: registrations_ok_def h)
  moreover have "sequence_ok ?w" using i(2) by (simp add: sequence_ok_def h)
  moreover have "histories_ok ?w" using i(3) by (simp add: histories_ok_def entry_ok_def h)
  moreover have "subscriber_ok ?w q" if q: "q \<in> set (subscribers (hub w))" for q
  proof (cases "q = p")
    case False
    then have "subscriber_ok ?w q = subscriber_ok w q" by (intro subscriber_ok_cong) (simp_all add: h)
    then show ?thesis using i(4) q by blast
  next
    case True
    have "live ?w p = live w p" by (simp add: live_def h)
    then show ?thesis using i(4) q account_read [OF r] True by (fastforce simp: subscriber_ok_def h)
  qed
  ultimately show ?thesis by (auto simp: invariant_def h)
qed

lemma invariant_history:
  assumes "invariant w" "map_well m" "set m \<subseteq> set (history (hub w))"
  shows "invariant (w\<lparr>hub := (hub w)\<lparr>history := m\<rparr>\<rparr>)" (is "invariant ?w")
proof -
  have i: "registrations_ok w" "sequence_ok w" "histories_ok w" "\<forall>p \<in> set (subscribers (hub w)). subscriber_ok w p"
    using assms(1) by (simp_all add: invariant_def)
  have len: "length m \<le> length (history (hub w))"
    using assms(2) card_mono [OF finite_set assms(3)] card_length [of "history (hub w)"] distinct_card [of m]
    by (simp add: map_well_def distinct_map)
  have "histories_ok ?w" using i(3) assms(2,3) len by (force simp: histories_ok_def history_ok_def entry_ok_def)
  moreover have "subscriber_ok ?w q = subscriber_ok w q" for q by (rule subscriber_ok_cong) simp_all
  ultimately show ?thesis using i by (simp add: invariant_def registrations_ok_def sequence_ok_def)
qed

lemma invariant_step: "step w w' \<Longrightarrow> invariant w \<Longrightarrow> invariant w'"
proof (induction rule: step.induct)
  case (publish_panics ev w)
  then show ?case using publishLocked_effect [of w ev] by (simp add: invariant_def)
next
  case (replay_panics w p ev evs)
  then have "\<not> closed (subs (hub w) p)" by (auto simp: invariant_def registrations_ok_def)
  then show ?case using replay_panics replayInto_effect [of "hub w" p "[ev]"] by simp
next
  case (forget w t)
  then have "map_well (history (hub w))" by (simp add: invariant_def histories_ok_def history_ok_def)
  then show ?case using forget invariant_history [of w "AList.delete t (history (hub w))"]
    by (auto simp: ForgetTopic_def go_map.well_delete AList.delete_eq)
next
  case (sweep w now)
  then have "map_well (history (hub w))" by (simp add: invariant_def histories_ok_def history_ok_def)
  then show ?case using sweep by (auto simp: Sweep_def intro!: invariant_history)
qed (auto intro: invariant_draw invariant_publish invariant_register invariant_replay invariant_close invariant_read)

lemma reachable_invariant: "reachable buf w \<Longrightarrow> invariant w"
  by (induction rule: reachable.induct) (auto intro: invariant_initial invariant_step)

lemma reachable_limits:
  "reachable buf w \<Longrightarrow> historyLimit (hub w) = 200 \<and> maxTopics (hub w) = 5000 \<and> buffer (hub w) = (if buf \<le> 0 then 64 else buf)"
proof (induction rule: reachable.induct)
  case start
  then show ?case by (simp add: initial_def NewHub_def)
next
  case (further w w')
  from further(2) further.IH show ?case
  proof (induction rule: step.induct)
    case (replay w p ev evs h)
    then show ?case by (auto split: option.splits)
  qed (auto simp: drawEvent_def publishLocked_def Let_def subscribeLocked_def Close_def receive_def
      ForgetTopic_def Sweep_def split: option.splits list.splits)
qed

section \<open>Runs that can be evaluated\<close>

datatype 'd action =
  ADraw string string 'd instant | APublish nat | ARegister int "string list" | AReplay nat
| AClose nat | ARead nat | AForget string | ASweep instant

fun perform :: "'d action \<Rightarrow> 'd world \<Rightarrow> 'd world option" where
  "perform (ADraw topic ty data now) w = (if topic = [] then None
     else let (ev, h) = drawEvent topic ty data now (hub w) in Some (w\<lparr>hub := h, drawn := ev # drawn w\<rparr>))"
| "perform (APublish i) w = (if i < length (drawn w) then
     (case publishLocked (drawn w ! i) (hub w) of None \<Rightarrow> Some (w\<lparr>panicked := True\<rparr>)
      | Some h \<Rightarrow> Some (w\<lparr>hub := h, drawn := remove1 (drawn w ! i) (drawn w), published := published w @ [drawn w ! i]\<rparr>))
     else None)"
| "perform (ARegister lastSeq ts) w = (let (p, replay, h) = subscribeLocked lastSeq ts (hub w) in
     Some (w\<lparr>hub := h, replaying := (replaying w)(p := replay), replayed := (replayed w)(p := replay),
      asked := (asked w)(p := (lastSeq, ts)), since := (since w)(p := length (published w)),
      received := (received w)(p := [])\<rparr>))"
| "perform (AReplay p) w = (case replaying w p of [] \<Rightarrow> None
     | ev # evs \<Rightarrow> (case replayInto [ev] p (hub w) of None \<Rightarrow> Some (w\<lparr>panicked := True\<rparr>)
        | Some h \<Rightarrow> Some (w\<lparr>hub := h, replaying := (replaying w)(p := evs)\<rparr>)))"
| "perform (AClose p) w = (if p < fresh (hub w) \<and> replaying w p = [] then Some (w\<lparr>hub := Close p (hub w)\<rparr>) else None)"
| "perform (ARead p) w = (case receive p (hub w) of None \<Rightarrow> None
     | Some (ev, h) \<Rightarrow> Some (w\<lparr>hub := h, received := (received w)(p := received w p @ [ev])\<rparr>))"
| "perform (AForget t) w = Some (w\<lparr>hub := ForgetTopic t (hub w)\<rparr>)"
| "perform (ASweep now) w = Some (w\<lparr>hub := snd (Sweep now (hub w))\<rparr>)"

fun run :: "'d action list \<Rightarrow> 'd world \<Rightarrow> 'd world option" where
  "run [] w = Some w"
| "run (a # as) w = (case perform a w of None \<Rightarrow> None | Some w' \<Rightarrow> run as w')"

lemma perform_step: "perform a w = Some w' \<Longrightarrow> step w w'"
  by (cases a) (auto split: if_splits option.splits list.splits prod.splits simp: Let_def simp del: replayInto.simps
    intro: step.intros publish_panics [OF nth_mem] publish [OF nth_mem])

lemma run_reachable: "run as w = Some w' \<Longrightarrow> reachable buf w \<Longrightarrow> reachable buf w'"
  by (induction as arbitrary: w) (auto split: option.splits dest: perform_step reachable.further)

text \<open>Two events, a client that reconnects after the first, and a third event while its replay is sent.\<close>

definition overtaking :: "nat action list" where
  "overtaking = [ADraw ''t'' ''log'' 1 0, APublish 0, ADraw ''t'' ''log'' 2 0, APublish 0, ARegister 1 [''t''],
     ADraw ''t'' ''log'' 3 0, APublish 0, AReplay 0]"

definition overtaken :: "nat world" where
  "overtaken = the (run overtaking (initial 4))"

lemma overtaken_run: "run overtaking (initial 4) \<noteq> None" by code_simp

lemma overtaken_reachable: "reachable 4 overtaken"
proof -
  have "run overtaking (initial 4) = Some overtaken" using overtaken_run by (auto simp: overtaken_def)
  then show ?thesis by (rule run_reachable) (rule reachable.start)
qed

lemma overtaken_registered: "0 \<in> set (subscribers (hub overtaken))" by code_simp

lemma overtaken_sent: "replaying overtaken 0 = []" by code_simp

text \<open>
  The replay is collected under the lock and sent after it is released: the live
  event overtakes it, and a client that is cut off after reading it will ask for
  what came after the live event, never for the replayed one.
\<close>

lemma replay_overtaken: "reachable 4 overtaken \<and> map Seq (ch (subs (hub overtaken) 0)) = [3, 2]"
proof -
  have "map Seq (ch (subs (hub overtaken) 0)) = [3, 2]" by code_simp
  then show ?thesis using overtaken_reachable by simp
qed

section \<open>Properties of the hub\<close>

text \<open>C14: In every interleaving of publishers, subscribers, readers and disconnects
  of the hub, no send meets a closed channel: neither the critical section of
  \<^verbatim>\<open>Publish\<close> nor a send of a replay panics.\<close>
theorem no_send_on_closed_channel:
  assumes "reachable buf w"
  shows "\<not> panicked w \<and> publishLocked ev (hub w) \<noteq> None
    \<and> (replaying w p \<noteq> [] \<longrightarrow> replayInto (replaying w p) p (hub w) \<noteq> None)"
proof -
  have "registrations_ok w" using reachable_invariant [OF assms] by (simp add: invariant_def)
  then show ?thesis using publishLocked_effect [of w ev] replayInto_effect [of "hub w" p]
    by (auto simp: registrations_ok_def)
qed

theorem no_send_on_closed_channel_witness:
  "\<not> panicked overtaken \<and> publishLocked \<lparr>Topic = ''t'', Type = ''log'', Seq = 9, Data = 9, At = 0\<rparr> (hub overtaken) \<noteq> None"
  using no_send_on_closed_channel [OF overtaken_reachable] by blast

text \<open>C38: For every registered client whose replay has been sent, what it has read
  and what waits in its channel is, in order, part of an interleaving of its
  replay with the events of its topics published since it registered, and
  \<^verbatim>\<open>Dropped\<close> counts exactly the rest.\<close>
theorem delivered_or_counted:
  assumes "reachable buf w" "p \<in> set (subscribers (hub w))" "replaying w p = []"
  shows "\<exists>offered \<in> shuffles (replayed w p) (live w p). subseq (received w p @ ch (subs (hub w) p)) offered
    \<and> Dropped p (hub w) = int (length offered) - int (length (received w p @ ch (subs (hub w) p)))"
proof -
  have "account (subs (hub w) p) (replayed w p) [] (live w p) (received w p)"
    using reachable_invariant [OF assms(1)] assms(2,3) by (auto simp: invariant_def subscriber_ok_def)
  then show ?thesis by (fastforce simp: account_def Dropped_def)
qed

theorem delivered_or_counted_witness:
  "\<exists>offered \<in> shuffles (replayed overtaken 0) (live overtaken 0).
     subseq (received overtaken 0 @ ch (subs (hub overtaken) 0)) offered
    \<and> Dropped 0 (hub overtaken) = int (length offered) - int (length (received overtaken 0 @ ch (subs (hub overtaken) 0)))"
proof -
  show ?thesis by (rule delivered_or_counted [OF overtaken_reachable overtaken_registered overtaken_sent])
qed



text \<open>Whatever happens, the hub never holds more than 5000 topics, 200 events of
  each, or a million events in all.\<close>
theorem history_bounded:
  assumes "reachable buf w"
  shows "TopicCount (hub w) \<le> 5000 \<and> (\<forall>(t, e) \<in> set (history (hub w)). length (events e) \<le> 200)
    \<and> sum_list (map (\<lambda>(t, e). length (events e)) (history (hub w))) \<le> 1000000"
proof -
  have ok: "history_ok (hub w)" and lim: "historyLimit (hub w) = 200" "maxTopics (hub w) = 5000"
    using reachable_invariant [OF assms] reachable_limits [OF assms] by (auto simp: invariant_def histories_ok_def)
  have each: "\<forall>(t, e) \<in> set (history (hub w)). length (events e) \<le> 200"
    using ok lim by (auto simp: history_ok_def)
  have "sum_list (map (\<lambda>(t, e). length (events e)) m) \<le> 200 * length m"
    if "\<forall>(t, e) \<in> set m. length (events e) \<le> 200" for m :: "(string \<times> 'a topicHistory) list"
    using that by (induction m) auto
  from this [OF each] have "sum_list (map (\<lambda>(t, e). length (events e)) (history (hub w))) \<le> 200 * length (history (hub w))" .
  also have "\<dots> \<le> 1000000" using ok lim by (simp add: history_ok_def)
  finally show ?thesis using each ok lim by (simp add: history_ok_def TopicCount_def)
qed

theorem history_bounded_witness:
  "TopicCount (hub overtaken) \<le> 5000
    \<and> sum_list (map (\<lambda>(t, e). length (events e)) (history (hub overtaken))) \<le> 1000000"
  using history_bounded [OF overtaken_reachable] by blast

text \<open>Recording an event in a full table of topics removes exactly one topic, one
  that no other has been silent for longer than, and starts the new topic's
  history with the event; in every other case the event is appended to its
  topic's history, of which the most recent events up to the limit are kept.\<close>
theorem recordEvent_spec:
  assumes "history_ok h" "Topic ev \<noteq> []"
  shows "if map_of (history h) (Topic ev) = None \<and> length (history h) = maxTopics h
    then \<exists>t e. (t, e) \<in> set (history h) \<and> (\<forall>(t', e') \<in> set (history h). lastAt e \<le> lastAt e')
      \<and> map_of (history (recordEvent ev h)) = (map_of (history h))(t := None,
          Topic ev \<mapsto> \<lparr>events = lastN (historyLimit h) [ev], lastAt = At ev\<rparr>)
    else map_of (history (recordEvent ev h)) = (map_of (history h))(Topic ev \<mapsto>
      \<lparr>events = lastN (historyLimit h) ((case map_of (history h) (Topic ev) of None \<Rightarrow> [] | Some e \<Rightarrow> events e) @ [ev]),
       lastAt = At ev\<rparr>)"
proof (cases "map_of (history h) (Topic ev) = None \<and> length (history h) = maxTopics h")
  case True
  have ne: "[] \<notin> fst ` set (history h)" "history h \<noteq> []" using assms(1) True by (auto simp: history_ok_def)
  obtain e where e: "(oldestTopic (history h) [] zero_time, e) \<in> set (history h)"
      "\<forall>(t', e') \<in> set (history h). lastAt e \<le> lastAt e'"
    using oldestTopic_min [OF ne] by blast
  have "oldestTopic (history h) [] zero_time \<noteq> []" using e(1) ne(1) by force
  then have "map_of (history (recordEvent ev h)) = (map_of (history h))(oldestTopic (history h) [] zero_time := None,
      Topic ev \<mapsto> \<lparr>events = lastN (historyLimit h) [ev], lastAt = At ev\<rparr>)"
    using True by (simp add: recordEvent_def Let_def evictOldestLocked_def update_conv' delete_conv')
  then show ?thesis using True e by auto
next
  case False
  then have "\<not> (map_of (history h) (Topic ev) = None \<and> maxTopics h \<le> length (history h))"
    using assms(1) by (auto simp: history_ok_def)
  then show ?thesis using False by (auto simp: recordEvent_def Let_def update_conv')
qed

definition full_hub :: "nat Hub" where
  "full_hub = (NewHub 1)\<lparr>maxTopics := 1, history := [(''a'', \<lparr>events = [], lastAt = 0\<rparr>)]\<rparr>"

theorem recordEvent_spec_witness:
  "map_of (history (recordEvent \<lparr>Topic = ''b'', Type = ''log'', Seq = 9, Data = 9, At = 5\<rparr> full_hub)) ''a'' = None"
proof -
  have "history_ok full_hub" by (simp add: history_ok_def full_hub_def NewHub_def map_well_def)
  then show ?thesis
    using recordEvent_spec [of full_hub "\<lparr>Topic = ''b'', Type = ''log'', Seq = 9, Data = 9, At = 5\<rparr>"]
    by (auto simp: full_hub_def NewHub_def split: if_splits)
qed

text \<open>\<^verbatim>\<open>Sweep\<close> keeps exactly the topics that were published to within the
  time to live, with their events untouched, and returns how many it dropped.\<close>
theorem Sweep_exact:
  assumes "map_well (history h)"
  shows "map_of (history (snd (Sweep now h))) t = (case map_of (history h) t of
      Some e \<Rightarrow> if now - lastAt e \<le> historyTTL h then Some e else None | None \<Rightarrow> None)
    \<and> fst (Sweep now h) + TopicCount (snd (Sweep now h)) = TopicCount h
    \<and> subs (snd (Sweep now h)) = subs h \<and> subscribers (snd (Sweep now h)) = subscribers h"
proof -
  have "length (filter P (history h)) + length (filter (\<lambda>x. \<not> P x) (history h)) = length (history h)" for P
    by (rule sum_length_filter_compl)
  from this [of "\<lambda>(t, e). expired (historyTTL h) now e"] show ?thesis using assms
    by (auto simp: Sweep_def map_filter_lookup TopicCount_def expired_def case_prod_unfold not_less split: option.splits)
qed

theorem Sweep_exact_witness: "fst (Sweep 0 full_hub) + TopicCount (snd (Sweep 0 full_hub)) = TopicCount full_hub"
proof -
  have "map_well (history full_hub)" by (simp add: full_hub_def map_well_def)
  from Sweep_exact [OF this] show ?thesis by blast
qed

text \<open>\<^verbatim>\<open>Subscribe\<close> always returns, and the channel it returns holds the
  retained events newer than the client's last one, topic by topic, up to the
  capacity of the channel; every one beyond it is counted as dropped before the
  caller can read the count for the first time.\<close>
theorem Subscribe_replays:
  assumes "0 \<le> buffer h"
  shows "\<exists>h'. Subscribe lastSeq ts h = Some (fresh h, h')
    \<and> ch (subs h' (fresh h)) = take (nat (buffer h)) (replayOf lastSeq ts h)
    \<and> Dropped (fresh h) h' = int (length (drop (nat (buffer h)) (replayOf lastSeq ts h)))
    \<and> subscribers h' = fresh h # subscribers h"
proof -
  obtain p rep h1 where l: "subscribeLocked lastSeq ts h = (p, rep, h1)" by (metis prod_cases3)
  have s: "subs h1 (fresh h) = newSubscriber (buffer h) ts" "rep = replayOf lastSeq ts h" "p = fresh h"
      "subscribers h1 = fresh h # subscribers h"
    using l by (auto simp: subscribeLocked_def)
  have "\<not> closed (subs h1 p)" by (simp add: s newSubscriber_def)
  then have "Subscribe lastSeq ts h = Some (p, h1\<lparr>subs := (subs h1)(p := fold offer rep (subs h1 p))\<rparr>)"
    using replayInto_effect [of h1 p rep] by (simp add: Subscribe_def l)
  then show ?thesis
    using channel.offers_take [of "newSubscriber (buffer h) ts" rep] assms s
    by (simp add: Dropped_def newSubscriber_def)
qed

theorem Subscribe_replays_witness:
  "\<exists>h'. Subscribe 1 [''t''] (hub overtaken) = Some (fresh (hub overtaken), h')
    \<and> ch (subs h' (fresh (hub overtaken))) = take (nat (buffer (hub overtaken))) (replayOf 1 [''t''] (hub overtaken))"
proof -
  have "0 \<le> buffer (hub overtaken)" by code_simp
  from Subscribe_replays [OF this] show ?thesis by blast
qed

text \<open>An encoded event is exactly one frame: three lines and the empty line that
  ends it, from which the number, the name and the payload can be read back,
  as long as the event name and the payload hold no line break.\<close>
theorem Encode_frame:
  assumes "marshal (Data e) = Some payload" "newline \<notin> set payload" "newline \<notin> set (Type e)" "0 \<le> Seq e"
  shows "\<exists>frame. Encode marshal e = Some frame
    \<and> split_on newline frame = [''id: '' @ itoa (Seq e), ''event: '' @ Type e, ''data: '' @ payload, [], []]"
proof -
  have nl: "newline \<notin> set (''id: '' @ itoa (Seq e))" "newline \<notin> set (''event: '' @ Type e)"
      "newline \<notin> set (''data: '' @ payload)"
    using assms(2,3) itoa_digits [OF assms(4), of newline] by (auto simp: newline_def is_digit_def digit_of_def)
  have f: "(''id: '' @ itoa (Seq e)) @ newline # (''event: '' @ Type e) @ newline # (''data: '' @ payload) @ newline # [newline]
      = ''id: '' @ itoa (Seq e) @ newline # ''event: '' @ Type e @ newline # ''data: '' @ payload @ [newline, newline]"
    by simp
  have "split_on newline ((''id: '' @ itoa (Seq e)) @ newline # (''event: '' @ Type e) @ newline # (''data: '' @ payload) @ newline # [newline])
      = [''id: '' @ itoa (Seq e), ''event: '' @ Type e, ''data: '' @ payload, [], []]"
    by (simp only: split_on_append_sep_general split_on_no_sep [OF nl(1)] split_on_no_sep [OF nl(2)]
        split_on_no_sep [OF nl(3)]) simp
  then show ?thesis unfolding f by (simp add: Encode_def assms(1))
qed

theorem Encode_frame_witness:
  "\<exists>frame. Encode (\<lambda>n :: nat. Some ''7'') \<lparr>Topic = ''t'', Type = ''log'', Seq = 9, Data = 9, At = 5\<rparr> = Some frame
    \<and> split_on newline frame = [''id: '' @ itoa 9, ''event: log'', ''data: 7'', [], []]"
  using Encode_frame [of "\<lambda>n :: nat. Some ''7''" "\<lparr>Topic = ''t'', Type = ''log'', Seq = 9, Data = 9, At = 5\<rparr>" "''7''"]
  by (simp add: newline_def)

end
