(* ===== verification/Teams_API.thy ===== *)
theory Teams_API
  imports Middleware Naming Hub
begin

text \<open>
  Who may do what, and the handlers of teams, members and invitations:
  \<^verbatim>\<open>authorizeTeam\<close> and its like from \<^verbatim>\<open>internal/api/api.go\<close>,
  \<^verbatim>\<open>teams_handlers.go\<close> (teams and members) and \<^verbatim>\<open>invitation_handlers.go\<close>.

  A handler gets the request with its context, the parameters of its path and the
  outcome of decoding its body, and returns the status and what it writes. The
  events it publishes are kept in the order of the calls. Every guard, early
  return and write of the handlers is here, in their order.

  Lemmas: a decision on access rests on a membership row and shows an outsider
  nothing; requests one after the other never leave a team without an owner; no
  request gives away a role above its sender's; an invitation admits one account,
  with the address and role it was made for, once.
\<close>

section \<open>Authorization\<close>

definition zeroUser :: User where
  "zeroUser = \<lparr>uID = [], Email = [], uName = [], PasswordHash = [], TOTPSecretEnc = [], TOTPEnabled = False, IsAdmin = False,
     Disabled = False, Locale = [], Theme = [], RecoverySaved = False, uCreatedAt = zero_time, UpdatedAt = zero_time,
     LastLoginAt = zero_time\<rparr>"

definition userOf :: "Request \<Rightarrow> User" where
  "userOf r = (case ctxUser r of None \<Rightarrow> zeroUser | Some u \<Rightarrow> u)"

definition tokenElsewhere :: "Request \<Rightarrow> string \<Rightarrow> bool" where
  "tokenElsewhere r team = (case ctxAPIToken r of None \<Rightarrow> False | Some t \<Rightarrow> TeamID t \<noteq> [] \<and> TeamID t \<noteq> team)"

definition authorizeTeam :: "Request \<Rightarrow> string \<Rightarrow> Role \<Rightarrow> User api_op" where
  "authorizeTeam r team required = (case ctxUser r of None \<Rightarrow> problem Unauthorized
     | Some user \<Rightarrow> if tokenElsewhere r team then problem (NotFound ''team'' team)
       else handle (GetMembership team (uID user)) (\<lambda>res. case res of
         Inl e \<Rightarrow> if e = ErrNotFound then problem (NotFound ''team'' team) else throw (Fail (Store e))
       | Inr m \<Rightarrow> if \<not> AtLeast (mRole m) required then problem (Forbidden ''this action'') else ret user))"

definition authorizeEnvironment :: "Request \<Rightarrow> string \<Rightarrow> Role \<Rightarrow> (Environment \<times> User) api_op" where
  "authorizeEnvironment r env required = handle (TeamIDForEnvironment env) (\<lambda>res. case res of
     Inl e \<Rightarrow> if e = ErrNotFound then problem (NotFound ''environment'' env) else throw (Fail (Store e))
   | Inr team \<Rightarrow> bind (authorizeTeam r team required) (\<lambda>user.
       handle (GetEnvironment env) (\<lambda>found. case found of Inl _ \<Rightarrow> problem (NotFound ''environment'' env)
       | Inr e \<Rightarrow> ret (e, user))))"

definition authorizeProject :: "Request \<Rightarrow> string \<Rightarrow> Role \<Rightarrow> (Project \<times> User) api_op" where
  "authorizeProject r project required = handle (GetProject project) (\<lambda>res. case res of
     Inl _ \<Rightarrow> problem (NotFound ''project'' project)
   | Inr p \<Rightarrow> bind (authorizeTeam r (pTeamID p) required) (\<lambda>user. ret (p, user)))"

definition publish :: "string \<Rightarrow> string \<Rightarrow> AuditEvent \<Rightarrow> unit api_op" where
  "publish topic kind e s = (Inr (), s\<lparr>sentEvents := sentEvents s @ [(topic, kind, e)]\<rparr>)"

definition audit :: "Request \<Rightarrow> string \<Rightarrow> string \<Rightarrow> string \<Rightarrow> string \<Rightarrow> string \<Rightarrow> unit api_op" where
  "audit r team action targetType target label = bind (RecordAudit \<lparr>auID = [], auTeamID = team, ActorID = uID (userOf r),
       ActorLabel = Email (userOf r), Action = action, TargetType = targetType, TargetID = target, TargetLabel = label,
       auIP = ctxClientIP r, auUserAgent = truncateTo (Header r ''User-Agent'') 255, Metadata = [], auAt = zero_time\<rparr>) (\<lambda>(e, _).
     if team \<noteq> [] then publish (TeamTopic team) ''audit'' e else ret ())"

section \<open>Teams\<close>

definition handleListTeams :: "(int \<times> Team list) handler" where
  "handleListTeams r = bind (db (ListTeamsForUser (uID (userOf r)))) (\<lambda>ts. ret (200, ts))"

definition handleCreateTeam :: "Server \<Rightarrow> string decoded \<Rightarrow> (int \<times> Team) handler" where
  "handleCreateTeam srv body r = bind (decodeJSON srv (Header r ''Content-Type'') body) (\<lambda>reqName.
     let nm = trim_space reqName in
     if nm = [] then problem (BadRequest ''A team needs a name.'')
     else bind (db (CreateTeam \<lparr>teamID = [], teamName = nm, teamSlug = Slugify (sha256 (srvAuth srv)) nm,
         teamCreatedAt = zero_time, teamRole = None\<rparr>)) (\<lambda>team.
       bind (db (AddMember (teamID team) (uID (userOf r)) RoleOwner)) (\<lambda>_.
       bind (audit r (teamID team) ''team.created'' ''team'' (teamID team) (teamName team)) (\<lambda>_.
       ret (201, team\<lparr>teamRole := Some RoleOwner\<rparr>)))))"

definition handleGetTeam :: "string \<Rightarrow> (int \<times> Team) handler" where
  "handleGetTeam i r = bind (authorizeTeam r i RoleMember) (\<lambda>user. bind (db (GetTeam i)) (\<lambda>team.
     handle (GetMembership i (uID user)) (\<lambda>res. case res of
       Inl _ \<Rightarrow> ret (200, team) | Inr m \<Rightarrow> ret (200, team\<lparr>teamRole := Some (mRole m)\<rparr>))))"

definition handleUpdateTeam :: "Server \<Rightarrow> string \<Rightarrow> string decoded \<Rightarrow> (int \<times> Team) handler" where
  "handleUpdateTeam srv i body r = bind (authorizeTeam r i RoleAdmin) (\<lambda>_.
     bind (decodeJSON srv (Header r ''Content-Type'') body) (\<lambda>reqName.
     bind (db (GetTeam i)) (\<lambda>old.
       let team = (if trim_space reqName \<noteq> [] then old\<lparr>teamName := trim_space reqName\<rparr> else old) in
     bind (db (UpdateTeam team)) (\<lambda>_.
     bind (audit r i ''team.updated'' ''team'' i (teamName team)) (\<lambda>_. ret (200, team))))))"

section \<open>Members\<close>

definition handleListMembers :: "string \<Rightarrow> (int \<times> (User \<times> Role) list) handler" where
  "handleListMembers i r = bind (authorizeTeam r i RoleMember) (\<lambda>_. bind (db (ListMembers i)) (\<lambda>ms. ret (200, ms)))"

definition noSuchUser :: "string \<Rightarrow> Problem" where
  "noSuchUser email = WithStatus 404 (WithFix ''Ask them to create an account first, then add them. Skifity does not send invitations to addresses that have never signed in.'' []
     (WithImpact ''Nobody was added to the team.'' [] (WithCause ''Nobody on this panel uses the address %s.'' [Str email]
       (New ''team.no_such_user'' ''No account with that email''))))"

definition lastOwner :: "string \<Rightarrow> fmt_arg list \<Rightarrow> string \<Rightarrow> Problem" where
  "lastOwner cause args fix' = WithStatus 409 (WithFix fix' [] (WithImpact ''Nothing was changed.'' [] (WithCause cause args
       (New ''team.last_owner'' ''A team needs at least one owner''))))"

text \<open>The two guards against a team with no owner, up to the write.\<close>

definition demotionGuard :: "string \<Rightarrow> User \<Rightarrow> Role \<Rightarrow> unit api_op" where
  "demotionGuard i target role = handle (GetMembership i (uID target)) (\<lambda>res. case res of
     Inl e \<Rightarrow> if e = ErrNotFound then ret () else throw (Fail (Store e))
   | Inr existing \<Rightarrow> if mRole existing = RoleOwner \<and> role \<noteq> RoleOwner
       then bind (db (CountOwners i)) (\<lambda>count. if count \<le> 1
         then problem (lastOwner ''%s is the only owner of this team.'' [Str (Email target)] ''Make someone else an owner first, then change this role.'')
         else ret ())
       else ret ())"

definition handleAddMember :: "Server \<Rightarrow> string \<Rightarrow> (string \<times> Role) decoded \<Rightarrow> (int \<times> unit) handler" where
  "handleAddMember srv i body r = bind (authorizeTeam r i RoleAdmin) (\<lambda>actor.
     bind (decodeJSON srv (Header r ''Content-Type'') body) (\<lambda>(email, role).
     if \<not> validRole role then problem (BadRequest ''Role must be owner, admin or member.'')
     else bind (db (GetMembership i (uID actor))) (\<lambda>actorMembership.
     if \<not> AtLeast (mRole actorMembership) role then problem (Forbidden ''granting a role higher than your own'')
     else handle (onAuth (GetUserByEmail email)) (\<lambda>res. case res of Inl _ \<Rightarrow> problem (noSuchUser email)
     | Inr target \<Rightarrow> bind (demotionGuard i target role) (\<lambda>_.
       bind (db (AddMember i (uID target) role)) (\<lambda>_.
       bind (audit r i ''team.member_added'' ''user'' (uID target) (Email target)) (\<lambda>_. ret (200, ()))))))))"

definition removalGuard :: "string \<Rightarrow> User \<Rightarrow> Membership \<Rightarrow> unit api_op" where
  "removalGuard i actor membership = (if mRole membership \<noteq> RoleOwner then ret ()
     else bind (db (CountOwners i)) (\<lambda>count. if count \<le> 1
       then problem (lastOwner ''This is the only owner of the team.'' [] ''Make someone else an owner first, then remove this one.'')
       else handle (GetMembership i (uID actor)) (\<lambda>res. case res of
         Inl _ \<Rightarrow> problem (Forbidden ''removing an owner'')
       | Inr m \<Rightarrow> if mRole m \<noteq> RoleOwner then problem (Forbidden ''removing an owner'') else ret ())))"

definition handleRemoveMember :: "string \<Rightarrow> string \<Rightarrow> (int \<times> unit) handler" where
  "handleRemoveMember i user r = bind (authorizeTeam r i RoleAdmin) (\<lambda>actor.
     handle (GetMembership i user) (\<lambda>res. case res of Inl _ \<Rightarrow> problem (NotFound ''team member'' user)
     | Inr membership \<Rightarrow> bind (removalGuard i actor membership) (\<lambda>_.
       bind (db (RemoveMember i user)) (\<lambda>_.
       bind (audit r i ''team.member_removed'' ''user'' user []) (\<lambda>_. ret (200, ()))))))"

definition handleListAudit :: "string \<Rightarrow> string \<Rightarrow> string \<Rightarrow> int \<Rightarrow> (int \<times> AuditEvent list) handler" where
  "handleListAudit i action target limit r = bind (authorizeTeam r i RoleAdmin) (\<lambda>_.
     bind (db (ListAudit i action target limit)) (\<lambda>es. ret (200, es)))"

section \<open>Invitations\<close>

definition invitationTTL :: duration where "invitationTTL = 7 * 24 * hour"

definition parseRole :: "string \<Rightarrow> Role" where
  "parseRole t = (if t = ''owner'' then RoleOwner else if t = ''admin'' then RoleAdmin else if t = ''member'' then RoleMember else OtherRole t)"

definition validEmail :: "string \<Rightarrow> bool" where
  "validEmail email = (if length email < 3 \<or> length email > 254 then False
     else case cut_last (CHR ''@'') email of (local, domain, f) \<Rightarrow>
       if \<not> f \<or> local = [] \<or> domain = [] then False
       else if (\<exists>c \<in> set (local @ domain). is_column_blank c) then False
       else CHR ''.'' \<in> set domain \<and> hd domain \<noteq> CHR ''.'' \<and> last domain \<noteq> CHR ''.'')"

definition alreadyMember :: "string \<Rightarrow> Problem" where
  "alreadyMember email = WithStatus 409 (WithFix ''Change their role under Members instead.'' []
     (WithImpact ''No invitation was created.'' [] (WithCause ''%s is already a member.'' [Str email]
       (New ''team.already_a_member'' ''They are already in this team''))))"

definition accountExists :: "string \<Rightarrow> Problem" where
  "accountExists email = WithStatus 409 (WithFix ''Add them to the team under Members, by the same address.'' []
     (WithImpact ''No invitation was created.'' [] (WithCause ''%s has signed in to this panel before, so there is nothing to sign up for.'' [Str email]
       (New ''team.account_exists'' ''They already have an account here''))))"

definition KeyPanelURL :: string where "KeyPanelURL = ''general.panel_url''"

definition invitationURL :: "Server \<Rightarrow> string \<Rightarrow> string api_op" where
  "invitationURL srv token = handle (GetSetting KeyPanelURL) (\<lambda>res.
     let base = (case res of Inl _ \<Rightarrow> PublicURL srv | Inr (v, _) \<Rightarrow> if trim_space v = [] then PublicURL srv else v) in
     ret (trim_suffix ''/'' (trim_space base) @ ''/invite/'' @ token))"

definition sendInvitation :: "Server \<Rightarrow> Request \<Rightarrow> string \<Rightarrow> string \<Rightarrow> string \<Rightarrow> Role \<Rightarrow> (int \<times> Invitation \<times> string) api_op" where
  "sendInvitation srv r i actor email role = bind (auth freshToken) (\<lambda>token. bind timeNow (\<lambda>now.
     bind (db (CreateInvitation \<lparr>iID = [], iTeamID = i, iEmail = email, iRole = role, InvitedBy = actor,
         iExpiresAt = now + invitationTTL, AcceptedAt = zero_time, iCreatedAt = zero_time\<rparr>
         (HashToken (sha256 (srvAuth srv)) token))) (\<lambda>invitation.
     bind (audit r i ''team.invited'' ''user'' (iID invitation) email) (\<lambda>_.
     bind (invitationURL srv token) (\<lambda>url. ret (201, invitation, url))))))"

definition handleInvite :: "Server \<Rightarrow> string \<Rightarrow> (string \<times> string) decoded \<Rightarrow> (int \<times> Invitation \<times> string) handler" where
  "handleInvite srv i body r = bind (authorizeTeam r i RoleAdmin) (\<lambda>actor.
     bind (decodeJSON srv (Header r ''Content-Type'') body) (\<lambda>(reqEmail, reqRole).
     let email = to_lower (trim_space reqEmail) in
     if \<not> validEmail email then problem (BadRequest ''That is not an email address.'')
     else let role = (if trim_space reqRole = [] then RoleMember else parseRole (trim_space reqRole)) in
     if \<not> validRole role then problem (BadRequest ''Role must be owner, admin or member.'')
     else bind (db (GetMembership i (uID actor))) (\<lambda>membership.
     if \<not> AtLeast (mRole membership) role then problem (Forbidden ''inviting somebody to a role higher than your own'')
     else handle (onAuth (GetUserByEmail email)) (\<lambda>res. case res of
       Inr existing \<Rightarrow> handle (GetMembership i (uID existing)) (\<lambda>m. case m of
           Inr _ \<Rightarrow> problem (alreadyMember email) | Inl _ \<Rightarrow> problem (accountExists email))
     | Inl _ \<Rightarrow> sendInvitation srv r i (uID actor) email role))))"

definition handleListInvitations :: "string \<Rightarrow> (int \<times> Invitation list) handler" where
  "handleListInvitations i r = bind (authorizeTeam r i RoleAdmin) (\<lambda>_. bind (db (ListInvitations i)) (\<lambda>is'. ret (200, is')))"

definition handleRevokeInvitation :: "string \<Rightarrow> string \<Rightarrow> (int \<times> unit) handler" where
  "handleRevokeInvitation i invite r = bind (authorizeTeam r i RoleAdmin) (\<lambda>_. bind (db (DeleteInvitation i invite)) (\<lambda>_.
     bind (audit r i ''team.invitation_revoked'' ''user'' invite []) (\<lambda>_. ret (200, ()))))"

section \<open>Using an invitation\<close>

definition refused :: Problem where
  "refused = WithStatus 404 (WithFix ''Ask whoever invited you for a new link.'' []
     (WithImpact ''No account was created.'' [] (WithCause ''The link has expired, has been used already, or was withdrawn.'' []
       (New ''invite.not_valid'' ''This invitation cannot be used''))))"

definition invitationFrom :: "Server \<Rightarrow> string \<Rightarrow> Invitation api_op" where
  "invitationFrom srv urlToken = (let token = trim_space urlToken in
     if length token < 20 then problem refused
     else handle (InvitationByTokenHash (HashToken (sha256 (srvAuth srv)) token)) (\<lambda>res. case res of
       Inl e \<Rightarrow> if e = ErrNotFound then problem refused else throw (Fail (Store e))
     | Inr invite \<Rightarrow> bind (Expired invite) (\<lambda>late. if late \<or> \<not> is_zero_time (AcceptedAt invite) then problem refused else ret invite)))"

definition handleLookupInvitation :: "Server \<Rightarrow> string \<Rightarrow> (int \<times> string \<times> string \<times> Role) handler" where
  "handleLookupInvitation srv urlToken r = bind (invitationFrom srv urlToken) (\<lambda>invite.
     bind (db (GetTeam (iTeamID invite))) (\<lambda>team. ret (200, iEmail invite, teamName team, iRole invite)))"

definition inviteAccountExists :: "string \<Rightarrow> Problem" where
  "inviteAccountExists email = WithStatus 409 (WithFix ''Sign in instead, and ask to be added to the team.'' []
     (WithImpact ''No account was created.'' [] (WithCause ''Somebody signed up with %s since this invitation was sent.'' [Str email]
       (New ''invite.account_exists'' ''That address already has an account''))))"

definition joinWith :: "Server \<Rightarrow> Request \<Rightarrow> Invitation \<Rightarrow> string \<Rightarrow> string \<Rightarrow> (int \<times> User \<times> LoginResult \<times> Cookie list) api_op" where
  "joinWith srv r invite nm password = bind random (\<lambda>salt.
     bind (auth (wrap Store (CreateUser (zeroUser\<lparr>Email := iEmail invite, uName := nm,
         PasswordHash := HashPassword (argon (srvAuth srv)) (cpus (srvAuth srv)) salt password\<rparr>)))) (\<lambda>user.
     bind (db (AcceptInvitation (iID invite) (iTeamID invite) (uID user) (iRole invite))) (\<lambda>_.
     bind (auth (IssueSession (srvAuth srv) user (ctxClientIP r) (Header r ''User-Agent''))) (\<lambda>result.
     bind (audit (r\<lparr>ctxUser := Some user\<rparr>) (iTeamID invite) ''team.invitation_accepted'' ''user'' (uID user) (Email user)) (\<lambda>_.
     ret (200, user, result, [SessionCookie (srvAuth srv) (Token result) (lExpiresAt result),
       CSRFCookie (srvAuth srv) (CSRFToken result) (lExpiresAt result)]))))))"

definition handleAcceptInvitation :: "Server \<Rightarrow> string \<Rightarrow> (string \<times> string) decoded \<Rightarrow> (int \<times> User \<times> LoginResult \<times> Cookie list) handler" where
  "handleAcceptInvitation srv urlToken body r = bind (invitationFrom srv urlToken) (\<lambda>invite.
     bind (decodeJSON srv (Header r ''Content-Type'') body) (\<lambda>(reqName, password).
     let nm = trim_space reqName in
     if nm = [] then problem (BadRequest ''Please give a name.'')
     else case Check DefaultPasswordPolicy password of Some e \<Rightarrow> problem (BadRequest (errorText srv (BadPassword e)))
     | None \<Rightarrow> handle (onAuth (GetUserByEmail (iEmail invite))) (\<lambda>res. case res of
         Inr _ \<Rightarrow> problem (inviteAccountExists (iEmail invite))
       | Inl _ \<Rightarrow> joinWith srv r invite nm password)))"


section \<open>Reasoning over the reads of a request\<close>

text \<open>
  \<^verbatim>\<open>runs s0 m Q\<close>: whatever the clock and the faults, from the tables of \<^verbatim>\<open>s0\<close> the
  operation ends in \<^verbatim>\<open>Q\<close>. A handler reads first and writes last, so until its
  write every answer it has is one about the same tables.
\<close>

definition runs :: "team_db \<Rightarrow> (team_db, 'e, 'a) op \<Rightarrow> ('e + 'a \<Rightarrow> team_db \<Rightarrow> bool) \<Rightarrow> bool" where
  "runs s0 m Q \<longleftrightarrow> (\<forall>s. team_tables s = team_tables s0 \<longrightarrow> (case m s of (r, s1) \<Rightarrow> Q r s1))"

definition reading :: "team_db \<Rightarrow> ('e + 'a \<Rightarrow> bool) \<Rightarrow> 'e + 'a \<Rightarrow> team_db \<Rightarrow> bool" where
  "reading s0 F r s1 \<longleftrightarrow> team_tables s1 = team_tables s0 \<and> F r"

lemma runsD: "runs s m Q \<Longrightarrow> m s = (r, s1) \<Longrightarrow> Q r s1"
  by (auto simp: runs_def)

lemma runs_ret: "(\<And>s. team_tables s = team_tables s0 \<Longrightarrow> Q (Inr x) s) \<Longrightarrow> runs s0 (ret x) Q"
  by (simp add: runs_def ret_def)

lemma runs_throw: "(\<And>s. team_tables s = team_tables s0 \<Longrightarrow> Q (Inl e) s) \<Longrightarrow> runs s0 (throw e) Q"
  by (simp add: runs_def throw_def)

lemma runs_problem: "(\<And>s. team_tables s = team_tables s0 \<Longrightarrow> Q (Inl (Prob p)) s) \<Longrightarrow> runs s0 (problem p) Q"
  by (simp add: problem_def runs_throw)

lemma runs_weaken: "runs s0 m P \<Longrightarrow> (\<And>r s. P r s \<Longrightarrow> Q r s) \<Longrightarrow> runs s0 m Q"
  by (fastforce simp: runs_def)

lemma runs_handle: "runs s0 m (reading s0 F) \<Longrightarrow> (\<And>r. F r \<Longrightarrow> runs s0 (k r) Q) \<Longrightarrow> runs s0 (handle m k) Q"
  by (fastforce simp: runs_def reading_def handle_def)

lemma runs_bind:
  assumes "runs s0 m (reading s0 F)" "\<And>e s. F (Inl e) \<Longrightarrow> team_tables s = team_tables s0 \<Longrightarrow> Q (Inl e) s"
    "\<And>x. F (Inr x) \<Longrightarrow> runs s0 (k x) Q"
  shows "runs s0 (bind m k) Q"
  unfolding handle_bind
  by (rule runs_handle [OF assms(1)]) (auto split: sum.splits intro: runs_throw assms(2,3))

lemma runs_wrap: "runs s0 m (reading s0 (\<lambda>r. F (map_sum f id r))) \<Longrightarrow> runs s0 (wrap f m) (reading s0 F)"
  unfolding handle_wrap
  by (erule runs_handle) (auto simp: reading_def split: sum.splits intro!: runs_throw runs_ret)

lemma runs_db: "runs s0 m (reading s0 (\<lambda>r. F (map_sum (\<lambda>e. Fail (Store e)) id r))) \<Longrightarrow> runs s0 (db m) (reading s0 F)"
  unfolding db_def by (rule runs_wrap)

lemma runs_query:
  assumes "\<And>s. team_tables s = team_tables s0 \<Longrightarrow> F (f s)" "F (Inl ErrDB)"
  shows "runs s0 (query f) (reading s0 F)"
  unfolding runs_def reading_def
proof (intro allI impI)
  fix s :: team_db
  assume s: "team_tables s = team_tables s0"
  obtain r s1 where run: "query f s = (r, s1)" by force
  then show "case query f s of (r, s1) \<Rightarrow> team_tables s1 = team_tables s0 \<and> F r"
    using team_query [OF run] s assms by auto
qed

lemma runs_timeNow: "(\<And>x. F (Inr x)) \<Longrightarrow> runs s0 timeNow (reading s0 F)"
  by (simp add: runs_def reading_def timeNow_def)

section \<open>Access\<close>

lemma runs_GetMembership:
  "runs s0 (GetMembership team user) (reading s0 (\<lambda>r. r = Inl ErrDB \<or> r = found (find (of_pair team user) (memberships s0))))"
  unfolding GetMembership_def by (rule runs_query) (auto simp: team_tables_eq)

lemma runs_CountOwners:
  "runs s0 (CountOwners team) (reading s0 (\<lambda>r. r = Inl ErrDB
     \<or> r = Inr (affected (\<lambda>m. mTeamID m = team \<and> mRole m = RoleOwner) (memberships s0))))"
  unfolding CountOwners_def by (rule runs_query) (auto simp: team_tables_eq)

text \<open>What the access check is meant to decide, from the request and the memberships alone.\<close>

definition role_in :: "string \<Rightarrow> string \<Rightarrow> team_db \<Rightarrow> Role option" where
  "role_in team user s = map_option mRole (find (of_pair team user) (memberships s))"

definition decision_on :: "Request \<Rightarrow> string \<Rightarrow> Role \<Rightarrow> team_db \<Rightarrow> api_err + User" where
  "decision_on r team required s = (case ctxUser r of None \<Rightarrow> Inl (Prob Unauthorized)
     | Some u \<Rightarrow> (case (if tokenElsewhere r team then None else role_in team (uID u) s) of
         None \<Rightarrow> Inl (Prob (NotFound ''team'' team))
       | Some role \<Rightarrow> if AtLeast role required then Inr u else Inl (Prob (Forbidden ''this action''))))"

lemma runs_authorizeTeam:
  "runs s0 (authorizeTeam r team required)
     (reading s0 (\<lambda>res. res = Inl (Fail (Store ErrDB)) \<or> res = decision_on r team required s0))"
proof (cases "ctxUser r")
  case None
  then show ?thesis by (simp add: authorizeTeam_def decision_on_def) (rule runs_problem, simp add: reading_def)
next
  case (Some u)
  show ?thesis
  proof (cases "tokenElsewhere r team")
    case True
    then show ?thesis using Some by (simp add: authorizeTeam_def decision_on_def) (rule runs_problem, simp add: reading_def)
  next
    case False
    show ?thesis unfolding authorizeTeam_def
      using Some False
      by (simp, intro runs_handle [OF runs_GetMembership])
        (auto simp: decision_on_def role_in_def found_def reading_def split: sum.splits option.splits intro!: runs_problem runs_throw runs_ret)
  qed
qed


lemma GetMembership_fst:
  "fst (GetMembership team user s) = (case faults (tick s) of True # _ \<Rightarrow> Inl ErrDB
     | _ \<Rightarrow> found (find (of_pair team user) (memberships s)))"
proof -
  have "memberships (tick s) = memberships s" using team_tick [of s] unfolding team_tables_eq by blast
  then show ?thesis by (simp add: GetMembership_def query_def stmt_def Let_def split: list.splits bool.splits)
qed

lemma handle_fst: "fst (handle m k s) = fst (k (fst (m s)) (snd (m s)))"
  by (simp add: handle_def split: prod.splits)

lemma authorizeTeam_fst:
  "fst (authorizeTeam r team required s) =
     (case ctxUser r of None \<Rightarrow> Inl (Prob Unauthorized)
      | Some u \<Rightarrow> if \<not> tokenElsewhere r team \<and> (\<exists>fs. faults (tick s) = True # fs) then Inl (Fail (Store ErrDB))
          else decision_on r team required s)"
  by (auto simp: authorizeTeam_def handle_fst GetMembership_fst decision_on_def role_in_def found_def problem_def throw_def ret_def
      split: option.splits list.splits bool.splits if_splits)

text \<open>C37: A caller who is no member of a team, or whose token is for another one, gets the
  same answer whatever the panel holds: from two panels that differ in everything
  but the time, the faults to come and his own lack of a membership, whether the
  team exists or not, the access check answers alike, and always with a refusal.\<close>
theorem outsider_learns_nothing:
  assumes "ctxUser r = Some u" "tokenElsewhere r team \<or> role_in team (uID u) s = None \<and> role_in team (uID u) s' = None"
    "pauses s' = pauses s" "faults s' = faults s"
  shows "fst (authorizeTeam r team required s) = fst (authorizeTeam r team required s')
    \<and> fst (authorizeTeam r team required s) \<in> {Inl (Prob (NotFound ''team'' team)), Inl (Fail (Store ErrDB))}"
proof -
  have f: "faults (tick s') = faults (tick s)" using assms(3,4) by (simp add: tick_def split: list.splits)
  then show ?thesis using assms(1,2) unfolding authorizeTeam_fst decision_on_def by auto
qed

text \<open>C10: The access check lets a caller through exactly when the request carries a user, its
  token, if any, is not bound to another team, and the store holds a membership of
  that user in the team with at least the required role; it writes nothing.\<close>
theorem access_exact:
  assumes "members_ok s" "faults s = []"
  shows "(\<exists>s1. authorizeTeam r team required s = (Inr u, s1) \<and> team_tables s1 = team_tables s)
    \<longleftrightarrow> ctxUser r = Some u \<and> \<not> tokenElsewhere r team
      \<and> (\<exists>m \<in> set (memberships s). mTeamID m = team \<and> mUserID m = uID u \<and> AtLeast (mRole m) required)"
proof -
  have f: "faults (tick s) = []" using assms(2) by (simp add: tick_def split: list.splits)
  have uniq: "m = m'" if "m \<in> set (memberships s)" "m' \<in> set (memberships s)" "of_pair t v m" "of_pair t v m'" for m m' t v
    using that assms(1) unfolding members_ok_def distinct_map inj_on_def of_pair_def by auto
  have role: "(\<exists>role. role_in team v s = Some role \<and> AtLeast role required)
      \<longleftrightarrow> (\<exists>m \<in> set (memberships s). mTeamID m = team \<and> mUserID m = v \<and> AtLeast (mRole m) required)" for v
  proof
    assume "\<exists>m \<in> set (memberships s). mTeamID m = team \<and> mUserID m = v \<and> AtLeast (mRole m) required"
    then obtain m where m: "m \<in> set (memberships s)" "of_pair team v m" "AtLeast (mRole m) required" by (auto simp: of_pair_def)
    then obtain m' where m': "find (of_pair team v) (memberships s) = Some m'" by (metis find_None_iff option.exhaust)
    then have "m' = m" using uniq m find_Some [OF m'] by blast
    then show "\<exists>role. role_in team v s = Some role \<and> AtLeast role required" using m' m by (simp add: role_in_def)
  qed (auto simp: role_in_def of_pair_def dest!: find_Some)
  have "(\<exists>s1. authorizeTeam r team required s = (Inr u, s1) \<and> team_tables s1 = team_tables s)
      \<longleftrightarrow> fst (authorizeTeam r team required s) = Inr u"
    using runsD [OF runs_authorizeTeam [of s r team required]] unfolding reading_def by (metis fst_conv prod.collapse)
  also have "\<dots> \<longleftrightarrow> ctxUser r = Some u \<and> \<not> tokenElsewhere r team \<and> (\<exists>role. role_in team (uID u) s = Some role \<and> AtLeast role required)"
    unfolding authorizeTeam_fst f decision_on_def by (auto split: option.splits if_splits)
  finally show ?thesis unfolding role .
qed


section \<open>A team keeps an owner\<close>

definition owned :: "string \<Rightarrow> team_db \<Rightarrow> bool" where
  "owned t s \<longleftrightarrow> (\<exists>m \<in> set (memberships s). mTeamID m = t \<and> mRole m = RoleOwner)"

definition kept :: "string \<Rightarrow> team_db \<Rightarrow> bool" where
  "kept t s \<longleftrightarrow> members_ok s \<and> owned t s"

interpretation kept_inv: env_free "kept t"
  by unfold_locales (simp_all add: kept_def owned_def members_inv.P_clock members_inv.P_pauses members_inv.P_faults members_inv.P_entropy)

lemma kept_same: "team_tables s = team_tables s0 \<Longrightarrow> kept t s0 \<Longrightarrow> kept t s"
  by (simp add: kept_def owned_def team_tables_eq members_ok_def team_exists_def member_exists_def)

definition owners :: "string \<Rightarrow> team_db \<Rightarrow> nat" where
  "owners t s = affected (\<lambda>m. mTeamID m = t \<and> mRole m = RoleOwner) (memberships s)"

lemma same_pair: "\<lbrakk>members_ok s; m \<in> set (memberships s); m' \<in> set (memberships s); of_pair t u m; of_pair t u m'\<rbrakk> \<Longrightarrow> m = m'"
  unfolding members_ok_def distinct_map inj_on_def of_pair_def by auto

lemma role_in_member: "\<lbrakk>members_ok s; m \<in> set (memberships s); of_pair t u m\<rbrakk> \<Longrightarrow> role_in t u s = Some (mRole m)"
proof -
  assume a: "members_ok s" "m \<in> set (memberships s)" "of_pair t u m"
  then obtain m' where "find (of_pair t u) (memberships s) = Some m'" by (metis find_None_iff option.exhaust)
  then show ?thesis using find_Some [of "of_pair t u" "memberships s" m'] same_pair [OF a(1)] a by (auto simp: role_in_def)
qed

text \<open>Of two owners one is somebody else.\<close>

lemma distinct_singleton: "distinct xs \<Longrightarrow> set xs \<subseteq> {x} \<Longrightarrow> length xs \<le> 1"
  using card_mono [of "{x}" "set xs"] by (simp add: distinct_card)

lemma another_owner:
  assumes "members_ok s" "1 < owners t s"
  shows "\<exists>m \<in> set (memberships s). mTeamID m = t \<and> mRole m = RoleOwner \<and> \<not> of_pair t u m"
proof (rule ccontr)
  let ?f = "filter (\<lambda>m. mTeamID m = t \<and> mRole m = RoleOwner) (memberships s)"
  assume "\<not> ?thesis"
  then have "set (map (\<lambda>m. (mTeamID m, mUserID m)) ?f) \<subseteq> {(t, u)}" by (auto simp: of_pair_def)
  moreover have "distinct (map (\<lambda>m. (mTeamID m, mUserID m)) ?f)"
    using assms(1) by (simp add: members_ok_def distinct_map_filter)
  ultimately have "length (map (\<lambda>m. (mTeamID m, mUserID m)) ?f) \<le> 1" by (rule distinct_singleton [rotated])
  then show False using assms(2) by (simp add: owners_def affected_def)
qed

definition safe_change :: "string \<Rightarrow> string \<Rightarrow> team_db \<Rightarrow> bool" where
  "safe_change t u s \<longleftrightarrow> role_in t u s \<noteq> Some RoleOwner \<or> 1 < owners t s"

text \<open>Whatever happens to one membership, an owner stays if that was none or there was another.\<close>

lemma owner_stays:
  assumes "kept t s" "safe_change i u s"
    "filter (\<lambda>m. \<not> of_pair i u m) (memberships s1) = filter (\<lambda>m. \<not> of_pair i u m) (memberships s)"
  shows "owned t s1"
proof -
  have ok: "members_ok s" using assms(1) by (simp add: kept_def)
  obtain m where m: "m \<in> set (memberships s)" "mTeamID m = t" "mRole m = RoleOwner" using assms(1) by (auto simp: kept_def owned_def)
  have "\<exists>m \<in> set (memberships s). mTeamID m = t \<and> mRole m = RoleOwner \<and> \<not> of_pair i u m"
  proof (cases "of_pair i u m")
    case True
    then have "role_in i u s = Some RoleOwner" using role_in_member [OF ok m(1)] m by simp
    then have "1 < owners i s" using assms(2) by (simp add: safe_change_def)
    then show ?thesis using another_owner [OF ok, of i u] True m by (auto simp: of_pair_def)
  qed (use m in blast)
  then have "\<exists>m \<in> set (filter (\<lambda>m. \<not> of_pair i u m) (memberships s1)). mTeamID m = t \<and> mRole m = RoleOwner"
    unfolding assms(3) by auto
  then show ?thesis by (auto simp: owned_def)
qed

lemma upsert_kept:
  assumes "kept t s" "role = RoleOwner \<or> safe_change i u s" "upsertMember i u role now s = (r, s1)"
  shows "kept t s1"
proof (cases r)
  case (Inl e)
  then have "s1 = s" using assms(3) by (auto simp: upsertMember_def split: if_splits)
  then show ?thesis using assms(1) by simp
next
  case (Inr x)
  then have up: "upsertMember i u role now s = (Inr (), s1)" using assms(3) by simp
  have ok: "members_ok s1" using keepsD [OF keeps_upsertMember _ up] assms(1) by (simp add: kept_def)
  show ?thesis
  proof (cases "safe_change i u s")
    case True
    then show ?thesis using ok owner_stays [OF assms(1) True] upsertMember_Inr [OF up] by (simp add: kept_def)
  next
    case False
    then have "has_role i u RoleOwner s1" "filter (\<lambda>m. \<not> of_pair i u m) (memberships s1) = filter (\<lambda>m. \<not> of_pair i u m) (memberships s)"
      using assms(2) upsertMember_Inr [OF up] by auto
    moreover obtain m where m: "m \<in> set (memberships s)" "mTeamID m = t" "mRole m = RoleOwner" using assms(1) by (auto simp: kept_def owned_def)
    ultimately have "owned t s1"
    proof (cases "of_pair i u m")
      case True
      then show ?thesis using \<open>has_role i u RoleOwner s1\<close> m by (auto simp: has_role_def owned_def of_pair_def)
    next
      case False
      then have "m \<in> set (filter (\<lambda>m. \<not> of_pair i u m) (memberships s1))"
        unfolding \<open>filter _ (memberships s1) = _\<close> using m by simp
      then show ?thesis using m by (auto simp: owned_def)
    qed
    then show ?thesis using ok by (simp add: kept_def)
  qed
qed

lemma delete_kept:
  assumes "kept t s" "safe_change i u s" "deleteMember i u s = (r, s1)"
  shows "kept t s1"
proof -
  have "members_ok s1" using keepsD [OF keeps_deleteMember _ assms(3)] assms(1) by (simp add: kept_def)
  moreover have "filter (\<lambda>m. \<not> of_pair i u m) (memberships s1) = filter (\<lambda>m. \<not> of_pair i u m) (memberships s)"
    using assms(3) by (auto simp: deleteMember_def split: if_splits)
  ultimately show ?thesis using owner_stays [OF assms(1,2)] by (simp add: kept_def)
qed


lemma runs_stmt:
  assumes "\<And>s r s1. team_tables s = team_tables s0 \<Longrightarrow> f s = (r, s1) \<Longrightarrow> Q r s1" "\<And>s. team_tables s = team_tables s0 \<Longrightarrow> Q (Inl ErrDB) s"
  shows "runs s0 (stmt f) Q"
proof -
  have "Q r s1" if s: "team_tables s = team_tables s0" and run: "stmt f s = (r, s1)" for s r s1
    using run by (rule team_stmt) (use s assms in auto)
  then show ?thesis by (fastforce simp: runs_def)
qed

lemma runs_write: "runs s0 m (\<lambda>_. P) \<Longrightarrow> (\<And>x. keeps P (k x)) \<Longrightarrow> runs s0 (bind m k) (\<lambda>_. P)"
proof -
  assume m: "runs s0 m (\<lambda>_. P)" and k: "\<And>x. keeps P (k x)"
  have "P s1" if "team_tables s = team_tables s0" "bind m k s = (r, s1)" for s r s1
    using that(2)
  proof (cases rule: bind_cases)
    case (err e)
    then show ?thesis using m that(1) by (fastforce simp: runs_def)
  next
    case (ok x s2)
    then have "P s2" using m that(1) by (fastforce simp: runs_def)
    then show ?thesis using keepsD [OF k _ ok(2)] by blast
  qed
  then show ?thesis by (fastforce simp: runs_def)
qed

lemma runs_db_write: "runs s0 m (\<lambda>_. P) \<Longrightarrow> runs s0 (db m) (\<lambda>_. P)"
  by (fastforce simp: runs_def db_def wrap_def split: prod.splits sum.splits)

lemma keeps_runs: "(\<And>s. P s \<Longrightarrow> runs s m (\<lambda>_. P)) \<Longrightarrow> keeps P m"
  unfolding keeps_def by (metis prod.collapse runsD)

lemma runs_decodeJSON: "runs s0 (decodeJSON srv ct body) (reading s0 (\<lambda>r. r = Inl (projl r) \<or> body = Decoded (projr r) True))"
  by (auto simp: decodeJSON_def reading_def split: decoded.splits intro!: runs_problem runs_ret)

lemma runs_AddMember:
  assumes "kept t s0" "role = RoleOwner \<or> safe_change i u s0"
  shows "runs s0 (db (AddMember i u role)) (\<lambda>_. kept t)"
proof -
  have same: "role = RoleOwner \<or> safe_change i u s" if "team_tables s = team_tables s0" for s
    using that assms(2) by (auto simp: safe_change_def role_in_def owners_def team_tables_eq)
  have st: "runs s0 (stmt (upsertMember i u role now)) (\<lambda>_. kept t)" for now
  proof (rule runs_stmt)
    show "kept t s1" if "team_tables s = team_tables s0" "upsertMember i u role now s = (r, s1)" for s r s1
      using upsert_kept [OF kept_same [OF that(1) assms(1)] same [OF that(1)] that(2)] .
  qed (rule kept_same [OF _ assms(1)])
  have "runs s0 (bind timeNow (\<lambda>now. stmt (upsertMember i u role now))) (\<lambda>_. kept t)"
    by (rule runs_bind [OF runs_timeNow [of "\<lambda>_. True"]]) (auto intro: st kept_same [OF _ assms(1)])
  then show ?thesis unfolding AddMember_def
    by (intro runs_db_write) (auto intro!: runs_throw simp: kept_same [OF _ assms(1)])
qed

lemma runs_RemoveMember:
  assumes "kept t s0" "safe_change i u s0"
  shows "runs s0 (db (RemoveMember i u)) (\<lambda>_. kept t)"
proof -
  have same: "safe_change i u s" if "team_tables s = team_tables s0" for s
    using that assms(2) by (auto simp: safe_change_def role_in_def owners_def team_tables_eq)
  show ?thesis unfolding RemoveMember_def
  proof (intro runs_db_write runs_stmt)
    show "kept t s1" if "team_tables s = team_tables s0" "deleteMember i u s = (r, s1)" for s r s1
      using delete_kept [OF kept_same [OF that(1) assms(1)] same [OF that(1)] that(2)] .
  qed (rule kept_same [OF _ assms(1)])
qed

lemma runs_demotionGuard:
  "runs s0 (demotionGuard i target role) (reading s0 (\<lambda>r. r = Inr () \<longrightarrow> role = RoleOwner \<or> safe_change i (uID target) s0))"
  unfolding demotionGuard_def
proof (rule runs_handle [OF runs_GetMembership])
  fix q :: "store_err + Membership"
  assume q: "q = Inl ErrDB \<or> q = found (find (of_pair i (uID target)) (memberships s0))"
  show "runs s0 (case q of Inl e \<Rightarrow> if e = ErrNotFound then ret () else throw (Fail (Store e))
   | Inr existing \<Rightarrow> if mRole existing = RoleOwner \<and> role \<noteq> RoleOwner
       then bind (db (CountOwners i)) (\<lambda>count. if count \<le> 1
         then problem (lastOwner ''%s is the only owner of this team.'' [Str (Email target)] ''Make someone else an owner first, then change this role.'')
         else ret ())
       else ret ()) (reading s0 (\<lambda>r. r = Inr () \<longrightarrow> role = RoleOwner \<or> safe_change i (uID target) s0))"
  proof (cases q)
    case (Inl e)
    then show ?thesis using q
      by (auto simp: found_def reading_def safe_change_def role_in_def split: option.splits intro!: runs_ret runs_throw)
  next
    case (Inr m)
    then have "role_in i (uID target) s0 = Some (mRole m)" using q by (auto simp: found_def role_in_def split: option.splits)
    then show ?thesis using Inr
      by (auto simp: reading_def safe_change_def owners_def
          intro!: runs_ret runs_problem runs_bind [OF runs_db [OF runs_weaken [OF runs_CountOwners],
            where F = "\<lambda>r. isl r \<or> r = Inr (owners i s0)"]])
  qed
qed


lemma runs_removalGuard:
  assumes "role_in i u s0 = Some (mRole m)"
  shows "runs s0 (removalGuard i actor m) (reading s0 (\<lambda>r. r = Inr () \<longrightarrow> safe_change i u s0
     \<and> (mRole m = RoleOwner \<longrightarrow> role_in i (uID actor) s0 = Some RoleOwner)))"
proof (cases "mRole m = RoleOwner")
  case False
  then show ?thesis using assms by (auto simp: removalGuard_def reading_def safe_change_def intro!: runs_ret)
next
  case True
  have count: "runs s0 (db (CountOwners i)) (reading s0 (\<lambda>r. isl r \<or> r = Inr (owners i s0)))"
    by (rule runs_db, rule runs_weaken [OF runs_CountOwners]) (auto simp: reading_def owners_def)
  show ?thesis unfolding removalGuard_def using True
    by (auto simp: reading_def safe_change_def found_def role_in_def split: sum.splits option.splits
        intro!: runs_ret runs_problem runs_bind [OF count] runs_handle [OF runs_GetMembership])
qed

lemma onAuth_other_tables [simp]:
  "projects (snd (onAuth m s)) = projects s" "environments (snd (onAuth m s)) = environments s"
  by (simp_all add: onAuth_run) (cases s, simp add: auth_db.defs)+

lemma runs_onAuth_read: "reads m \<Longrightarrow> runs s0 (onAuth m) (reading s0 (\<lambda>r. \<exists>a a'. m a = (r, a') \<and> users a = users s0))"
proof -
  assume m: "reads m"
  have fact: "team_tables s1 = team_tables s \<and> (\<exists>a a'. m a = (r, a') \<and> users a = users s)" if run: "onAuth m s = (r, s1)" for s r s1
  proof -
    have r: "m (auth_db.truncate s) = (r, snd (m (auth_db.truncate s)))" using run onAuth_run [of m s] by (metis fst_conv prod.collapse)
    have "users (snd (m (auth_db.truncate s))) = users s" using readsD [OF m r] by (simp add: tables_same)
    then have "team_tables (snd (onAuth m s)) = team_tables s" by (simp add: team_tables_eq)
    then show ?thesis using run r truncate_fields(1) by (metis snd_conv)
  qed
  show ?thesis unfolding runs_def reading_def
  proof (intro allI impI)
    fix s :: team_db
    assume s: "team_tables s = team_tables s0"
    then have u: "users s = users s0" by (simp add: team_tables_eq)
    obtain r s1 where "onAuth m s = (r, s1)" by force
    then show "case onAuth m s of (r, s1) \<Rightarrow> team_tables s1 = team_tables s0 \<and> (\<exists>a a'. m a = (r, a') \<and> users a = users s0)"
      using fact [of s r s1] s u by simp
  qed
qed


lemma runs_GetUserByEmail: "runs s0 (onAuth (GetUserByEmail e)) (reading s0 (\<lambda>_. True))"
  using runs_onAuth_read [OF reads_ops(7)] by (rule runs_weaken) (simp add: reading_def)

text \<open>Writes to other tables.\<close>

lemma kept_rows: "keeps members_ok f \<Longrightarrow> (\<And>s. memberships (snd (f s)) = memberships s) \<Longrightarrow> keeps (kept t) f"
  by (simp add: keeps_def kept_def owned_def)

lemma kept_row_ops:
  "keeps (kept t) (insertTeam team)" "keeps (kept t) (updateTeamRow team)" "keeps (kept t) (insertInvitation row)"
  "keeps (kept t) (acceptRow i now)" "keeps (kept t) (deleteInvitationRow team' i)" "keeps (kept t) (insertAudit e)"
  "keeps (kept t) (\<lambda>s. (Inr (f s), s\<lparr>team_invitations := g s\<rparr>))"
  by (rule kept_rows, rule keeps_team_rows, simp add: insertTeam_def updateTeamRow_def insertInvitation_def acceptRow_def
      deleteInvitationRow_def insertAudit_def)+

lemma keeps_publish: "keeps (kept t) (publish topic kind e)"
  by (simp add: keeps_def publish_def kept_def owned_def members_ok_def team_exists_def member_exists_def)

lemma keeps_audit: "keeps (kept t) (audit r team action ty target label)"
  unfolding audit_def RecordAudit_def Let_def
  by (intro keeps_intros kept_inv.keeps_env kept_row_ops keeps_publish)

lemma kept_ops:
  "keeps (kept t) (CreateTeam team)" "keeps (kept t) (UpdateTeam team)" "keeps (kept t) (CreateInvitation inv' hash)"
  "keeps (kept t) (DeleteInvitation team' i)"
  unfolding CreateTeam_def UpdateTeam_def CreateInvitation_def DeleteInvitation_def Let_def
  by (intro keeps_intros kept_inv.keeps_env kept_row_ops keeps_idOr kept_inv.env_free_axioms)+

lemma kept_onAuth: "grows_users m \<Longrightarrow> keeps (kept t) (onAuth m)"
  by (intro kept_rows keeps_onAuth) simp_all

lemma kept_auth: "grows_users m \<Longrightarrow> keeps (kept t) (auth m)"
  unfolding auth_def by (intro keeps_wrap kept_onAuth)

interpretation grow_inv: env_free "\<lambda>s :: auth_db. U \<subseteq> uID ` set (users s)"
  by unfold_locales simp_all

lemma grows_usersI: "(\<And>U. keeps (\<lambda>s. U \<subseteq> uID ` set (users s)) m) \<Longrightarrow> grows_users m"
  by (fastforce simp: grows_users_def keeps_def)

lemma grows_reads: "reads m \<Longrightarrow> grows_users m"
  unfolding grows_users_def using readsD tables_same by (metis order_refl prod.collapse)

lemma grows_insertUser: "keeps (\<lambda>s. U \<subseteq> uID ` set (users s)) (insertUser row)"
  by (auto simp: keeps_def insertUser_def)

lemma grows_rows:
  "keeps (\<lambda>s :: auth_db. U \<subseteq> uID ` set (users s)) (insertSession row)"
  "keeps (\<lambda>s :: auth_db. U \<subseteq> uID ` set (users s)) (\<lambda>s. (Inr (f s), s\<lparr>sessions := g s\<rparr>))"
  "keeps (\<lambda>s :: auth_db. U \<subseteq> uID ` set (users s)) (\<lambda>s. (Inr (h s), s\<lparr>api_tokens := j s\<rparr>))"
  by (auto simp: keeps_def insertSession_def)

lemma grows_ops: "grows_users freshToken" "grows_users (CreateUser u)" "grows_users (wrap Store (CreateUser u))"
  "grows_users (IssueSession sv u ip ua)" "grows_users (AuthenticateToken sv token)" "grows_users (Authenticate sv token)"
  by (rule grows_usersI, simp only: freshToken_def CreateUser_def IssueSession_def issueSession_def AuthenticateToken_def Authenticate_def
      Let_def CreateSession_def slide_def GetAPITokenByHash_def GetSessionByHash_def GetUser_def TouchAPIToken_def TouchSession_def
      DeleteSession_def update_sessions_def delete_sessions_def,
      intro keeps_intros grow_inv.keeps_env grows_insertUser grows_rows keeps_idOr grow_inv.env_free_axioms)+


lemma runs_GetMembership_db:
  "runs s0 (db (GetMembership team user)) (reading s0 (\<lambda>r. isl r \<or> (\<exists>m. r = Inr m \<and> role_in team user s0 = Some (mRole m))))"
  by (rule runs_db, rule runs_weaken [OF runs_GetMembership]) (auto simp: reading_def role_in_def found_def split: option.splits)

lemma kept_handleAddMember: "keeps (kept t) (handleAddMember srv i body r)"
proof (rule keeps_runs)
  fix s
  assume k: "kept t s"
  note stop = kept_same [OF _ k]
  have wr: "runs s (bind (db (AddMember i u role)) (\<lambda>_. bind (audit r i a b c d) (\<lambda>_. ret x))) (\<lambda>_. kept t)"
    if "role = RoleOwner \<or> safe_change i u s" for u role a b c d x
    by (rule runs_write [OF runs_AddMember [OF k that]]) (intro keeps_intros keeps_audit)
  have "runs s (handle (onAuth (GetUserByEmail email)) (\<lambda>res. case res of Inl _ \<Rightarrow> problem (noSuchUser email)
     | Inr target \<Rightarrow> bind (demotionGuard i target role) (\<lambda>_. bind (db (AddMember i (uID target) role)) (\<lambda>_.
       bind (audit r i ''team.member_added'' ''user'' (uID target) (Email target)) (\<lambda>_. ret (200, ())))))) (\<lambda>_. kept t)"
    for email role
    by (rule runs_handle [OF runs_GetUserByEmail])
      (auto split: sum.splits intro!: runs_problem stop runs_bind [OF runs_demotionGuard] wr)
  then show "runs s (handleAddMember srv i body r) (\<lambda>_. kept t)"
    unfolding handleAddMember_def
    by (auto intro!: runs_problem stop runs_bind [OF runs_authorizeTeam] runs_bind [OF runs_decodeJSON]
        runs_bind [OF runs_GetMembership_db] split: prod.splits)
qed

lemma kept_handleRemoveMember: "keeps (kept t) (handleRemoveMember i user r)"
proof (rule keeps_runs)
  fix s
  assume k: "kept t s"
  note stop = kept_same [OF _ k]
  have wr: "runs s (bind (db (RemoveMember i user)) (\<lambda>_. bind (audit r i a b c d) (\<lambda>_. ret x))) (\<lambda>_. kept t)"
    if "safe_change i user s" for a b c d x
    by (rule runs_write [OF runs_RemoveMember [OF k that]]) (intro keeps_intros keeps_audit)
  have "runs s (case res of Inl _ \<Rightarrow> problem (NotFound ''team member'' user)
     | Inr membership \<Rightarrow> bind (removalGuard i actor membership) (\<lambda>_. bind (db (RemoveMember i user)) (\<lambda>_.
       bind (audit r i ''team.member_removed'' ''user'' user []) (\<lambda>_. ret (200, ()))))) (\<lambda>_. kept t)"
    if "res = Inl ErrDB \<or> res = found (find (of_pair i user) (memberships s))" for res actor
  proof (cases res)
    case (Inl e)
    then show ?thesis by (auto intro!: runs_problem stop)
  next
    case (Inr m)
    then have "role_in i user s = Some (mRole m)" using that by (auto simp: found_def role_in_def split: option.splits)
    then show ?thesis using Inr
      by (auto intro!: stop runs_bind [OF runs_removalGuard] wr)
  qed
  then show "runs s (handleRemoveMember i user r) (\<lambda>_. kept t)"
    unfolding handleRemoveMember_def
    by (auto intro!: stop runs_bind [OF runs_authorizeTeam] runs_handle [OF runs_GetMembership])
qed

lemma kept_checks: "keeps (kept t) (authorizeTeam r team required)" "keeps (kept t) (decodeJSON srv ct body)"
  unfolding authorizeTeam_def GetMembership_def decodeJSON_def problem_def
  by (auto split: option.splits decoded.splits sum.splits intro!: keeps_intros kept_inv.keeps_env)

lemma keeps_db: "keeps P m \<Longrightarrow> keeps P (db m)"
  unfolding db_def by (rule keeps_wrap)

lemma keeps_problem: "keeps P (problem p)"
  unfolding problem_def by (rule keeps_throw)

lemmas kept_intros = keeps_intros kept_inv.keeps_env kept_checks keeps_db keeps_problem kept_ops keeps_audit kept_auth kept_onAuth
  grows_ops grows_reads reads_ops

text \<open>Accepting an invitation adds a membership of an account that did not exist.\<close>

lemma CreateUser_fresh:
  assumes "CreateUser u s = (Inr v, s1)"
  shows "uID v \<notin> uID ` set (users s) \<and> (\<exists>row \<in> set (users s1). uID row = uID v) \<and> Email v = trim_space (Email u)
    \<and> (\<forall>row \<in> set (users s1). uID row \<noteq> uID v \<longrightarrow> row \<in> set (users s))"
proof -
  obtain i s2 where a: "idOr (uID u) ''usr'' s = (Inr i, s2)"
    and b: "(let u' = u\<lparr>uID := i, Email := trim_space (Email u)\<rparr> in
     bind (stmt (insertUser (user_row_of (u'\<lparr>Theme := defaultStr (Theme u) ''system'', uCreatedAt := clock (tick s2),
            UpdatedAt := clock (tick s2), LastLoginAt := zero_time\<rparr>) 0)))
       (\<lambda>_. ret (u'\<lparr>uCreatedAt := clock (tick s2), UpdatedAt := clock (tick s2)\<rparr>))) (tick s2) = (Inr v, s1)"
    using assms unfolding CreateUser_def by (elim bind_Inr) (simp add: timeNow_def)
  have same: "tables s2 = tables s" using keepsD [OF keeps_idOr [OF tab_inv.env_free_axioms] refl a] .
  define row where "row = user_row_of (u\<lparr>uID := i, Email := trim_space (Email u), Theme := defaultStr (Theme u) ''system'',
    uCreatedAt := clock (tick s2), UpdatedAt := clock (tick s2), LastLoginAt := zero_time\<rparr>) 0"
  obtain s3 where c: "stmt (insertUser row) (tick s2) = (Inr (), s3)" and v: "uID v = i" "Email v = trim_space (Email u)" "s3 = s1"
    using b by (auto simp: Let_def row_def ret_def elim!: bind_Inr)
  have "tables (tick s2) = tables s" using same tab_inv.tick by blast
  with c obtain s4 where "tables s4 = tables s" "insertUser row s4 = (Inr (), s3)"
    by (elim tab_inv.stmt_result) auto
  then have "i \<notin> uID ` set (users s)" "users s1 = users s @ [row]" "uID row = i"
    using v by (auto simp: insertUser_def user_exists_def tables_same row_def user_row_of_def User.defs split: if_splits)
  then show ?thesis using v by auto
qed


lemma runs_AcceptInvitation:
  assumes "kept t s" "role_in team user s = None"
  shows "kept t (snd (AcceptInvitation i team user role s))"
proof (cases "AcceptInvitation i team user role s")
  case (Pair r s1)
  have ok: "members_ok s1" using keepsD [OF keeps_team_ops(6) _ Pair] assms(1) by (simp add: kept_def)
  show ?thesis
  proof (cases r)
    case (Inl e)
    then show ?thesis using AcceptInvitation_Inl Pair kept_same [OF _ assms(1)] by simp
  next
    case (Inr x)
    then have "filter (\<lambda>m. \<not> of_pair team user m) (memberships s1) = filter (\<lambda>m. \<not> of_pair team user m) (memberships s)"
      using AcceptInvitation_Inr Pair by simp
    moreover have "safe_change team user s" using assms(2) by (simp add: safe_change_def)
    ultimately show ?thesis using owner_stays [OF assms(1)] ok Pair by (simp add: kept_def)
  qed
qed

lemma auth_CreateUser:
  assumes "auth (wrap Store (CreateUser u)) s = (Inr v, s1)" "members_ok s"
  shows "role_in team (uID v) s1 = None" "uID v \<notin> uID ` set (users s)" "Email v = trim_space (Email u)"
    "memberships s1 = memberships s" "team_invitations s1 = team_invitations s"
proof -
  obtain q where q: "wrap Store (CreateUser u) (auth_db.truncate s) = (q, auth_db.truncate s1)"
    "Inr v = (case q of Inl e \<Rightarrow> Inl (Fail e) | Inr x \<Rightarrow> Inr x)" using assms(1) by (rule auth_run)
  then have c: "CreateUser u (auth_db.truncate s) = (Inr v, auth_db.truncate s1)" by (cases q) (auto simp: wrap_Inr)
  have "snd (auth (wrap Store (CreateUser u)) s) = snd (onAuth (wrap Store (CreateUser u)) s)"
    by (simp add: auth_def wrap_def split: prod.splits sum.splits)
  then have m: "memberships s1 = memberships s" "team_invitations s1 = team_invitations s" using assms(1) by simp_all
  have f: "uID v \<notin> uID ` set (users s)" "Email v = trim_space (Email u)" using CreateUser_fresh [OF c] by simp_all
  have "\<not> of_pair team (uID v) x" if "x \<in> set (memberships s)" for x
    using that assms(2) f(1) unfolding members_ok_def member_exists_def of_pair_def by (metis (no_types, lifting))
  then have "find (of_pair team (uID v)) (memberships s) = None" by (simp add: find_None_iff)
  then show "role_in team (uID v) s1 = None" by (simp add: role_in_def m)
  show "uID v \<notin> uID ` set (users s)" "Email v = trim_space (Email u)" "memberships s1 = memberships s"
    "team_invitations s1 = team_invitations s" using f m by blast+
qed

lemma kept_admit:
  assumes "\<And>user x. keeps (kept t) (f user x)"
  shows "keeps (kept t) (bind (auth (wrap Store (CreateUser u))) (\<lambda>user. bind (db (AcceptInvitation i team (uID user) role)) (f user)))"
    (is "keeps _ ?m")
proof -
  have "kept t s3" if k: "kept t s" and run: "?m s = (res, s3)" for s res s3
    using run
  proof (cases rule: bind_cases)
    case (err e)
    then show ?thesis using keepsD [OF kept_auth [OF grows_ops(3)] k] by blast
  next
    case (ok user s2)
    have k2: "kept t s2" using keepsD [OF kept_auth [OF grows_ops(3)] k ok(1)] .
    have "role_in team (uID user) s2 = None" using auth_CreateUser(1) [OF ok(1)] k by (simp add: kept_def)
    from runs_AcceptInvitation [OF k2 this, of i role]
    have "kept t (snd (db (AcceptInvitation i team (uID user) role) s2))" by (auto simp: db_def wrap_def split: prod.splits sum.splits)
    then show ?thesis using ok(2) keepsD [OF assms] by (auto simp: bind_def split: prod.splits sum.splits)
  qed
  then show ?thesis unfolding keeps_def by (auto split: prod.splits intro: surjective_pairing)
qed

lemma kept_joinWith: "keeps (kept t) (joinWith srv r invite nm password)"
  unfolding joinWith_def by (intro keeps_bind [OF kept_inv.keeps_random] kept_admit) (intro kept_intros)

lemma kept_invitationFrom: "keeps (kept t) (invitationFrom srv token)"
  unfolding invitationFrom_def InvitationByTokenHash_def Expired_def Let_def by (intro kept_intros)

lemma kept_handleAccept: "keeps (kept t) (handleAcceptInvitation srv token body r)"
  unfolding handleAcceptInvitation_def Let_def by (intro kept_intros kept_invitationFrom kept_joinWith)

lemma kept_handlers:
  "keeps (kept t) (handleListTeams r)" "keeps (kept t) (handleGetTeam i r)" "keeps (kept t) (handleUpdateTeam srv i nb r)"
  "keeps (kept t) (handleListMembers i r)" "keeps (kept t) (handleListAudit i action target limit r)"
  "keeps (kept t) (handleInvite srv i eb r)" "keeps (kept t) (handleListInvitations i r)"
  "keeps (kept t) (handleRevokeInvitation i j r)" "keeps (kept t) (handleLookupInvitation srv token r)"
  unfolding handleListTeams_def handleGetTeam_def handleUpdateTeam_def handleListMembers_def handleListAudit_def handleInvite_def
    handleListInvitations_def handleRevokeInvitation_def handleLookupInvitation_def sendInvitation_def invitationURL_def Let_def
    ListTeamsForUser_def GetTeam_def GetMembership_def ListMembers_def ListAudit_def ListInvitations_def GetSetting_def
  by (intro kept_intros kept_invitationFrom)+


lemma kept_handleCreateTeam: "keeps (kept t) (handleCreateTeam srv body r)"
proof -
  have "keeps (kept t) (upsertMember i u RoleOwner now)" for i u now
    unfolding keeps_def using upsert_kept [of t _ RoleOwner i u now] by (metis prod.collapse)
  then have "keeps (kept t) (AddMember i u RoleOwner)" for i u
    unfolding AddMember_def by (intro kept_intros)
  then show ?thesis unfolding handleCreateTeam_def Let_def by (intro kept_intros)
qed

section \<open>The routes of teams\<close>

datatype team_call =
  ListTeamsCall | CreateTeamCall "string decoded" | GetTeamCall string | UpdateTeamCall string "string decoded"
| ListMembersCall string | AddMemberCall string "(string \<times> Role) decoded" | RemoveMemberCall string string
| AuditCall string string string int | InviteCall string "(string \<times> string) decoded" | ListInvitationsCall string
| RevokeCall string string | LookupCall string | AcceptCall string "(string \<times> string) decoded"

definition openRoute :: "Server \<Rightarrow> 'a handler \<Rightarrow> 'a handler" where
  "openRoute srv next' = requestContext srv (authenticate srv (csrf srv next'))"

definition quietly :: "'a api_op \<Rightarrow> unit api_op" where
  "quietly m = bind m (\<lambda>_. ret ())"

fun serve :: "Server \<Rightarrow> team_call \<Rightarrow> unit handler" where
  "serve srv ListTeamsCall = authedRoute srv (\<lambda>r. quietly (handleListTeams r))"
| "serve srv (CreateTeamCall b) = authedRoute srv (\<lambda>r. quietly (handleCreateTeam srv b r))"
| "serve srv (GetTeamCall i) = authedRoute srv (\<lambda>r. quietly (handleGetTeam i r))"
| "serve srv (UpdateTeamCall i b) = authedRoute srv (\<lambda>r. quietly (handleUpdateTeam srv i b r))"
| "serve srv (ListMembersCall i) = authedRoute srv (\<lambda>r. quietly (handleListMembers i r))"
| "serve srv (AddMemberCall i b) = authedRoute srv (\<lambda>r. quietly (handleAddMember srv i b r))"
| "serve srv (RemoveMemberCall i u) = authedRoute srv (\<lambda>r. quietly (handleRemoveMember i u r))"
| "serve srv (AuditCall i a g n) = authedRoute srv (\<lambda>r. quietly (handleListAudit i a g n r))"
| "serve srv (InviteCall i b) = authedRoute srv (\<lambda>r. quietly (handleInvite srv i b r))"
| "serve srv (ListInvitationsCall i) = authedRoute srv (\<lambda>r. quietly (handleListInvitations i r))"
| "serve srv (RevokeCall i j) = authedRoute srv (\<lambda>r. quietly (handleRevokeInvitation i j r))"
| "serve srv (LookupCall k) = openRoute srv (\<lambda>r. quietly (handleLookupInvitation srv k r))"
| "serve srv (AcceptCall k b) = openRoute srv (\<lambda>r. quietly (handleAcceptInvitation srv k b r))"

definition serve_all :: "Server \<Rightarrow> (team_call \<times> Request) list \<Rightarrow> team_db \<Rightarrow> team_db" where
  "serve_all srv calls s = fold (\<lambda>(c, r) s. snd (serve srv c r s)) calls s"

lemma keeps_openRoute: "(\<And>r. keeps (kept t) (next' r)) \<Longrightarrow> keeps (kept t) (openRoute srv next' r)"
  unfolding openRoute_def requestContext_def authenticate_def cookieStep_def csrf_def Let_def
  by (intro kept_intros)

lemma keeps_authedRoute: "(\<And>r. keeps (kept t) (next' r)) \<Longrightarrow> keeps (kept t) (authedRoute srv next' r)"
  unfolding authedRoute_def openRoute_def [symmetric]
  by (rule keeps_openRoute) (auto simp: requireAuth_def split: option.splits intro: keeps_problem)

lemma kept_serve: "keeps (kept t) (serve srv c r)"
  by (cases c) (auto simp: quietly_def intro!: keeps_authedRoute keeps_openRoute keeps_bind keeps_ret kept_handlers kept_handleAddMember
      kept_handleRemoveMember kept_handleAccept kept_handleCreateTeam)

text \<open>C12: Requests served one after the other never take a team's last owner away: whatever
  they are, whoever sends them and whichever statements fail, a team that has an
  owner has one at the end, and the memberships stay well formed.\<close>
theorem owners_remain:
  assumes "members_ok s" "\<exists>m \<in> set (memberships s). mTeamID m = t \<and> mRole m = RoleOwner"
  shows "members_ok (serve_all srv calls s) \<and> (\<exists>m \<in> set (memberships (serve_all srv calls s)). mTeamID m = t \<and> mRole m = RoleOwner)"
proof -
  have "kept t (serve_all srv calls s)" if "kept t s" for s
    using that
  proof (induction calls arbitrary: s)
    case (Cons c calls)
    have "kept t (snd (serve srv (fst c) (snd c) s))" using kept_serve Cons.prems unfolding keeps_def by blast
    then show ?case using Cons.IH by (simp add: serve_all_def case_prod_unfold)
  qed (simp add: serve_all_def)
  then show ?thesis using assms by (simp add: kept_def owned_def)
qed


theorem owners_remain_witness:
  "\<exists>m. m \<in> set (memberships (serve_all demo_server [(RemoveMemberCall ''team_1'' ''usr_1'', demo_request)] demo_panel)) \<and> mRole m = RoleOwner"
proof -
  have "members_ok demo_panel" "\<exists>m \<in> set (memberships demo_panel). mTeamID m = ''team_1'' \<and> mRole m = RoleOwner"
    by (simp_all add: members_ok_def team_exists_def member_exists_def demo_panel_def demo_db_def auth_db.defs demo_user_def user_row_of_def
        User.defs validRole_def)
  from owners_remain [OF this, of demo_server "[(RemoveMemberCall ''team_1'' ''usr_1'', demo_request)]"] show ?thesis by blast
qed

section \<open>What a grant changes\<close>

lemma find_filter: "(\<And>x. p x \<Longrightarrow> q x) \<Longrightarrow> find p (filter q xs) = find p xs"
  by (induction xs) auto

lemma one_role_changes:
  assumes "has_role i u role s1" "filter (\<lambda>m. \<not> of_pair i u m) (memberships s1) = filter (\<lambda>m. \<not> of_pair i u m) (memberships s)"
  shows "role_in i u s1 = Some role" "(t, v) \<noteq> (i, u) \<Longrightarrow> role_in t v s1 = role_in t v s"
proof -
  obtain m where "find (of_pair i u) (memberships s1) = Some m" using assms(1) unfolding has_role_def by (metis find_None_iff option.exhaust)
  then show "role_in i u s1 = Some role"
    using assms(1) find_Some [of "of_pair i u" "memberships s1" m] by (auto simp: role_in_def has_role_def)
  assume "(t, v) \<noteq> (i, u)"
  then have "of_pair t v m \<Longrightarrow> \<not> of_pair i u m" for m by (auto simp: of_pair_def)
  then have f: "find (of_pair t v) (filter (\<lambda>m. \<not> of_pair i u m) (memberships x)) = find (of_pair t v) (memberships x)" for x :: team_db
    by (rule find_filter)
  show "role_in t v s1 = role_in t v s" unfolding role_in_def f [of s1, symmetric] f [of s, symmetric] assms(2) ..
qed

text \<open>The result of a grant: the member's role, and nobody else's.\<close>

definition granted :: "string \<Rightarrow> string \<Rightarrow> Role \<Rightarrow> team_db \<Rightarrow> team_db \<Rightarrow> bool" where
  "granted i u role s s1 \<longleftrightarrow> role_in i u s1 = Some role \<and> (\<forall>t v. (t, v) \<noteq> (i, u) \<longrightarrow> role_in t v s1 = role_in t v s)"

lemma runs_db_any: "runs s m (\<lambda>r. Q (map_sum (\<lambda>e. Fail (Store e)) id r)) \<Longrightarrow> runs s (db m) Q"
  by (fastforce simp: runs_def db_def wrap_def split: prod.splits sum.splits)

lemma runs_AddMember_grants:
  "runs s (db (AddMember i u role)) (\<lambda>r s1. isl r \<or> granted i u role s s1)"
proof -
  have g: "isl r \<or> granted i u role s s1" if same: "team_tables s0 = team_tables s" and up: "upsertMember i u role now s0 = (r, s1)" for s0 r s1 now
  proof (cases r)
    case (Inr x)
    then have "upsertMember i u role now s0 = (Inr (), s1)" using up by simp
    from upsertMember_Inr [OF this] have h: "has_role i u role s1"
      "filter (\<lambda>m. \<not> of_pair i u m) (memberships s1) = filter (\<lambda>m. \<not> of_pair i u m) (memberships s)"
      using same by (simp_all add: team_tables_eq)
    from one_role_changes [OF h] show ?thesis by (simp add: granted_def)
  qed simp
  have "runs s (AddMember i u role) (\<lambda>r s1. isl r \<or> granted i u role s s1)"
    unfolding AddMember_def
    by (auto intro!: runs_throw runs_bind [OF runs_timeNow [of "\<lambda>_. True"]] runs_stmt dest: g)
  then show ?thesis by (intro runs_db_any) (simp add: isl_map_sum)
qed

interpretation member_inv: env_free "\<lambda>s :: team_db. memberships s = ms"
  by unfold_locales simp_all

lemma memberships_audit: "keeps (\<lambda>s. memberships s = ms) (audit r team action ty target label)"
proof -
  have "keeps (\<lambda>s. memberships s = ms) (insertAudit e)" "keeps (\<lambda>s. memberships s = ms) (publish topic kind e)" for e topic kind
    by (simp_all add: keeps_def insertAudit_def publish_def)
  then show ?thesis unfolding audit_def RecordAudit_def Let_def by (intro keeps_intros member_inv.keeps_env)
qed

lemma granted_same: "memberships s2 = memberships s1 \<Longrightarrow> granted i u role s s2 = granted i u role s s1"
  by (simp add: granted_def role_in_def)

lemma runs_grant:
  "runs s (bind (db (AddMember i u role)) (\<lambda>_. bind (audit r i a b c d) (\<lambda>_. ret x))) (\<lambda>q s1. isl q \<or> granted i u role s s1)"
proof -
  have "isl q \<or> granted i u role s s1" if "team_tables s0 = team_tables s"
    "bind (db (AddMember i u role)) (\<lambda>_. bind (audit r i a b c d) (\<lambda>_. ret x)) s0 = (q, s1)" for s0 q s1
    using that(2)
  proof (cases rule: bind_cases)
    case (ok y s2)
    then have g: "granted i u role s s2" using runs_AddMember_grants [of s i u role] that(1) by (fastforce simp: runs_def)
    have "keeps (\<lambda>s. memberships s = memberships s2) (bind (audit r i a b c d) (\<lambda>_. ret x))" by (intro keeps_intros memberships_audit)
    from keepsD [OF this refl ok(2)] show ?thesis using g granted_same by blast
  qed simp
  then show ?thesis by (fastforce simp: runs_def)
qed

text \<open>C36: Adding a member changes the role of exactly one account, to the role asked for, and
  only at the word of a member who is an admin of that team or above and whose own
  role is at least the one given.\<close>
theorem no_role_above_sender:
  assumes "handleAddMember srv i body r s = (Inr res, s1)"
  shows "\<exists>u sender email role target. ctxUser r = Some u \<and> body = Decoded (email, role) True
    \<and> role_in i (uID u) s = Some sender \<and> AtLeast sender RoleAdmin \<and> AtLeast sender role \<and> granted i target role s s1"
proof -
  let ?Q = "\<lambda>q s1. isl q \<or> (\<exists>u sender email role target. ctxUser r = Some u \<and> body = Decoded (email, role) True
    \<and> role_in i (uID u) s = Some sender \<and> AtLeast sender RoleAdmin \<and> AtLeast sender role \<and> granted i target role s s1)"
  have tail: "runs s (handle (onAuth (GetUserByEmail email)) (\<lambda>res. case res of Inl _ \<Rightarrow> problem (noSuchUser email)
     | Inr target \<Rightarrow> bind (demotionGuard i target role) (\<lambda>_. bind (db (AddMember i (uID target) role)) (\<lambda>_.
       bind (audit r i ''team.member_added'' ''user'' (uID target) (Email target)) (\<lambda>_. ret (200, ())))))) (\<lambda>q s1. isl q \<or> (\<exists>target. granted i target role s s1))"
    for email role
    by (rule runs_handle [OF runs_GetUserByEmail])
      (auto split: sum.splits intro!: runs_problem runs_bind [OF runs_demotionGuard] intro: runs_weaken [OF runs_grant])
  have "runs s (handleAddMember srv i body r) ?Q"
    unfolding handleAddMember_def
    by (rule runs_bind [OF runs_authorizeTeam], simp, rule runs_bind [OF runs_decodeJSON], simp)
      (auto split: prod.splits option.splits if_splits simp: decision_on_def
        intro!: runs_problem runs_bind [OF runs_GetMembership_db] tail)
  from runsD [OF this assms] show ?thesis by simp
qed


section \<open>One invitation, one account\<close>

lemma later_onAuth: "keeps (\<lambda>s. c \<le> clock s) m \<Longrightarrow> keeps (\<lambda>s. c \<le> clock s) (onAuth m)"
proof -
  assume m: "keeps (\<lambda>s. c \<le> clock s) m"
  have "clock (snd (onAuth m s)) = clock (snd (m (auth_db.truncate s)))" for s by (simp add: onAuth_run auth_db.defs)
  moreover have "c \<le> clock s \<Longrightarrow> c \<le> clock (snd (m (auth_db.truncate s)))" for s :: team_db
    using m unfolding keeps_def by simp
  ultimately show ?thesis by (simp add: keeps_def)
qed

lemma later_random: "keeps (\<lambda>s. c \<le> clock s) random"
  by (simp add: keeps_def random_def split: list.splits)

lemma later_CreateUser: "keeps (\<lambda>s. c \<le> clock s) (auth (wrap Store (CreateUser u)))"
proof -
  have "keeps (\<lambda>s :: auth_db. c \<le> clock s) (insertUser row)" for row by (simp add: keeps_def insertUser_def)
  then have "keeps (\<lambda>s :: auth_db. c \<le> clock s) (CreateUser u)"
    unfolding CreateUser_def idOr_def NewID_def Let_def by (intro keeps_intros later_timeNow later_random later_stmt)
  then show ?thesis unfolding auth_def by (intro keeps_wrap later_onAuth)
qed

lemma AcceptInvitation_rows:
  assumes "AcceptInvitation i team user role s = (Inr (), s1)"
  obtains now where "clock s \<le> now"
    "team_invitations s1 = update_rows (unaccepted i) (\<lambda>r. r\<lparr>accepted_at := Some now\<rparr>) (team_invitations s)"
proof -
  obtain s0 s2 where b: "stmt (ret ()) s = (Inr (), s0)"
    and f: "bind timeNow (\<lambda>now. bind (stmt (acceptRow i now)) (\<lambda>_. bind timeNow (\<lambda>later. stmt (upsertMember team user role later)))) s0 = (Inr (), s2)"
    and c: "stmt (ret ()) s2 = (Inr (), s1)"
    using assms unfolding AcceptInvitation_def by (rule Tx_Inr)
  obtain s3 where a: "stmt (acceptRow i (clock (tick s0))) (tick s0) = (Inr (), s3)"
    and u: "stmt (upsertMember team user role (clock (tick s3))) (tick s3) = (Inr (), s2)"
    using f by (auto simp: op_simps timeNow_def elim!: bind_Inr)
  obtain s4 where s4: "team_tables s4 = team_tables s" "acceptRow i (clock (tick s0)) s4 = (Inr (), s3)"
    using a team_stmt_ret [OF b] by (elim team_stmt) auto
  obtain s5 where s5: "team_tables s5 = team_tables s3" "upsertMember team user role (clock (tick s3)) s5 = (Inr (), s2)"
    using u by (elim team_stmt) auto
  have "clock s \<le> clock s0" using keepsD [OF later_stmt [OF keeps_ret] order_refl b] .
  then have "clock s \<le> clock (tick s0)" using tick_clock order_trans by blast
  moreover have "team_invitations s3 = update_rows (unaccepted i) (\<lambda>r. r\<lparr>accepted_at := Some (clock (tick s0))\<rparr>) (team_invitations s)"
    using s4 by (auto simp: acceptRow_def team_tables_eq split: if_splits)
  then have "team_invitations s1 = update_rows (unaccepted i) (\<lambda>r. r\<lparr>accepted_at := Some (clock (tick s0))\<rparr>) (team_invitations s)"
    using upsertMember_Inr [OF s5(2)] s5(1) team_stmt_ret [OF c] by (simp add: team_tables_eq)
  ultimately show thesis using that by blast
qed

text \<open>The row behind a link that is still good.\<close>

definition good_link :: "Server \<Rightarrow> string \<Rightarrow> team_db \<Rightarrow> invitation_row \<Rightarrow> bool" where
  "good_link srv token s row \<longleftrightarrow> find (\<lambda>x. token_hash x = HashToken (sha256 (srvAuth srv)) (trim_space token)) (team_invitations s) = Some row
     \<and> 20 \<le> length (trim_space token) \<and> (accepted_at row = None \<or> accepted_at row = Some zero_time) \<and> clock s \<le> iExpiresAt row"

lemma invitationFrom_Inr:
  assumes "invitationFrom srv token s = (Inr invite, s1)"
  shows "\<exists>row. good_link srv token s row \<and> invite = scanInvitation row \<and> team_tables s1 = team_tables s \<and> clock s \<le> clock s1"
proof -
  let ?h = "HashToken (sha256 (srvAuth srv)) (trim_space token)"
  have len: "20 \<le> length (trim_space token)"
    using assms by (auto simp: invitationFrom_def Let_def problem_def throw_def split: if_splits)
  then obtain q s2 where a: "InvitationByTokenHash ?h s = (q, s2)"
    and k: "(case q of Inl e \<Rightarrow> if e = ErrNotFound then problem refused else throw (Fail (Store e))
     | Inr i \<Rightarrow> bind (Expired i) (\<lambda>late. if late \<or> \<not> is_zero_time (AcceptedAt i) then problem refused else ret i)) s2 = (Inr invite, s1)"
    using assms by (auto simp: invitationFrom_def Let_def elim: handle_run)
  obtain i where q: "q = Inr i" using k by (cases q) (auto simp: problem_def throw_def split: if_splits)
  have "clock s \<le> clock s2" using a unfolding InvitationByTokenHash_def by (rule keepsD [OF later_query order_refl])
  moreover have "(if clock (tick s2) > iExpiresAt i \<or> \<not> is_zero_time (AcceptedAt i) then problem refused else ret i) (tick s2) = (Inr invite, s1)"
    using k q by (simp add: Expired_def bind_def timeNow_def ret_def)
  then have e: "invite = i" "s1 = tick s2" "clock (tick s2) \<le> iExpiresAt i" "is_zero_time (AcceptedAt i)"
    by (auto simp: problem_def throw_def ret_def split: if_splits)
  moreover obtain row where "find (\<lambda>x. token_hash x = ?h) (team_invitations s) = Some row" "i = scanInvitation row"
    using team_query(2) [OF a [unfolded InvitationByTokenHash_def]] q
    by (auto simp: found_def team_tables_eq split: option.splits)
  moreover have "team_tables s2 = team_tables s" using team_query(1) [OF a [unfolded InvitationByTokenHash_def]] .
  ultimately show ?thesis using len tick_clock [of s2]
    by (auto simp: good_link_def scanInvitation_def is_zero_time_def Invitation.defs split: option.splits intro!: exI [of _ row])
qed


interpretation link_inv: env_free "\<lambda>s :: team_db. (memberships s, team_invitations s) = p"
  by unfold_locales simp_all

lemma links_audit: "keeps (\<lambda>s. (memberships s, team_invitations s) = p) (audit r team action ty target label)"
proof -
  have "keeps (\<lambda>s. (memberships s, team_invitations s) = p) (insertAudit e)"
    "keeps (\<lambda>s. (memberships s, team_invitations s) = p) (publish topic kind e)" for e topic kind
    by (simp_all add: keeps_def insertAudit_def publish_def)
  then show ?thesis unfolding audit_def RecordAudit_def Let_def by (intro keeps_intros link_inv.keeps_env)
qed

lemma links_auth: "keeps (\<lambda>s. (memberships s, team_invitations s) = p) (auth m)"
  unfolding auth_def by (intro keeps_wrap) (simp add: keeps_def)

lemma joinWith_Inr:
  assumes "joinWith srv r invite nm password s = (Inr (st, user, res, cs), s1)" "members_ok s"
  shows "uID user \<notin> uID ` set (users s) \<and> Email user = trim_space (iEmail invite)
    \<and> granted (iTeamID invite) (uID user) (iRole invite) s s1
    \<and> (\<exists>now. clock s \<le> now \<and> team_invitations s1 =
         update_rows (unaccepted (iID invite)) (\<lambda>r. r\<lparr>accepted_at := Some now\<rparr>) (team_invitations s))"
proof -
  obtain salt sa v sb sc result sd x where a: "random s = ((Inr salt :: api_err + string), sa)"
    and b: "auth (wrap Store (CreateUser (zeroUser\<lparr>Email := iEmail invite, uName := nm,
         PasswordHash := HashPassword (argon (srvAuth srv)) (cpus (srvAuth srv)) salt password\<rparr>))) sa = (Inr v, sb)"
    and c: "db (AcceptInvitation (iID invite) (iTeamID invite) (uID v) (iRole invite)) sb = (Inr (), sc)"
    and d: "auth (IssueSession (srvAuth srv) v (ctxClientIP r) (Header r ''User-Agent'')) sc = (Inr result, sd)"
    and e: "audit (r\<lparr>ctxUser := Some v\<rparr>) (iTeamID invite) ''team.invitation_accepted'' ''user'' (uID v) (Email v) sd = (Inr x, s1)"
    and v: "user = v"
    using assms(1) unfolding joinWith_def by (elim bind_Inr) (auto simp: ret_def)
  have sa: "team_tables sa = team_tables s" "clock sa = clock s" "members_ok sa"
    using a assms(2) by (auto simp: random_def team_tables_eq members_inv.P_entropy split: list.splits)
  note u = auth_CreateUser [OF b sa(3)]
  have c': "AcceptInvitation (iID invite) (iTeamID invite) (uID v) (iRole invite) sb = (Inr (), sc)"
    using c by (simp add: db_def wrap_Inr)
  have fin: "memberships s1 = memberships sc" "team_invitations s1 = team_invitations sc"
    using keepsD [OF links_auth refl d] keepsD [OF links_audit refl e] by simp_all
  have g: "granted (iTeamID invite) (uID v) (iRole invite) s sc"
    using one_role_changes [of "iTeamID invite" "uID v" "iRole invite" sc s] AcceptInvitation_Inr [OF c'] u(4) sa(1)
    by (simp add: granted_def team_tables_eq)
  obtain now where "clock sb \<le> now"
    "team_invitations sc = update_rows (unaccepted (iID invite)) (\<lambda>r. r\<lparr>accepted_at := Some now\<rparr>) (team_invitations sb)"
    using c' by (rule AcceptInvitation_rows)
  moreover have "clock s \<le> clock sb" using keepsD [OF later_CreateUser _ b] sa(2) by (metis order_refl)
  ultimately have "\<exists>now. clock s \<le> now \<and> team_invitations s1 =
      update_rows (unaccepted (iID invite)) (\<lambda>r. r\<lparr>accepted_at := Some now\<rparr>) (team_invitations s)"
    using fin u(5) sa(1) by (intro exI [of _ now]) (simp add: team_tables_eq)
  then show ?thesis using u(2,3) sa(1) granted_same [OF fin(1)] g v by (auto simp: team_tables_eq)
qed


lemma find_update_rows:
  "(\<And>r. p (f r) = p r) \<Longrightarrow> find p (update_rows q f rows) = map_option (\<lambda>r. if q r then f r else r) (find p rows)"
  by (induction rows) (auto simp: update_rows_def)

lemma accepted_link_bad:
  assumes "good_link srv token s row" "accepted_at row = None" "zero_time < now"
    "team_invitations s2 = update_rows (unaccepted (iID row)) (\<lambda>r. r\<lparr>accepted_at := Some now\<rparr>) (team_invitations s)"
  shows "\<not> good_link srv token s2 row2"
  using assms by (auto simp: good_link_def find_update_rows unaccepted_def)

lemma handleAccept_Inr:
  assumes "handleAcceptInvitation srv token body r s = (Inr (st, user, res, cs), s1)"
  shows "\<exists>row invite nm password s2. good_link srv token s row \<and> invite = scanInvitation row \<and> team_tables s2 = team_tables s \<and> clock s \<le> clock s2
    \<and> joinWith srv r invite nm password s2 = (Inr (st, user, res, cs), s1)"
proof -
  obtain invite sa where a: "invitationFrom srv token s = (Inr invite, sa)"
    and ka: "bind (decodeJSON srv (Header r ''Content-Type'') body) (\<lambda>(reqName, password).
     let nm = trim_space reqName in
     if nm = [] then problem (BadRequest ''Please give a name.'')
     else case Check DefaultPasswordPolicy password of Some e \<Rightarrow> problem (BadRequest (errorText srv (BadPassword e)))
     | None \<Rightarrow> handle (onAuth (GetUserByEmail (iEmail invite))) (\<lambda>res. case res of
         Inr _ \<Rightarrow> problem (inviteAccountExists (iEmail invite))
       | Inl _ \<Rightarrow> joinWith srv r invite nm password)) sa = (Inr (st, user, res, cs), s1)"
    using assms unfolding handleAcceptInvitation_def by (rule bind_Inr)
  obtain nm password sb where b: "decodeJSON srv (Header r ''Content-Type'') body sa = (Inr (nm, password), sb)"
    and kb: "handle (onAuth (GetUserByEmail (iEmail invite))) (\<lambda>res. case res of
         Inr _ \<Rightarrow> problem (inviteAccountExists (iEmail invite))
       | Inl _ \<Rightarrow> joinWith srv r invite (trim_space nm) password) sb = (Inr (st, user, res, cs), s1)"
    using ka by (elim bind_Inr) (auto simp: Let_def problem_def throw_def split: if_splits option.splits)
  have sb: "sb = sa" using b by (auto simp: decodeJSON_def problem_def throw_def ret_def split: if_splits decoded.splits)
  obtain q sc where c: "onAuth (GetUserByEmail (iEmail invite)) sb = (q, sc)"
    and j: "joinWith srv r invite (trim_space nm) password sc = (Inr (st, user, res, cs), s1)"
    using kb by (elim handle_run) (auto simp: problem_def throw_def split: sum.splits)
  have "team_tables sc = team_tables sb" using runsD [OF runs_GetUserByEmail c] by (simp add: reading_def)
  moreover have "clock sb \<le> clock sc"
    using c unfolding GetUserByEmail_def by (rule keepsD [OF later_onAuth [OF later_query] order_refl])
  ultimately show ?thesis using invitationFrom_Inr [OF a] j sb by (metis order_trans)
qed



section \<open>On a panel with three people\<close>

definition person :: "string \<Rightarrow> string \<Rightarrow> User" where
  "person i email = zeroUser\<lparr>uID := i, Email := email\<rparr>"

definition membership :: "string \<Rightarrow> Role \<Rightarrow> Membership" where
  "membership u role = \<lparr>mTeamID = ''team_1'', mUserID = u, mRole = role, mCreatedAt = 0\<rparr>"

definition crew :: team_db where
  "crew = demo_panel\<lparr>users := [user_row_of (person ''usr_1'' ''a@b.c'') 0, user_row_of (person ''usr_2'' ''d@b.c'') 0,
       user_row_of (person ''usr_3'' ''e@b.c'') 0], sessions := [], api_tokens := [], entropy := [],
     memberships := [membership ''usr_1'' RoleOwner, membership ''usr_2'' RoleAdmin, membership ''usr_3'' RoleOwner],
     team_invitations := [\<lparr>iID = ''inv_1'', iTeamID = ''team_1'', iEmail = ''n@b.c'', iRole = RoleMember,
       InvitedBy = ''usr_1'', iExpiresAt = 2 * hour, AcceptedAt = zero_time, iCreatedAt = 0,
       token_hash = HashToken (\<lambda>x. x) ''01234567890123456789'', accepted_at = None\<rparr>]\<rparr>"

definition from_user :: "string \<Rightarrow> Request" where
  "from_user u = demo_request\<lparr>ctxUser := Some (person u [])\<rparr>"

lemma crew_ok: "members_ok crew"
  by (simp add: members_ok_def team_exists_def member_exists_def crew_def demo_panel_def auth_db.defs membership_def person_def
      user_row_of_def User.defs validRole_def)

theorem outsider_learns_nothing_witness:
  "fst (authorizeTeam (from_user ''usr_9'') ''team_1'' RoleMember crew)
     = fst (authorizeTeam (from_user ''usr_9'') ''team_1'' RoleMember (crew\<lparr>teams := [], memberships := []\<rparr>))"
proof -
  have "role_in ''team_1'' ''usr_9'' crew = None" "role_in ''team_1'' ''usr_9'' (crew\<lparr>teams := [], memberships := []\<rparr>) = None"
    by (simp_all add: role_in_def crew_def membership_def of_pair_def)
  then show ?thesis
    using outsider_learns_nothing [of "from_user ''usr_9''" "person ''usr_9'' []" "''team_1''" crew "crew\<lparr>teams := [], memberships := []\<rparr>" RoleMember]
    by (simp add: from_user_def person_def)
qed

theorem access_exact_witness: "\<exists>s1. authorizeTeam (from_user ''usr_2'') ''team_1'' RoleAdmin crew = (Inr (person ''usr_2'' []), s1)"
proof -
  have "faults crew = []" by (simp add: crew_def demo_panel_def demo_db_def auth_db.defs)
  moreover have "ctxUser (from_user ''usr_2'') = Some (person ''usr_2'' [])" "\<not> tokenElsewhere (from_user ''usr_2'') ''team_1''"
    "\<exists>m \<in> set (memberships crew). mTeamID m = ''team_1'' \<and> mUserID m = uID (person ''usr_2'' []) \<and> AtLeast (mRole m) RoleAdmin"
    by (simp_all add: from_user_def demo_request_def tokenElsewhere_def crew_def membership_def person_def AtLeast_def)
  ultimately show ?thesis using access_exact [OF crew_ok, of "from_user ''usr_2''" "''team_1''" RoleAdmin "person ''usr_2'' []"] by blast
qed

theorem no_role_above_sender_witness:
  "\<exists>target. granted ''team_1'' target RoleAdmin crew
     (snd (handleAddMember demo_server ''team_1'' (Decoded (''d@b.c'', RoleAdmin) True) (from_user ''usr_2'') crew))"
proof -
  let ?m = "handleAddMember demo_server ''team_1'' (Decoded (''d@b.c'', RoleAdmin) True) (from_user ''usr_2'')"
  have "fst (?m crew) = Inr (200, ())" by code_simp
  then have "?m crew = (Inr (200, ()), snd (?m crew))" by (rule run_pair)
  from no_role_above_sender [OF this] show ?thesis by auto
qed


text \<open>
  An admin may not remove an owner, but may make one a member first: the handler
  that changes a role compares the new role with the sender's, and never the old
  one.
\<close>

lemma admin_demotes_owner:
  "fst (handleRemoveMember ''team_1'' ''usr_3'' (from_user ''usr_2'') crew) = Inl (Prob (Forbidden ''removing an owner''))"
  "role_in ''team_1'' ''usr_3'' (snd (handleAddMember demo_server ''team_1'' (Decoded (''e@b.c'', RoleMember) True) (from_user ''usr_2'') crew))
     = Some RoleMember"
  by code_simp+

text \<open>
  The count of the owners and the removal are two statements: two owners who remove
  each other at the same time both pass the guard, and the team has none left.
\<close>

lemma removals_interleave:
  "let (g1, s1) = removalGuard ''team_1'' (person ''usr_1'' []) (membership ''usr_3'' RoleOwner) crew;
       (g2, s2) = removalGuard ''team_1'' (person ''usr_3'' []) (membership ''usr_1'' RoleOwner) s1;
       (d1, s3) = RemoveMember ''team_1'' ''usr_3'' s2;
       (d2, s4) = RemoveMember ''team_1'' ''usr_1'' s3
   in g1 = Inr () \<and> g2 = Inr () \<and> d1 = Inr () \<and> d2 = Inr () \<and> owners ''team_1'' s4 = 0"
  by code_simp

text \<open>
  Accepting an invitation creates the account before it uses the invitation up, and
  not in the same transaction. When the second step fails the account stays, in no
  team, and the link, still pending, is answered from then on with the advice to
  sign in.
\<close>

definition tripped :: team_db where
  "tripped = crew\<lparr>faults := [False, False, False, True]\<rparr>"

definition accept_demo :: "team_db \<Rightarrow> (api_err + int \<times> User \<times> LoginResult \<times> Cookie list) \<times> team_db" where
  "accept_demo = handleAcceptInvitation demo_server ''01234567890123456789'' (Decoded (''New'', ''correct horse battery'') True) demo_request"

lemma account_left_behind:
  "fst (accept_demo tripped) = Inl (Fail (Store ErrDB))" "length (users (snd (accept_demo tripped))) = 4"
  "memberships (snd (accept_demo tripped)) = memberships crew"
  "fst (accept_demo (snd (accept_demo tripped))) = Inl (Prob (inviteAccountExists ''n@b.c''))"
  by code_simp+

text \<open>A new team and its first owner are two statements too: when the second fails, the team is
  there, its name is taken, and nobody is in it.\<close>

lemma team_without_owner:
  "let s = snd (handleCreateTeam demo_server (Decoded ''Ops'' True) (from_user ''usr_1'') (crew\<lparr>faults := [False, True]\<rparr>))
   in map teamName (teams s) = [''One'', ''Ops''] \<and> length (memberships s) = 3"
  by code_simp

end
