(* ===== verification/Spec2Isabelle.thy ===== *)
theory Spec2Isabelle
  imports Cron Guard Scopes Webhooks Teams_API
begin

text \<open>
  Skifity is a panel that runs applications on a small Kubernetes cluster. One
  process serves a JSON API to the browser, the command line and agents; it keeps
  its state in one SQLite file, seals secrets under a keyring on disk, signs people
  in, decides what each may do, builds and rolls out applications, and filters the
  traffic in front of them. This development models the part of it that decides:
  who somebody is, what they may do, what is stored and in which order, and which
  request passes. The sources are under \<^verbatim>\<open>src/internal\<close>.

  \<^bold>\<open>Theories and sources.\<close>

    \<^item> \<^verbatim>\<open>Go_Prelude\<close>, \<^verbatim>\<open>Go_Time\<close>, \<^verbatim>\<open>Go_Map\<close>, \<^verbatim>\<open>Go_Encoding\<close>, \<^verbatim>\<open>Go_Base64\<close>,
      \<^verbatim>\<open>Netip\<close>: what the code uses of Go's standard library: strings as lists of
      bytes, 64-bit integers, decimal text, instants and calendar, maps, base32,
      hex and base64, IP addresses. They hold the collections of simplification
      rules and the lemmas the components share.
    \<^item> \<^verbatim>\<open>Cron\<close>: \<^verbatim>\<open>cron/cron.go\<close>, schedules. \<^verbatim>\<open>ParseSchedule\<close> returns an option, since the
      loop over a field need not end when its counter wraps; that it always does
      end is proved, as are the meaning of a field, \<^verbatim>\<open>Canonical\<close> and \<^verbatim>\<open>NextRun\<close>.
    \<^item> \<^verbatim>\<open>Edge_Rules\<close>, \<^verbatim>\<open>Client_IP\<close>: \<^verbatim>\<open>edgerules\<close>, the rules in front of applications,
      in three-valued logic, and whose address a request is counted under.
    \<^item> \<^verbatim>\<open>Scopes\<close>, \<^verbatim>\<open>Password\<close>, \<^verbatim>\<open>Totp\<close>, \<^verbatim>\<open>Auth\<close>: \<^verbatim>\<open>auth\<close>, what a token may do, stored
      passwords, two-factor codes, and the service that signs people in.
    \<^item> \<^verbatim>\<open>Hub\<close>: \<^verbatim>\<open>events/hub.go\<close>, publish and subscribe with a bounded history, as a
      transition system whose steps are the critical sections of the lock.
    \<^item> \<^verbatim>\<open>Keyring\<close>: \<^verbatim>\<open>crypto\<close>, envelope encryption, rotation of the master key, the
      key file and the recovery key.
    \<^item> \<^verbatim>\<open>Store_Core\<close>, \<^verbatim>\<open>Store_Users\<close>, \<^verbatim>\<open>Store_Teams\<close>, \<^verbatim>\<open>Store_Deployments\<close>: \<^verbatim>\<open>store\<close>,
      statements and transactions, and the tables of users, sessions, tokens,
      teams, projects, environments, invitations, settings, audit events,
      deployments and build logs, with the schema's constraints and cascades.
    \<^item> \<^verbatim>\<open>Store_Apps\<close>: \<^verbatim>\<open>store/apps.go\<close>, apps, variables, domains, volumes and scheduled
      commands, over the tables of teams and deployments, whose operations run on
      their own part of the larger state (\<^verbatim>\<open>onTeam\<close>, \<^verbatim>\<open>onDeploy\<close>).
    \<^item> \<^verbatim>\<open>Deployer\<close>: \<^verbatim>\<open>deploy/deployer.go\<close>, from queueing a deployment to its verdict, with
      what it uses of \<^verbatim>\<open>plugins/dispatch.go\<close>, \<^verbatim>\<open>kube/spec.go\<close> and \<^verbatim>\<open>errdoc/catalogue.go\<close>.
      \<^verbatim>\<open>Run_Invariants\<close> holds the contracts for invariants of its runs, \<^verbatim>\<open>Deploy_Runs\<close> what
      is proved of them.
    \<^item> \<^verbatim>\<open>Git_Sources\<close>, \<^verbatim>\<open>Webhooks\<close>: \<^verbatim>\<open>gitsrc/webhook.go\<close>, \<^verbatim>\<open>gitsrc/repourl.go\<close> and
      \<^verbatim>\<open>api/webhook_handlers.go\<close>, what a Git host may set in motion: deploys on push and
      the previews of pull requests, on the state of the deployer.
    \<^item> \<^verbatim>\<open>Geoip\<close>, \<^verbatim>\<open>Guard\<close>: \<^verbatim>\<open>geoip\<close>, \<^verbatim>\<open>guard\<close>, country and network databases and the
      process that answers the proxy for every request.
    \<^item> \<^verbatim>\<open>Naming\<close>: \<^verbatim>\<open>kube/naming.go\<close>, the names of Kubernetes objects.
    \<^item> \<^verbatim>\<open>Errdoc\<close>: \<^verbatim>\<open>errdoc\<close>, failures with an explanation.
    \<^item> \<^verbatim>\<open>Middleware\<close>, \<^verbatim>\<open>Teams_API\<close>: \<^verbatim>\<open>api\<close>, what every request passes through, who may
      do what, and the handlers of teams, members and invitations.

  \<^bold>\<open>Operations.\<close> Code that touches the store is an operation: a function from a
  state to an error or a value and a new state (\<^verbatim>\<open>Store_Core\<close>). The state is a record
  that starts with an environment: the clock, how far it moves at each reading or
  statement, which of the coming statements fail, and the random bytes to come.
  This schedule is data, so a lemma about every state is a lemma about every
  timing, every failure and every draw. A statement that fails changes no table; a
  transaction that fails leaves the tables as they were. Requests are served one
  after another where a property says so; where the code is only right without
  interleaving, a lemma shows the interleaving. The runs of the deployer are
  goroutines that live for minutes: before each of their calls the other goroutines
  act as a second schedule in the state says (\<^verbatim>\<open>meddling\<close>): they cancel, reach a
  deadline, replace a deployment or write any table. What reached the cluster is
  recorded in order.

  \<^bold>\<open>Interfaces.\<close> \<^verbatim>\<open>keyed_table\<close> (\<^verbatim>\<open>Go_Map\<close>) states what the hub needs of a map,
  \<^verbatim>\<open>lossy_queue\<close> (\<^verbatim>\<open>Go_Map\<close>) what it needs of a subscriber's channel, and \<^verbatim>\<open>env_free\<close>
  (\<^verbatim>\<open>Store_Core\<close>) what it takes for a predicate on the tables to be kept by the clock,
  the faults, the random source, a statement and a transaction; every invariant of
  the store and of the handlers is an interpretation of the last one. In
  \<^verbatim>\<open>Run_Invariants\<close>, \<^verbatim>\<open>run_stable\<close> and \<^verbatim>\<open>run_invariant\<close> state what makes an assertion an
  invariant of a run under interference; \<^verbatim>\<open>table_invariant\<close>, \<^verbatim>\<open>table_total\<close> and
  \<^verbatim>\<open>rows_kept\<close> give it for assertions about the tables and about the rows of the
  deployments. \<^verbatim>\<open>quiet_reads\<close> (\<^verbatim>\<open>Webhooks\<close>) gives what \<^verbatim>\<open>Deploy\<close> and the reads of a
  handler keep, for an assertion that reading the tables keeps. All are interpreted on the model's own definitions.

  \<^bold>\<open>What is shown.\<close> A schedule means what its text says and the next run is the
  first minute it matches. The first matching edge rule decides, undecidable rules
  are skipped and reported, and a forwarding header counts only from a trusted
  peer. A token grants exactly its listed scopes. The hub never sends on a closed
  channel, and every event of a subscriber's topics is replayed or delivered, or
  counted as dropped. A sign-in that succeeds had the password and the second
  factor of an enabled account that was not locked; one that fails says nothing
  about why; a two-factor step and a recovery code work once. Secrets survive a
  rotation of the master key, interrupted anywhere, and the key file is replaced
  whole or not at all. A finished deployment stays as it ended, and the two ways to
  decide what can be rolled back to agree. A run of the deployer that nobody stops
  reaches a verdict, whatever the cluster answers; no run changes a verdict; a
  version is applied only after the plugins and the release command let it, and
  called a success only after it rolled out; a new deployment stops the others of
  its app. A push deploys only the apps of its team that watch the branch, a webhook
  that does not verify deploys nothing, and the preview of a fork is given no secret
  of its app. A hostname has one owner. The guard keeps the last rules it could read
  and judges an untrusted client by its own connection. Names are valid labels. A request that
  reaches a handler behind authentication has shown a live session with its CSRF
  token or a token whose scopes allow it; an access check passes exactly on a
  stored membership and shows an outsider nothing; no request gives away more than
  its sender has; a team keeps an owner; an invitation admits one account, once.

  \<^bold>\<open>Partial functions and bounds.\<close> Only the parsing of cron fields may run forever
  in principle; it is an option-valued recursion, and \<^verbatim>\<open>ParseSchedule_total\<close> shows that
  it returns for every input. Every other loop is a total function, with a measure
  where the recursion is not structural; the search for a next run is bounded by
  the five years the code gives it. No fuel is used. Machine integers wrap where
  an input can drive the code's arithmetic to their bounds (the step of a cron
  field); identifiers and counters that only count calls, and SQL integers, are
  integers.

  \<^bold>\<open>Parameters.\<close> Argon2, SHA-256, HMAC-SHA1 and -SHA256, AES-GCM, regular expressions, the URL parser, and the
  texts of driver errors are parameters, with the documented behaviour a property
  needs of them (lengths, and that opening undoes sealing under the same key and
  context) as hypotheses; each such property has a witness with a concrete
  instance. The reader of country databases, the web and the disk of a fetch, the
  JSON codecs, the outcomes of the build, of the release command and of each call
  of the cluster are parameters about which nothing is assumed.

  \<^bold>\<open>Not modelled, and why.\<close> Kubernetes objects and client calls, provisioning over SSH,
  builds, backups and databases act on other machines through libraries; the
  command line and the agent server are clients of the API; documentation,
  templates and the browser interface are rendering. Response headers, logging and
  metrics do not touch the state. Of the deployer, the build job, one-off commands
  and scaling (\<^verbatim>\<open>build.go\<close>, \<^verbatim>\<open>run.go\<close>, \<^verbatim>\<open>scaling.go\<close>) are calls of the cluster. The
  tables of databases, servers and plugins, and the handlers of apps and settings are of the kinds modelled here and are left for later.
\<close>

end
